(* ===== verification/Prelude.thy ===== *)
theory Prelude
  imports Main "HOL-Library.Char_ord" "HOL-Library.List_Lexorder" "HOL-Library.Multiset"
begin

text \<open>
  What every component of the development shares: Go errors and results, the functions of Go's
  \<open>strings\<close>, \<open>strconv\<close>, \<open>time\<close> and \<open>sort\<close> packages that the sources use, the
  proof hints (\<open>named_theorems\<close>) and the generic lemmas on lists.

  A Go string is a list of bytes, so it is a \<open>string\<close> (\<open>char list\<close>) here, and
  the order \<open><\<close> on it is Go's bytewise lexicographic order (List_Lexorder over Char_ord).
  A \<open>time.Time\<close> is an \<open>int\<close>: nanoseconds in UTC since Go's zero time
  (1 January of year 1), so the zero time is 0.
\<close>

named_theorems env_simps \<open>evaluation of the reference environment\<close>
named_theorems repo_laws \<open>what the repositories promise\<close>
named_theorems frame \<open>what an operation leaves alone\<close>

section \<open>Errors\<close>

text \<open>
  An \<open>error\<close> of Go: a message, the sentinel \<open>ports.ErrLogBackupNotApplicable\<close>, or an
  error wrapped by \<open>fmt.Errorf\<close> with \<open>%w\<close> (text before, the error, text after).
\<close>

datatype gerr = Err string | ErrLogBackupNotApplicable | WrapErr string gerr string

type_synonym 'a res = "gerr + 'a"

text \<open>The message of the sentinel (\<open>error.Error\<close>) and of every other error.\<close>

definition log_na_text :: string where
  "log_na_text = ''la base de datos no soporta respaldo de log (recovery model SIMPLE)''"

fun err_text :: "gerr \<Rightarrow> string" where
  "err_text (Err s) = s"
| "err_text ErrLogBackupNotApplicable = log_na_text"
| "err_text (WrapErr pre e post) = pre @ err_text e @ post"

text \<open>\<open>errors.Is (err, ErrLogBackupNotApplicable)\<close>: the sentinel anywhere in the chain.\<close>

fun is_log_na :: "gerr \<Rightarrow> bool" where
  "is_log_na (Err s) = False"
| "is_log_na ErrLogBackupNotApplicable = True"
| "is_log_na (WrapErr pre e post) = is_log_na e"

section \<open>Go strings\<close>

text \<open>The accented letters of the program's messages, in UTF-8.\<close>

definition u_a :: string where "u_a = [CHR 0xC3, CHR 0xA1]"
definition u_e :: string where "u_e = [CHR 0xC3, CHR 0xA9]"
definition u_i :: string where "u_i = [CHR 0xC3, CHR 0xAD]"
definition u_o :: string where "u_o = [CHR 0xC3, CHR 0xB3]"

fun has_prefix :: "string \<Rightarrow> string \<Rightarrow> bool" where
  "has_prefix s [] = True"
| "has_prefix [] (p # ps) = False"
| "has_prefix (c # cs) (p # ps) = (c = p \<and> has_prefix cs ps)"

definition has_suffix :: "string \<Rightarrow> string \<Rightarrow> bool" where
  "has_suffix s t = has_prefix (rev s) (rev t)"

definition trim_suffix :: "string \<Rightarrow> string \<Rightarrow> string" where
  "trim_suffix s t = (if has_suffix s t then take (length s - length t) s else s)"

text \<open>\<open>strings.Contains\<close>.\<close>

fun str_contains :: "string \<Rightarrow> string \<Rightarrow> bool" where
  "str_contains [] t = (t = [])"
| "str_contains (c # cs) t = (has_prefix (c # cs) t \<or> str_contains cs t)"

text \<open>
  \<open>strings.ToLower\<close>: the ASCII letters, and the letters U+00C0 to U+00DE in their UTF-8 form
  (first byte 0xC3); letters of other scripts, which Go would also map, are left unchanged.
\<close>

definition lower_char :: "char \<Rightarrow> char" where
  "lower_char c = (if 65 \<le> (of_char c :: nat) \<and> (of_char c :: nat) \<le> 90
     then char_of ((of_char c :: nat) + 32) else c)"

definition latin1_upper :: "char \<Rightarrow> bool" where
  "latin1_upper c = (let n = (of_char c :: nat) in 128 \<le> n \<and> n \<le> 158 \<and> n \<noteq> 151)"

fun to_lower :: "string \<Rightarrow> string" where
  "to_lower [] = []"
| "to_lower [c] = [lower_char c]"
| "to_lower (c # d # cs) =
     (if c = CHR 0xC3 \<and> latin1_upper d then c # char_of ((of_char d :: nat) + 32) # to_lower cs
      else lower_char c # to_lower (d # cs))"

text \<open>
  \<open>strings.EqualFold\<close>: simple case folding. Besides the letters above, U+017F (the long s)
  folds to s and U+212A (the Kelvin sign) to k.
\<close>

fun fold_special :: "string \<Rightarrow> string" where
  "fold_special (a # b # cs) =
     (if a = CHR 0xC5 \<and> b = CHR 0xBF then CHR ''s'' # fold_special cs
      else (case cs of
              c # ds \<Rightarrow>
                if a = CHR 0xE2 \<and> b = CHR 0x84 \<and> c = CHR 0xAA then CHR ''k'' # fold_special ds
                else a # fold_special (b # cs)
            | [] \<Rightarrow> [a, b]))"
| "fold_special s = s"

definition equal_fold :: "string \<Rightarrow> string \<Rightarrow> bool" where
  "equal_fold s t = (to_lower (fold_special s) = to_lower (fold_special t))"

text \<open>\<open>strings.TrimSpace\<close> on the ASCII white space.\<close>

definition is_space :: "char \<Rightarrow> bool" where
  "is_space c = (c = CHR '' '' \<or> (9 \<le> (of_char c :: nat) \<and> (of_char c :: nat) \<le> 13))"

definition trim_space :: "string \<Rightarrow> string" where
  "trim_space s = rev (dropWhile is_space (rev (dropWhile is_space s)))"

text \<open>\<open>strings.Join\<close>.\<close>

fun join :: "string list \<Rightarrow> string \<Rightarrow> string" where
  "join [] sep = []"
| "join [s] sep = s"
| "join (s # t # ts) sep = s @ sep @ join (t # ts) sep"

text \<open>
  \<open>strings.Split\<close> by a one-byte separator: always at least one part.
\<close>

fun split_on :: "char \<Rightarrow> string \<Rightarrow> string list" where
  "split_on x [] = [[]]"
| "split_on x (c # cs) =
     (if c = x then [] # split_on x cs
      else (case split_on x cs of p # ps \<Rightarrow> (c # p) # ps | [] \<Rightarrow> [[c]]))"

text \<open>Decimal rendering of an integer (\<open>%d\<close>) and the quoting of \<open>%q\<close>.\<close>

definition digit_char :: "nat \<Rightarrow> char" where
  "digit_char d = char_of (48 + d)"

fun show_nat :: "nat \<Rightarrow> string" where
  "show_nat n = (if n < 10 then [digit_char n] else show_nat (n div 10) @ [digit_char (n mod 10)])"

declare show_nat.simps [simp del]

definition show_int :: "int \<Rightarrow> string" where
  "show_int i = (if i < 0 then CHR ''-'' # show_nat (nat (- i)) else show_nat (nat i))"


text \<open>\<open>hex.EncodeToString\<close>.\<close>

definition hex_digit :: "nat \<Rightarrow> char" where
  "hex_digit d = (if d < 10 then char_of (48 + d) else char_of (87 + d))"

definition hex_encode :: "string \<Rightarrow> string" where
  "hex_encode s =
     concat (map (\<lambda>c. let n = (of_char c :: nat) in [hex_digit (n div 16), hex_digit (n mod 16)]) s)"

text \<open>
  Ranging over a string visits code points: the length of the valid UTF-8 sequence a string starts
  with, and 1 where there is none.
\<close>

definition byte_in :: "nat \<Rightarrow> nat \<Rightarrow> char \<Rightarrow> bool" where
  "byte_in lo hi c = (lo \<le> (of_char c :: nat) \<and> (of_char c :: nat) \<le> hi)"

definition second_ok :: "char \<Rightarrow> char \<Rightarrow> bool" where
  "second_ok c d =
     (if c = CHR 0xE0 then byte_in 0xA0 0xBF d
      else if c = CHR 0xED then byte_in 0x80 0x9F d
      else if c = CHR 0xF0 then byte_in 0x90 0xBF d
      else if c = CHR 0xF4 then byte_in 0x80 0x8F d
      else byte_in 0x80 0xBF d)"

definition rune_length :: "string \<Rightarrow> nat" where
  "rune_length s =
     (case s of
        c # d # e # f # _ \<Rightarrow>
          if byte_in 0xC2 0xDF c \<and> byte_in 0x80 0xBF d then 2
          else if byte_in 0xE0 0xEF c \<and> second_ok c d \<and> byte_in 0x80 0xBF e then 3
          else if byte_in 0xF0 0xF4 c \<and> second_ok c d \<and> byte_in 0x80 0xBF e \<and> byte_in 0x80 0xBF f then 4
          else 1
      | c # d # e # _ \<Rightarrow>
          if byte_in 0xC2 0xDF c \<and> byte_in 0x80 0xBF d then 2
          else if byte_in 0xE0 0xEF c \<and> second_ok c d \<and> byte_in 0x80 0xBF e then 3
          else 1
      | c # d # _ \<Rightarrow> if byte_in 0xC2 0xDF c \<and> byte_in 0x80 0xBF d then 2 else 1
      | _ \<Rightarrow> 1)"

text \<open>
  \<open>%q\<close>: control characters and bytes that are not part of a valid sequence are escaped, the other
  characters stand for themselves (of those beyond ASCII, the few that \<open>strconv.IsPrint\<close> refuses too).
\<close>

definition quote_char :: "char \<Rightarrow> string" where
  "quote_char c =
     (if c = CHR 0x22 then [CHR 0x5C, CHR 0x22]
      else if c = CHR 0x5C then [CHR 0x5C, CHR 0x5C]
      else if c = CHR 0x07 then [CHR 0x5C, CHR ''a'']
      else if c = CHR 0x08 then [CHR 0x5C, CHR ''b'']
      else if c = CHR 0x0C then [CHR 0x5C, CHR ''f'']
      else if c = CHR 0x0A then [CHR 0x5C, CHR ''n'']
      else if c = CHR 0x0D then [CHR 0x5C, CHR ''r'']
      else if c = CHR 0x09 then [CHR 0x5C, CHR ''t'']
      else if c = CHR 0x0B then [CHR 0x5C, CHR ''v'']
      else if byte_in 0x20 0x7E c then [c]
      else CHR 0x5C # CHR ''x'' # hex_encode [c])"

fun quote_runes :: "string \<Rightarrow> string" where
  "quote_runes [] = []"
| "quote_runes (c # cs) =
     (let n = rune_length (c # cs)
      in (if n = 1 then quote_char c else take n (c # cs)) @ quote_runes (drop (n - 1) cs))"

definition go_quote :: "string \<Rightarrow> string" where
  "go_quote s = CHR 0x22 # quote_runes s @ [CHR 0x22]"

section \<open>Go time\<close>

type_synonym time = int

definition zero_time :: time where "zero_time = 0"

definition is_zero_time :: "time \<Rightarrow> bool" where "is_zero_time t = (t = zero_time)"

definition ns_per_day :: int where "ns_per_day = 86400000000000"

text \<open>\<open>t.AddDate (0, 0, n)\<close> of a UTC time: UTC has no clock changes, so exactly n days.\<close>

definition add_days :: "time \<Rightarrow> int \<Rightarrow> time" where
  "add_days t n = t + n * ns_per_day"

text \<open>\<open>t.Sub (u)\<close> saturates at the bounds of the 64-bit \<open>Duration\<close>.\<close>

definition time_sub :: "time \<Rightarrow> time \<Rightarrow> int" where
  "time_sub t u = max (- (2 ^ 63)) (min (2 ^ 63 - 1) (t - u))"

text \<open>\<open>d.Milliseconds ()\<close>: integer division that truncates towards zero.\<close>

definition quot_trunc :: "int \<Rightarrow> int \<Rightarrow> int" where
  "quot_trunc a b = sgn a * sgn b * (\<bar>a\<bar> div \<bar>b\<bar>)"

definition millis :: "int \<Rightarrow> int" where
  "millis d = quot_trunc d 1000000"

section \<open>Generic lemmas\<close>

lemma has_prefix_append: "has_prefix s p \<longleftrightarrow> (\<exists>r. s = p @ r)"
  by (induction s p rule: has_prefix.induct) auto

lemma has_prefix_appendI [simp, intro]: "has_prefix (p @ r) p"
  by (auto simp: has_prefix_append)

lemma has_prefix_refl [simp]: "has_prefix s s"
  using has_prefix_append by auto

lemma has_prefix_trans: "has_prefix a b \<Longrightarrow> has_prefix b c \<Longrightarrow> has_prefix a c"
  by (auto simp: has_prefix_append)

lemma has_suffix_append: "has_suffix s t \<longleftrightarrow> (\<exists>r. s = r @ t)"
proof
  assume "has_suffix s t"
  then obtain r where "rev s = rev t @ r"
    by (auto simp: has_suffix_def has_prefix_append)
  then have "s = rev r @ t"
    by (metis rev_append rev_rev_ident)
  then show "\<exists>r. s = r @ t" ..
qed (auto simp: has_suffix_def)

lemma has_suffix_appendI [simp, intro]: "has_suffix (r @ t) t"
  by (auto simp: has_suffix_append)

lemma has_suffix_refl [simp]: "has_suffix s s"
  using has_suffix_append by auto

lemma trim_suffix_append [simp]: "trim_suffix (s @ t) t = s"
  by (simp add: trim_suffix_def)

lemma trim_suffix_other: "\<not> has_suffix s t \<Longrightarrow> trim_suffix s t = s"
  by (simp add: trim_suffix_def)

lemma length_split_on: "split_on x s \<noteq> []"
  by (induction s) (auto split: list.splits)

lemma join_split_on [simp]: "join (split_on x s) [x] = s"
proof (induction s)
  case (Cons c cs)
  then show ?case
    by (cases "split_on x cs"; cases "tl (split_on x cs)") (auto simp: length_split_on)
qed simp

lemma show_nat_nonempty [simp]: "show_nat n \<noteq> []"
  by (subst show_nat.simps) simp

lemma add_days_mono: "0 \<le> n \<Longrightarrow> t \<le> add_days t n"
  by (simp add: add_days_def ns_per_day_def)

lemma time_sub_exact: "\<bar>t - u\<bar> < 2 ^ 63 \<Longrightarrow> time_sub t u = t - u"
  by (simp add: time_sub_def)

lemma millis_nonneg: "0 \<le> d \<Longrightarrow> millis d = d div 1000000"
  by (cases "d = 0") (auto simp: millis_def quot_trunc_def sgn_if)

text \<open>Lists with distinct keys seen as maps.\<close>

lemma map_of_filter_key:
  "distinct (map fst xs) \<Longrightarrow> (k, v) \<in> set xs \<longleftrightarrow> map_of xs k = Some v"
  by auto

text \<open>An association list in strict key order is determined by its map.\<close>

lemma map_of_sorted_unique:
  fixes xs ys :: "(string \<times> 'a) list"
  assumes "map_of xs = map_of ys" "sorted_wrt (<) (map fst xs)" "sorted_wrt (<) (map fst ys)"
  shows "xs = ys"
proof -
  have d: "distinct (map fst xs)" "distinct (map fst ys)"
    using assms(2,3) by (simp_all add: strict_sorted_iff)
  have s: "set xs = set ys"
  proof -
    have "(k, v) \<in> set xs \<longleftrightarrow> (k, v) \<in> set ys" for k v
      using assms(1) d by (metis map_of_eq_Some_iff)
    then show ?thesis by auto
  qed
  then have "set (map fst xs) = set (map fst ys)" by simp
  with assms(2,3) have f: "map fst xs = map fst ys" by (intro strict_sorted_equal) simp_all
  have "inj_on fst (set xs \<union> set ys)" using d(1) s by (simp add: distinct_map)
  with f show ?thesis by (rule map_inj_on)
qed

end
