(* ===== verification/Entities.thy ===== *)
theory Entities
  imports Prelude
begin

text \<open>
  The domain entities (\<open>domain/entities\<close>): engines, backup types and statuses, and the
  records the program persists. A Go string type with named constants is a datatype with one
  constructor per constant and one for every other string, as such a string can be decoded from
  the database file.
\<close>

section \<open>Engines\<close>

datatype engine_type =
    EngineSQLServer | EngineMySQL | EngineMariaDB | EnginePostgres | EngineRedis
  | EngineOther string

text \<open>\<open>string (e)\<close> and the conversion \<open>EngineType (s)\<close> from a string.\<close>

fun engine_str :: "engine_type \<Rightarrow> string" where
  "engine_str EngineSQLServer = ''sqlserver''"
| "engine_str EngineMySQL = ''mysql''"
| "engine_str EngineMariaDB = ''mariadb''"
| "engine_str EnginePostgres = ''postgres''"
| "engine_str EngineRedis = ''redis''"
| "engine_str (EngineOther s) = s"

definition engine_of_string :: "string \<Rightarrow> engine_type" where
  "engine_of_string s =
     (if s = ''sqlserver'' then EngineSQLServer
      else if s = ''mysql'' then EngineMySQL
      else if s = ''mariadb'' then EngineMariaDB
      else if s = ''postgres'' then EnginePostgres
      else if s = ''redis'' then EngineRedis
      else EngineOther s)"

text \<open>\<open>EngineType.String\<close>: the name shown to the user.\<close>

fun engine_label :: "engine_type \<Rightarrow> string" where
  "engine_label EngineSQLServer = ''SQL Server''"
| "engine_label EngineMySQL = ''MySQL''"
| "engine_label EngineMariaDB = ''MariaDB''"
| "engine_label EnginePostgres = ''PostgreSQL''"
| "engine_label EngineRedis = ''Redis''"
| "engine_label (EngineOther s) = s"

fun engine_valid :: "engine_type \<Rightarrow> bool" where
  "engine_valid (EngineOther s) = False"
| "engine_valid _ = True"

definition parse_engine :: "string \<Rightarrow> engine_type res" where
  "parse_engine s =
     (let e = engine_of_string s
      in if engine_valid e then Inr e else Inl (Err (''unknown engine type: '' @ go_quote s)))"

definition all_engines :: "engine_type list" where
  "all_engines = [EngineSQLServer, EngineMySQL, EngineMariaDB, EnginePostgres, EngineRedis]"

fun default_port :: "engine_type \<Rightarrow> int" where
  "default_port EngineSQLServer = 1433"
| "default_port EngineMySQL = 3306"
| "default_port EngineMariaDB = 3306"
| "default_port EnginePostgres = 5432"
| "default_port EngineRedis = 6379"
| "default_port (EngineOther s) = 0"

section \<open>Statuses and backup types\<close>

datatype backup_status =
    StatusPending | StatusRunning | StatusCompleted | StatusFailed | StatusExpired
  | StatusOther string

fun status_label :: "backup_status \<Rightarrow> string" where
  "status_label StatusPending = ''Pendiente''"
| "status_label StatusRunning = ''Ejecutando''"
| "status_label StatusCompleted = ''Completado''"
| "status_label StatusFailed = ''Fallido''"
| "status_label StatusExpired = ''Expirado''"
| "status_label (StatusOther s) = s"

datatype backup_type = BackupTypeFull | BackupTypeLog | BackupTypeOther string

fun backup_type_label :: "backup_type \<Rightarrow> string" where
  "backup_type_label BackupTypeLog = ''Log''"
| "backup_type_label _ = ''Full''"

section \<open>Records\<close>

record backup_record =
  b_id :: string
  b_instance_id :: string
  b_instance_name :: string
  b_database :: string
  b_file_name :: string
  b_engine :: engine_type
  b_type :: backup_type
  b_parent :: string
  b_size :: int
  b_hash :: string
  b_status :: backup_status
  b_error :: string
  b_started :: time
  b_completed :: "time option"
  b_expires :: time
  b_retain_days :: int
  b_duration_ms :: int

definition is_full :: "backup_record \<Rightarrow> bool" where
  "is_full r = (b_type r \<noteq> BackupTypeLog)"

record restore_record =
  rr_id :: string
  rr_instance_id :: string
  rr_instance_name :: string
  rr_database :: string
  rr_target :: string
  rr_chain :: "string list"
  rr_status :: backup_status
  rr_error :: string
  rr_started :: time
  rr_completed :: "time option"

text \<open>\<open>Extra\<close> is a \<open>map[string]string\<close> the program only looks keys up in.\<close>

record inst_rec =
  i_id :: string
  i_name :: string
  i_engine :: engine_type
  i_host :: string
  i_port :: int
  i_username :: string
  i_password :: string
  i_database :: string
  i_extra :: "(string \<times> string) list"
  i_enabled :: bool
  i_excluded :: "string list"
  i_created :: time
  i_updated :: time

record s3_config =
  c_bucket :: string
  c_region :: string
  c_endpoint :: string
  c_access_key :: string
  c_secret_key :: string
  c_prefix :: string
  c_path_style :: bool

record retention_policy =
  p_id :: string
  p_instance_id :: string
  p_retain_days :: int
  p_created :: time
  p_updated :: time

record scheduler_config =
  sc_enabled :: bool
  sc_full :: "string list"
  sc_log :: "string list"
  sc_timezone :: string

record lifecycle_rule =
  l_id :: string
  l_status :: string
  l_prefix :: string
  l_days :: "int"
  l_managed_by :: string

section \<open>Defaults\<close>

definition MinVerifiedFullBackups :: nat where
  "MinVerifiedFullBackups = 2"

definition default_scheduler_config :: scheduler_config where
  "default_scheduler_config =
     \<lparr>sc_enabled = True, sc_full = [''0 0 0 * * *''], sc_log = [''0 0 * * * *''],
      sc_timezone = ''UTC''\<rparr>"

definition default_retention_policy :: retention_policy where
  "default_retention_policy =
     \<lparr>p_id = '''', p_instance_id = '''', p_retain_days = 3, p_created = zero_time,
      p_updated = zero_time\<rparr>"

section \<open>Lemmas\<close>

lemma engine_str_of_string [simp]: "engine_str (engine_of_string s) = s"
  by (simp add: engine_of_string_def)

lemma parse_engine_Inr:
  "parse_engine s = Inr e \<longleftrightarrow> e \<in> set all_engines \<and> engine_str e = s"
  by (cases e) (auto simp: parse_engine_def all_engines_def engine_of_string_def Let_def)

lemma engine_valid_iff: "engine_valid e \<longleftrightarrow> e \<in> set all_engines"
  by (cases e) (simp_all add: all_engines_def)

text \<open>
  Parsing an engine accepts exactly the five known names, and gives back the engine whose
  stored text is the name: parsing inverts \<open>string (e)\<close> on the engines of
  \<open>AllEngines\<close> and every other string is an error.
\<close>

theorem parse_engine_roundtrip:
  "(\<forall>e \<in> set all_engines. parse_engine (engine_str e) = Inr e \<and> 0 < default_port e) \<and>
   (parse_engine s = Inl (Err (''unknown engine type: '' @ go_quote s)) \<longleftrightarrow>
      s \<notin> engine_str ` set all_engines)"
  by (auto simp: parse_engine_def all_engines_def engine_of_string_def Let_def)

theorem parse_engine_roundtrip_witness:
  "parse_engine ''mariadb'' = Inr EngineMariaDB \<and> default_port EngineMariaDB = 3306"
proof -
  have "EngineMariaDB \<in> set all_engines" by (simp add: all_engines_def)
  then have "parse_engine (engine_str EngineMariaDB) = Inr EngineMariaDB"
    using parse_engine_roundtrip by blast
  then show ?thesis by simp
qed

end
