(* ===== verification/Environment.thy ===== *)
theory Environment
  imports Entities
begin

text \<open>
  The code the program calls and does not contain: bbolt, the AWS SDK and the S3 service behind
  it, the clock, the UUID library, the database drivers and the tools it starts, and the order in
  which a Go map is ranged over. Each is a field of \<open>env\<close>, a parameter of every definition
  that uses it. Three type variables stand for the states these parts keep: \<open>'d\<close> the
  bbolt file, \<open>'s\<close> the object store, \<open>'m\<close> the rest of the machine. The record
  \<open>sys\<close> holds the three, so that what one part does cannot change another.

  The predicates \<open>bolt_ok\<close> and \<open>aws_ok\<close> state the documented behaviour the program
  relies on; they are premises of the theorems that need them. \<open>ref_env\<close> is one environment
  that meets both, on which the witnesses evaluate.
\<close>

section \<open>Stored values\<close>

datatype entity =
    EInstance inst_rec | EBackup backup_record | ES3Config s3_config
  | EPolicy retention_policy | EScheduler scheduler_config | ERestore restore_record

text \<open>
  The bytes of a bucket entry: the JSON encoding of an entity (\<open>encoding/json\<close> reads back
  what it wrote), or bytes that are not such an encoding.
\<close>

datatype blob = Json entity | RawBytes string

section \<open>Streams\<close>

text \<open>
  An \<open>io.ReadCloser\<close>: the bytes it yields, the error that ends it (none for \<open>io.EOF\<close>),
  the error of closing the pipe, the exit status of each process that feeds it (none for exit code
  0), and what they wrote to standard error.
\<close>

record stream =
  st_bytes :: string
  st_read_err :: "gerr option"
  st_close_err :: "gerr option"
  st_wait_errs :: "gerr option list"
  st_stderr :: string

definition mem_stream :: "string \<Rightarrow> stream" where
  "mem_stream s = \<lparr>st_bytes = s, st_read_err = None, st_close_err = None, st_wait_errs = [],
     st_stderr = ''''\<rparr>"

section \<open>The AWS SDK's values\<close>

record aws_client =
  cl_region :: string
  cl_access_key :: string
  cl_secret_key :: string
  cl_endpoint :: "string option"
  cl_path_style :: bool

record storage_object =
  so_key :: string
  so_size :: int
  so_modified :: time
  so_etag :: string

text \<open>
  A lifecycle rule of the SDK: the fields the program reads or writes, with \<open>af_rest\<close> and
  \<open>ar_rest\<close> for everything else a filter or a rule can hold (tags and sizes, transitions,
  rules for old versions, dates).
\<close>

record aws_filter =
  af_prefix :: "string option"
  af_rest :: string

record aws_rule =
  ar_id :: "string option"
  ar_status :: string
  ar_filter :: "aws_filter option"
  ar_prefix :: "string option"
  ar_expiration :: "int option option"
  ar_rest :: string

section \<open>Connections and commands\<close>

text \<open>
  A handle of \<open>database/sql\<close> is named by its driver and data source, a Redis client by its
  options, a process by its arguments and the variables added to its environment.
\<close>

record sql_conn =
  q_driver :: string
  q_dsn :: string

record redis_opts =
  ro_addr :: string
  ro_password :: string
  ro_db :: int

text \<open>What a process holds open: a handle of \<open>database/sql\<close> or a Redis client.\<close>

datatype handle = SqlHandle sql_conn | RedisHandle redis_opts

record command =
  cmd_env :: "string list"
  cmd_args :: "string list"

section \<open>The environment\<close>

text \<open>
  \<open>cmd_start\<close> starts a pipeline and gives the output of its last process, or the position of
  the process that did not start; \<open>cmd_output\<close> and \<open>cmd_run\<close> wait for one process
  and give its error, if any, and what it wrote. \<open>redis_scan\<close> is one full SCAN iteration: its
  calls, each made when the program gets to it, up to the one whose cursor is 0 (Redis ends an iteration
  that is followed); \<open>redis_view\<close> is what a server holds, by key, as the payload of DUMP.
  \<open>sort_perm\<close> is the order in which \<open>sort.Slice\<close>, which is not stable, leaves elements with
  these keys, as their former positions.
  \<open>gzip_rest\<close> is what a failed \<open>gzip.NewReader\<close> leaves of its input.
\<close>

record ('d, 's, 'm) env =
  bolt_get :: "'d \<Rightarrow> string \<Rightarrow> string \<Rightarrow> blob option"
  bolt_each :: "'d \<Rightarrow> string \<Rightarrow> (string \<times> blob) list"
  bolt_put :: "'d \<Rightarrow> string \<Rightarrow> string \<Rightarrow> blob \<Rightarrow> gerr option \<times> 'd"
  bolt_snapshot :: "'d \<Rightarrow> stream"
  bolt_delete :: "'d \<Rightarrow> string \<Rightarrow> string \<Rightarrow> gerr option \<times> 'd"
  aws_load :: "s3_config \<Rightarrow> 's \<Rightarrow> gerr option \<times> 's"
  aws_upload :: "aws_client \<Rightarrow> string \<Rightarrow> string \<Rightarrow> stream \<Rightarrow> 's \<Rightarrow> (gerr option \<times> nat) \<times> 's"
  aws_pages :: "aws_client \<Rightarrow> string \<Rightarrow> string \<Rightarrow> 's \<Rightarrow> storage_object list res list \<times> 's"
  aws_get :: "aws_client \<Rightarrow> string \<Rightarrow> string \<Rightarrow> 's \<Rightarrow> stream res \<times> 's"
  aws_delete :: "aws_client \<Rightarrow> string \<Rightarrow> string \<Rightarrow> 's \<Rightarrow> gerr option \<times> 's"
  aws_tag :: "aws_client \<Rightarrow> string \<Rightarrow> string \<Rightarrow> (string \<times> string) list \<Rightarrow> 's \<Rightarrow> gerr option \<times> 's"
  aws_get_rules :: "aws_client \<Rightarrow> string \<Rightarrow> 's \<Rightarrow> aws_rule list res \<times> 's"
  aws_put_rules :: "aws_client \<Rightarrow> string \<Rightarrow> aws_rule list \<Rightarrow> 's \<Rightarrow> gerr option \<times> 's"
  aws_delete_rules :: "aws_client \<Rightarrow> string \<Rightarrow> 's \<Rightarrow> gerr option \<times> 's"
  api_code :: "gerr \<Rightarrow> string option"
  aws_objs :: "aws_client \<Rightarrow> string \<Rightarrow> 's \<Rightarrow> string \<Rightarrow> string option"
  os_now :: "'m \<Rightarrow> time \<times> 'm"
  os_uuid :: "'m \<Rightarrow> string \<times> 'm"
  os_getenv :: "'m \<Rightarrow> string \<Rightarrow> string"
  os_hostname :: "'m \<Rightarrow> string res"
  fs_create :: "string \<Rightarrow> 'm \<Rightarrow> gerr option \<times> 'm"
  fs_write :: "string \<Rightarrow> string \<Rightarrow> 'm \<Rightarrow> gerr option \<times> 'm"
  fs_close :: "string \<Rightarrow> 'm \<Rightarrow> gerr option \<times> 'm"
  fs_rename :: "string \<Rightarrow> string \<Rightarrow> 'm \<Rightarrow> gerr option \<times> 'm"
  fs_remove :: "string \<Rightarrow> 'm \<Rightarrow> 'm"
  fs_content :: "'m \<Rightarrow> string \<Rightarrow> string option"
  load_location :: "string \<Rightarrow> gerr option"
  cron_parse :: "string \<Rightarrow> gerr option"
  cron_next :: "string \<Rightarrow> string \<Rightarrow> 'm \<Rightarrow> time"
  sql_open :: "string \<Rightarrow> string \<Rightarrow> 'm \<Rightarrow> gerr option \<times> 'm"
  sql_ping :: "sql_conn \<Rightarrow> 'm \<Rightarrow> gerr option \<times> 'm"
  sql_query :: "sql_conn \<Rightarrow> string \<Rightarrow> string list \<Rightarrow> 'm \<Rightarrow> string list res \<times> 'm"
  sql_exec :: "sql_conn \<Rightarrow> string \<Rightarrow> 'm \<Rightarrow> gerr option \<times> 'm"
  sql_close :: "sql_conn \<Rightarrow> 'm \<Rightarrow> gerr option \<times> 'm"
  cmd_output :: "command \<Rightarrow> 'm \<Rightarrow> (gerr option \<times> string) \<times> 'm"
  cmd_start :: "command list \<Rightarrow> 'm \<Rightarrow> ((nat \<times> gerr) + stream) \<times> 'm"
  cmd_run :: "command \<Rightarrow> stream \<Rightarrow> 'm \<Rightarrow> (gerr option \<times> string) \<times> 'm"
  redis_open :: "redis_opts \<Rightarrow> 'm \<Rightarrow> 'm"
  redis_ping :: "redis_opts \<Rightarrow> 'm \<Rightarrow> gerr option \<times> 'm"
  redis_info :: "redis_opts \<Rightarrow> 'm \<Rightarrow> string res \<times> 'm"
  redis_scan :: "redis_opts \<Rightarrow> 'm \<Rightarrow> ('m \<Rightarrow> string list res \<times> 'm) list"
  redis_dump :: "redis_opts \<Rightarrow> string \<Rightarrow> 'm \<Rightarrow> string res \<times> 'm"
  redis_restore :: "redis_opts \<Rightarrow> string \<Rightarrow> string \<Rightarrow> 'm \<Rightarrow> gerr option \<times> 'm"
  redis_close :: "redis_opts \<Rightarrow> 'm \<Rightarrow> gerr option \<times> 'm"
  redis_view :: "redis_opts \<Rightarrow> 'm \<Rightarrow> string \<Rightarrow> string option"
  json_map :: "(string \<times> string) list \<Rightarrow> string"
  json_unmap :: "string \<Rightarrow> (string \<times> string) list res"
  gzip_bytes :: "string \<Rightarrow> string"
  gzip_open :: "stream \<Rightarrow> stream res"
  gzip_rest :: "stream \<Rightarrow> stream"
  sha256 :: "string \<Rightarrow> string"
  map_range :: "'m \<Rightarrow> (string \<times> string) list \<Rightarrow> (string \<times> string) list"
  sort_perm :: "int list \<Rightarrow> nat list"

text \<open>
  \<open>api_code\<close> is the code of an error of the S3 API; \<open>bolt_snapshot\<close> what
  \<open>Tx.WriteTo\<close> writes; \<open>fs_content\<close> what a file holds; \<open>load_location\<close> and
  \<open>cron_parse\<close> the errors of looking up a time zone and of parsing a six-field cron expression, and
  \<open>cron_next\<close> the next time such an expression fires in a time zone.
\<close>

text \<open>
  What a running system keeps, and the calls it has made that somebody outside observes: the
  notifications to the TUI and the restore commands sent to an engine (instance, database, the stream that
  is restored and the flag of the call), oldest first.
\<close>

datatype event =
    NotifyStarted string string
  | NotifyCompleted string string string
  | NotifyFailed string string gerr
  | RestoreFull string string stream bool
  | RestoreLog string string stream bool

record ('d, 's, 'm) sys =
  db :: 'd
  s3 :: 's
  os :: 'm
  events :: "event list"

definition emit :: "event \<Rightarrow> ('d, 's, 'm) sys \<Rightarrow> ('d, 's, 'm) sys" where
  "emit e w = w\<lparr>events := events w @ [e]\<rparr>"

text \<open>\<open>time.Now\<close> and \<open>idgen.New\<close> (\<open>internal/idgen/uuid.go\<close>) on the system.\<close>

definition now :: "('d, 's, 'm) env \<Rightarrow> ('d, 's, 'm) sys \<Rightarrow> time \<times> ('d, 's, 'm) sys" where
  "now E w = (case os_now E (os w) of (t, m) \<Rightarrow> (t, w\<lparr>os := m\<rparr>))"

definition new_id :: "('d, 's, 'm) env \<Rightarrow> ('d, 's, 'm) sys \<Rightarrow> string \<times> ('d, 's, 'm) sys" where
  "new_id E w = (case os_uuid E (os w) of (i, m) \<Rightarrow> (i, w\<lparr>os := m\<rparr>))"

text \<open>
  \<open>sort.Slice\<close> by a key: the order the library leaves the slice in, which is any that sorts it (the
  order of equal keys is the library's).
\<close>

definition sort_slice :: "('d, 's, 'm) env \<Rightarrow> ('a \<Rightarrow> int) \<Rightarrow> 'a list \<Rightarrow> 'a list" where
  "sort_slice E key xs =
     (let p = sort_perm E (map key xs); ys = map (nth xs) p
      in if sort p = [0..<length xs] \<and> sorted (map key ys) then ys else sort_key key xs)"

lemma mset_sort_slice [simp]: "mset (sort_slice E key xs) = mset xs"
proof -
  have "mset (map (nth xs) p) = mset xs" if "sort p = [0..<length xs]" for p
  proof -
    have "mset p = mset [0..<length xs]" by (metis mset_sort that)
    then have "mset (map (nth xs) p) = mset (map (nth xs) [0..<length xs])" by (simp only: mset_map)
    then show ?thesis by (simp only: map_nth)
  qed
  then show ?thesis by (simp add: sort_slice_def Let_def)
qed

lemma set_sort_slice [simp]: "set (sort_slice E key xs) = set xs"
  by (metis mset_sort_slice set_mset_mset)

lemma distinct_sort_slice [simp]: "distinct (sort_slice E key xs) = distinct xs"
  by (metis mset_sort_slice mset_eq_imp_distinct_iff)

lemma sorted_sort_slice [simp]: "sorted (map key (sort_slice E key xs))"
  by (simp add: sort_slice_def Let_def)

section \<open>What the program relies on\<close>

text \<open>
  bbolt: the entries of a bucket come in the byte order of their keys, \<open>Get\<close> reads what
  \<open>ForEach\<close> lists, a committed \<open>Put\<close> or \<open>Delete\<close> changes that key of that bucket
  alone, and a transaction that fails changes nothing.
\<close>

definition bolt_reads_ok :: "('d, 's, 'm) env \<Rightarrow> bool" where
  "bolt_reads_ok E \<longleftrightarrow>
     (\<forall>d b. sorted_wrt (<) (map fst (bolt_each E d b)) \<and> bolt_get E d b = map_of (bolt_each E d b))"

definition bolt_put_ok :: "('d, 's, 'm) env \<Rightarrow> bool" where
  "bolt_put_ok E \<longleftrightarrow>
     (\<forall>d b k v. bolt_get E (snd (bolt_put E d b k v)) =
        (if fst (bolt_put E d b k v) = None
         then (bolt_get E d)(b := (bolt_get E d b)(k \<mapsto> v)) else bolt_get E d))"

definition bolt_delete_ok :: "('d, 's, 'm) env \<Rightarrow> bool" where
  "bolt_delete_ok E \<longleftrightarrow>
     (\<forall>d b k. bolt_get E (snd (bolt_delete E d b k)) =
        (if fst (bolt_delete E d b k) = None
         then (bolt_get E d)(b := (bolt_get E d b)(k := None)) else bolt_get E d))"

definition bolt_ok :: "('d, 's, 'm) env \<Rightarrow> bool" where
  "bolt_ok E \<longleftrightarrow> bolt_reads_ok E \<and> bolt_put_ok E \<and> bolt_delete_ok E"

text \<open>
  S3: a successful upload stores all bytes of a stream that ended without an error, and has read
  them all; a listing without an error names exactly the keys of the bucket under the prefix; a
  deletion removes the key, and one that fails may or may not have removed it; reads, listings and
  tags change no object; an upload that fails touches no other key.
\<close>

definition same_objs :: "('d, 's, 'm) env \<Rightarrow> 's \<Rightarrow> 's \<Rightarrow> bool" where
  "same_objs E s s' \<longleftrightarrow> (\<forall>c b. aws_objs E c b s' = aws_objs E c b s)"

definition aws_upload_ok :: "('d, 's, 'm) env \<Rightarrow> bool" where
  "aws_upload_ok E \<longleftrightarrow>
     (\<forall>c b k st s e n s'. aws_upload E c b k st s = ((e, n), s') \<longrightarrow>
        (if e = None
         then n = length (st_bytes st) \<and> st_read_err st = None \<and>
              aws_objs E c b s' = (aws_objs E c b s)(k \<mapsto> st_bytes st)
         else (\<forall>k'. k' \<noteq> k \<longrightarrow> aws_objs E c b s' k' = aws_objs E c b s k')))"

definition aws_list_ok :: "('d, 's, 'm) env \<Rightarrow> bool" where
  "aws_list_ok E \<longleftrightarrow>
     (\<forall>c b p s ps s'. aws_pages E c b p s = (ps, s') \<longrightarrow>
        same_objs E s s' \<and>
        ((\<forall>x \<in> set ps. \<not> isl x) \<longrightarrow>
           (\<forall>k. (\<exists>os \<in> set ps. \<exists>o1 \<in> set (projr os). so_key o1 = k) \<longleftrightarrow>
                (aws_objs E c b s k \<noteq> None \<and> has_prefix k p))))"

definition aws_get_ok :: "('d, 's, 'm) env \<Rightarrow> bool" where
  "aws_get_ok E \<longleftrightarrow>
     (\<forall>c b k s r s'. aws_get E c b k s = (r, s') \<longrightarrow>
        same_objs E s s' \<and>
        (\<forall>st. r = Inr st \<longrightarrow> (\<exists>x. aws_objs E c b s k = Some x \<and>
           (st_read_err st = None \<longrightarrow> st_bytes st = x))))"

definition aws_delete_ok :: "('d, 's, 'm) env \<Rightarrow> bool" where
  "aws_delete_ok E \<longleftrightarrow>
     (\<forall>c b k s e s'. aws_delete E c b k s = (e, s') \<longrightarrow>
        aws_objs E c b s' = (aws_objs E c b s)(k := None) \<or>
        (e \<noteq> None \<and> aws_objs E c b s' = aws_objs E c b s))"

definition aws_quiet_ok :: "('d, 's, 'm) env \<Rightarrow> bool" where
  "aws_quiet_ok E \<longleftrightarrow>
     (\<forall>c s. same_objs E s (snd (aws_load E c s))) \<and>
     (\<forall>c b k ts s. same_objs E s (snd (aws_tag E c b k ts s)))"

definition aws_ok :: "('d, 's, 'm) env \<Rightarrow> bool" where
  "aws_ok E \<longleftrightarrow> aws_upload_ok E \<and> aws_list_ok E \<and> aws_get_ok E \<and> aws_delete_ok E \<and> aws_quiet_ok E"

text \<open>Ranging over a Go map visits each entry once, in some order.\<close>

definition range_ok :: "('d, 's, 'm) env \<Rightarrow> bool" where
  "range_ok E \<longleftrightarrow> (\<forall>m xs. mset (map_range E m xs) = mset xs)"

end
