(* ===== verification/Reference_Env.thy ===== *)
theory Reference_Env
  imports Environment
begin

text \<open>
  One concrete environment for the witnesses: a bucket is an association list read in key order, the
  object store an association list from keys to contents and times, the machine a stopped clock, a
  counter for identifiers, and the databases and dumps it is set up with. It satisfies
  \<open>bolt_ok\<close>, \<open>aws_ok\<close> and \<open>range_ok\<close>.
\<close>

type_synonym ref_db = "string \<Rightarrow> (string \<times> blob) list"

record ref_s3 =
  rs_objs :: "(string \<times> (string \<times> time)) list"
  rs_rules :: "aws_rule list"

record ref_os =
  ro_now :: time
  ro_next :: nat
  ro_dbs :: "string list"
  ro_dump :: stream
  ro_files :: "(string \<times> string) list"
  ro_handles :: "handle list"

fun upsert :: "string \<Rightarrow> 'a \<Rightarrow> (string \<times> 'a) list \<Rightarrow> (string \<times> 'a) list" where
  "upsert k v [] = [(k, v)]"
| "upsert k v ((k', v') # xs) =
     (if k = k' then (k, v) # xs
      else if k < k' then (k, v) # (k', v') # xs
      else (k', v') # upsert k v xs)"

definition ref_each :: "ref_db \<Rightarrow> string \<Rightarrow> (string \<times> blob) list" where
  "ref_each d b = foldr (\<lambda>(k, v). upsert k v) (d b) []"

definition ref_page :: "ref_s3 \<Rightarrow> string \<Rightarrow> storage_object list" where
  "ref_page s p =
     [\<lparr>so_key = k, so_size = int (length x), so_modified = t, so_etag = ''''\<rparr>.
        (k, (x, t)) \<leftarrow> rs_objs s, has_prefix k p]"

definition ref_env :: "(ref_db, ref_s3, ref_os) env" where
  "ref_env =
     \<lparr>bolt_get = (\<lambda>d b k. map_of (d b) k),
      bolt_each = ref_each,
      bolt_put = (\<lambda>d b k v. (None, d(b := (k, v) # filter (\<lambda>x. fst x \<noteq> k) (d b)))),
      bolt_snapshot = (\<lambda>d. mem_stream ''snapshot''),
      bolt_delete = (\<lambda>d b k. (None, d(b := filter (\<lambda>x. fst x \<noteq> k) (d b)))),
      aws_load = (\<lambda>c s. (None, s)),
      aws_upload = (\<lambda>c b k st s.
        case st_read_err st of
          None \<Rightarrow> ((None, length (st_bytes st)),
                   s\<lparr>rs_objs := (k, (st_bytes st, 0)) # filter (\<lambda>x. fst x \<noteq> k) (rs_objs s)\<rparr>)
        | Some e \<Rightarrow> ((Some e, length (st_bytes st)), s)),
      aws_pages = (\<lambda>c b p s. ([Inr (ref_page s p)], s)),
      aws_get = (\<lambda>c b k s.
        (case map_of (rs_objs s) k of
           None \<Rightarrow> Inl (Err ''NoSuchKey'')
         | Some (x, t) \<Rightarrow> Inr (mem_stream x), s)),
      aws_delete = (\<lambda>c b k s. (None, s\<lparr>rs_objs := filter (\<lambda>x. fst x \<noteq> k) (rs_objs s)\<rparr>)),
      aws_tag = (\<lambda>c b k ts s. (None, s)),
      aws_get_rules = (\<lambda>c b s. (Inr (rs_rules s), s)),
      aws_put_rules = (\<lambda>c b rs s. (None, s\<lparr>rs_rules := rs\<rparr>)),
      aws_delete_rules = (\<lambda>c b s. (None, s\<lparr>rs_rules := []\<rparr>)),
      api_code = (\<lambda>e. None),
      aws_objs = (\<lambda>c b s k. map_option fst (map_of (rs_objs s) k)),
      os_now = (\<lambda>m. (ro_now m, m)),
      os_uuid = (\<lambda>m. (''id-'' @ show_nat (ro_next m), m\<lparr>ro_next := Suc (ro_next m)\<rparr>)),
      os_getenv = (\<lambda>m k. ''''),
      os_hostname = (\<lambda>m. Inr ''host''),
      fs_create = (\<lambda>p m. (None, m\<lparr>ro_files := (p, '''') # filter (\<lambda>x. fst x \<noteq> p) (ro_files m)\<rparr>)),
      fs_write = (\<lambda>p x m. (None, m\<lparr>ro_files := (p, x) # filter (\<lambda>x. fst x \<noteq> p) (ro_files m)\<rparr>)),
      fs_close = (\<lambda>p m. (None, m)),
      fs_rename = (\<lambda>p q m.
        case map_of (ro_files m) p of
          None \<Rightarrow> (Some (Err ''no such file''), m)
        | Some x \<Rightarrow>
            (None, m\<lparr>ro_files := (q, x) # filter (\<lambda>x. fst x \<noteq> p \<and> fst x \<noteq> q) (ro_files m)\<rparr>)),
      fs_remove = (\<lambda>p m. m\<lparr>ro_files := filter (\<lambda>x. fst x \<noteq> p) (ro_files m)\<rparr>),
      fs_content = (\<lambda>m. map_of (ro_files m)),
      load_location = (\<lambda>z. None),
      cron_parse = (\<lambda>x. if x = '''' then Some (Err ''empty spec string'') else None),
      cron_next = (\<lambda>x z m. ro_now m),
      sql_open = (\<lambda>d dsn m. (None, m)),
      sql_ping = (\<lambda>c m. (None, m)),
      sql_query = (\<lambda>i q ps m. (Inr (ro_dbs m), m)),
      sql_exec = (\<lambda>i q m. (None, m)),
      sql_close = (\<lambda>i m. (None, m)),
      cmd_output = (\<lambda>c m. ((None, ''mssql''), m)),
      cmd_start = (\<lambda>cs m. (Inr (ro_dump m), m)),
      cmd_run = (\<lambda>c st m. ((None, ''''), m)),
      redis_open = (\<lambda>o1 m. m),
      redis_ping = (\<lambda>o1 m. (None, m)),
      redis_info = (\<lambda>o1 m. (Inr '''', m)),
      redis_scan = (\<lambda>o1 m. [\<lambda>m1. (Inr [''k''], m1)]),
      redis_dump = (\<lambda>o1 k m. (Inr ''v'', m)),
      redis_restore = (\<lambda>o1 k v m. (None, m)),
      redis_close = (\<lambda>o1 m. (None, m)),
      redis_view = (\<lambda>o1 m. map_of (ro_files m)),
      json_map = (\<lambda>xs. concat (map (\<lambda>(k, v). k @ '':'' @ v @ '','') xs)),
      json_unmap = (\<lambda>s. Inr []),
      gzip_bytes = (\<lambda>s. s),
      gzip_open = (\<lambda>st. Inr st),
      gzip_rest = (\<lambda>st. st),
      sha256 = (\<lambda>s. s),
      map_range = (\<lambda>m xs. xs),
      sort_perm = (\<lambda>ks. [])\<rparr>"

lemma ref_env_sel [env_simps]:
  "bolt_get ref_env = (\<lambda>d b k. map_of (d b) k)"
  "bolt_each ref_env = ref_each"
  "bolt_put ref_env = (\<lambda>d b k v. (None, d(b := (k, v) # filter (\<lambda>x. fst x \<noteq> k) (d b))))"
  "bolt_delete ref_env = (\<lambda>d b k. (None, d(b := filter (\<lambda>x. fst x \<noteq> k) (d b))))"
  "aws_load ref_env = (\<lambda>c s. (None, s))"
  "aws_pages ref_env = (\<lambda>c b p s. ([Inr (ref_page s p)], s))"
  "aws_delete ref_env =
     (\<lambda>c b k s. (None, s\<lparr>rs_objs := filter (\<lambda>x. fst x \<noteq> k) (rs_objs s)\<rparr>))"
  "aws_tag ref_env = (\<lambda>c b k ts s. (None, s))"
  "aws_get_rules ref_env = (\<lambda>c b s. (Inr (rs_rules s), s))"
  "aws_put_rules ref_env = (\<lambda>c b rs s. (None, s\<lparr>rs_rules := rs\<rparr>))"
  "aws_delete_rules ref_env = (\<lambda>c b s. (None, s\<lparr>rs_rules := []\<rparr>))"
  "aws_objs ref_env = (\<lambda>c b s k. map_option fst (map_of (rs_objs s) k))"
  "os_now ref_env = (\<lambda>m. (ro_now m, m))"
  "os_uuid ref_env = (\<lambda>m. (''id-'' @ show_nat (ro_next m), m\<lparr>ro_next := Suc (ro_next m)\<rparr>))"
  "sql_open ref_env = (\<lambda>d dsn m. (None, m))"
  "sql_query ref_env = (\<lambda>i q ps m. (Inr (ro_dbs m), m))"
  "sql_exec ref_env = (\<lambda>i q m. (None, m))"
  "sql_close ref_env = (\<lambda>i m. (None, m))"
  "redis_open ref_env = (\<lambda>o1 m. m)"
  "redis_close ref_env = (\<lambda>o1 m. (None, m))"
  "cmd_output ref_env = (\<lambda>c m. ((None, ''mssql''), m))"
  "cmd_start ref_env = (\<lambda>cs m. (Inr (ro_dump m), m))"
  "cmd_run ref_env = (\<lambda>c st m. ((None, ''''), m))"
  "map_range ref_env = (\<lambda>m xs. xs)"
  "sha256 ref_env = (\<lambda>s. s)"
  "gzip_open ref_env = Inr"
  by (simp_all add: ref_env_def fun_eq_iff)

lemma ref_env_upload [env_simps]:
  "aws_upload ref_env c b k st s =
     (case st_read_err st of
        None \<Rightarrow> ((None, length (st_bytes st)),
                 s\<lparr>rs_objs := (k, (st_bytes st, 0)) # filter (\<lambda>x. fst x \<noteq> k) (rs_objs s)\<rparr>)
      | Some e \<Rightarrow> ((Some e, length (st_bytes st)), s))"
  by (simp add: ref_env_def)

lemma ref_env_get [env_simps]:
  "aws_get ref_env c b k s =
     (case map_of (rs_objs s) k of
        None \<Rightarrow> Inl (Err ''NoSuchKey'') | Some (x, t) \<Rightarrow> Inr (mem_stream x), s)"
  by (simp add: ref_env_def)

section \<open>It satisfies the laws\<close>

lemma map_of_upsert [simp]: "map_of (upsert k v xs) = (map_of xs)(k := Some v)"
  by (induction k v xs rule: upsert.induct) auto

lemma set_keys_upsert: "set (map fst (upsert k v xs)) = insert k (set (map fst xs))"
  by (induction k v xs rule: upsert.induct) auto

lemma sorted_upsert: "sorted_wrt (<) (map fst xs) \<Longrightarrow> sorted_wrt (<) (map fst (upsert k v xs))"
proof (induction k v xs rule: upsert.induct)
  case (2 k v k' v' xs)
  then show ?case
    using set_keys_upsert [of k v xs] by (auto simp: image_iff)
qed simp

lemma sorted_ref_each: "sorted_wrt (<) (map fst (ref_each d b))"
proof -
  have "sorted_wrt (<) (map fst (foldr (\<lambda>(k, v). upsert k v) xs []))" for xs :: "(string \<times> blob) list"
    by (induction xs) (auto simp: sorted_upsert)
  then show ?thesis by (simp add: ref_each_def)
qed

lemma map_of_ref_each: "map_of (ref_each d b) = map_of (d b)"
proof -
  have "map_of (foldr (\<lambda>(k, v). upsert k v) xs []) = map_of xs" for xs :: "(string \<times> blob) list"
    by (induction xs) auto
  then show ?thesis by (simp add: ref_each_def)
qed

lemma map_of_filter_neq:
  "map_of (filter (\<lambda>x. fst x \<noteq> k) xs) k' = (if k' = k then None else map_of xs k')"
  by (induction xs) auto

lemma bolt_ok_ref_env [simp, intro]: "bolt_ok ref_env"
  unfolding bolt_ok_def bolt_reads_ok_def bolt_put_ok_def bolt_delete_ok_def
  by (auto simp: ref_env_sel sorted_ref_each map_of_ref_each map_of_filter_neq fun_eq_iff)

lemma ref_page_keys:
  "(\<exists>o1 \<in> set (ref_page s p). so_key o1 = k) \<longleftrightarrow> map_of (rs_objs s) k \<noteq> None \<and> has_prefix k p"
  by (force simp: ref_page_def map_of_eq_None_iff)

lemma aws_list_ok_ref_env: "aws_list_ok ref_env"
  by (auto simp: aws_list_ok_def same_objs_def ref_env_sel ref_page_keys)

lemma aws_ok_ref_env [simp, intro]: "aws_ok ref_env"
  unfolding aws_ok_def aws_upload_ok_def aws_get_ok_def aws_delete_ok_def aws_quiet_ok_def
  using aws_list_ok_ref_env
  by (auto simp: same_objs_def ref_env_sel ref_env_upload ref_env_get map_of_filter_neq mem_stream_def
      fun_eq_iff split: option.splits if_splits)

lemma range_ok_ref_env [simp, intro]: "range_ok ref_env"
  by (simp add: range_ok_def ref_env_sel)

end
