(* ===== verification/Repositories.thy ===== *)
theory Repositories
  imports Reference_Env
begin

text \<open>
  The persistence adapter (\<open>adapters/persistence/bbolt\<close>): the buckets, the JSON codec and the six
  repositories over them. A repository operation is a function on the system state: a read gives
  a result, a write gives an error or none and the new state.

  \<open>view_bucket\<close> is what a bucket holds, as a map, and \<open>bucket_wf\<close> says that every entry
  decodes to an entity stored under its own key. The locale \<open>entity_store\<close> is the contract the
  use cases rely on; every repository is an interpretation of it.
\<close>

section \<open>Buckets and codec\<close>

definition bucketInstances :: string where "bucketInstances = ''instances''"
definition bucketBackupRecords :: string where "bucketBackupRecords = ''backup_records''"
definition bucketS3Config :: string where "bucketS3Config = ''s3_config''"
definition bucketRetention :: string where "bucketRetention = ''retention''"
definition bucketSchedulerConfig :: string where "bucketSchedulerConfig = ''scheduler_config''"
definition bucketRestoreRecords :: string where "bucketRestoreRecords = ''restore_records''"

definition all_buckets :: "string list" where
  "all_buckets = [bucketInstances, bucketBackupRecords, bucketS3Config, bucketRetention,
     bucketSchedulerConfig, bucketRestoreRecords]"

lemmas bucket_defs = bucketInstances_def bucketBackupRecords_def bucketS3Config_def
  bucketRetention_def bucketSchedulerConfig_def bucketRestoreRecords_def

text \<open>
  \<open>json.Marshal\<close> refuses a \<open>time.Time\<close> whose year is outside 0 to 9999 (0001-01-01 is
  time 0, year 0 has 366 days, and 10000-01-01 is day 3652059).
\<close>

definition json_time_ok :: "time \<Rightarrow> bool" where
  "json_time_ok t = (- 366 * ns_per_day \<le> t \<and> t < 3652059 * ns_per_day)"

definition json_times_ok :: "time list \<Rightarrow> bool" where
  "json_times_ok ts = list_all json_time_ok ts"

definition json_year_error :: gerr where
  "json_year_error = Err ''json: Time.MarshalJSON: year outside of range [0,9999]''"

definition encode :: "time list \<Rightarrow> entity \<Rightarrow> blob res" where
  "encode ts e = (if json_times_ok ts then Inr (Json e) else Inl json_year_error)"

definition opt_time :: "time option \<Rightarrow> time list" where
  "opt_time t = (case t of None \<Rightarrow> [] | Some x \<Rightarrow> [x])"

definition encode_backup :: "backup_record \<Rightarrow> blob res" where
  "encode_backup r = encode (b_started r # opt_time (b_completed r) @ [b_expires r]) (EBackup r)"

definition encode_restore :: "restore_record \<Rightarrow> blob res" where
  "encode_restore r = encode (rr_started r # opt_time (rr_completed r)) (ERestore r)"

definition encode_instance :: "inst_rec \<Rightarrow> blob res" where
  "encode_instance i = encode [i_created i, i_updated i] (EInstance i)"

definition encode_policy :: "retention_policy \<Rightarrow> blob res" where
  "encode_policy p = encode [p_created p, p_updated p] (EPolicy p)"

definition decode_error :: gerr where
  "decode_error = Err ''json: cannot decode value''"

definition decode_backup :: "blob \<Rightarrow> backup_record res" where
  "decode_backup x = (case x of Json (EBackup r) \<Rightarrow> Inr r | _ \<Rightarrow> Inl decode_error)"

definition decode_restore :: "blob \<Rightarrow> restore_record res" where
  "decode_restore x = (case x of Json (ERestore r) \<Rightarrow> Inr r | _ \<Rightarrow> Inl decode_error)"

definition decode_instance :: "blob \<Rightarrow> inst_rec res" where
  "decode_instance x = (case x of Json (EInstance r) \<Rightarrow> Inr r | _ \<Rightarrow> Inl decode_error)"

definition decode_policy :: "blob \<Rightarrow> retention_policy res" where
  "decode_policy x = (case x of Json (EPolicy r) \<Rightarrow> Inr r | _ \<Rightarrow> Inl decode_error)"

definition decode_s3_config :: "blob \<Rightarrow> s3_config res" where
  "decode_s3_config x = (case x of Json (ES3Config r) \<Rightarrow> Inr r | _ \<Rightarrow> Inl decode_error)"

definition decode_scheduler :: "blob \<Rightarrow> scheduler_config res" where
  "decode_scheduler x = (case x of Json (EScheduler r) \<Rightarrow> Inr r | _ \<Rightarrow> Inl decode_error)"

lemmas codec_defs = encode_def encode_backup_def encode_restore_def encode_instance_def
  encode_policy_def decode_backup_def decode_restore_def decode_instance_def decode_policy_def
  decode_s3_config_def decode_scheduler_def

section \<open>The shape all repositories share\<close>

text \<open>
  A write: encode, then \<open>Put\<close> in one \<open>db.Update\<close> transaction. A read of one key inside
  \<open>db.View\<close>, with the error for a missing key. A read of all entries: \<open>ForEach\<close> stops at the
  first entry that does not decode.
\<close>

definition store_put :: "('d, 's, 'm) env \<Rightarrow> string \<Rightarrow> string \<Rightarrow> blob res \<Rightarrow>
    ('d, 's, 'm) sys \<Rightarrow> gerr option \<times> ('d, 's, 'm) sys" where
  "store_put E b k enc w =
     (case enc of
        Inl e \<Rightarrow> (Some e, w)
      | Inr x \<Rightarrow> (case bolt_put E (db w) b k x of (r, d) \<Rightarrow> (r, w\<lparr>db := d\<rparr>)))"

text \<open>The database file takes every write.\<close>

definition bolt_writes :: "('d, 's, 'm) env \<Rightarrow> bool" where
  "bolt_writes E \<longleftrightarrow> (\<forall>d b k x. fst (bolt_put E d b k x) = None)"

lemma store_put_taken:
  assumes "store_put E b k (Inr x) w = (e, w')" "bolt_writes E"
  shows "e = None"
proof -
  have "fst (bolt_put E (db w) b k x) = None" using assms(2) by (simp only: bolt_writes_def)
  with assms(1) show ?thesis by (auto simp: store_put_def split: prod.splits)
qed

definition store_delete :: "('d, 's, 'm) env \<Rightarrow> string \<Rightarrow> string \<Rightarrow>
    ('d, 's, 'm) sys \<Rightarrow> gerr option \<times> ('d, 's, 'm) sys" where
  "store_delete E b k w = (case bolt_delete E (db w) b k of (r, d) \<Rightarrow> (r, w\<lparr>db := d\<rparr>))"

definition store_get :: "('d, 's, 'm) env \<Rightarrow> string \<Rightarrow> (blob \<Rightarrow> 'a res) \<Rightarrow> gerr \<Rightarrow> string \<Rightarrow>
    ('d, 's, 'm) sys \<Rightarrow> 'a res" where
  "store_get E b dec missing k w =
     (case bolt_get E (db w) b k of None \<Rightarrow> Inl missing | Some x \<Rightarrow> dec x)"

fun decode_all :: "(blob \<Rightarrow> 'a res) \<Rightarrow> (string \<times> blob) list \<Rightarrow> 'a list res" where
  "decode_all dec [] = Inr []"
| "decode_all dec ((k, x) # xs) =
     (case dec x of
        Inl e \<Rightarrow> Inl e
      | Inr a \<Rightarrow> (case decode_all dec xs of Inl e \<Rightarrow> Inl e | Inr as \<Rightarrow> Inr (a # as)))"

definition store_all :: "('d, 's, 'm) env \<Rightarrow> string \<Rightarrow> (blob \<Rightarrow> 'a res) \<Rightarrow>
    ('d, 's, 'm) sys \<Rightarrow> 'a list res" where
  "store_all E b dec w = decode_all dec (bolt_each E (db w) b)"

definition store_filter :: "('a \<Rightarrow> bool) \<Rightarrow> 'a list res \<Rightarrow> 'a list res" where
  "store_filter P r = (case r of Inl e \<Rightarrow> Inl e | Inr xs \<Rightarrow> Inr (filter P xs))"

section \<open>Instances\<close>

definition inst_missing :: "string \<Rightarrow> gerr" where
  "inst_missing rid = Err (''instancia '' @ go_quote rid @ '' no encontrada'')"

definition inst_save where
  "inst_save E i w = store_put E bucketInstances (i_id i) (encode_instance i) w"

definition inst_find_by_id where
  "inst_find_by_id E rid w = store_get E bucketInstances decode_instance (inst_missing rid) rid w"

definition inst_find_all where
  "inst_find_all E w = store_all E bucketInstances decode_instance w"

definition inst_find_by_engine where
  "inst_find_by_engine E eng w = store_filter (\<lambda>i. i_engine i = eng) (inst_find_all E w)"

text \<open>\<open>Update\<close> checks that the key exists before it writes.\<close>

definition inst_update where
  "inst_update E i w =
     (case bolt_get E (db w) bucketInstances (i_id i) of
        None \<Rightarrow> (Some (inst_missing (i_id i)), w)
      | Some _ \<Rightarrow> store_put E bucketInstances (i_id i) (encode_instance i) w)"

definition inst_delete where
  "inst_delete E rid w = store_delete E bucketInstances rid w"

section \<open>Backup records\<close>

definition backup_missing :: "string \<Rightarrow> gerr" where
  "backup_missing rid = Err (''registro de respaldo '' @ go_quote rid @ '' no encontrado'')"

definition br_save where
  "br_save E r w = store_put E bucketBackupRecords (b_id r) (encode_backup r) w"

definition br_find_by_id where
  "br_find_by_id E rid w = store_get E bucketBackupRecords decode_backup (backup_missing rid) rid w"

definition br_find_all where
  "br_find_all E w = store_all E bucketBackupRecords decode_backup w"

definition br_find_by_instance where
  "br_find_by_instance E iid w = store_filter (\<lambda>r. b_instance_id r = iid) (br_find_all E w)"

definition is_expired_at :: "time \<Rightarrow> backup_record \<Rightarrow> bool" where
  "is_expired_at t r =
     (\<not> is_zero_time (b_expires r) \<and> b_expires r < t \<and> b_status r \<noteq> StatusExpired)"

definition br_find_expired where
  "br_find_expired E w =
     (case now E w of (t, w1) \<Rightarrow> (store_filter (is_expired_at t) (br_find_all E w1), w1))"

text \<open>
  The record \<open>UpdateStatus\<close> writes: completion time and duration are set for a terminal status.
\<close>

definition with_status :: "backup_status \<Rightarrow> string \<Rightarrow> backup_record \<Rightarrow> backup_record" where
  "with_status st msg r = r\<lparr>b_status := st, b_error := msg\<rparr>"

definition with_end :: "time \<Rightarrow> backup_record \<Rightarrow> backup_record" where
  "with_end t r = r\<lparr>b_completed := Some t, b_duration_ms := millis (time_sub t (b_started r))\<rparr>"

definition br_update_status where
  "br_update_status E rid st msg w =
     (case br_find_by_id E rid w of
        Inl e \<Rightarrow> (Some e, w)
      | Inr r \<Rightarrow>
          (case (if st = StatusCompleted \<or> st = StatusFailed
                 then (case now E w of (t, w1) \<Rightarrow> (with_end t (with_status st msg r), w1))
                 else (with_status st msg r, w)) of
             (r', w') \<Rightarrow> store_put E bucketBackupRecords rid (encode_backup r') w'))"

definition br_update where
  "br_update E r w = store_put E bucketBackupRecords (b_id r) (encode_backup r) w"

definition br_delete where
  "br_delete E rid w = store_delete E bucketBackupRecords rid w"

section \<open>Restore records\<close>

definition restore_missing :: "string \<Rightarrow> gerr" where
  "restore_missing rid =
     Err (''registro de restauraci'' @ u_o @ ''n '' @ go_quote rid @ '' no encontrado'')"

definition rr_save where
  "rr_save E r w = store_put E bucketRestoreRecords (rr_id r) (encode_restore r) w"

definition rr_find_by_id where
  "rr_find_by_id E rid w = store_get E bucketRestoreRecords decode_restore (restore_missing rid) rid w"

definition rr_find_all where
  "rr_find_all E w = store_all E bucketRestoreRecords decode_restore w"

definition rr_update where
  "rr_update E r w = store_put E bucketRestoreRecords (rr_id r) (encode_restore r) w"

section \<open>Retention policies\<close>

definition keyGlobalRetention :: string where "keyGlobalRetention = ''__global__''"

definition policy_key :: "retention_policy \<Rightarrow> string" where
  "policy_key p = (if p_instance_id p = '''' then keyGlobalRetention else p_instance_id p)"

definition policy_missing :: "string \<Rightarrow> gerr" where
  "policy_missing iid =
     Err (''pol'' @ u_i @ ''tica de retenci'' @ u_o @ ''n no encontrada para instancia '' @ go_quote iid)"

definition global_policy_missing :: gerr where
  "global_policy_missing =
     Err (''pol'' @ u_i @ ''tica de retenci'' @ u_o @ ''n global no encontrada'')"

definition pol_save where
  "pol_save E p w = store_put E bucketRetention (policy_key p) (encode_policy p) w"

definition pol_find_by_instance where
  "pol_find_by_instance E iid w = store_get E bucketRetention decode_policy (policy_missing iid) iid w"

definition pol_find_global where
  "pol_find_global E w =
     store_get E bucketRetention decode_policy global_policy_missing keyGlobalRetention w"

definition pol_find_all where
  "pol_find_all E w = store_all E bucketRetention decode_policy w"

definition pol_update where
  "pol_update E p w = store_put E bucketRetention (policy_key p) (encode_policy p) w"

definition pol_delete where
  "pol_delete E rid w = store_delete E bucketRetention rid w"

section \<open>The S3 and the scheduler configuration\<close>

definition keyS3Config :: string where "keyS3Config = ''default''"
definition keySchedulerConfig :: string where "keySchedulerConfig = ''default''"

definition s3_config_missing :: gerr where
  "s3_config_missing = Err (''configuraci'' @ u_o @ ''n S3 no encontrada'')"

definition scheduler_config_missing :: gerr where
  "scheduler_config_missing = Err (''configuraci'' @ u_o @ ''n del scheduler no encontrada'')"

definition s3cfg_save where
  "s3cfg_save E c w = store_put E bucketS3Config keyS3Config (encode [] (ES3Config c)) w"

definition s3cfg_get where
  "s3cfg_get E w = store_get E bucketS3Config decode_s3_config s3_config_missing keyS3Config w"

definition sched_save where
  "sched_save E c w = store_put E bucketSchedulerConfig keySchedulerConfig (encode [] (EScheduler c)) w"

definition sched_get where
  "sched_get E w =
     store_get E bucketSchedulerConfig decode_scheduler scheduler_config_missing keySchedulerConfig w"

lemmas repo_ops = inst_save_def inst_find_by_id_def inst_find_all_def inst_delete_def
  br_save_def br_find_by_id_def br_find_all_def br_update_def br_delete_def
  rr_save_def rr_find_by_id_def rr_find_all_def rr_update_def
  pol_save_def pol_find_by_instance_def pol_find_global_def pol_find_all_def pol_update_def
  pol_delete_def s3cfg_save_def s3cfg_get_def sched_save_def sched_get_def


section \<open>What a bucket holds\<close>

definition view_bucket :: "('d, 's, 'm) env \<Rightarrow> string \<Rightarrow> (blob \<Rightarrow> 'a res) \<Rightarrow>
    ('d, 's, 'm) sys \<Rightarrow> string \<Rightarrow> 'a option" where
  "view_bucket E b dec w k =
     (case bolt_get E (db w) b k of
        None \<Rightarrow> None | Some x \<Rightarrow> (case dec x of Inl e \<Rightarrow> None | Inr a \<Rightarrow> Some a))"

definition bucket_wf :: "('d, 's, 'm) env \<Rightarrow> string \<Rightarrow> (blob \<Rightarrow> 'a res) \<Rightarrow> ('a \<Rightarrow> string) \<Rightarrow>
    ('d, 's, 'm) sys \<Rightarrow> bool" where
  "bucket_wf E b dec key w \<longleftrightarrow>
     bolt_ok E \<and>
     (\<forall>k x. bolt_get E (db w) b k = Some x \<longrightarrow> (\<exists>a. dec x = Inr a \<and> key a = k))"

lemma bolt_ok_sorted: "bolt_ok E \<Longrightarrow> sorted_wrt (<) (map fst (bolt_each E d b))"
  by (simp add: bolt_ok_def bolt_reads_ok_def)

lemma bolt_ok_get: "bolt_ok E \<Longrightarrow> bolt_get E d b k = map_of (bolt_each E d b) k"
  by (simp add: bolt_ok_def bolt_reads_ok_def)

lemma bolt_ok_put:
  "bolt_ok E \<Longrightarrow> bolt_put E d b k v = (r, d') \<Longrightarrow>
    bolt_get E d' = (if r = None then (bolt_get E d)(b := (bolt_get E d b)(k \<mapsto> v)) else bolt_get E d)"
  unfolding bolt_ok_def bolt_put_ok_def by (metis fst_conv snd_conv)

lemma bolt_ok_delete:
  "bolt_ok E \<Longrightarrow> bolt_delete E d b k = (r, d') \<Longrightarrow>
    bolt_get E d' = (if r = None then (bolt_get E d)(b := (bolt_get E d b)(k := None)) else bolt_get E d)"
  unfolding bolt_ok_def bolt_delete_ok_def by (metis fst_conv snd_conv)

lemma bolt_each_distinct: "bolt_ok E \<Longrightarrow> distinct (map fst (bolt_each E d b))"
  using bolt_ok_sorted [of E d b] by (simp add: strict_sorted_iff)

lemma bolt_each_get: "bolt_ok E \<Longrightarrow> (k, x) \<in> set (bolt_each E d b) \<longleftrightarrow> bolt_get E d b k = Some x"
  by (simp add: bolt_ok_get bolt_each_distinct)

lemma decode_all_Inr:
  assumes "\<And>k x. (k, x) \<in> set xs \<Longrightarrow> \<exists>a. dec x = Inr a \<and> key a = k"
  shows "\<exists>as. decode_all dec xs = Inr as \<and> map key as = map fst xs \<and>
    (\<forall>a. a \<in> set as \<longleftrightarrow> (\<exists>k x. (k, x) \<in> set xs \<and> dec x = Inr a))"
  using assms
proof (induction xs)
  case (Cons kx xs)
  obtain k x where kx: "kx = (k, x)" by fastforce
  from Cons.prems kx obtain a where a: "dec x = Inr a" "key a = k" by auto
  from Cons.IH Cons.prems obtain as where
    "decode_all dec xs = Inr as" "map key as = map fst xs"
    "\<forall>a. a \<in> set as \<longleftrightarrow> (\<exists>k x. (k, x) \<in> set xs \<and> dec x = Inr a)" by auto
  with a kx show ?case by auto
qed simp

lemma store_all_wf:
  assumes "bucket_wf E b dec key w"
  shows "\<exists>as. store_all E b dec w = Inr as \<and> sorted_wrt (<) (map key as) \<and>
    (\<forall>a. a \<in> set as \<longleftrightarrow> view_bucket E b dec w (key a) = Some a)"
proof -
  from assms have ok: "bolt_ok E" and
    wf: "\<And>k x. bolt_get E (db w) b k = Some x \<Longrightarrow> \<exists>a. dec x = Inr a \<and> key a = k"
    by (auto simp: bucket_wf_def)
  from decode_all_Inr [of "bolt_each E (db w) b" dec key] wf ok obtain as where
    as: "store_all E b dec w = Inr as" "map key as = map fst (bolt_each E (db w) b)"
    "\<And>a. a \<in> set as \<longleftrightarrow> (\<exists>k x. (k, x) \<in> set (bolt_each E (db w) b) \<and> dec x = Inr a)"
    by (auto simp: bolt_each_get store_all_def)
  have "a \<in> set as \<longleftrightarrow> view_bucket E b dec w (key a) = Some a" for a
    using as(3) [of a] wf
    by (fastforce simp: bolt_each_get ok view_bucket_def split: option.splits sum.splits)
  with as bolt_ok_sorted [OF ok] show ?thesis by auto
qed

lemma store_get_wf:
  "bucket_wf E b dec key w \<Longrightarrow>
    store_get E b dec missing k w =
      (case view_bucket E b dec w k of None \<Rightarrow> Inl missing | Some a \<Rightarrow> Inr a)"
  by (fastforce simp: store_get_def view_bucket_def bucket_wf_def split: option.splits sum.splits)

lemma view_bucket_key:
  "bucket_wf E b dec key w \<Longrightarrow> view_bucket E b dec w k = Some a \<Longrightarrow> key a = k"
  by (fastforce simp: view_bucket_def bucket_wf_def split: option.splits sum.splits)

text \<open>A write touches only the database, and of it only the bucket and the key it names.\<close>

lemma store_put_frame [frame]:
  assumes "store_put E b k enc w = (r, w')"
  shows "s3 w' = s3 w" "os w' = os w" "events w' = events w"
  using assms by (auto simp: store_put_def split: sum.splits prod.splits)

lemma store_delete_frame [frame]:
  assumes "store_delete E b k w = (r, w')"
  shows "s3 w' = s3 w" "os w' = os w" "events w' = events w"
  using assms by (auto simp: store_delete_def split: prod.splits)

lemma store_put_get:
  assumes "store_put E b k enc w = (r, w')" "bolt_ok E"
  shows "r = None \<Longrightarrow> \<exists>x. enc = Inr x \<and>
      bolt_get E (db w') = (bolt_get E (db w))(b := (bolt_get E (db w) b)(k \<mapsto> x))"
    and "r \<noteq> None \<Longrightarrow> bolt_get E (db w') = bolt_get E (db w)"
  using assms by (auto simp: store_put_def bolt_ok_put split: sum.splits prod.splits)

lemma store_delete_get:
  assumes "store_delete E b k w = (r, w')" "bolt_ok E"
  shows "bolt_get E (db w') =
    (if r = None then (bolt_get E (db w))(b := (bolt_get E (db w) b)(k := None)) else bolt_get E (db w))"
  using assms by (auto simp: store_delete_def bolt_ok_delete split: prod.splits)

lemma view_bucket_cong:
  assumes "bolt_get E (db w') b = bolt_get E (db w) b"
  shows "view_bucket E b dec w' = view_bucket E b dec w"
    and "bucket_wf E b dec key w' = bucket_wf E b dec key w"
  using assms by (simp_all add: view_bucket_def bucket_wf_def fun_eq_iff)

lemma store_put_other_bucket:
  assumes "store_put E b k enc w = (r, w')" "bolt_ok E" "b' \<noteq> b"
  shows "bolt_get E (db w') b' = bolt_get E (db w) b'"
  using store_put_get [OF assms(1,2)] assms(3) by (cases r) auto

lemma bucket_wf_bolt_ok: "bucket_wf E b dec key w \<Longrightarrow> bolt_ok E"
  by (simp add: bucket_wf_def)

lemma bucket_wf_upd:
  assumes "bucket_wf E b dec key w" "dec x = Inr a"
    and "bolt_get E (db w') = (bolt_get E (db w))(b := (bolt_get E (db w) b)(key a \<mapsto> x))"
  shows "bucket_wf E b dec key w' \<and> view_bucket E b dec w' = (view_bucket E b dec w)(key a \<mapsto> a)"
proof
  show "bucket_wf E b dec key w'"
    using assms by (simp add: bucket_wf_def)
  show "view_bucket E b dec w' = (view_bucket E b dec w)(key a \<mapsto> a)"
    by (rule ext) (simp add: view_bucket_def assms(2,3))
qed

lemma bucket_wf_del:
  assumes "bucket_wf E b dec key w"
    and "bolt_get E (db w') = (bolt_get E (db w))(b := (bolt_get E (db w) b)(k := None))"
  shows "bucket_wf E b dec key w' \<and> view_bucket E b dec w' = (view_bucket E b dec w)(k := None)"
proof
  show "bucket_wf E b dec key w'"
    using assms by (simp add: bucket_wf_def)
  show "view_bucket E b dec w' = (view_bucket E b dec w)(k := None)"
    by (rule ext) (simp add: view_bucket_def assms(2))
qed

lemma store_put_wf:
  assumes put: "store_put E b k enc w = (r, w')" and wf: "bucket_wf E b dec key w"
    and enc: "\<And>x. enc = Inr x \<Longrightarrow> dec x = Inr a" and k: "k = key a"
  shows "bucket_wf E b dec key w' \<and>
    view_bucket E b dec w' = (if r = None then (view_bucket E b dec w)(k \<mapsto> a) else view_bucket E b dec w)"
proof (cases "r = None")
  case True
  with store_put_get(1) [OF put bucket_wf_bolt_ok [OF wf]] obtain x where
    x: "enc = Inr x" "bolt_get E (db w') = (bolt_get E (db w))(b := (bolt_get E (db w) b)(k \<mapsto> x))" by auto
  from bucket_wf_upd [OF wf enc [OF x(1)]] x(2) k True show ?thesis by simp
next
  case False
  with store_put_get(2) [OF put bucket_wf_bolt_ok [OF wf]] show ?thesis
    using wf view_bucket_cong [of E w' b w] False by auto
qed

lemma store_delete_wf:
  assumes del: "store_delete E b k w = (r, w')" and wf: "bucket_wf E b dec key w"
  shows "bucket_wf E b dec key w' \<and>
    view_bucket E b dec w' = (if r = None then (view_bucket E b dec w)(k := None) else view_bucket E b dec w)"
proof (cases "r = None")
  case True
  with store_delete_get [OF del bucket_wf_bolt_ok [OF wf]] bucket_wf_del [OF wf, of w' k] show ?thesis
    by simp
next
  case False
  with store_delete_get [OF del bucket_wf_bolt_ok [OF wf]] show ?thesis
    using wf view_bucket_cong [of E w' b w] False by auto
qed

section \<open>The contract of a repository\<close>

locale entity_store =
  fixes put :: "'a \<Rightarrow> 'w \<Rightarrow> gerr option \<times> 'w"
    and get :: "string \<Rightarrow> 'w \<Rightarrow> 'a res"
    and all :: "'w \<Rightarrow> 'a list res"
    and view :: "'w \<Rightarrow> string \<Rightarrow> 'a option"
    and key :: "'a \<Rightarrow> string"
    and invar :: "'w \<Rightarrow> bool"
  assumes get_view: "invar w \<Longrightarrow> get k w = Inr x \<longleftrightarrow> view w k = Some x"
    and all_view: "invar w \<Longrightarrow> \<exists>xs. all w = Inr xs \<and> sorted_wrt (<) (map key xs) \<and>
      (\<forall>x. x \<in> set xs \<longleftrightarrow> view w (key x) = Some x)"
    and view_key: "invar w \<Longrightarrow> view w k = Some x \<Longrightarrow> key x = k"
    and put_law: "invar w \<Longrightarrow> put x w = (r, w') \<Longrightarrow>
      invar w' \<and> view w' = (if r = None then (view w)(key x \<mapsto> x) else view w)"
begin

lemma get_some: "invar w \<Longrightarrow> view w k = Some x \<Longrightarrow> get k w = Inr x"
  by (simp add: get_view)

lemma get_none: "invar w \<Longrightarrow> view w k = None \<Longrightarrow> \<exists>e. get k w = Inl e"
  by (cases "get k w") (auto simp: get_view)

lemma put_invar: "invar w \<Longrightarrow> put x w = (r, w') \<Longrightarrow> invar w'"
  by (simp add: put_law)

text \<open>What was saved is found again, and nothing else changes.\<close>

lemma put_get:
  assumes "invar w" "put x w = (None, w')"
  shows "get (key x) w' = Inr x"
  using put_law [OF assms] by (simp add: get_view)

lemma put_get_other:
  assumes "invar w" "put x w = (r, w')" "k \<noteq> key x"
  shows "get k w' = Inr y \<longleftrightarrow> get k w = Inr y"
  using put_law [OF assms(1,2)] assms(1,3) by (simp add: get_view)

lemma put_failed:
  assumes "invar w" "put x w = (Some e, w')"
  shows "get k w' = Inr y \<longleftrightarrow> get k w = Inr y"
  using put_law [OF assms] assms(1) by (simp add: get_view)

lemma all_Inr: "invar w \<Longrightarrow> \<exists>xs. all w = Inr xs"
  using all_view by blast

lemma all_mem:
  assumes "invar w" "all w = Inr xs"
  shows "x \<in> set xs \<longleftrightarrow> view w (key x) = Some x"
  using all_view [OF assms(1)] assms(2) by auto

lemma all_sorted:
  assumes "invar w" "all w = Inr xs"
  shows "sorted_wrt (<) (map key xs)"
  using all_view [OF assms(1)] assms(2) by auto

lemma all_distinct: "invar w \<Longrightarrow> all w = Inr xs \<Longrightarrow> distinct (map key xs)"
  using all_sorted by (simp add: strict_sorted_iff)

lemma put_all:
  assumes "invar w" "all w = Inr xs" "put x w = (None, w')" "all w' = Inr ys"
  shows "set ys = insert x {y \<in> set xs. key y \<noteq> key x}"
proof -
  note p = put_law [OF assms(1,3)]
  have "y \<in> set ys \<longleftrightarrow> y = x \<or> y \<in> set xs \<and> key y \<noteq> key x" for y
    using p all_mem [OF _ assms(4), of y] all_mem [OF assms(1,2), of y] by auto
  then show ?thesis by auto
qed

lemmas laws = get_view view_key put_law all_mem all_distinct

end

text \<open>A repository whose entries can also be removed.\<close>

locale entity_store_del = entity_store +
  fixes del :: "string \<Rightarrow> 'b \<Rightarrow> gerr option \<times> 'b"
  assumes del_law: "invar w \<Longrightarrow> del k w = (r, w') \<Longrightarrow>
    invar w' \<and> view w' = (if r = None then (view w)(k := None) else view w)"
begin

lemma del_get:
  assumes "invar w" "del k w = (None, w')"
  shows "\<exists>e. get k w' = Inl e"
  using del_law [OF assms] by (intro get_none) simp_all

lemma put_del_get:
  assumes "invar w" "put x w = (None, w1)" "del k w1 = (None, w2)" "k \<noteq> key x"
  shows "get (key x) w2 = Inr x"
proof -
  note p = put_law [OF assms(1,2)]
  note d = del_law [OF conjunct1 [OF p] assms(3)]
  show ?thesis using p d assms(4) by (simp add: get_view)
qed

end

text \<open>A repository of one value: the S3 configuration and the scheduler configuration.\<close>

locale config_store =
  fixes put :: "'a \<Rightarrow> 'w \<Rightarrow> gerr option \<times> 'w"
    and get :: "'w \<Rightarrow> 'a res"
    and current :: "'w \<Rightarrow> 'a option"
    and invar :: "'w \<Rightarrow> bool"
  assumes get_law: "invar w \<Longrightarrow> get w = Inr x \<longleftrightarrow> current w = Some x"
    and put_law: "invar w \<Longrightarrow> put x w = (r, w') \<Longrightarrow>
      invar w' \<and> current w' = (if r = None then Some x else current w)"
begin

lemma last_write_wins:
  assumes "invar w" "put x w = (r1, w1)" "put y w1 = (None, w2)"
  shows "get w2 = Inr y"
proof -
  from put_law [OF assms(1,2)] have "invar w1" by simp
  from put_law [OF this assms(3)] show ?thesis by (simp add: get_law)
qed

lemma failed_write_keeps:
  assumes "invar w" "put x w = (Some e, w')"
  shows "get w' = Inr y \<longleftrightarrow> get w = Inr y"
  using put_law [OF assms] assms(1) by (simp add: get_law)

end

section \<open>The repositories keep the contract\<close>

text \<open>What each bucket holds, and that it holds only encodings of its own entity.\<close>

definition backup_view where
  "backup_view E w = view_bucket E bucketBackupRecords decode_backup w"
definition backups_wf where
  "backups_wf E w = bucket_wf E bucketBackupRecords decode_backup b_id w"
definition instance_view where
  "instance_view E w = view_bucket E bucketInstances decode_instance w"
definition instances_wf where
  "instances_wf E w = bucket_wf E bucketInstances decode_instance i_id w"
definition restore_view where
  "restore_view E w = view_bucket E bucketRestoreRecords decode_restore w"
definition restores_wf where
  "restores_wf E w = bucket_wf E bucketRestoreRecords decode_restore rr_id w"
definition policy_view where
  "policy_view E w = view_bucket E bucketRetention decode_policy w"
definition policies_wf where
  "policies_wf E w = bucket_wf E bucketRetention decode_policy policy_key w"
definition s3cfg_view where
  "s3cfg_view E w = view_bucket E bucketS3Config decode_s3_config w keyS3Config"
definition s3cfg_wf where
  "s3cfg_wf E w = bucket_wf E bucketS3Config decode_s3_config (\<lambda>_. keyS3Config) w"
definition sched_view where
  "sched_view E w = view_bucket E bucketSchedulerConfig decode_scheduler w keySchedulerConfig"
definition sched_wf where
  "sched_wf E w = bucket_wf E bucketSchedulerConfig decode_scheduler (\<lambda>_. keySchedulerConfig) w"

lemmas view_defs = backup_view_def instance_view_def restore_view_def policy_view_def
  s3cfg_view_def sched_view_def
lemmas wf_defs = backups_wf_def instances_wf_def restores_wf_def policies_wf_def
  s3cfg_wf_def sched_wf_def

text \<open>The whole database is well formed: each of the six buckets is.\<close>

definition db_wf :: "('d, 's, 'm) env \<Rightarrow> ('d, 's, 'm) sys \<Rightarrow> bool" where
  "db_wf E w \<longleftrightarrow> backups_wf E w \<and> instances_wf E w \<and> restores_wf E w \<and> policies_wf E w \<and>
     s3cfg_wf E w \<and> sched_wf E w"

lemma decode_encode:
  "encode_backup r = Inr x \<Longrightarrow> decode_backup x = Inr r"
  "encode_restore rr = Inr x \<Longrightarrow> decode_restore x = Inr rr"
  "encode_instance i = Inr x \<Longrightarrow> decode_instance x = Inr i"
  "encode_policy p = Inr x \<Longrightarrow> decode_policy x = Inr p"
  "encode ts (ES3Config c) = Inr x \<Longrightarrow> decode_s3_config x = Inr c"
  "encode ts (EScheduler sc) = Inr x \<Longrightarrow> decode_scheduler x = Inr sc"
  by (auto simp: codec_defs split: if_splits)

text \<open>One proof for all: any bucket with a codec that reads back what it writes.\<close>

lemma bucket_entity_store:
  assumes codec: "\<And>x y. enc x = Inr y \<Longrightarrow> dec y = Inr x"
  shows "entity_store_del (\<lambda>x. store_put E b (key x) (enc x)) (\<lambda>k. store_get E b dec (missing k) k)
    (store_all E b dec) (view_bucket E b dec) key (bucket_wf E b dec key) (store_delete E b)"
proof
  fix w k x
  assume wf: "bucket_wf E b dec key w"
  show "store_get E b dec (missing k) k w = Inr x \<longleftrightarrow> view_bucket E b dec w k = Some x"
    using store_get_wf [OF wf] by (auto split: option.splits)
  show "view_bucket E b dec w k = Some x \<Longrightarrow> key x = k"
    by (rule view_bucket_key [OF wf])
  show "\<exists>xs. store_all E b dec w = Inr xs \<and> sorted_wrt (<) (map key xs) \<and>
      (\<forall>x. x \<in> set xs \<longleftrightarrow> view_bucket E b dec w (key x) = Some x)"
    by (rule store_all_wf [OF wf])
next
  fix w x r w' k
  assume wf: "bucket_wf E b dec key w"
  show "store_put E b (key x) (enc x) w = (r, w') \<Longrightarrow> bucket_wf E b dec key w' \<and>
      view_bucket E b dec w' =
        (if r = None then (view_bucket E b dec w)(key x \<mapsto> x) else view_bucket E b dec w)"
    using store_put_wf [OF _ wf, of "key x" "enc x" r w' x] codec by simp
  show "store_delete E b k w = (r, w') \<Longrightarrow> bucket_wf E b dec key w' \<and>
      view_bucket E b dec w' =
        (if r = None then (view_bucket E b dec w)(k := None) else view_bucket E b dec w)"
    by (rule store_delete_wf [OF _ wf])
qed

lemma bucket_config_store:
  assumes codec: "\<And>x y. enc x = Inr y \<Longrightarrow> dec y = Inr x"
  shows "config_store (\<lambda>x. store_put E b k (enc x)) (store_get E b dec missing k)
    (\<lambda>w. view_bucket E b dec w k) (bucket_wf E b dec (\<lambda>_. k))"
proof
  fix w x
  assume wf: "bucket_wf E b dec (\<lambda>_. k) w"
  show "store_get E b dec missing k w = Inr x \<longleftrightarrow> view_bucket E b dec w k = Some x"
    using store_get_wf [OF wf] by (auto split: option.splits)
next
  fix w x r w'
  assume wf: "bucket_wf E b dec (\<lambda>_. k) w"
  show "store_put E b k (enc x) w = (r, w') \<Longrightarrow> bucket_wf E b dec (\<lambda>_. k) w' \<and>
      view_bucket E b dec w' k = (if r = None then Some x else view_bucket E b dec w k)"
    using store_put_wf [OF _ wf, of k "enc x" r w' x] codec by simp
qed

interpretation backups: entity_store_del
  "br_save E" "\<lambda>k. br_find_by_id E k" "br_find_all E" "backup_view E" b_id "backups_wf E" "br_delete E"
  for E :: "('d, 's, 'm) env"
  unfolding br_save_def [abs_def] br_find_by_id_def [abs_def] br_find_all_def [abs_def]
    backup_view_def [abs_def] backups_wf_def [abs_def] br_delete_def [abs_def]
  by (rule bucket_entity_store) (erule decode_encode)

interpretation instances: entity_store_del
  "inst_save E" "\<lambda>k. inst_find_by_id E k" "inst_find_all E" "instance_view E" i_id "instances_wf E"
  "inst_delete E"
  for E :: "('d, 's, 'm) env"
  unfolding inst_save_def [abs_def] inst_find_by_id_def [abs_def] inst_find_all_def [abs_def]
    instance_view_def [abs_def] instances_wf_def [abs_def] inst_delete_def [abs_def]
  by (rule bucket_entity_store) (erule decode_encode)

interpretation restores: entity_store
  "rr_save E" "\<lambda>k. rr_find_by_id E k" "rr_find_all E" "restore_view E" rr_id "restores_wf E"
  for E :: "('d, 's, 'm) env"
  unfolding rr_save_def [abs_def] rr_find_by_id_def [abs_def] rr_find_all_def [abs_def]
    restore_view_def [abs_def] restores_wf_def [abs_def]
  by (rule entity_store_del.axioms(1) [OF bucket_entity_store]) (erule decode_encode)

interpretation policies: entity_store_del
  "pol_save E" "\<lambda>k. pol_find_by_instance E k" "pol_find_all E" "policy_view E" policy_key
  "policies_wf E" "pol_delete E"
  for E :: "('d, 's, 'm) env"
  unfolding pol_save_def [abs_def] pol_find_by_instance_def [abs_def] pol_find_all_def [abs_def]
    policy_view_def [abs_def] policies_wf_def [abs_def] pol_delete_def [abs_def]
  by (rule bucket_entity_store) (erule decode_encode)

interpretation s3cfg: config_store
  "s3cfg_save E" "s3cfg_get E" "s3cfg_view E" "s3cfg_wf E"
  for E :: "('d, 's, 'm) env"
  unfolding s3cfg_save_def [abs_def] s3cfg_get_def [abs_def] s3cfg_view_def [abs_def]
    s3cfg_wf_def [abs_def]
  by (rule bucket_config_store) (erule decode_encode)

interpretation schedcfg: config_store
  "sched_save E" "sched_get E" "sched_view E" "sched_wf E"
  for E :: "('d, 's, 'm) env"
  unfolding sched_save_def [abs_def] sched_get_def [abs_def] sched_view_def [abs_def]
    sched_wf_def [abs_def]
  by (rule bucket_config_store) (erule decode_encode)

end
