(* ===== verification/Go_Time.thy ===== *)
theory Go_Time
  imports Prelude
begin

text \<open>
  Formatting of times (\<open>time.Time.Format\<close> for the layouts the program uses) and the helpers of
  \<open>internal/timeutil/format.go\<close> that render sizes and durations.
\<close>

section \<open>Calendar\<close>

definition ns_per_second :: int where "ns_per_second = 1000000000"

definition day_number :: "time \<Rightarrow> int" where
  "day_number t = t div ns_per_day"

definition second_of_day :: "time \<Rightarrow> int" where
  "second_of_day t = (t mod ns_per_day) div ns_per_second"

text \<open>
  Year, month and day of a day number (0 is 1 January of year 1), by 400-year cycles that start on
  1 March: 306 days separate 1 March of year 0 from day 0.
\<close>

definition civil :: "int \<Rightarrow> int \<times> int \<times> int" where
  "civil n =
     (let z = n + 306; cycle = z div 146097; doe = z mod 146097;
          yoe = (doe - doe div 1460 + doe div 36524 - doe div 146096) div 365;
          doy = doe - (365 * yoe + yoe div 4 - yoe div 100);
          mp = (5 * doy + 2) div 153;
          d = doy - (153 * mp + 2) div 5 + 1;
          m = (if mp < 10 then mp + 3 else mp - 9)
      in (yoe + cycle * 400 + (if m \<le> 2 then 1 else 0), m, d))"

definition pad :: "nat \<Rightarrow> int \<Rightarrow> string" where
  "pad n i = (let s = show_int i in replicate (n - length s) (CHR ''0'') @ s)"

text \<open>The layouts \<open>20060102\<close>, \<open>1504\<close>, \<open>150405\<close> and \<open>2006-01-02\<close>.\<close>

definition fmt_ymd :: "time \<Rightarrow> string" where
  "fmt_ymd t = (case civil (day_number t) of (y, m, d) \<Rightarrow> pad 4 y @ pad 2 m @ pad 2 d)"

definition fmt_date :: "time \<Rightarrow> string" where
  "fmt_date t =
     (case civil (day_number t) of (y, m, d) \<Rightarrow> pad 4 y @ ''-'' @ pad 2 m @ ''-'' @ pad 2 d)"

definition fmt_hm :: "time \<Rightarrow> string" where
  "fmt_hm t = (let s = second_of_day t in pad 2 (s div 3600) @ pad 2 ((s mod 3600) div 60))"

definition fmt_hms :: "time \<Rightarrow> string" where
  "fmt_hms t = fmt_hm t @ pad 2 (second_of_day t mod 60)"

text \<open>\<open>20060102_1504\<close>, \<open>20060102_150405\<close> and \<open>time.RFC3339\<close> of a UTC time.\<close>

definition stamp_minute :: "time \<Rightarrow> string" where
  "stamp_minute t = fmt_ymd t @ ''_'' @ fmt_hm t"

definition stamp_second :: "time \<Rightarrow> string" where
  "stamp_second t = fmt_ymd t @ ''_'' @ fmt_hms t"

definition fmt_rfc3339 :: "time \<Rightarrow> string" where
  "fmt_rfc3339 t =
     (let s = second_of_day t in
      fmt_date t @ ''T'' @ pad 2 (s div 3600) @ '':'' @ pad 2 ((s mod 3600) div 60) @ '':'' @
      pad 2 (s mod 60) @ ''Z'')"

text \<open>The stamp of a minute is a function of the minute alone.\<close>

definition minute_number :: "time \<Rightarrow> int" where
  "minute_number t = t div (60 * ns_per_second)"

lemma div_div_split: "(t::int) div 86400000000000 = t div 60000000000 div 1440"
  by (simp add: zdiv_zmult2_eq [symmetric])

lemma stamp_minute_cong:
  assumes "minute_number t = minute_number u"
  shows "stamp_minute t = stamp_minute u"
proof -
  have m: "t div 60000000000 = u div 60000000000"
    using assms by (simp add: minute_number_def ns_per_second_def)
  have day: "day_number t = day_number u"
    using m by (simp add: day_number_def ns_per_day_def div_div_split)
  have mn: "second_of_day x div 60 = x div 60000000000 mod 1440" for x
  proof -
    have "second_of_day x div 60 = (x mod (60000000000 * 1440)) div 60000000000"
      by (simp add: second_of_day_def ns_per_day_def ns_per_second_def zdiv_zmult2_eq [symmetric])
    also have "\<dots> = x div 60000000000 mod 1440"
      by (subst zmod_zmult2_eq) simp_all
    finally show ?thesis .
  qed
  have h: "second_of_day x div 3600 = second_of_day x div 60 div 60" for x
    by (simp add: zdiv_zmult2_eq [symmetric])
  have mm: "(second_of_day x mod 3600) div 60 = (second_of_day x div 60) mod 60" for x
    using zmod_zmult2_eq [of 60 "second_of_day x" 60] by simp
  have "second_of_day t div 60 = second_of_day u div 60"
    using m by (simp add: mn)
  then show ?thesis
    by (simp add: stamp_minute_def fmt_ymd_def fmt_hm_def Let_def day h mm)
qed

end
