(* ===== verification/S3_Adapter.thy ===== *)
theory S3_Adapter
  imports Reference_Env Go_Time
begin

text \<open>
  The object store adapter (\<open>adapters/storage/s3/adapter.go\<close>): construction from the stored
  configuration, the key prefix of the bucket, and the operations of \<open>ports.StorageAdapter\<close>
  over the calls of the AWS SDK, which are fields of the environment.

  \<open>s3_view\<close> is what the adapter's user sees: contents by bare key. The locale
  \<open>object_store\<close> is the contract the use cases rely on, interpreted here on the adapter.
\<close>

section \<open>Construction\<close>

record s3_adapter =
  a_client :: aws_client
  a_bucket :: string
  a_prefix :: string

definition ensure_scheme :: "string \<Rightarrow> string" where
  "ensure_scheme e =
     (if has_prefix e ''http://'' \<or> has_prefix e ''https://'' then e else ''https://'' @ e)"

text \<open>The client options: the endpoint and the path style are set only for a custom endpoint.\<close>

definition client_of :: "s3_config \<Rightarrow> aws_client" where
  "client_of cfg =
     \<lparr>cl_region = c_region cfg, cl_access_key = c_access_key cfg, cl_secret_key = c_secret_key cfg,
      cl_endpoint = (if c_endpoint cfg \<noteq> '''' then Some (ensure_scheme (c_endpoint cfg)) else None),
      cl_path_style = (if c_endpoint cfg \<noteq> '''' then c_path_style cfg else False)\<rparr>"

definition adapter_of :: "s3_config \<Rightarrow> s3_adapter" where
  "adapter_of cfg =
     \<lparr>a_client = client_of cfg, a_bucket = c_bucket cfg, a_prefix = trim_suffix (c_prefix cfg) ''/''\<rparr>"

definition s3_new :: "('d, 's, 'm) env \<Rightarrow> s3_config \<Rightarrow> ('d, 's, 'm) sys \<Rightarrow>
    s3_adapter res \<times> ('d, 's, 'm) sys" where
  "s3_new E cfg w =
     (case aws_load E cfg (s3 w) of
        (Some e, s) \<Rightarrow> (Inl (WrapErr ''cargar config AWS: '' e ''''), w\<lparr>s3 := s\<rparr>)
      | (None, s) \<Rightarrow> (Inr (adapter_of cfg), w\<lparr>s3 := s\<rparr>))"

definition full_key :: "s3_adapter \<Rightarrow> string \<Rightarrow> string" where
  "full_key a k = (if a_prefix a = '''' then k else a_prefix a @ ''/'' @ k)"

section \<open>Operations\<close>

text \<open>
  \<open>Upload\<close>: the result, and how many bytes of the body were read (the count of
  \<open>countingReader\<close>, which is also what a reader wrapped around the body has seen).
\<close>

definition s3_upload :: "('d, 's, 'm) env \<Rightarrow> s3_adapter \<Rightarrow> string \<Rightarrow> stream \<Rightarrow> ('d, 's, 'm) sys \<Rightarrow>
    (int res \<times> nat) \<times> ('d, 's, 'm) sys" where
  "s3_upload E a k st w =
     (let fk = full_key a k in
      case aws_upload E (a_client a) (a_bucket a) fk st (s3 w) of
        ((Some e, n), s) \<Rightarrow> ((Inl (WrapErr (''upload S3 '' @ go_quote fk @ '': '') e ''''), n), w\<lparr>s3 := s\<rparr>)
      | ((None, n), s) \<Rightarrow> ((Inr (int n), n), w\<lparr>s3 := s\<rparr>))"

text \<open>The pages of a listing, gathered until the first page that fails.\<close>

fun collect_pages :: "storage_object list res list \<Rightarrow> storage_object list res" where
  "collect_pages [] = Inr []"
| "collect_pages (Inl e # ps) = Inl (WrapErr ''listar objetos S3: '' e '''')"
| "collect_pages (Inr obs # ps) =
     (case collect_pages ps of Inl e \<Rightarrow> Inl e | Inr rest \<Rightarrow> Inr (obs @ rest))"

definition s3_list :: "('d, 's, 'm) env \<Rightarrow> s3_adapter \<Rightarrow> string \<Rightarrow> ('d, 's, 'm) sys \<Rightarrow>
    storage_object list res \<times> ('d, 's, 'm) sys" where
  "s3_list E a p w =
     (case aws_pages E (a_client a) (a_bucket a) (full_key a p) (s3 w) of
        (ps, s) \<Rightarrow> (collect_pages ps, w\<lparr>s3 := s\<rparr>))"

definition s3_download :: "('d, 's, 'm) env \<Rightarrow> s3_adapter \<Rightarrow> string \<Rightarrow> ('d, 's, 'm) sys \<Rightarrow>
    stream res \<times> ('d, 's, 'm) sys" where
  "s3_download E a k w =
     (let fk = full_key a k in
      case aws_get E (a_client a) (a_bucket a) fk (s3 w) of
        (Inl e, s) \<Rightarrow> (Inl (WrapErr (''descargar S3 '' @ go_quote fk @ '': '') e ''''), w\<lparr>s3 := s\<rparr>)
      | (Inr st, s) \<Rightarrow> (Inr st, w\<lparr>s3 := s\<rparr>))"

definition s3_delete :: "('d, 's, 'm) env \<Rightarrow> s3_adapter \<Rightarrow> string \<Rightarrow> ('d, 's, 'm) sys \<Rightarrow>
    gerr option \<times> ('d, 's, 'm) sys" where
  "s3_delete E a k w =
     (let fk = full_key a k in
      case aws_delete E (a_client a) (a_bucket a) fk (s3 w) of
        (Some e, s) \<Rightarrow> (Some (WrapErr (''eliminar S3 '' @ go_quote fk @ '': '') e ''''), w\<lparr>s3 := s\<rparr>)
      | (None, s) \<Rightarrow> (None, w\<lparr>s3 := s\<rparr>))"

definition s3_tag :: "('d, 's, 'm) env \<Rightarrow> s3_adapter \<Rightarrow> string \<Rightarrow> time \<Rightarrow> ('d, 's, 'm) sys \<Rightarrow>
    gerr option \<times> ('d, 's, 'm) sys" where
  "s3_tag E a k t w =
     (case aws_tag E (a_client a) (a_bucket a) (full_key a k)
             [(''expires'', fmt_date t), (''managed-by'', ''backiie'')] (s3 w) of
        (r, s) \<Rightarrow> (r, w\<lparr>s3 := s\<rparr>))"

section \<open>The contract of an object store\<close>

definition s3_view :: "('d, 's, 'm) env \<Rightarrow> s3_adapter \<Rightarrow> ('d, 's, 'm) sys \<Rightarrow> string \<Rightarrow> string option" where
  "s3_view E a w k = aws_objs E (a_client a) (a_bucket a) (s3 w) (full_key a k)"

locale object_store =
  fixes upload :: "string \<Rightarrow> stream \<Rightarrow> 'w \<Rightarrow> (int res \<times> nat) \<times> 'w"
    and list_objects :: "string \<Rightarrow> 'w \<Rightarrow> storage_object list res \<times> 'w"
    and download :: "string \<Rightarrow> 'w \<Rightarrow> stream res \<times> 'w"
    and remove :: "string \<Rightarrow> 'w \<Rightarrow> gerr option \<times> 'w"
    and full :: "string \<Rightarrow> string"
    and objs :: "'w \<Rightarrow> string \<Rightarrow> string option"
    and invar :: "'w \<Rightarrow> bool"
  assumes full_suffix: "has_suffix (full k) k"
    and upload_law: "invar w \<Longrightarrow> upload k st w = ((ru, n), w') \<Longrightarrow> invar w' \<and>
      (\<forall>k'. k' \<noteq> k \<longrightarrow> objs w' k' = objs w k') \<and>
      (\<forall>sz. ru = Inr sz \<longrightarrow> objs w' k = Some (st_bytes st) \<and> st_read_err st = None \<and>
         n = length (st_bytes st) \<and> sz = int n)"
    and list_law: "invar w \<Longrightarrow> list_objects p w = (rl, w') \<Longrightarrow> invar w' \<and> objs w' = objs w \<and>
      (\<forall>obs. rl = Inr obs \<longrightarrow> so_key ` set obs = full ` {k. objs w k \<noteq> None \<and> has_prefix k p})"
    and download_law: "invar w \<Longrightarrow> download k w = (rd, w') \<Longrightarrow> invar w' \<and> objs w' = objs w \<and>
      (\<forall>st. rd = Inr st \<longrightarrow>
         (\<exists>x. objs w k = Some x \<and> (st_read_err st = None \<longrightarrow> st_bytes st = x)))"
    and remove_law: "invar w \<Longrightarrow> remove k w = (rr, w') \<Longrightarrow> invar w' \<and>
      (objs w' = (objs w)(k := None) \<or> (rr \<noteq> None \<and> objs w' = objs w))"
begin

text \<open>What was uploaded is what is downloaded, and its size is its length.\<close>

lemma upload_download:
  assumes "invar w" "upload k st w = ((Inr sz, n), w1)" "download k w1 = (Inr st', w2)"
    and "st_read_err st' = None"
  shows "st_bytes st' = st_bytes st \<and> sz = int (length (st_bytes st))"
  using upload_law [OF assms(1,2)] download_law [of w1 k "Inr st'" w2] assms(3,4) by auto

text \<open>
  Looking a key up by listing it as a prefix: the answer is exact when no stored key extends it.
\<close>

lemma listed_iff:
  assumes "invar w" "list_objects k w = (Inr obs, w')"
    and "\<And>k'. objs w k' \<noteq> None \<Longrightarrow> has_prefix k' k \<Longrightarrow> k' = k"
  shows "(\<exists>x \<in> set obs. has_suffix (so_key x) k) \<longleftrightarrow> objs w k \<noteq> None"
proof -
  have keys: "so_key ` set obs = full ` {k'. objs w k' \<noteq> None \<and> has_prefix k' k}"
    using list_law [OF assms(1,2)] by simp
  show ?thesis
  proof
    assume "\<exists>x \<in> set obs. has_suffix (so_key x) k"
    then obtain x where "x \<in> set obs" by blast
    then have "so_key x \<in> full ` {k'. objs w k' \<noteq> None \<and> has_prefix k' k}"
      unfolding keys [symmetric] by (rule imageI)
    then obtain k' where "objs w k' \<noteq> None" "has_prefix k' k" by blast
    with assms(3) [of k'] show "objs w k \<noteq> None" by blast
  next
    assume "objs w k \<noteq> None"
    then have "full k \<in> so_key ` set obs" unfolding keys by (intro imageI) simp
    then obtain x where "x \<in> set obs" "so_key x = full k" by auto
    with full_suffix [of k] show "\<exists>x \<in> set obs. has_suffix (so_key x) k"
      by (intro bexI [of _ x]) simp_all
  qed
qed

lemma remove_shrinks:
  assumes "invar w" "remove k w = (r, w')"
  shows "objs w' k' = objs w k' \<or> (k' = k \<and> objs w' k' = None)"
  using remove_law [OF assms] by (auto split: if_splits)

lemma remove_gone: "invar w \<Longrightarrow> remove k w = (None, w') \<Longrightarrow> objs w' = (objs w)(k := None)"
  using remove_law by blast

end

lemma full_key_suffix: "has_suffix (full_key a k) k"
  by (simp add: full_key_def has_suffix_append)

lemma full_key_inj [simp]: "full_key a k = full_key a k' \<longleftrightarrow> k = k'"
  by (simp add: full_key_def)

lemma full_key_prefix: "has_prefix x (full_key a p) \<longleftrightarrow> (\<exists>k. x = full_key a k \<and> has_prefix k p)"
  by (auto simp: full_key_def has_prefix_append)

lemma collect_pages_Inr:
  "collect_pages ps = Inr obs \<Longrightarrow>
    (\<forall>x \<in> set ps. \<not> isl x) \<and> set obs = (\<Union>x \<in> set ps. set (projr x))"
  by (induction ps arbitrary: obs rule: collect_pages.induct) (auto split: sum.splits)

lemma s3_list_keys:
  assumes "aws_ok E" "s3_list E a p w = (Inr obs, w')"
  shows "so_key ` set obs = full_key a ` {k. s3_view E a w k \<noteq> None \<and> has_prefix k p}"
proof -
  obtain ps s where ps: "aws_pages E (a_client a) (a_bucket a) (full_key a p) (s3 w) = (ps, s)"
    by fastforce
  then have c: "collect_pages ps = Inr obs" using assms(2) by (simp add: s3_list_def)
  have L: "\<forall>k. (\<exists>x \<in> set ps. \<exists>o1 \<in> set (projr x). so_key o1 = k) \<longleftrightarrow>
      aws_objs E (a_client a) (a_bucket a) (s3 w) k \<noteq> None \<and> has_prefix k (full_key a p)"
    using assms(1) ps collect_pages_Inr [OF c] unfolding aws_ok_def aws_list_ok_def by blast
  have "x \<in> so_key ` set obs \<longleftrightarrow>
      aws_objs E (a_client a) (a_bucket a) (s3 w) x \<noteq> None \<and> has_prefix x (full_key a p)" for x
  proof -
    have "x \<in> so_key ` set obs \<longleftrightarrow> (\<exists>y \<in> set ps. \<exists>o1 \<in> set (projr y). so_key o1 = x)"
      using collect_pages_Inr [OF c] by auto
    with L show ?thesis by blast
  qed
  note X = this [unfolded full_key_prefix]
  show ?thesis
  proof (rule set_eqI)
    fix x
    show "x \<in> so_key ` set obs \<longleftrightarrow>
        x \<in> full_key a ` {k. s3_view E a w k \<noteq> None \<and> has_prefix k p}"
      unfolding X s3_view_def by (auto simp del: not_None_eq)
  qed
qed

interpretation storage: object_store
  "s3_upload E a" "s3_list E a" "s3_download E a" "s3_delete E a" "full_key a" "s3_view E a"
  "\<lambda>w. aws_ok E"
  for E :: "('d, 's, 'm) env" and a
proof
  show "has_suffix (full_key a k) k" for k by (rule full_key_suffix)
next
  fix w w' :: "('d, 's, 'm) sys" and k st r n
  assume ok: "aws_ok E" and u: "s3_upload E a k st w = ((r, n), w')"
  obtain e n' s where a: "aws_upload E (a_client a) (a_bucket a) (full_key a k) st (s3 w) = ((e, n'), s)"
    by (metis prod.exhaust)
  from ok have "aws_upload_ok E" by (simp add: aws_ok_def)
  from this [unfolded aws_upload_ok_def, rule_format, OF a] u a
  show "aws_ok E \<and> (\<forall>k'. k' \<noteq> k \<longrightarrow> s3_view E a w' k' = s3_view E a w k') \<and>
      (\<forall>sz. r = Inr sz \<longrightarrow> s3_view E a w' k = Some (st_bytes st) \<and> st_read_err st = None \<and>
         n = length (st_bytes st) \<and> sz = int n)"
    using ok by (cases e) (auto simp: s3_upload_def s3_view_def)
next
  fix w w' :: "('d, 's, 'm) sys" and p r
  assume ok: "aws_ok E" and l: "s3_list E a p w = (r, w')"
  have "s3_view E a w' = s3_view E a w"
    using ok l unfolding aws_ok_def aws_list_ok_def same_objs_def s3_list_def s3_view_def
    by (fastforce split: prod.splits)
  then show "aws_ok E \<and> s3_view E a w' = s3_view E a w \<and>
      (\<forall>obs. r = Inr obs \<longrightarrow> so_key ` set obs = full_key a ` {k. s3_view E a w k \<noteq> None \<and> has_prefix k p})"
    using s3_list_keys [OF ok] l ok by auto
next
  fix w w' :: "('d, 's, 'm) sys" and k r
  assume ok: "aws_ok E" and d: "s3_download E a k w = (r, w')"
  obtain r' s where g: "aws_get E (a_client a) (a_bucket a) (full_key a k) (s3 w) = (r', s)"
    by fastforce
  from ok have "aws_get_ok E" by (simp add: aws_ok_def)
  from this [unfolded aws_get_ok_def, rule_format, OF g] d g
  show "aws_ok E \<and> s3_view E a w' = s3_view E a w \<and>
      (\<forall>st. r = Inr st \<longrightarrow>
         (\<exists>x. s3_view E a w k = Some x \<and> (st_read_err st = None \<longrightarrow> st_bytes st = x)))"
    using ok by (auto simp: s3_download_def s3_view_def same_objs_def split: sum.splits)
next
  fix w w' :: "('d, 's, 'm) sys" and k r
  assume ok: "aws_ok E" and d: "s3_delete E a k w = (r, w')"
  obtain e s where g: "aws_delete E (a_client a) (a_bucket a) (full_key a k) (s3 w) = (e, s)"
    by fastforce
  from ok have "aws_delete_ok E" by (simp add: aws_ok_def)
  from this [unfolded aws_delete_ok_def, rule_format, OF g] d g
  show "aws_ok E \<and> (s3_view E a w' = (s3_view E a w)(k := None) \<or> (r \<noteq> None \<and> s3_view E a w' = s3_view E a w))"
    using ok by (cases e) (auto simp: s3_delete_def s3_view_def fun_eq_iff)
qed

section \<open>What the adapter leaves alone\<close>

lemma s3_new_frame [frame]:
  assumes "s3_new E cfg w = (r, w')"
  shows "db w' = db w" "os w' = os w" "events w' = events w"
  using assms by (auto simp: s3_new_def split: prod.splits option.splits)

lemma s3_new_result: "s3_new E cfg w = (Inr a, w') \<Longrightarrow> a = adapter_of cfg"
  by (auto simp: s3_new_def split: prod.splits option.splits)

lemma s3_new_view:
  assumes "aws_ok E" "s3_new E cfg w = (r, w')"
  shows "s3_view E a w' = s3_view E a w"
proof -
  have "same_objs E (s3 w) (snd (aws_load E cfg (s3 w)))"
    using assms(1) by (simp add: aws_ok_def aws_quiet_ok_def)
  then show ?thesis
    using assms(2) by (auto simp: s3_new_def s3_view_def same_objs_def split: prod.splits option.splits)
qed

lemma s3_ops_frame [frame]:
  "s3_list E a p w = (rl, w') \<Longrightarrow> db w' = db w \<and> os w' = os w \<and> events w' = events w"
  "s3_download E a p w = (rd, w') \<Longrightarrow> db w' = db w \<and> os w' = os w \<and> events w' = events w"
  "s3_delete E a p w = (re, w') \<Longrightarrow> db w' = db w \<and> os w' = os w \<and> events w' = events w"
  "s3_tag E a p t w = (re, w') \<Longrightarrow> db w' = db w \<and> os w' = os w \<and> events w' = events w"
  "s3_upload E a p st w = (ru, w') \<Longrightarrow> db w' = db w \<and> os w' = os w \<and> events w' = events w"
  by (auto simp: s3_list_def s3_download_def s3_delete_def s3_tag_def s3_upload_def Let_def
      split: prod.splits sum.splits option.splits)

lemma s3_tag_view:
  assumes "aws_ok E" "s3_tag E a k t w = (r, w')"
  shows "s3_view E a w' = s3_view E a w"
proof -
  have "same_objs E (s3 w) (snd (aws_tag E (a_client a) (a_bucket a) (full_key a k)
      [(''expires'', fmt_date t), (''managed-by'', ''backiie'')] (s3 w)))"
    using assms(1) by (simp add: aws_ok_def aws_quiet_ok_def)
  then show ?thesis
    using assms(2) by (auto simp: s3_tag_def s3_view_def same_objs_def split: prod.splits)
qed

end
