(* ===== verification/Example_System.thy ===== *)
theory Example_System
  imports Repositories S3_Adapter
begin

text \<open>
  A system in the reference environment for the witnesses: stored instances and backup records, an
  S3 configuration with a path prefix, one object per record, and a clock that stands still.
\<close>

definition ex_cfg :: s3_config where
  "ex_cfg = \<lparr>c_bucket = ''bk'', c_region = ''r'', c_endpoint = '''', c_access_key = ''a'',
     c_secret_key = ''s'', c_prefix = ''pre/'', c_path_style = False\<rparr>"

definition ex_record :: "string \<Rightarrow> string \<Rightarrow> backup_type \<Rightarrow> string \<Rightarrow> time \<Rightarrow> backup_record" where
  "ex_record i f t par st =
     \<lparr>b_id = i, b_instance_id = ''i1'', b_instance_name = ''srv'', b_database = ''db'', b_file_name = f,
      b_engine = EngineSQLServer, b_type = t, b_parent = par, b_size = 0, b_hash = '''',
      b_status = StatusCompleted, b_error = '''', b_started = st, b_completed = Some st, b_expires = 0,
      b_retain_days = 3, b_duration_ms = 0\<rparr>"

definition ex_instance :: "string \<Rightarrow> engine_type \<Rightarrow> inst_rec" where
  "ex_instance n eng =
     \<lparr>i_id = ''i1'', i_name = n, i_engine = eng, i_host = ''h'', i_port = 1433, i_username = ''u'',
      i_password = ''p'', i_database = '''', i_extra = [], i_enabled = True, i_excluded = [],
      i_created = 0, i_updated = 0\<rparr>"

definition ex_sys :: "inst_rec list \<Rightarrow> backup_record list \<Rightarrow> time \<Rightarrow> (ref_db, ref_s3, ref_os) sys" where
  "ex_sys ins rs t =
     \<lparr>db = (\<lambda>b. if b = bucketBackupRecords then map (\<lambda>r. (b_id r, Json (EBackup r))) rs
               else if b = bucketS3Config then [(keyS3Config, Json (ES3Config ex_cfg))]
               else if b = bucketInstances then map (\<lambda>i. (i_id i, Json (EInstance i))) ins else []),
      s3 = \<lparr>rs_objs = map (\<lambda>r. (''pre/'' @ b_file_name r, (''x'', 0))) rs, rs_rules = []\<rparr>,
      os = \<lparr>ro_now = t, ro_next = 0, ro_dbs = [''db''], ro_dump = mem_stream ''dump'', ro_files = [], ro_handles = []\<rparr>, events = []\<rparr>"

lemma ex_record_sel [simp]:
  "b_id (ex_record i f t par st) = i" "b_instance_id (ex_record i f t par st) = ''i1''"
  "b_database (ex_record i f t par st) = ''db''" "b_file_name (ex_record i f t par st) = f"
  "b_engine (ex_record i f t par st) = EngineSQLServer" "b_type (ex_record i f t par st) = t"
  "b_parent (ex_record i f t par st) = par" "b_status (ex_record i f t par st) = StatusCompleted"
  "b_started (ex_record i f t par st) = st"
  by (simp_all add: ex_record_def)

lemma map_of_records:
  "map_of (map (\<lambda>r. (key r, con r)) rs) i = map_option con (map_of (map (\<lambda>r. (key r, r)) rs) i)"
  by (induction rs) simp_all

lemma map_of_own_key: "map_of (map (\<lambda>r. (key r, r)) rs) k = Some r \<Longrightarrow> key r = k"
  by (induction rs) (auto split: if_splits)

lemma entries_ok:
  assumes "\<And>k r. m k = Some r \<Longrightarrow> key r = k" and "\<And>r. dec (f r) = Inr r"
  shows "\<forall>k x. map_option f (m k) = Some x \<longrightarrow> (\<exists>a. dec x = Inr a \<and> key a = k)"
  using assms by auto

lemma ex_bolt_get:
  "bolt_get ref_env (db (ex_sys ins rs t)) bucketBackupRecords k =
     map_option (\<lambda>r. Json (EBackup r)) (map_of (map (\<lambda>r. (b_id r, r)) rs) k)"
  "bolt_get ref_env (db (ex_sys ins rs t)) bucketInstances k =
     map_option (\<lambda>r. Json (EInstance r)) (map_of (map (\<lambda>r. (i_id r, r)) ins) k)"
  using map_of_records [of b_id "\<lambda>r. Json (EBackup r)" rs k]
    map_of_records [of i_id "\<lambda>r. Json (EInstance r)" ins k]
  by (simp_all add: ex_sys_def ref_env_sel bucket_defs)

lemma ex_backup_view: "backup_view ref_env (ex_sys ins rs t) i = map_of (map (\<lambda>r. (b_id r, r)) rs) i"
  by (cases "map_of (map (\<lambda>r. (b_id r, r)) rs) i")
    (simp_all add: backup_view_def view_bucket_def ex_bolt_get decode_backup_def)

lemma ex_backups_wf: "backups_wf ref_env (ex_sys ins rs t)"
  unfolding backups_wf_def bucket_wf_def ex_bolt_get
  using entries_ok [of "map_of (map (\<lambda>r. (b_id r, r)) rs)" b_id decode_backup "\<lambda>r. Json (EBackup r)",
      OF map_of_own_key [of b_id rs]]
  by (simp add: decode_backup_def)

lemma ex_instance_view: "instance_view ref_env (ex_sys ins rs t) i = map_of (map (\<lambda>r. (i_id r, r)) ins) i"
  by (cases "map_of (map (\<lambda>r. (i_id r, r)) ins) i")
    (simp_all add: instance_view_def view_bucket_def ex_bolt_get decode_instance_def)

lemma ex_instances_wf: "instances_wf ref_env (ex_sys ins rs t)"
  unfolding instances_wf_def bucket_wf_def ex_bolt_get
  using entries_ok [of "map_of (map (\<lambda>r. (i_id r, r)) ins)" i_id decode_instance "\<lambda>r. Json (EInstance r)",
      OF map_of_own_key [of i_id ins]]
  by (simp add: decode_instance_def)

lemma ex_s3cfg: "s3cfg_get ref_env (ex_sys ins rs t) = Inr ex_cfg"
  by (simp add: s3cfg_get_def store_get_def ex_sys_def ref_env_sel decode_s3_config_def bucket_defs)

lemma ex_storage: "aws_load ref_env cfg s = (None, s)"
  by (simp add: ref_env_sel)

lemma ex_adapter: "a_prefix (adapter_of ex_cfg) = ''pre''"
  by (simp add: adapter_of_def ex_cfg_def trim_suffix_def has_suffix_def)

lemma ex_s3_view: "s3_view ref_env (adapter_of ex_cfg) (ex_sys ins rs t) k =
    (if k \<in> b_file_name ` set rs then Some ''x'' else None)"
proof -
  have "map_of (map (\<lambda>r. (''pre'' @ ''/'' @ b_file_name r, (''x'', 0))) rs) (''pre'' @ ''/'' @ k) =
      (if k \<in> b_file_name ` set rs then Some (''x'', 0::int) else None)"
    by (induction rs) auto
  then show ?thesis
    unfolding s3_view_def full_key_def ex_adapter ref_env_sel ex_sys_def by auto
qed

lemmas ex_views = ex_backup_view ex_backups_wf ex_instance_view ex_instances_wf ex_s3cfg ex_s3_view

text \<open>The reference environment with a clock that always reads T.\<close>

definition fixed_env :: "time \<Rightarrow> (ref_db, ref_s3, ref_os) env" where
  "fixed_env T = ref_env\<lparr>os_now := (\<lambda>m. (T, m))\<rparr>"

lemma fixed_env_now [simp]: "fst (os_now (fixed_env T) m) = T"
  by (simp add: fixed_env_def)

lemma fixed_env_ok [simp, intro]:
  "bolt_ok (fixed_env T)" "aws_ok (fixed_env T)" "range_ok (fixed_env T)"
  using bolt_ok_ref_env aws_ok_ref_env range_ok_ref_env
  by (simp_all add: fixed_env_def bolt_ok_def bolt_reads_ok_def bolt_put_ok_def bolt_delete_ok_def
      aws_ok_def aws_upload_ok_def aws_list_ok_def aws_get_ok_def aws_delete_ok_def aws_quiet_ok_def
      same_objs_def range_ok_def)

lemma fixed_env_views:
  "backup_view (fixed_env T) = backup_view ref_env" "backups_wf (fixed_env T) = backups_wf ref_env"
  "instance_view (fixed_env T) = instance_view ref_env" "instances_wf (fixed_env T) = instances_wf ref_env"
  "s3cfg_get (fixed_env T) = s3cfg_get ref_env" "s3_view (fixed_env T) = s3_view ref_env"
  using bolt_ok_ref_env fixed_env_ok(1) [of T]
  by (simp_all add: fixed_env_def fun_eq_iff backup_view_def backups_wf_def instance_view_def
      instances_wf_def view_bucket_def bucket_wf_def s3cfg_get_def store_get_def s3_view_def)

text \<open>Three fulls of one database and a log chained off the oldest.\<close>

definition ex_chain :: "backup_record list" where
  "ex_chain = [ex_record ''a'' ''a.bak'' BackupTypeFull '''' ns_per_day,
     ex_record ''b'' ''b.bak'' BackupTypeFull '''' (2 * ns_per_day),
     ex_record ''c'' ''c.bak'' BackupTypeFull '''' (3 * ns_per_day),
     ex_record ''l'' ''l.trn'' BackupTypeLog ''a'' (ns_per_day + 1)]"

end
