(* ===== verification/Retention.thy ===== *)
theory Retention
  imports Example_System
begin

text \<open>
  Deletion and retention of backups (\<open>application/usecases/backup_usecase.go\<close>):
  \<open>BackupQueryUseCase\<close> with its cascade, the date-based expiry, and the sweep of the SQL Server
  chains; \<open>RetentionUseCase\<close>.

  \<open>shrinks E a D w w'\<close> says all a deletion can do: records outside D, other buckets and
  other objects are untouched, a record of D is unchanged or marked expired, and no object appears.
  It is transitive, so one lemma per operation carries through every loop.
\<close>

section \<open>Deletion\<close>

definition delete_mark :: string where "delete_mark = ''eliminado manualmente''"

definition mark_deleted where
  "mark_deleted E rec w = br_update_status E (b_id rec) StatusExpired delete_mark w"

text \<open>
  \<open>deleteOne\<close>: without a stored S3 configuration, or when the storage cannot be opened, the
  record is marked all the same.
\<close>

definition delete_one :: "('d, 's, 'm) env \<Rightarrow> backup_record \<Rightarrow> ('d, 's, 'm) sys \<Rightarrow>
    gerr option \<times> ('d, 's, 'm) sys" where
  "delete_one E rec w =
     (if b_file_name rec = '''' then mark_deleted E rec w
      else (case s3cfg_get E w of
              Inl _ \<Rightarrow> mark_deleted E rec w
            | Inr cfg \<Rightarrow> (case s3_new E cfg w of
                (Inl _, w1) \<Rightarrow> mark_deleted E rec w1
              | (Inr a, w1) \<Rightarrow> (case s3_delete E a (b_file_name rec) w1 of
                  (Some e, w2) \<Rightarrow> (Some (WrapErr ''eliminar objeto S3: '' e ''''), w2)
                | (None, w2) \<Rightarrow> mark_deleted E rec w2))))"

fun delete_children :: "('d, 's, 'm) env \<Rightarrow> string \<Rightarrow> backup_record list \<Rightarrow> ('d, 's, 'm) sys \<Rightarrow>
    gerr option \<times> ('d, 's, 'm) sys" where
  "delete_children E rid [] w = (None, w)"
| "delete_children E rid (c # cs) w =
     (if b_parent c = rid then
        (case delete_one E c w of
           (Some e, w1) \<Rightarrow> (Some (WrapErr (''eliminar log '' @ b_id c @ '' en cascada: '') e ''''), w1)
         | (None, w1) \<Rightarrow> delete_children E rid cs w1)
      else delete_children E rid cs w)"

definition delete_backup :: "('d, 's, 'm) env \<Rightarrow> string \<Rightarrow> ('d, 's, 'm) sys \<Rightarrow>
    gerr option \<times> ('d, 's, 'm) sys" where
  "delete_backup E rid w =
     (case br_find_by_id E rid w of
        Inl e \<Rightarrow> (Some e, w)
      | Inr rec \<Rightarrow>
          if is_full rec then
            (case br_find_all E w of
               Inl e \<Rightarrow> (Some (WrapErr ''listar respaldos para cascada: '' e ''''), w)
             | Inr rs \<Rightarrow> (case delete_children E rid rs w of
                 (Some e, w1) \<Rightarrow> (Some e, w1)
               | (None, w1) \<Rightarrow> delete_one E rec w1))
          else delete_one E rec w)"

section \<open>Retention\<close>

definition retain_days_for :: "('d, 's, 'm) env \<Rightarrow> string \<Rightarrow> ('d, 's, 'm) sys \<Rightarrow> int" where
  "retain_days_for E iid w =
     (case pol_find_by_instance E iid w of
        Inr p \<Rightarrow> p_retain_days p
      | Inl _ \<Rightarrow> (case pol_find_global E w of
          Inr g \<Rightarrow> p_retain_days g
        | Inl _ \<Rightarrow> p_retain_days default_retention_policy))"

definition exists_in_s3 :: "('d, 's, 'm) env \<Rightarrow> s3_adapter \<Rightarrow> string \<Rightarrow> ('d, 's, 'm) sys \<Rightarrow>
    bool \<times> ('d, 's, 'm) sys" where
  "exists_in_s3 E a key w =
     (if key = '''' then (False, w)
      else (case s3_list E a key w of
              (Inl _, w1) \<Rightarrow> (False, w1)
            | (Inr objs, w1) \<Rightarrow> (list_ex (\<lambda>x. has_suffix (so_key x) key) objs, w1)))"

text \<open>The inner loop: how many other fulls of the group, not deleted yet, have their object.\<close>

fun count_verified :: "('d, 's, 'm) env \<Rightarrow> s3_adapter \<Rightarrow> string \<Rightarrow> string list \<Rightarrow> backup_record list \<Rightarrow>
    ('d, 's, 'm) sys \<Rightarrow> nat \<times> ('d, 's, 'm) sys" where
  "count_verified E a cand deleted [] w = (0, w)"
| "count_verified E a cand deleted (f # fs) w =
     (if b_id f = cand \<or> b_id f \<in> set deleted then count_verified E a cand deleted fs w
      else (case exists_in_s3 E a (b_file_name f) w of
              (ok, w1) \<Rightarrow> (case count_verified E a cand deleted fs w1 of
                (n, w2) \<Rightarrow> ((if ok then Suc n else n), w2))))"

text \<open>The loop over one group's candidates, oldest first; it stops at the first that must stay.\<close>

fun sweep_group :: "('d, 's, 'm) env \<Rightarrow> s3_adapter \<Rightarrow> time \<Rightarrow> backup_record list \<Rightarrow>
    backup_record list \<Rightarrow> string list \<Rightarrow> nat \<Rightarrow> ('d, 's, 'm) sys \<Rightarrow>
    (nat \<times> gerr option) \<times> ('d, 's, 'm) sys" where
  "sweep_group E a cutoff fulls [] deleted n w = ((n, None), w)"
| "sweep_group E a cutoff fulls (c # cs) deleted n w =
     (if \<not> b_started c < cutoff then ((n, None), w)
      else (case count_verified E a (b_id c) deleted fulls w of
              (v, w1) \<Rightarrow>
                if v < MinVerifiedFullBackups then ((n, None), w1)
                else (case delete_backup E (b_id c) w1 of
                        (Some e, w2) \<Rightarrow> ((n, Some e), w2)
                      | (None, w2) \<Rightarrow> sweep_group E a cutoff fulls cs (b_id c # deleted) (Suc n) w2)))"

definition sweepable :: "backup_record \<Rightarrow> bool" where
  "sweepable r = (b_engine r = EngineSQLServer \<and> is_full r \<and> b_status r = StatusCompleted)"

definition group_key :: "backup_record \<Rightarrow> string \<times> string" where
  "group_key r = (b_instance_id r, b_database r)"

definition group_of :: "backup_record list \<Rightarrow> string \<times> string \<Rightarrow> backup_record list" where
  "group_of rs k = filter (\<lambda>r. sweepable r \<and> group_key r = k) rs"

definition group_keys :: "backup_record list \<Rightarrow> (string \<times> string) list" where
  "group_keys rs = remdups (map group_key (filter sweepable rs))"

fun sweep_groups :: "('d, 's, 'm) env \<Rightarrow> s3_adapter \<Rightarrow> backup_record list \<Rightarrow>
    (string \<times> string) list \<Rightarrow> nat \<Rightarrow> gerr option \<Rightarrow> ('d, 's, 'm) sys \<Rightarrow>
    (nat \<times> gerr option) \<times> ('d, 's, 'm) sys" where
  "sweep_groups E a rs [] n err w = ((n, err), w)"
| "sweep_groups E a rs (k # ks) n err w =
     (let fulls = sort_slice E b_started (group_of rs k);
          days = retain_days_for E (fst k) w
      in case now E w of
           (t, w1) \<Rightarrow> (case sweep_group E a (add_days t (- days)) fulls fulls [] 0 w1 of
             ((m, e), w2) \<Rightarrow>
               sweep_groups E a rs ks (n + m) (if err = None then e else err) w2))"

definition apply_sqlserver_retention :: "('d, 's, 'm) env \<Rightarrow> ('d, 's, 'm) sys \<Rightarrow>
    (nat \<times> gerr option) \<times> ('d, 's, 'm) sys" where
  "apply_sqlserver_retention E w =
     (case br_find_all E w of
        Inl e \<Rightarrow> ((0, Some e), w)
      | Inr rs \<Rightarrow> (case s3cfg_get E w of
          Inl e \<Rightarrow> ((0, Some (WrapErr ''config S3: '' e '''')), w)
        | Inr cfg \<Rightarrow> (case s3_new E cfg w of
            (Inl e, w1) \<Rightarrow> ((0, Some (WrapErr ''conectar S3: '' e '''')), w1)
          | (Inr a, w1) \<Rightarrow>
              sweep_groups E a rs (map_range E (os w1) (group_keys rs)) 0 None w1)))"

fun expire_all :: "('d, 's, 'm) env \<Rightarrow> backup_record list \<Rightarrow> nat \<Rightarrow> ('d, 's, 'm) sys \<Rightarrow>
    nat \<times> ('d, 's, 'm) sys" where
  "expire_all E [] n w = (n, w)"
| "expire_all E (r # rs) n w =
     (if b_engine r = EngineSQLServer then expire_all E rs n w
      else (case delete_backup E (b_id r) w of
              (e, w1) \<Rightarrow> expire_all E rs (if e = None then Suc n else n) w1))"

definition apply_retention :: "('d, 's, 'm) env \<Rightarrow> ('d, 's, 'm) sys \<Rightarrow>
    (nat \<times> gerr option) \<times> ('d, 's, 'm) sys" where
  "apply_retention E w =
     (case br_find_expired E w of
        (Inl e, w1) \<Rightarrow> ((0, Some e), w1)
      | (Inr rs, w1) \<Rightarrow> (case expire_all E rs 0 w1 of
          (n, w2) \<Rightarrow> (case apply_sqlserver_retention E w2 of
            ((m, e), w3) \<Rightarrow> ((n + m, e), w3))))"

section \<open>The retention policies\<close>

definition retention_save where
  "retention_save E p w =
     (if p_retain_days p < 1
      then (Some (Err (''los d'' @ u_i @ ''as de retenci'' @ u_o @ ''n deben ser al menos 1'')), w)
      else (case now E w of
              (t, w1) \<Rightarrow>
                let p1 = p\<lparr>p_updated := t\<rparr>;
                    p2 = (if is_zero_time (p_created p1) then p1\<lparr>p_created := p_updated p1\<rparr> else p1)
                in pol_save E p2 w1))"

definition retention_find_all where
  "retention_find_all E w = pol_find_all E w"

definition retention_find_global :: "('d, 's, 'm) env \<Rightarrow> ('d, 's, 'm) sys \<Rightarrow> retention_policy res" where
  "retention_find_global E w =
     (case pol_find_global E w of Inl _ \<Rightarrow> Inr default_retention_policy | Inr p \<Rightarrow> Inr p)"

section \<open>What a deletion can change\<close>

definition expired_copy :: "backup_record \<Rightarrow> backup_record" where
  "expired_copy r = with_status StatusExpired delete_mark r"

definition shrinks :: "('d, 's, 'm) env \<Rightarrow> s3_config \<Rightarrow> string set \<Rightarrow> ('d, 's, 'm) sys \<Rightarrow>
    ('d, 's, 'm) sys \<Rightarrow> bool" where
  "shrinks E cfg D w w' \<longleftrightarrow>
     backups_wf E w' \<and>
     (\<forall>b. b \<noteq> bucketBackupRecords \<longrightarrow> bolt_get E (db w') b = bolt_get E (db w) b) \<and>
     (\<forall>i. backup_view E w' i = backup_view E w i \<or>
        (i \<in> D \<and> backup_view E w' i = map_option expired_copy (backup_view E w i))) \<and>
     (\<forall>k. s3_view E (adapter_of cfg) w' k = s3_view E (adapter_of cfg) w k \<or>
        (s3_view E (adapter_of cfg) w' k = None \<and> k \<noteq> '''' \<and>
         (\<exists>i \<in> D. \<exists>r. backup_view E w i = Some r \<and> b_file_name r = k)))"

lemma expired_copy_sel [simp]:
  "b_id (expired_copy r) = b_id r" "b_file_name (expired_copy r) = b_file_name r"
  "b_parent (expired_copy r) = b_parent r" "b_status (expired_copy r) = StatusExpired"
  "b_engine (expired_copy r) = b_engine r" "b_started (expired_copy r) = b_started r"
  "b_type (expired_copy r) = b_type r" "b_instance_id (expired_copy r) = b_instance_id r"
  "b_database (expired_copy r) = b_database r" "is_full (expired_copy r) = is_full r"
  "expired_copy (expired_copy r) = expired_copy r"
  by (simp_all add: expired_copy_def with_status_def is_full_def)

lemma expired_copy_map [simp]:
  "map_option expired_copy (map_option expired_copy x) = map_option expired_copy x"
  by (cases x) simp_all

lemma shrinks_refl: "backups_wf E w \<Longrightarrow> shrinks E cfg D w w"
  by (simp add: shrinks_def)

lemma shrinks_wf: "shrinks E cfg D w w' \<Longrightarrow> backups_wf E w'"
  by (simp add: shrinks_def)

lemma shrinks_bucket:
  "shrinks E cfg D w w' \<Longrightarrow> b \<noteq> bucketBackupRecords \<Longrightarrow> bolt_get E (db w') b = bolt_get E (db w) b"
  by (simp add: shrinks_def)

lemma shrinks_view:
  "shrinks E cfg D w w' \<Longrightarrow> backup_view E w' i = backup_view E w i \<or>
    (i \<in> D \<and> backup_view E w' i = map_option expired_copy (backup_view E w i))"
  by (simp add: shrinks_def)

lemma shrinks_obj:
  "shrinks E cfg D w w' \<Longrightarrow> s3_view E (adapter_of cfg) w' k = s3_view E (adapter_of cfg) w k \<or>
    (s3_view E (adapter_of cfg) w' k = None \<and> k \<noteq> '''' \<and>
     (\<exists>i \<in> D. \<exists>r. backup_view E w i = Some r \<and> b_file_name r = k))"
  by (simp add: shrinks_def)

lemma shrinks_outside:
  "shrinks E cfg D w w' \<Longrightarrow> i \<notin> D \<Longrightarrow> backup_view E w' i = backup_view E w i"
  using shrinks_view by fastforce

lemma shrinks_back:
  assumes "shrinks E cfg D w w'" "backup_view E w' i = Some r"
  shows "\<exists>q. backup_view E w i = Some q \<and> (r = q \<or> i \<in> D \<and> r = expired_copy q)"
  using shrinks_view [OF assms(1), of i] assms(2) by (cases "backup_view E w i") auto

lemma shrinks_forth:
  assumes "shrinks E cfg D w w'" "backup_view E w i = Some r"
  shows "\<exists>q. backup_view E w' i = Some q \<and> (q = r \<or> i \<in> D \<and> q = expired_copy r)"
  using shrinks_view [OF assms(1), of i] assms(2) by auto

lemma shrinks_trans:
  assumes a: "shrinks E cfg D1 w w1" and b: "shrinks E cfg D2 w1 w2"
  shows "shrinks E cfg (D1 \<union> D2) w w2"
  unfolding shrinks_def
proof (intro conjI allI impI)
  show "backups_wf E w2" using b by (rule shrinks_wf)
  show "bolt_get E (db w2) c = bolt_get E (db w) c" if "c \<noteq> bucketBackupRecords" for c
    using shrinks_bucket [OF a that] shrinks_bucket [OF b that] by simp
  show "backup_view E w2 i = backup_view E w i \<or>
      i \<in> D1 \<union> D2 \<and> backup_view E w2 i = map_option expired_copy (backup_view E w i)" for i
    using shrinks_view [OF a, of i] shrinks_view [OF b, of i] by auto
  show "s3_view E (adapter_of cfg) w2 k = s3_view E (adapter_of cfg) w k \<or>
      s3_view E (adapter_of cfg) w2 k = None \<and> k \<noteq> '''' \<and>
      (\<exists>i \<in> D1 \<union> D2. \<exists>r. backup_view E w i = Some r \<and> b_file_name r = k)" for k
  proof (cases "s3_view E (adapter_of cfg) w2 k = s3_view E (adapter_of cfg) w1 k")
    case True
    then show ?thesis using shrinks_obj [OF a, of k] by auto
  next
    case False
    with shrinks_obj [OF b, of k] obtain i r where
      i: "s3_view E (adapter_of cfg) w2 k = None" "k \<noteq> ''''" "i \<in> D2"
        "backup_view E w1 i = Some r" "b_file_name r = k" by auto
    from shrinks_back [OF a i(4)] i(5) obtain q where "backup_view E w i = Some q" "b_file_name q = k"
      by auto
    with i show ?thesis by auto
  qed
qed

lemma shrinks_mono: "shrinks E cfg D w w' \<Longrightarrow> D \<subseteq> D' \<Longrightarrow> shrinks E cfg D' w w'"
  unfolding shrinks_def by blast

lemma shrinks_s3cfg: "shrinks E cfg D w w' \<Longrightarrow> s3cfg_get E w' = s3cfg_get E w"
  by (simp add: s3cfg_get_def store_get_def shrinks_bucket bucket_defs)

lemma shrinks_no_new: "shrinks E cfg D w w' \<Longrightarrow>
    s3_view E (adapter_of cfg) w' k \<noteq> None \<Longrightarrow> s3_view E (adapter_of cfg) w k \<noteq> None"
  using shrinks_obj [of E cfg D w w' k] by auto

text \<open>A step that leaves the bolt file and the visible objects alone.\<close>

lemma shrinks_same:
  assumes "backups_wf E w" "db w' = db w" "s3_view E (adapter_of cfg) w' = s3_view E (adapter_of cfg) w"
  shows "shrinks E cfg D w w'"
  using assms by (simp add: shrinks_def backups_wf_def bucket_wf_def backup_view_def view_bucket_def)

section \<open>Every deletion shrinks\<close>

lemma mark_deleted_effect:
  assumes wf: "backups_wf E w" and m: "mark_deleted E rec w = (e, w')"
    and v: "backup_view E w (b_id rec) = Some r"
  shows "backups_wf E w' \<and> s3 w' = s3 w \<and> os w' = os w \<and>
    (\<forall>b. b \<noteq> bucketBackupRecords \<longrightarrow> bolt_get E (db w') b = bolt_get E (db w) b) \<and>
    backup_view E w' = (if e = None then (backup_view E w)(b_id rec \<mapsto> expired_copy r) else backup_view E w)"
proof -
  have g: "br_find_by_id E (b_id rec) w = Inr r"
    by (rule backups.get_some [OF wf v])
  have k: "b_id r = b_id rec" by (rule backups.view_key [OF wf v])
  have put: "store_put E bucketBackupRecords (b_id (expired_copy r)) (encode_backup (expired_copy r)) w = (e, w')"
    using m by (simp add: mark_deleted_def br_update_status_def g k expired_copy_def with_status_def)
  then have "br_save E (expired_copy r) w = (e, w')" by (simp add: br_save_def)
  from backups.put_law [OF wf this] k
  have "backups_wf E w' \<and>
    backup_view E w' = (if e = None then (backup_view E w)(b_id rec \<mapsto> expired_copy r) else backup_view E w)"
    by simp
  moreover have "bolt_ok E" using wf by (simp add: backups_wf_def bucket_wf_def)
  ultimately show ?thesis
    using store_put_frame [OF put] store_put_other_bucket [OF put] by auto
qed

text \<open>A record read earlier in a loop: the view holds it, or its expired copy.\<close>

definition tracks :: "('d, 's, 'm) env \<Rightarrow> ('d, 's, 'm) sys \<Rightarrow> backup_record \<Rightarrow> bool" where
  "tracks E w c \<longleftrightarrow> (\<exists>r. backup_view E w (b_id c) = Some r \<and> (r = c \<or> r = expired_copy c))"

lemma tracks_shrinks: "shrinks E cfg D w w' \<Longrightarrow> tracks E w c \<Longrightarrow> tracks E w' c"
  unfolding tracks_def using shrinks_forth by fastforce

lemma tracks_view: "backups_wf E w \<Longrightarrow> backup_view E w i = Some r \<Longrightarrow> tracks E w r"
  using backups.view_key by (fastforce simp: tracks_def)

lemma view_eq_s3: "s3 w' = s3 w \<Longrightarrow> s3_view E a w' = s3_view E a w"
  by (simp add: s3_view_def fun_eq_iff)

lemma view_eq_db: "db w' = db w \<Longrightarrow> backup_view E w' = backup_view E w"
  by (simp add: backup_view_def view_bucket_def fun_eq_iff)

lemma wf_eq_db: "db w' = db w \<Longrightarrow> backups_wf E w' = backups_wf E w"
  by (simp add: backups_wf_def bucket_wf_def)

lemma shrinks_from:
  assumes "shrinks E cfg D w1 w2" "db w1 = db w"
    and "s3_view E (adapter_of cfg) w1 = s3_view E (adapter_of cfg) w"
  shows "shrinks E cfg D w w2"
  using assms view_eq_db [OF assms(2)] by (simp add: shrinks_def)

lemma mark_deleted_shrinks:
  assumes "backups_wf E w" "mark_deleted E c w = (e, w')" "tracks E w c"
  shows "shrinks E cfg {b_id c} w w' \<and>
    (e = None \<longrightarrow> backup_view E w' (b_id c) = Some (expired_copy c)) \<and> s3 w' = s3 w"
proof -
  from assms(3) obtain r where r: "backup_view E w (b_id c) = Some r" "r = c \<or> r = expired_copy c"
    by (auto simp: tracks_def)
  note m = mark_deleted_effect [OF assms(1,2) r(1)]
  from m have s: "s3 w' = s3 w" by simp
  have "shrinks E cfg {b_id c} w w'"
    unfolding shrinks_def using m r(1) by (simp add: view_eq_s3 [OF s])
  moreover have "expired_copy r = expired_copy c" using r(2) by auto
  ultimately show ?thesis using m by simp
qed

text \<open>The state of a record after its deletion: expired, and its object gone.\<close>

definition deleted_in :: "('d, 's, 'm) env \<Rightarrow> s3_config \<Rightarrow> ('d, 's, 'm) sys \<Rightarrow> backup_record \<Rightarrow> bool" where
  "deleted_in E cfg w c \<longleftrightarrow> backup_view E w (b_id c) = Some (expired_copy c) \<and>
     (b_file_name c \<noteq> '''' \<longrightarrow> s3_view E (adapter_of cfg) w (b_file_name c) = None)"

text \<open>The storage of the configuration can be opened.\<close>

definition storage_opens :: "('d, 's, 'm) env \<Rightarrow> s3_config \<Rightarrow> bool" where
  "storage_opens E cfg \<longleftrightarrow> (\<forall>s. fst (aws_load E cfg s) = None)"

lemma s3_new_opens: "s3_new E cfg w = (Inl e, w') \<Longrightarrow> \<not> storage_opens E cfg"
proof
  assume n: "s3_new E cfg w = (Inl e, w')" and "storage_opens E cfg"
  then have "fst (aws_load E cfg (s3 w)) = None" by (simp add: storage_opens_def)
  then obtain s where "aws_load E cfg (s3 w) = (None, s)" by (cases "aws_load E cfg (s3 w)") auto
  with n show False by (simp add: s3_new_def)
qed

lemma deleted_in_shrinks:
  assumes "shrinks E cfg D w w'" "deleted_in E cfg w c"
  shows "deleted_in E cfg w' c"
  using shrinks_view [OF assms(1), of "b_id c"] shrinks_obj [OF assms(1), of "b_file_name c"] assms(2)
  by (auto simp: deleted_in_def)

lemma shrinks_removed:
  assumes "backups_wf E w" "db w' = db w" "backup_view E w i = Some q" "b_file_name q = k" "k \<noteq> ''''"
    and "s3_view E (adapter_of cfg) w' = (s3_view E (adapter_of cfg) w)(k := None) \<or>
      s3_view E (adapter_of cfg) w' = s3_view E (adapter_of cfg) w"
  shows "shrinks E cfg {i} w w'"
  unfolding shrinks_def view_eq_db [OF assms(2)] wf_eq_db [OF assms(2)] assms(2)
  using assms(1,3-6) by (elim disjE) simp_all

lemma delete_one_shrinks:
  assumes aws: "aws_ok E" and cfg: "s3cfg_get E w = Inr cfg" and wf: "backups_wf E w"
    and tr: "tracks E w c" and d: "delete_one E c w = (e, w')"
  shows "shrinks E cfg {b_id c} w w' \<and> (e = None \<longrightarrow> storage_opens E cfg \<longrightarrow> deleted_in E cfg w' c)"
proof (cases "b_file_name c = ''''")
  case True
  with d have m: "mark_deleted E c w = (e, w')" by (simp add: delete_one_def)
  from mark_deleted_shrinks [OF wf m tr, of cfg] True show ?thesis by (simp add: deleted_in_def)
next
  case False
  obtain ra w1 where n: "s3_new E cfg w = (ra, w1)" by fastforce
  note fr = s3_new_frame [OF n] and vw = s3_new_view [OF aws n]
  have wf1: "backups_wf E w1" and tr1: "tracks E w1 c"
    using wf tr by (simp_all add: wf_eq_db [OF fr(1)] tracks_def view_eq_db [OF fr(1)])
  show ?thesis
  proof (cases ra)
    case (Inl x)
    have m: "mark_deleted E c w1 = (e, w')" using d cfg n Inl False by (simp add: delete_one_def)
    have "shrinks E cfg {b_id c} w1 w'" using mark_deleted_shrinks [OF wf1 m tr1] by blast
    then have "shrinks E cfg {b_id c} w w'" by (rule shrinks_from [OF _ fr(1) vw])
    moreover have "\<not> storage_opens E cfg"
      using n Inl s3_new_opens by blast
    ultimately show ?thesis by simp
  next
    case (Inr a)
    then have a: "a = adapter_of cfg" using n s3_new_result by blast
    obtain e2 w2 where r: "s3_delete E a (b_file_name c) w1 = (e2, w2)" by fastforce
    note fr2 = s3_ops_frame(3) [OF r]
    note rl = storage.remove_law [OF aws r]
    from tr1 obtain q where q: "backup_view E w1 (b_id c) = Some q" "b_file_name q = b_file_name c"
      by (auto simp: tracks_def)
    have sh: "shrinks E cfg {b_id c} w1 w2"
      by (rule shrinks_removed [OF wf1 _ q False]) (use rl fr2 a in auto)
    show ?thesis
    proof (cases e2)
      case (Some y)
      with d cfg n Inr r False obtain y' where "e = Some y'" "w' = w2" by (auto simp: delete_one_def)
      with shrinks_from [OF sh fr(1) vw] show ?thesis by simp
    next
      case None
      then have m: "mark_deleted E c w2 = (e, w')"
        using d cfg n Inr r False by (simp add: delete_one_def)
      note ms = mark_deleted_shrinks [OF shrinks_wf [OF sh] m tracks_shrinks [OF sh tr1], of cfg]
      have "shrinks E cfg {b_id c} w1 w'" using shrinks_trans [OF sh conjunct1 [OF ms]] by simp
      then have "shrinks E cfg {b_id c} w w'" by (rule shrinks_from [OF _ fr(1) vw])
      moreover have "s3_view E (adapter_of cfg) w' (b_file_name c) = None"
        using rl None ms view_eq_s3 [of w' w2 E] by (simp add: a)
      ultimately show ?thesis using ms by (simp add: deleted_in_def)
    qed
  qed
qed

lemma delete_children_shrinks:
  assumes aws: "aws_ok E" and cfg: "s3cfg_get E w = Inr cfg" and wf: "backups_wf E w"
    and tr: "\<forall>c \<in> set cs. tracks E w c" and d: "delete_children E rid cs w = (e, w')"
  shows "shrinks E cfg (b_id ` {c \<in> set cs. b_parent c = rid}) w w' \<and>
    (e = None \<longrightarrow> storage_opens E cfg \<longrightarrow>
      (\<forall>c \<in> set cs. b_parent c = rid \<longrightarrow> deleted_in E cfg w' c))"
  using cfg wf tr d
proof (induction cs arbitrary: w)
  case Nil
  then show ?case by (simp add: shrinks_refl)
next
  case (Cons c cs)
  show ?case
  proof (cases "b_parent c = rid")
    case False
    then have eq: "{x \<in> set (c # cs). b_parent x = rid} = {x \<in> set cs. b_parent x = rid}" by auto
    from Cons.IH [of w] Cons.prems False show ?thesis unfolding eq by simp
  next
    case True
    obtain e1 w1 where o: "delete_one E c w = (e1, w1)" by fastforce
    note s1 = delete_one_shrinks [OF aws Cons.prems(1,2) _ o]
    have s: "shrinks E cfg {b_id c} w w1"
      and del: "e1 = None \<Longrightarrow> storage_opens E cfg \<Longrightarrow> deleted_in E cfg w1 c"
      using s1 Cons.prems(3) by auto
    show ?thesis
    proof (cases e1)
      case (Some y)
      with Cons.prems(4) True o obtain y' where "e = Some y'" "w' = w1" by auto
      moreover have "shrinks E cfg (b_id ` {x \<in> set (c # cs). b_parent x = rid}) w w1"
        by (rule shrinks_mono [OF s]) (use True in auto)
      ultimately show ?thesis by simp
    next
      case None
      with Cons.prems(4) True o have d: "delete_children E rid cs w1 = (e, w')" by simp
      have tr1: "\<forall>x \<in> set cs. tracks E w1 x" using tracks_shrinks [OF s] Cons.prems(3) by simp
      note ih = Cons.IH [OF _ shrinks_wf [OF s] tr1 d]
      have ih: "shrinks E cfg (b_id ` {x \<in> set cs. b_parent x = rid}) w1 w'"
        "e = None \<longrightarrow> storage_opens E cfg \<longrightarrow> (\<forall>x \<in> set cs. b_parent x = rid \<longrightarrow> deleted_in E cfg w' x)"
        using ih shrinks_s3cfg [OF s] Cons.prems(1) by simp_all
      have "shrinks E cfg (b_id ` {x \<in> set (c # cs). b_parent x = rid}) w w'"
        by (rule shrinks_mono [OF shrinks_trans [OF s ih(1)]]) (use True in auto)
      then show ?thesis using ih(2) del None deleted_in_shrinks [OF ih(1)] by auto
    qed
  qed
qed

text \<open>The records a deletion may touch: the record and the logs that name it as their parent.\<close>

definition cascade :: "('d, 's, 'm) env \<Rightarrow> ('d, 's, 'm) sys \<Rightarrow> string \<Rightarrow> string set" where
  "cascade E w rid = insert rid {i. \<exists>r. backup_view E w i = Some r \<and> b_parent r = rid}"

lemma all_tracks:
  assumes wf: "backups_wf E w" and al: "br_find_all E w = Inr rs"
  shows "r \<in> set rs \<Longrightarrow> tracks E w r"
    and "r \<in> set rs \<longleftrightarrow> backup_view E w (b_id r) = Some r"
    and "backup_view E w i = Some q \<Longrightarrow> q \<in> set rs \<and> b_id q = i"
proof -
  note mem = backups.all_mem [OF wf al]
  show "r \<in> set rs \<longleftrightarrow> backup_view E w (b_id r) = Some r" by (rule mem)
  then show "r \<in> set rs \<Longrightarrow> tracks E w r" by (simp add: tracks_def)
  show "backup_view E w i = Some q \<Longrightarrow> q \<in> set rs \<and> b_id q = i"
    using backups.view_key [OF wf, of i q] mem [of q] by auto
qed

lemma delete_backup_shrinks:
  assumes aws: "aws_ok E" and cfg: "s3cfg_get E w = Inr cfg" and wf: "backups_wf E w"
    and d: "delete_backup E rid w = (e, w')"
  shows "shrinks E cfg (cascade E w rid) w w'"
    and "e = None \<Longrightarrow> storage_opens E cfg \<Longrightarrow> \<exists>r. backup_view E w rid = Some r \<and> deleted_in E cfg w' r \<and>
      (is_full r \<longrightarrow> (\<forall>i c. backup_view E w i = Some c \<longrightarrow> b_parent c = rid \<longrightarrow> deleted_in E cfg w' c))"
proof -
  have "shrinks E cfg (cascade E w rid) w w' \<and>
    (e = None \<longrightarrow> storage_opens E cfg \<longrightarrow> (\<exists>r. backup_view E w rid = Some r \<and> deleted_in E cfg w' r \<and>
      (is_full r \<longrightarrow> (\<forall>i c. backup_view E w i = Some c \<longrightarrow> b_parent c = rid \<longrightarrow> deleted_in E cfg w' c))))"
  proof (cases "br_find_by_id E rid w")
    case (Inl x)
    with d shrinks_refl [OF wf] show ?thesis by (auto simp: delete_backup_def)
  next
    case (Inr r)
    then have v: "backup_view E w rid = Some r" by (simp add: backups.get_view [OF wf])
    then have id: "b_id r = rid" by (rule backups.view_key [OF wf])
    have tr: "tracks E w r" using v id by (simp add: tracks_def)
    show ?thesis
    proof (cases "is_full r")
      case False
      with d Inr have "delete_one E r w = (e, w')" by (simp add: delete_backup_def)
      from delete_one_shrinks [OF aws cfg wf tr this] id v False show ?thesis
        by (auto simp: cascade_def intro: shrinks_mono)
    next
      case True
      from backups.all_Inr [OF wf] obtain rs where al: "br_find_all E w = Inr rs" ..
      obtain e1 w1 where c: "delete_children E rid rs w = (e1, w1)" by fastforce
      have "\<forall>c \<in> set rs. tracks E w c" using all_tracks(1) [OF wf al] by blast
      note ch = delete_children_shrinks [OF aws cfg wf this c]
      have "b_id ` {c \<in> set rs. b_parent c = rid} \<subseteq> cascade E w rid"
        using all_tracks(2) [OF wf al] by (auto simp: cascade_def)
      then have s: "shrinks E cfg (cascade E w rid) w w1"
        by (rule shrinks_mono [OF conjunct1 [OF ch]])
      show ?thesis
      proof (cases e1)
        case (Some y)
        with d Inr True al c s show ?thesis by (auto simp: delete_backup_def)
      next
        case None
        with d Inr True al c have o: "delete_one E r w1 = (e, w')" by (simp add: delete_backup_def)
        have cfg1: "s3cfg_get E w1 = Inr cfg" using shrinks_s3cfg [OF s] cfg by simp
        note od = delete_one_shrinks [OF aws cfg1 shrinks_wf [OF s] tracks_shrinks [OF s tr] o]
        have "shrinks E cfg (cascade E w rid) w w'"
          by (rule shrinks_mono [OF shrinks_trans [OF s conjunct1 [OF od]]]) (auto simp: cascade_def id)
        moreover have "deleted_in E cfg w' c"
          if "e = None" "storage_opens E cfg" "backup_view E w i = Some c" "b_parent c = rid" for i c
        proof -
          have "c \<in> set rs" using all_tracks(3) [OF wf al that(3)] by simp
          then have "deleted_in E cfg w1 c" using conjunct2 [OF ch] None that(2,4) by blast
          then show ?thesis by (rule deleted_in_shrinks [OF conjunct1 [OF od]])
        qed
        moreover have "e = None \<longrightarrow> storage_opens E cfg \<longrightarrow> deleted_in E cfg w' r"
          using od by blast
        ultimately show ?thesis using v by auto
      qed
    qed
  qed
  then show "shrinks E cfg (cascade E w rid) w w'"
    and "e = None \<Longrightarrow> storage_opens E cfg \<Longrightarrow> \<exists>r. backup_view E w rid = Some r \<and> deleted_in E cfg w' r \<and>
      (is_full r \<longrightarrow> (\<forall>i c. backup_view E w i = Some c \<longrightarrow> b_parent c = rid \<longrightarrow> deleted_in E cfg w' c))"
    by blast+
qed

section \<open>The golden rule\<close>

text \<open>
  What the sweep relies on, of the records w and the bucket of cfg: identifiers are not empty; a
  full has no parent; the file name of a completed full is not empty and belongs to no other record;
  and no object key properly extends it, so that the prefix listing answers for the key itself.
\<close>

definition sweep_ready :: "('d, 's, 'm) env \<Rightarrow> s3_config \<Rightarrow> ('d, 's, 'm) sys \<Rightarrow> bool" where
  "sweep_ready E cfg w \<longleftrightarrow>
     (\<forall>i r. backup_view E w i = Some r \<longrightarrow> i \<noteq> '''' \<and> (is_full r \<longrightarrow> b_parent r = '''')) \<and>
     (\<forall>i r. backup_view E w i = Some r \<longrightarrow> sweepable r \<longrightarrow>
        b_file_name r \<noteq> '''' \<and>
        (\<forall>j q. backup_view E w j = Some q \<longrightarrow> b_file_name q = b_file_name r \<longrightarrow> j = i) \<and>
        (\<forall>k. s3_view E (adapter_of cfg) w k \<noteq> None \<longrightarrow> has_prefix k (b_file_name r) \<longrightarrow>
           k = b_file_name r))"

text \<open>The completed fulls of a group, and those whose object is still there.\<close>

definition completed_fulls :: "('d, 's, 'm) env \<Rightarrow> ('d, 's, 'm) sys \<Rightarrow> string \<times> string \<Rightarrow> backup_record set" where
  "completed_fulls E w k =
     {r. backup_view E w (b_id r) = Some r \<and> sweepable r \<and> group_key r = k}"

definition restorable_fulls :: "('d, 's, 'm) env \<Rightarrow> s3_config \<Rightarrow> ('d, 's, 'm) sys \<Rightarrow> string \<times> string \<Rightarrow>
    backup_record set" where
  "restorable_fulls E cfg w k =
     {r \<in> completed_fulls E w k. s3_view E (adapter_of cfg) w (b_file_name r) \<noteq> None}"

text \<open>A full is untouched by a change: its record and its object are the same.\<close>

definition untouched :: "('d, 's, 'm) env \<Rightarrow> s3_config \<Rightarrow> ('d, 's, 'm) sys \<Rightarrow> ('d, 's, 'm) sys \<Rightarrow>
    backup_record \<Rightarrow> bool" where
  "untouched E cfg w w' r \<longleftrightarrow>
     backup_view E w' (b_id r) = backup_view E w (b_id r) \<and>
     s3_view E (adapter_of cfg) w' (b_file_name r) = s3_view E (adapter_of cfg) w (b_file_name r)"

lemma untouched_trans:
  "untouched E cfg w w1 r \<Longrightarrow> untouched E cfg w1 w2 r \<Longrightarrow> untouched E cfg w w2 r"
  by (simp add: untouched_def)

lemma untouched_restorable:
  "untouched E cfg w w' r \<Longrightarrow> r \<in> restorable_fulls E cfg w k \<Longrightarrow> r \<in> restorable_fulls E cfg w' k"
  by (simp add: untouched_def restorable_fulls_def completed_fulls_def)

lemma sweep_readyD:
  assumes "sweep_ready E cfg w" "backup_view E w i = Some r" "sweepable r"
  shows "b_file_name r \<noteq> ''''"
    and "backup_view E w j = Some q \<Longrightarrow> b_file_name q = b_file_name r \<Longrightarrow> j = i"
    and "s3_view E (adapter_of cfg) w k \<noteq> None \<Longrightarrow> has_prefix k (b_file_name r) \<Longrightarrow> k = b_file_name r"
proof -
  have a: "b_file_name r \<noteq> '''' \<and>
      (\<forall>j q. backup_view E w j = Some q \<longrightarrow> b_file_name q = b_file_name r \<longrightarrow> j = i) \<and>
      (\<forall>k. s3_view E (adapter_of cfg) w k \<noteq> None \<longrightarrow> has_prefix k (b_file_name r) \<longrightarrow>
         k = b_file_name r)"
    using conjunct2 [OF assms(1) [unfolded sweep_ready_def], THEN spec, THEN spec, THEN mp, THEN mp,
        OF assms(2,3)] .
  show "b_file_name r \<noteq> ''''" using a by (rule conjunct1)
  show "backup_view E w j = Some q \<Longrightarrow> b_file_name q = b_file_name r \<Longrightarrow> j = i"
    using conjunct1 [OF conjunct2 [OF a]] by blast
  show "s3_view E (adapter_of cfg) w k \<noteq> None \<Longrightarrow> has_prefix k (b_file_name r) \<Longrightarrow> k = b_file_name r"
    using conjunct2 [OF conjunct2 [OF a]] by blast
qed

lemma sweep_ready_shrinks:
  assumes "sweep_ready E cfg w" "shrinks E cfg D w w'"
  shows "sweep_ready E cfg w'"
  unfolding sweep_ready_def
proof (intro conjI allI impI)
  fix i r assume v: "backup_view E w' i = Some r"
  from shrinks_back [OF assms(2) v] obtain q where
    q: "backup_view E w i = Some q" "r = q \<or> r = expired_copy q" by auto
  show "i \<noteq> ''''" using assms(1) q by (auto simp: sweep_ready_def)
  show "b_parent r = ''''" if "is_full r"
    using assms(1) q that by (auto simp: sweep_ready_def)
  assume s: "sweepable r"
  with q have rq: "r = q" by (auto simp: sweepable_def)
  show "b_file_name r \<noteq> ''''" using assms(1) q s rq by (auto simp: sweep_ready_def)
  show "j = i" if j: "backup_view E w' j = Some p" "b_file_name p = b_file_name r" for j p
  proof -
    from shrinks_back [OF assms(2) j(1)] obtain p' where
      "backup_view E w j = Some p'" "b_file_name p' = b_file_name r" using j(2) by auto
    with sweep_readyD(2) [OF assms(1) q(1)] s rq show ?thesis by simp
  qed
  show "k = b_file_name r"
    if "s3_view E (adapter_of cfg) w' k \<noteq> None" "has_prefix k (b_file_name r)" for k
    using sweep_readyD(3) [OF assms(1) q(1)] s rq that(2) shrinks_no_new [OF assms(2) that(1)] by simp
qed

text \<open>Deleting another record touches no completed full of the same system.\<close>

lemma cascade_full:
  assumes "sweep_ready E cfg w" "r \<in> completed_fulls E w k" "b_id r \<in> cascade E w c" "c \<noteq> ''''"
  shows "b_id r = c"
  using assms by (auto simp: cascade_def sweep_ready_def completed_fulls_def sweepable_def)

lemma shrinks_untouched:
  assumes rd: "sweep_ready E cfg w" and sh: "shrinks E cfg D w w'"
    and r: "r \<in> completed_fulls E w k" and n: "b_id r \<notin> D"
  shows "untouched E cfg w w' r"
proof -
  from r have v: "backup_view E w (b_id r) = Some r" and s: "sweepable r"
    by (auto simp: completed_fulls_def)
  have "s3_view E (adapter_of cfg) w' (b_file_name r) = s3_view E (adapter_of cfg) w (b_file_name r)"
  proof (rule ccontr)
    assume "\<not> ?thesis"
    with shrinks_obj [OF sh, of "b_file_name r"] obtain i q where
      "i \<in> D" "backup_view E w i = Some q" "b_file_name q = b_file_name r" by auto
    with sweep_readyD(2) [OF rd v s] have "i = b_id r" by blast
    with n \<open>i \<in> D\<close> show False by simp
  qed
  then show ?thesis using shrinks_outside [OF sh n] by (simp add: untouched_def)
qed

section \<open>The sweep\<close>

lemma exists_in_s3_sound:
  assumes aws: "aws_ok E" and e: "exists_in_s3 E a key w = (b, w')"
  shows "db w' = db w \<and> os w' = os w \<and> s3_view E a w' = s3_view E a w"
    and "(\<And>k. s3_view E a w k \<noteq> None \<Longrightarrow> has_prefix k key \<Longrightarrow> k = key) \<Longrightarrow> b \<Longrightarrow>
      s3_view E a w key \<noteq> None"
proof -
  obtain r w1 where l: "s3_list E a key w = (r, w1)" by fastforce
  note fr = s3_ops_frame(1) [OF l] and ll = storage.list_law [OF aws l]
  show "db w' = db w \<and> os w' = os w \<and> s3_view E a w' = s3_view E a w"
    using e l fr ll by (cases "key = ''''"; cases r) (auto simp: exists_in_s3_def)
  assume ext: "\<And>k. s3_view E a w k \<noteq> None \<Longrightarrow> has_prefix k key \<Longrightarrow> k = key" and b: b
  from e l b obtain obs where "r = Inr obs" "\<exists>x \<in> set obs. has_suffix (so_key x) key"
    by (cases "key = ''''"; cases r) (auto simp: exists_in_s3_def list_ex_iff)
  with l storage.listed_iff [OF aws _ ext] show "s3_view E a w key \<noteq> None" by blast
qed

lemma count_verified_sound:
  assumes aws: "aws_ok E" and rd: "sweep_ready E cfg w" and d: "distinct fs"
    and fs: "\<forall>f \<in> set fs. b_id f \<notin> set del \<longrightarrow> f \<in> completed_fulls E w k"
    and c: "count_verified E (adapter_of cfg) cand del fs w = (v, w')"
  shows "db w' = db w \<and> os w' = os w \<and> s3_view E (adapter_of cfg) w' = s3_view E (adapter_of cfg) w \<and>
    v \<le> card {f \<in> set fs. b_id f \<noteq> cand \<and> b_id f \<notin> set del \<and> f \<in> restorable_fulls E cfg w k}"
  using rd d fs c
proof (induction fs arbitrary: w v)
  case Nil
  then show ?case by simp
next
  case (Cons f fs)
  let ?a = "adapter_of cfg"
  let ?S = "\<lambda>fs w. {f \<in> set fs. b_id f \<noteq> cand \<and> b_id f \<notin> set del \<and> f \<in> restorable_fulls E cfg w k}"
  show ?case
  proof (cases "b_id f = cand \<or> b_id f \<in> set del")
    case True
    then have eq: "?S (f # fs) w = ?S fs w" by auto
    show ?thesis unfolding eq using Cons.IH [of w v] Cons.prems True by simp
  next
    case False
    obtain b w1 where e: "exists_in_s3 E ?a (b_file_name f) w = (b, w1)" by fastforce
    obtain n where r: "count_verified E ?a cand del fs w1 = (n, w')" and
      res: "(if b then Suc n else n) = v"
      using Cons.prems(4) e False by (auto split: prod.splits)
    note fr = exists_in_s3_sound(1) [OF aws e]
    from fr have d1: "db w1 = db w" and s1: "s3_view E ?a w1 = s3_view E ?a w" by simp_all
    have f: "f \<in> completed_fulls E w k" using Cons.prems(3) False by simp
    then have fv: "backup_view E w (b_id f) = Some f" and fsw: "sweepable f"
      by (auto simp: completed_fulls_def)
    have cf: "completed_fulls E w1 k = completed_fulls E w k" and rf:
      "restorable_fulls E cfg w1 k = restorable_fulls E cfg w k"
      by (simp_all add: restorable_fulls_def completed_fulls_def view_eq_db [OF d1] s1)
    have rd1: "sweep_ready E cfg w1"
      using Cons.prems(1) by (simp add: sweep_ready_def view_eq_db [OF d1] s1)
    have ih: "db w' = db w1 \<and> os w' = os w1 \<and> s3_view E ?a w' = s3_view E ?a w1 \<and> n \<le> card (?S fs w1)"
      by (rule Cons.IH [OF rd1 _ _ r]) (use Cons.prems(2,3) cf in auto)
    have "v \<le> card (?S (f # fs) w)"
    proof (cases b)
      case True
      have "s3_view E ?a w (b_file_name f) \<noteq> None"
        by (rule exists_in_s3_sound(2) [OF aws e _ True])
          (rule sweep_readyD(3) [OF Cons.prems(1) fv fsw])
      with f have "f \<in> restorable_fulls E cfg w k" by (simp add: restorable_fulls_def)
      then have "?S (f # fs) w = insert f (?S fs w)" using False by auto
      moreover have "f \<notin> ?S fs w" using Cons.prems(2) by simp
      ultimately show ?thesis using ih res True rf by simp
    next
      case False
      have "card (?S fs w) \<le> card (?S (f # fs) w)" by (rule card_mono) auto
      then show ?thesis using ih res False rf by simp
    qed
    with ih fr res show ?thesis by simp
  qed
qed

lemma finite_completed: "backups_wf E w \<Longrightarrow> finite (completed_fulls E w k)"
proof -
  assume wf: "backups_wf E w"
  from backups.all_Inr [OF wf] obtain rs where al: "br_find_all E w = Inr rs" ..
  have "completed_fulls E w k \<subseteq> set rs"
    using all_tracks(2) [OF wf al] by (auto simp: completed_fulls_def)
  then show ?thesis by (rule finite_subset) simp
qed

lemma finite_restorable: "backups_wf E w \<Longrightarrow> finite (restorable_fulls E cfg w k)"
  by (rule finite_subset [OF _ finite_completed]) (auto simp: restorable_fulls_def)

lemma cascade_shrinks: "shrinks E cfg D w w' \<Longrightarrow> cascade E w' i = cascade E w i"
proof -
  assume s: "shrinks E cfg D w w'"
  have "(\<exists>r. backup_view E w' j = Some r \<and> b_parent r = i) \<longleftrightarrow>
      (\<exists>r. backup_view E w j = Some r \<and> b_parent r = i)" for j
    using shrinks_back [OF s, of j] shrinks_forth [OF s, of j] by fastforce
  then show ?thesis by (simp add: cascade_def)
qed

text \<open>One group: only cascades of old candidates, and two restorable fulls whenever any went.\<close>

definition swept :: "('d, 's, 'm) env \<Rightarrow> ('d, 's, 'm) sys \<Rightarrow> time \<Rightarrow> backup_record list \<Rightarrow> string set" where
  "swept E w cutoff cs = (\<Union>c \<in> {c \<in> set cs. b_started c < cutoff}. cascade E w (b_id c))"

lemma sweep_group_sound:
  assumes aws: "aws_ok E" and d: "distinct fulls" and ids: "\<forall>f \<in> set fulls. b_id f \<noteq> ''''"
    and cfg: "s3cfg_get E w = Inr cfg" and wf: "backups_wf E w" and rd: "sweep_ready E cfg w"
    and fs: "\<forall>f \<in> set fulls. b_id f \<notin> set del \<longrightarrow> f \<in> completed_fulls E w k"
    and cs: "set cs \<subseteq> set fulls"
    and g: "sweep_group E (adapter_of cfg) cutoff fulls cs del n w = ((m, e), w')"
  shows "shrinks E cfg (swept E w cutoff cs) w w' \<and>
    (db w' = db w \<and> s3_view E (adapter_of cfg) w' = s3_view E (adapter_of cfg) w \<or>
     MinVerifiedFullBackups \<le> card (restorable_fulls E cfg w' k))"
  using cfg wf rd fs cs g
proof (induction cs arbitrary: del n w)
  case Nil
  then show ?case by (simp add: shrinks_refl)
next
  case (Cons c cs)
  let ?a = "adapter_of cfg"
  let ?R = "\<lambda>w. restorable_fulls E cfg w k"
  obtain v w1 where cv: "count_verified E ?a (b_id c) del fulls w = (v, w1)" by fastforce
  note cs = count_verified_sound [OF aws Cons.prems(3) d Cons.prems(4) cv]
  from cs have d1: "db w1 = db w" and s1: "s3_view E ?a w1 = s3_view E ?a w" by simp_all
  have sh1: "shrinks E cfg D w w1" for D by (rule shrinks_same [OF Cons.prems(2) d1 s1])
  have id: "b_id c \<noteq> ''''" using ids Cons.prems(5) by auto
  consider (stop) "w' = w" | (few) "w' = w1"
    | (del) "b_started c < cutoff" "MinVerifiedFullBackups \<le> v"
    using Cons.prems(6) cv by (auto split: if_splits)
  then show ?case
  proof cases
    case stop
    then show ?thesis using shrinks_refl Cons.prems(2) by simp
  next
    case few
    then show ?thesis using sh1 d1 s1 by simp
  next
    case del
    obtain x w2 where db: "delete_backup E (b_id c) w1 = (x, w2)" by fastforce
    have cfg1: "s3cfg_get E w1 = Inr cfg" using shrinks_s3cfg [OF sh1] Cons.prems(1) by simp
    have "shrinks E cfg (cascade E w1 (b_id c)) w1 w2"
      by (rule delete_backup_shrinks(1) [OF aws cfg1 shrinks_wf [OF sh1] db])
    then have "shrinks E cfg (cascade E w (b_id c)) w1 w2"
      by (simp only: cascade_shrinks [OF sh1])
    then have sh2: "shrinks E cfg (cascade E w (b_id c)) w w2" by (rule shrinks_from [OF _ d1 s1])
    have un: "untouched E cfg w w2 f" if "f \<in> completed_fulls E w k" "b_id f \<noteq> b_id c" for f
      by (rule shrinks_untouched [OF Cons.prems(3) sh2 that(1)])
        (use cascade_full [OF Cons.prems(3) that(1) _ id] that(2) in blast)
    let ?V = "{f \<in> set fulls. b_id f \<noteq> b_id c \<and> b_id f \<notin> set del \<and> f \<in> ?R w}"
    have "?V \<subseteq> ?R w2"
    proof
      fix f assume f: "f \<in> ?V"
      then have "f \<in> completed_fulls E w k" by (simp add: restorable_fulls_def)
      with un f untouched_restorable show "f \<in> ?R w2" by blast
    qed
    then have two: "MinVerifiedFullBackups \<le> card (?R w2)"
      using card_mono [OF finite_restorable [OF shrinks_wf [OF sh2]], of ?V] cs del(2) by fastforce
    have sub: "cascade E w (b_id c) \<subseteq> swept E w cutoff (c # cs)"
      using del(1) by (auto simp: swept_def)
    show ?thesis
    proof (cases x)
      case (Some y)
      then have "w' = w2" using Cons.prems(6) cv db del by simp
      with two shrinks_mono [OF sh2 sub] show ?thesis by simp
    next
      case None
      then have g: "sweep_group E ?a cutoff fulls cs (b_id c # del) (Suc n) w2 = ((m, e), w')"
        using Cons.prems(6) cv db del by simp
      have fs2: "\<forall>f \<in> set fulls. b_id f \<notin> set (b_id c # del) \<longrightarrow> f \<in> completed_fulls E w2 k"
        using Cons.prems(4) un by (auto simp: untouched_def completed_fulls_def)
      have ih: "shrinks E cfg (swept E w2 cutoff cs) w2 w' \<and>
        (db w' = db w2 \<and> s3_view E ?a w' = s3_view E ?a w2 \<or> MinVerifiedFullBackups \<le> card (?R w'))"
        by (rule Cons.IH [OF _ shrinks_wf [OF sh2] sweep_ready_shrinks [OF Cons.prems(3) sh2] fs2 _ g])
          (use Cons.prems(1,5) shrinks_s3cfg [OF sh2] in auto)
      have "swept E w2 cutoff cs \<subseteq> swept E w cutoff (c # cs)"
        by (auto simp: swept_def cascade_shrinks [OF sh2])
      then have "shrinks E cfg (swept E w cutoff (c # cs)) w w'"
        using shrinks_mono [OF shrinks_trans [OF sh2 conjunct1 [OF ih]]] sub by blast
      moreover have "?R w' = ?R w2" if "db w' = db w2" "s3_view E ?a w' = s3_view E ?a w2"
        using that by (simp add: restorable_fulls_def completed_fulls_def view_eq_db [OF that(1)])
      ultimately show ?thesis using ih two by auto
    qed
  qed
qed

text \<open>Changes made for one group leave the completed fulls of the others as they are.\<close>

lemma now_frame [frame]:
  assumes "now E w = (t, w')"
  shows "db w' = db w" "s3 w' = s3 w" "events w' = events w"
  using assms by (auto simp: now_def split: prod.splits)

lemma untouched_completed:
  "untouched E cfg w w' r \<Longrightarrow> r \<in> completed_fulls E w k \<Longrightarrow> r \<in> completed_fulls E w' k"
  by (simp add: untouched_def completed_fulls_def)

lemma retain_days_shrinks:
  assumes "shrinks E cfg D w w'"
  shows "retain_days_for E iid w' = retain_days_for E iid w"
proof -
  have "bolt_get E (db w') bucketRetention = bolt_get E (db w) bucketRetention"
    using shrinks_bucket [OF assms] by (simp add: bucket_defs)
  then have eq: "pol_find_by_instance E iid w' = pol_find_by_instance E iid w"
    "pol_find_global E w' = pol_find_global E w"
    by (simp_all add: pol_find_by_instance_def pol_find_global_def store_get_def)
  show ?thesis unfolding retain_days_for_def eq ..
qed

text \<open>
  The records retention may delete: the fulls older than their window at some reading of the
  clock, and the logs chained off them.
\<close>

definition deletable :: "('d, 's, 'm) env \<Rightarrow> ('d, 's, 'm) sys \<Rightarrow> string set" where
  "deletable E w =
     (\<Union>r \<in> {r. backup_view E w (b_id r) = Some r \<and> sweepable r \<and>
         (\<exists>m. b_started r < add_days (fst (os_now E m)) (- retain_days_for E (b_instance_id r) w))}.
       cascade E w (b_id r))"

lemma deletableI:
  assumes "backup_view E w (b_id r) = Some r" "sweepable r"
    and "b_started r < add_days (fst (os_now E m)) (- retain_days_for E (b_instance_id r) w)"
    and "i \<in> cascade E w (b_id r)"
  shows "i \<in> deletable E w"
  using assms unfolding deletable_def by blast

lemma swept_disjoint:
  assumes rd: "sweep_ready E cfg w" and cs: "\<forall>c \<in> set cs. c \<in> completed_fulls E w k"
    and r: "r \<in> completed_fulls E w k'" and k: "k' \<noteq> k"
  shows "b_id r \<notin> swept E w cutoff cs"
proof
  assume "b_id r \<in> swept E w cutoff cs"
  then obtain c where c: "c \<in> set cs" "b_id r \<in> cascade E w (b_id c)" by (auto simp: swept_def)
  with cs have cc: "c \<in> completed_fulls E w k" by blast
  with rd have "b_id c \<noteq> ''''" by (auto simp: sweep_ready_def completed_fulls_def)
  with cascade_full [OF rd r c(2)] have "b_id r = b_id c" by simp
  with cc r have "r = c" by (auto simp: completed_fulls_def)
  with cc r k show False by (auto simp: completed_fulls_def)
qed

lemma deletable_shrinks:
  assumes "shrinks E cfg D w w'"
  shows "deletable E w' \<subseteq> deletable E w"
proof
  fix i assume "i \<in> deletable E w'"
  then obtain c m where c: "backup_view E w' (b_id c) = Some c" "sweepable c"
    "b_started c < add_days (fst (os_now E m)) (- retain_days_for E (b_instance_id c) w')"
    "i \<in> cascade E w' (b_id c)"
    by (auto simp: deletable_def)
  from shrinks_back [OF assms c(1)] c(2) have "backup_view E w (b_id c) = Some c"
    by (auto simp: sweepable_def)
  with c show "i \<in> deletable E w"
    by (auto simp: deletable_def retain_days_shrinks [OF assms] cascade_shrinks [OF assms])
qed

lemma completed_shrinks: "shrinks E cfg D w w' \<Longrightarrow> completed_fulls E w' k \<subseteq> completed_fulls E w k"
  using shrinks_back by (fastforce simp: completed_fulls_def sweepable_def)

lemma restorable_grows:
  assumes "\<forall>r \<in> completed_fulls E w k. untouched E cfg w w' r" "backups_wf E w'"
  shows "card (restorable_fulls E cfg w k) \<le> card (restorable_fulls E cfg w' k)"
proof (rule card_mono [OF finite_restorable [OF assms(2)]])
  show "restorable_fulls E cfg w k \<subseteq> restorable_fulls E cfg w' k"
  proof
    fix r assume r: "r \<in> restorable_fulls E cfg w k"
    then have "r \<in> completed_fulls E w k" by (simp add: restorable_fulls_def)
    then show "r \<in> restorable_fulls E cfg w' k" using assms(1) r untouched_restorable by blast
  qed
qed

text \<open>One round of the loop over the groups.\<close>

lemma sweep_round:
  assumes aws: "aws_ok E" and cfg: "s3cfg_get E w = Inr cfg" and wf: "backups_wf E w"
    and rd: "sweep_ready E cfg w" and dF: "distinct F"
    and F: "set F = completed_fulls E w k" and nw: "now E w = (t, w1)"
    and sg: "sweep_group E (adapter_of cfg) (add_days t (- retain_days_for E (fst k) w)) F F [] 0 w1 = (x, w2)"
  shows "shrinks E cfg (deletable E w) w w2"
    and "k' \<noteq> k \<Longrightarrow> \<forall>r \<in> completed_fulls E w k'. untouched E cfg w w2 r"
    and "(\<forall>r \<in> completed_fulls E w k. untouched E cfg w w2 r) \<or>
      MinVerifiedFullBackups \<le> card (restorable_fulls E cfg w2 k)"
proof -
  let ?a = "adapter_of cfg"
  define cutoff where "cutoff = add_days t (- retain_days_for E (fst k) w)"
  note d1 = now_frame(1) [OF nw] and v1 = view_eq_s3 [OF now_frame(2) [OF nw]]
  have sh1: "shrinks E cfg D w w1" for D by (rule shrinks_same [OF wf d1 v1])
  have same1: "completed_fulls E w1 = completed_fulls E w" "cascade E w1 = cascade E w"
    using view_eq_db [OF d1, of E] by (simp_all add: completed_fulls_def cascade_def fun_eq_iff)
  have ids: "\<forall>f \<in> set F. b_id f \<noteq> ''''"
    unfolding F using rd by (auto simp: sweep_ready_def completed_fulls_def)
  obtain m e where x: "x = (m, e)" by fastforce
  have fs1: "\<forall>f \<in> set F. b_id f \<notin> set [] \<longrightarrow> f \<in> completed_fulls E w1 k" using F same1 by simp
  have cfg1: "s3cfg_get E w1 = Inr cfg" using shrinks_s3cfg [OF sh1] cfg by simp
  note g = sweep_group_sound [OF aws dF ids cfg1 shrinks_wf [OF sh1] sweep_ready_shrinks [OF rd sh1]
      fs1 subset_refl sg [unfolded x, folded cutoff_def]]
  from conjunct1 [OF g] have "shrinks E cfg (swept E w cutoff F) w1 w2"
    by (simp add: swept_def same1)
  then have sh2: "shrinks E cfg (swept E w cutoff F) w w2" by (rule shrinks_from [OF _ d1 v1])
  have t: "t = fst (os_now E (os w))" using nw by (auto simp: now_def split: prod.splits)
  have "swept E w cutoff F \<subseteq> deletable E w"
  proof
    fix i assume "i \<in> swept E w cutoff F"
    then obtain c where c: "c \<in> completed_fulls E w k" "b_started c < cutoff" "i \<in> cascade E w (b_id c)"
      unfolding swept_def F by blast
    then have "b_instance_id c = fst k" by (auto simp: completed_fulls_def group_key_def)
    with c show "i \<in> deletable E w"
      by (intro deletableI [of E w c]) (auto simp: completed_fulls_def cutoff_def t)
  qed
  with sh2 show "shrinks E cfg (deletable E w) w w2" by (rule shrinks_mono)
  show "\<forall>r \<in> completed_fulls E w k'. untouched E cfg w w2 r" if "k' \<noteq> k"
  proof
    fix r assume r: "r \<in> completed_fulls E w k'"
    have "b_id r \<notin> swept E w cutoff F"
      by (rule swept_disjoint [OF rd _ r that]) (use F in blast)
    then show "untouched E cfg w w2 r" by (rule shrinks_untouched [OF rd sh2 r])
  qed
  show "(\<forall>r \<in> completed_fulls E w k. untouched E cfg w w2 r) \<or>
      MinVerifiedFullBackups \<le> card (restorable_fulls E cfg w2 k)"
  proof (cases "db w2 = db w1 \<and> s3_view E ?a w2 = s3_view E ?a w1")
    case True
    then have "db w2 = db w" using d1 by simp
    then show ?thesis using True v1 view_eq_db [of w2 w E] by (simp add: untouched_def)
  qed (use g in blast)
qed

lemma sweep_groups_sound:
  assumes aws: "aws_ok E" and d: "distinct rs"
    and cfg: "s3cfg_get E w = Inr cfg" and wf: "backups_wf E w"
    and rd: "sweep_ready E cfg w" and ks: "distinct ks"
    and fs: "\<forall>k \<in> set ks. set (group_of rs k) = completed_fulls E w k"
    and g: "sweep_groups E (adapter_of cfg) rs ks n err w = (x, w')"
  shows "shrinks E cfg (deletable E w) w w' \<and>
    (\<forall>k. (\<forall>r \<in> completed_fulls E w k. untouched E cfg w w' r) \<or>
      k \<in> set ks \<and> MinVerifiedFullBackups \<le> card (restorable_fulls E cfg w' k))"
  using cfg wf rd ks fs g
proof (induction ks arbitrary: n err w)
  case Nil
  then show ?case by (simp add: shrinks_refl untouched_def)
next
  case (Cons k ks)
  let ?F = "sort_slice E b_started (group_of rs k)"
  let ?two = "\<lambda>w k. MinVerifiedFullBackups \<le> card (restorable_fulls E cfg w k)"
  obtain t w1 where nw: "now E w = (t, w1)" by fastforce
  obtain m1 e1 w2 where sg: "sweep_group E (adapter_of cfg) (add_days t (- retain_days_for E (fst k) w))
      ?F ?F [] 0 w1 = ((m1, e1), w2)"
    by (metis prod.exhaust)
  have rest: "sweep_groups E (adapter_of cfg) rs ks (n + m1) (if err = None then e1 else err) w2 = (x, w')"
    using Cons.prems(6) nw sg by (simp add: Let_def)
  have dF: "distinct ?F" using d by (simp add: group_of_def)
  have F: "set ?F = completed_fulls E w k" using Cons.prems(5) by simp
  note r = sweep_round [OF aws Cons.prems(1-3) dF F nw sg]
  note sh2 = r(1)
  have fs2: "\<forall>k' \<in> set ks. set (group_of rs k') = completed_fulls E w2 k'"
  proof
    fix k' assume k': "k' \<in> set ks"
    then have "k' \<noteq> k" using Cons.prems(4) by auto
    have "completed_fulls E w2 k' = completed_fulls E w k'"
      using completed_shrinks [OF sh2, of k'] r(2) [OF \<open>k' \<noteq> k\<close>] untouched_completed by blast
    then show "set (group_of rs k') = completed_fulls E w2 k'" using Cons.prems(5) k' by simp
  qed
  have cfg2: "s3cfg_get E w2 = Inr cfg" using shrinks_s3cfg [OF sh2] Cons.prems(1) by simp
  have dk: "distinct ks" using Cons.prems(4) by simp
  note ih = Cons.IH [OF cfg2 shrinks_wf [OF sh2] sweep_ready_shrinks [OF Cons.prems(3) sh2] dk fs2 rest]
  note sh3 = conjunct1 [OF ih]
  have "shrinks E cfg (deletable E w) w w'"
    by (rule shrinks_mono [OF shrinks_trans [OF sh2 sh3]]) (use deletable_shrinks [OF sh2] in blast)
  moreover have "(\<forall>r \<in> completed_fulls E w k'. untouched E cfg w w' r) \<or> k' \<in> set (k # ks) \<and> ?two w' k'" for k'
  proof -
    have ih': "(\<forall>r \<in> completed_fulls E w2 k'. untouched E cfg w2 w' r) \<or> k' \<in> set ks \<and> ?two w' k'"
      using conjunct2 [OF ih] by (rule spec)
    then consider (a) "\<forall>r \<in> completed_fulls E w2 k'. untouched E cfg w2 w' r" | (b) "k' \<in> set ks" "?two w' k'"
      by blast
    then show ?thesis
    proof cases
      case a
      have "(\<forall>r \<in> completed_fulls E w k'. untouched E cfg w w2 r) \<or> k' = k \<and> ?two w2 k'"
        using r(2) [of k'] r(3) by (cases "k' = k") simp_all
      then show ?thesis
      proof
        assume u: "\<forall>r \<in> completed_fulls E w k'. untouched E cfg w w2 r"
        have "untouched E cfg w w' q" if "q \<in> completed_fulls E w k'" for q
          using u a that untouched_completed [of E cfg w w2 q k'] untouched_trans [of E cfg w w2 q w'] by blast
        then show ?thesis by blast
      qed (use restorable_grows [OF a shrinks_wf [OF sh3]] in auto)
    qed simp
  qed
  ultimately show ?case by blast
qed

section \<open>What retention promises\<close>

lemma group_of_all:
  assumes "backups_wf E w" "br_find_all E w = Inr rs"
  shows "set (group_of rs k) = completed_fulls E w k" "distinct rs"
    and "completed_fulls E w k \<noteq> {} \<Longrightarrow> k \<in> set (group_keys rs)"
proof -
  show g: "set (group_of rs k) = completed_fulls E w k"
    using all_tracks(2) [OF assms] by (auto simp: group_of_def completed_fulls_def)
  show "distinct rs" using backups.all_distinct [OF assms] by (simp add: distinct_map)
  show "completed_fulls E w k \<noteq> {} \<Longrightarrow> k \<in> set (group_keys rs)"
    using g by (auto simp: group_of_def group_keys_def)
qed

lemma apply_sqlserver_sound:
  assumes aws: "aws_ok E" and rg: "range_ok E" and wf: "backups_wf E w"
    and cfg: "s3cfg_get E w = Inr cfg" and rd: "sweep_ready E cfg w"
    and ap: "apply_sqlserver_retention E w = (x, w')"
  shows "shrinks E cfg (deletable E w) w w' \<and>
    (\<forall>k. (\<forall>r \<in> completed_fulls E w k. untouched E cfg w w' r) \<or>
      MinVerifiedFullBackups \<le> card (restorable_fulls E cfg w' k))"
proof -
  from backups.all_Inr [OF wf] obtain rs where al: "br_find_all E w = Inr rs" ..
  obtain ra w1 where n: "s3_new E cfg w = (ra, w1)" by fastforce
  note fr = s3_new_frame [OF n] and v1 = s3_new_view [OF aws n]
  have sh1: "shrinks E cfg D w w1" for D by (rule shrinks_same [OF wf fr(1) v1])
  show ?thesis
  proof (cases ra)
    case (Inl e)
    then have "w' = w1" using ap al cfg n by (simp add: apply_sqlserver_retention_def)
    then show ?thesis using sh1 v1 view_eq_db [OF fr(1), of E] by (simp add: untouched_def)
  next
    case (Inr a)
    then have "a = adapter_of cfg" using n s3_new_result by blast
    then have g: "sweep_groups E (adapter_of cfg) rs (map_range E (os w1) (group_keys rs)) 0 None w1 = (x, w')"
      using ap al cfg n Inr by (simp add: apply_sqlserver_retention_def)
    have "mset (map_range E (os w1) (group_keys rs)) = mset (group_keys rs)"
      using rg by (simp add: range_ok_def)
    then have dk: "distinct (map_range E (os w1) (group_keys rs))"
      using mset_eq_imp_distinct_iff by (fastforce simp: group_keys_def)
    have same: "completed_fulls E w1 = completed_fulls E w" "deletable E w1 = deletable E w"
      "untouched E cfg w1 w' = untouched E cfg w w'"
      using view_eq_db [OF fr(1), of E] v1 retain_days_shrinks [OF sh1] cascade_shrinks [OF sh1]
      by (simp_all add: completed_fulls_def deletable_def untouched_def fun_eq_iff)
    have cfg1: "s3cfg_get E w1 = Inr cfg" using shrinks_s3cfg [OF sh1] cfg by simp
    have fs: "\<forall>k \<in> set (map_range E (os w1) (group_keys rs)). set (group_of rs k) = completed_fulls E w1 k"
      using group_of_all(1) [OF wf al] same(1) by simp
    note s = sweep_groups_sound [OF aws group_of_all(2) [OF wf al] cfg1 shrinks_wf [OF sh1]
        sweep_ready_shrinks [OF rd sh1] dk fs g, unfolded same]
    have "shrinks E cfg (deletable E w) w w'" by (rule shrinks_from [OF conjunct1 [OF s] fr(1) v1])
    then show ?thesis using conjunct2 [OF s] by blast
  qed
qed

text \<open>The records the date-based expiry may delete, and the logs chained off them.\<close>

definition date_expired :: "('d, 's, 'm) env \<Rightarrow> ('d, 's, 'm) sys \<Rightarrow> string set" where
  "date_expired E w =
     (\<Union>r \<in> {r. backup_view E w (b_id r) = Some r \<and> b_engine r \<noteq> EngineSQLServer \<and>
         (\<exists>m. is_expired_at (fst (os_now E m)) r)}.
       cascade E w (b_id r))"

lemma expire_all_shrinks:
  assumes aws: "aws_ok E" and cfg: "s3cfg_get E w = Inr cfg" and wf: "backups_wf E w"
    and x: "expire_all E rs n w = (m, w')"
  shows "shrinks E cfg (\<Union>r \<in> {r \<in> set rs. b_engine r \<noteq> EngineSQLServer}. cascade E w (b_id r)) w w'"
  using cfg wf x
proof (induction rs arbitrary: n w)
  case Nil
  then show ?case by (simp add: shrinks_refl)
next
  case (Cons r rs)
  let ?D = "\<lambda>rs w. \<Union>r \<in> {r \<in> set rs. b_engine r \<noteq> EngineSQLServer}. cascade E w (b_id r)"
  show ?case
  proof (cases "b_engine r = EngineSQLServer")
    case True
    then have "?D (r # rs) w = ?D rs w" by auto
    then show ?thesis using Cons True by simp
  next
    case False
    obtain e w1 where d: "delete_backup E (b_id r) w = (e, w1)" by fastforce
    note sh = delete_backup_shrinks(1) [OF aws Cons.prems(1,2) d]
    have rest: "expire_all E rs (if e = None then Suc n else n) w1 = (m, w')"
      using Cons.prems(3) False d by simp
    have "shrinks E cfg (?D rs w1) w1 w'"
      by (rule Cons.IH [OF _ shrinks_wf [OF sh] rest]) (use shrinks_s3cfg [OF sh] Cons.prems(1) in simp)
    then have "shrinks E cfg (?D rs w) w1 w'" by (simp add: cascade_shrinks [OF sh])
    then show ?thesis by (rule shrinks_mono [OF shrinks_trans [OF sh]]) (use False in auto)
  qed
qed

lemma br_find_expired_set:
  assumes wf: "backups_wf E w" and f: "br_find_expired E w = (r, w1)"
  shows "db w1 = db w \<and> s3 w1 = s3 w \<and>
    (\<exists>rs. r = Inr rs \<and> set rs = {q. backup_view E w (b_id q) = Some q \<and> is_expired_at (fst (os_now E (os w))) q})"
proof -
  obtain t w2 where n: "now E w = (t, w2)" by fastforce
  note fr = now_frame [OF n]
  have t: "t = fst (os_now E (os w))" using n by (auto simp: now_def split: prod.splits)
  have wf2: "backups_wf E w2" using wf by (simp add: wf_eq_db [OF fr(1)])
  from backups.all_Inr [OF wf2] obtain rs where al: "br_find_all E w2 = Inr rs" ..
  have "w1 = w2" "r = Inr (filter (is_expired_at t) rs)"
    using f n al by (simp_all add: br_find_expired_def store_filter_def)
  then show ?thesis
    using fr all_tracks(2) [OF wf2 al] by (auto simp: t view_eq_db [OF fr(1)])
qed

lemma apply_retention_sound:
  assumes aws: "aws_ok E" and rg: "range_ok E" and wf: "backups_wf E w"
    and cfg: "s3cfg_get E w = Inr cfg" and rd: "sweep_ready E cfg w"
    and ap: "apply_retention E w = (x, w')"
  shows "shrinks E cfg (date_expired E w \<union> deletable E w) w w'"
    and "(\<forall>r \<in> completed_fulls E w k. untouched E cfg w w' r) \<or>
      MinVerifiedFullBackups \<le> card (restorable_fulls E cfg w' k)"
proof -
  obtain r w1 where f: "br_find_expired E w = (r, w1)" by fastforce
  from br_find_expired_set [OF wf f] obtain rs where
    fr: "db w1 = db w" "s3 w1 = s3 w" and r: "r = Inr rs" and
    rs: "set rs = {q. backup_view E w (b_id q) = Some q \<and> is_expired_at (fst (os_now E (os w))) q}"
    by blast
  obtain n w2 where x1: "expire_all E rs 0 w1 = (n, w2)" by fastforce
  obtain y w3 where a2: "apply_sqlserver_retention E w2 = (y, w3)" by fastforce
  have w3: "w' = w3" using ap f r x1 a2 by (auto simp: apply_retention_def split: prod.splits)
  note v1 = view_eq_s3 [OF fr(2)]
  have sh1: "shrinks E cfg D w w1" for D by (rule shrinks_same [OF wf fr(1) v1])
  have cfg1: "s3cfg_get E w1 = Inr cfg" using shrinks_s3cfg [OF sh1] cfg by simp
  let ?D = "\<Union>r \<in> {r \<in> set rs. b_engine r \<noteq> EngineSQLServer}. cascade E w (b_id r)"
  have "shrinks E cfg ?D w1 w2"
    using expire_all_shrinks [OF aws cfg1 shrinks_wf [OF sh1] x1] by (simp add: cascade_shrinks [OF sh1])
  then have sh2: "shrinks E cfg ?D w w2" by (rule shrinks_from [OF _ fr(1) v1])
  have D: "?D \<subseteq> date_expired E w" using rs by (fastforce simp: date_expired_def)
  have cfg2: "s3cfg_get E w2 = Inr cfg" using shrinks_s3cfg [OF sh2] cfg by simp
  note s = apply_sqlserver_sound [OF aws rg shrinks_wf [OF sh2] cfg2 sweep_ready_shrinks [OF rd sh2] a2]
  show "shrinks E cfg (date_expired E w \<union> deletable E w) w w'"
    unfolding w3 by (rule shrinks_mono [OF shrinks_trans [OF sh2 conjunct1 [OF s]]])
      (use D deletable_shrinks [OF sh2] in blast)
  have un: "untouched E cfg w w2 q" if "q \<in> completed_fulls E w k" for q
  proof (rule shrinks_untouched [OF rd sh2 that])
    show "b_id q \<notin> ?D"
    proof
      assume "b_id q \<in> ?D"
      then obtain p where p: "p \<in> set rs" "b_engine p \<noteq> EngineSQLServer" "b_id q \<in> cascade E w (b_id p)"
        by blast
      with rs have pv: "backup_view E w (b_id p) = Some p" by blast
      with rd have "b_id p \<noteq> ''''" by (auto simp: sweep_ready_def)
      with cascade_full [OF rd that p(3)] have "b_id q = b_id p" by blast
      moreover have "backup_view E w (b_id q) = Some q" using that by (simp add: completed_fulls_def)
      ultimately have "q = p" using pv by (metis option.inject)
      moreover have "b_engine q = EngineSQLServer"
        using that by (simp add: completed_fulls_def sweepable_def)
      ultimately show False using p(2) by simp
    qed
  qed
  consider (a) "\<forall>q \<in> completed_fulls E w2 k. untouched E cfg w2 w' q"
    | (b) "MinVerifiedFullBackups \<le> card (restorable_fulls E cfg w' k)"
    using conjunct2 [OF s] w3 by blast
  then show "(\<forall>r \<in> completed_fulls E w k. untouched E cfg w w' r) \<or>
      MinVerifiedFullBackups \<le> card (restorable_fulls E cfg w' k)"
  proof cases
    case a
    have "untouched E cfg w w' q" if "q \<in> completed_fulls E w k" for q
      using un [OF that] a untouched_completed [OF un [OF that] that]
        untouched_trans [of E cfg w w2 q w'] by blast
    then show ?thesis by blast
  qed simp
qed

definition ready_list :: "backup_record list \<Rightarrow> bool" where
  "ready_list rs = list_all (\<lambda>r. b_id r \<noteq> '''' \<and> (is_full r \<longrightarrow> b_parent r = '''') \<and>
     (sweepable r \<longrightarrow> b_file_name r \<noteq> '''' \<and>
        list_all (\<lambda>q. (b_file_name q = b_file_name r \<longrightarrow> b_id q = b_id r) \<and>
          (has_prefix (b_file_name q) (b_file_name r) \<longrightarrow> b_file_name q = b_file_name r)) rs)) rs"

lemma ex_sweep_ready:
  assumes "ready_list rs"
  shows "sweep_ready ref_env ex_cfg (ex_sys ins rs t)"
proof -
  have v: "r \<in> set rs \<and> b_id r = i" if "backup_view ref_env (ex_sys ins rs t) i = Some r" for i r
    using that map_of_SomeD [of "map (\<lambda>r. (b_id r, r)) rs" i r] by (auto simp: ex_backup_view)
  have o: "\<exists>q \<in> set rs. k = b_file_name q"
    if "s3_view ref_env (adapter_of ex_cfg) (ex_sys ins rs t) k \<noteq> None" for k
    using that by (auto simp: ex_s3_view split: if_splits)
  note A = assms [unfolded ready_list_def list_all_iff]
  have R: "b_id r \<noteq> '''' \<and> (is_full r \<longrightarrow> b_parent r = '''')" if "r \<in> set rs" for r
    using A that by blast
  have S: "b_file_name r \<noteq> ''''" "b_file_name q = b_file_name r \<Longrightarrow> b_id q = b_id r"
    "has_prefix (b_file_name q) (b_file_name r) \<Longrightarrow> b_file_name q = b_file_name r"
    if "r \<in> set rs" "sweepable r" "q \<in> set rs" for r q
    using A that by blast+
  show ?thesis
    unfolding sweep_ready_def
  proof (intro conjI allI impI)
    fix i r assume "backup_view ref_env (ex_sys ins rs t) i = Some r"
    from v [OF this] have r: "r \<in> set rs" "b_id r = i" by simp_all
    show "i \<noteq> ''''" "is_full r \<Longrightarrow> b_parent r = ''''" using R [OF r(1)] r(2) by simp_all
    assume s: "sweepable r"
    show "b_file_name r \<noteq> ''''" by (rule S(1) [OF r(1) s r(1)])
    show "j = i" if "backup_view ref_env (ex_sys ins rs t) j = Some q" "b_file_name q = b_file_name r" for j q
      using S(2) [OF r(1) s, of q] v [OF that(1)] that(2) r(2) by simp
    show "k = b_file_name r" if "s3_view ref_env (adapter_of ex_cfg) (ex_sys ins rs t) k \<noteq> None"
      "has_prefix k (b_file_name r)" for k
      using S(3) [OF r(1) s] o [OF that(1)] that(2) by blast
  qed
qed

lemma ex_chain_ready: "sweep_ready ref_env ex_cfg (ex_sys ins ex_chain t)"
  by (rule ex_sweep_ready) code_simp

text \<open>
  C1. The golden rule of retention, for records whose keys tell them apart. Whatever \<open>ApplyRetention\<close> then does,
  including when a deletion fails half way, for every instance and database of SQL Server either no
  completed full was touched (neither its record nor its object), or at least two completed fulls are left
  whose object is in the bucket. The conditions (\<open>sweep_ready\<close>) are that an S3 configuration is stored, that no identifier
  is empty and no full has a parent, and that the key of every completed full of SQL Server is not empty, is
  the key of no other record, and is not the beginning of the key of another object. Keys are stamped to the minute, so the program
  itself can break the second last one, with two fulls of a database within a minute, and then
  the rule fails: \<open>shared_file_name_breaks_golden_rule\<close> below.
\<close>

theorem golden_rule:
  assumes "aws_ok E" and "range_ok E" and "backups_wf E w"
    and "s3cfg_get E w = Inr cfg" and "sweep_ready E cfg w"
    and "apply_retention E w = (x, w')"
  shows "(\<forall>r \<in> completed_fulls E w k. untouched E cfg w w' r) \<or>
    MinVerifiedFullBackups \<le> card (restorable_fulls E cfg w' k)"
  by (rule apply_retention_sound(2) [OF assms])

theorem golden_rule_witness:
  "fst (apply_retention ref_env (ex_sys [] ex_chain (10 * ns_per_day))) = (1, None) \<and>
   MinVerifiedFullBackups \<le> card (restorable_fulls ref_env ex_cfg
     (snd (apply_retention ref_env (ex_sys [] ex_chain (10 * ns_per_day)))) (''i1'', ''db''))"
    (is "?count \<and> ?two")
proof
  let ?w = "ex_sys [] ex_chain (10 * ns_per_day)"
  let ?a = "ex_record ''a'' ''a.bak'' BackupTypeFull '''' ns_per_day"
  show ?count by code_simp
  have "backup_view ref_env (snd (apply_retention ref_env ?w)) ''a'' = Some (expired_copy ?a)"
    by code_simp
  then have "\<not> untouched ref_env ex_cfg ?w (snd (apply_retention ref_env ?w)) ?a"
    by (simp add: untouched_def ex_backup_view ex_chain_def expired_copy_def with_status_def ex_record_def)
  moreover have "?a \<in> completed_fulls ref_env ?w (''i1'', ''db'')"
    by (simp add: completed_fulls_def ex_backup_view ex_chain_def sweepable_def is_full_def group_key_def)
  ultimately show ?two
    using golden_rule [OF aws_ok_ref_env range_ok_ref_env ex_backups_wf ex_s3cfg ex_chain_ready
        surjective_pairing, of "[]" "10 * ns_per_day" "(''i1'', ''db'')"] by blast
qed

lemma due_record:
  assumes T: "\<forall>m. fst (os_now E m) \<le> T" and i: "i \<in> date_expired E w \<union> deletable E w"
    and v: "backup_view E w i = Some q"
  shows "\<exists>r. backup_view E w (b_id r) = Some r \<and> (i = b_id r \<or> b_parent q = b_id r) \<and>
    (if b_engine r = EngineSQLServer
     then is_full r \<and> b_status r = StatusCompleted \<and>
       b_started r < add_days T (- retain_days_for E (b_instance_id r) w)
     else is_expired_at T r)"
proof -
  from i obtain r m where r: "backup_view E w (b_id r) = Some r" "i \<in> cascade E w (b_id r)"
    "(b_engine r \<noteq> EngineSQLServer \<and> is_expired_at (fst (os_now E m)) r) \<or>
     (sweepable r \<and> b_started r < add_days (fst (os_now E m)) (- retain_days_for E (b_instance_id r) w))"
    by (auto simp: date_expired_def deletable_def)
  moreover have "i = b_id r \<or> b_parent q = b_id r" using r(2) v by (auto simp: cascade_def)
  moreover have "fst (os_now E m) \<le> T" using T by blast
  ultimately show ?thesis
    by (intro exI [of _ r]) (auto simp: sweepable_def is_expired_at_def add_days_def)
qed

text \<open>
  C6. Retention deletes only what is due. Of every record that differs afterwards only the status and
  the message changed, and it is a record past its expiry date of another engine, a completed full of SQL
  Server older than the window of its instance, or a record whose parent is such a record. T bounds
  the readings of the clock. An S3 configuration is stored, and the records are those \<open>golden_rule\<close> is about
  (\<open>sweep_ready\<close>).
\<close>

theorem retention_deletes_only_due:
  assumes "aws_ok E" and "range_ok E" and "backups_wf E w"
    and "s3cfg_get E w = Inr cfg" and "sweep_ready E cfg w"
    and "apply_retention E w = (x, w')" and "\<forall>m. fst (os_now E m) \<le> T"
    and "backup_view E w' i \<noteq> backup_view E w i"
  shows "\<exists>q r. backup_view E w i = Some q \<and> backup_view E w' i = Some (expired_copy q) \<and>
    backup_view E w (b_id r) = Some r \<and> (i = b_id r \<or> b_parent q = b_id r) \<and>
    (if b_engine r = EngineSQLServer
     then is_full r \<and> b_status r = StatusCompleted \<and>
       b_started r < add_days T (- retain_days_for E (b_instance_id r) w)
     else is_expired_at T r)"
proof -
  note sh = apply_retention_sound(1) [OF assms(1-6)]
  from shrinks_view [OF sh, of i] assms(8) have i: "i \<in> date_expired E w \<union> deletable E w"
    and v: "backup_view E w' i = map_option expired_copy (backup_view E w i)" by auto
  from v assms(8) obtain q where q: "backup_view E w i = Some q"
    by (cases "backup_view E w i") auto
  from due_record [OF assms(7) i q] q v show ?thesis by auto
qed

theorem retention_deletes_only_due_witness:
  "\<exists>r. backup_view ref_env (ex_sys [] ex_chain 0) (b_id r) = Some r \<and> is_full r \<and>
     b_started r < add_days (10 * ns_per_day) (- 3)"
proof -
  let ?E = "fixed_env (10 * ns_per_day)" and ?w = "ex_sys [] ex_chain 0"
  have "backup_view ref_env (snd (apply_retention ?E ?w)) ''l'' \<noteq> backup_view ref_env ?w ''l''"
    by code_simp
  moreover have "sweep_ready ?E ex_cfg ?w"
    using ex_chain_ready by (simp add: sweep_ready_def fixed_env_views)
  ultimately obtain q r where r: "backup_view ref_env ?w (b_id r) = Some r"
    "if b_engine r = EngineSQLServer
     then is_full r \<and> b_status r = StatusCompleted \<and>
       b_started r < add_days (10 * ns_per_day) (- retain_days_for ?E (b_instance_id r) ?w)
     else is_expired_at (10 * ns_per_day) r"
    using retention_deletes_only_due [where E = ?E and w = ?w and cfg = ex_cfg and T = "10 * ns_per_day"
        and i = "''l''", OF fixed_env_ok(2,3) _ _ _ surjective_pairing]
    by (auto simp: fixed_env_views ex_backups_wf ex_s3cfg)
  have "r \<in> set ex_chain"
    using r(1) map_of_SomeD [of "map (\<lambda>r. (b_id r, r)) ex_chain" "b_id r" r] by (auto simp: ex_backup_view)
  then have "b_engine r = EngineSQLServer" "b_instance_id r = ''i1''" by (auto simp: ex_chain_def)
  moreover have "retain_days_for ?E ''i1'' ?w = 3" by code_simp
  ultimately show ?thesis using r by auto
qed

section \<open>What a deletion promises\<close>

text \<open>
  C10. While the S3 configuration can be read and the storage opened, a deletion that succeeds has marked the
  record and removed its object, has done the same to every log chained off it when it is a full, and leaves
  every other record as it was. (Otherwise the records are marked and the objects stay:
  \<open>delete_without_config_keeps_object\<close>.)
\<close>

theorem delete_cascade:
  assumes "aws_ok E" and "backups_wf E w" and "s3cfg_get E w = Inr cfg" and "storage_opens E cfg"
    and "delete_backup E rid w = (None, w')"
  shows "\<exists>r. backup_view E w rid = Some r \<and> deleted_in E cfg w' r \<and>
    (is_full r \<longrightarrow>
      (\<forall>i c. backup_view E w i = Some c \<longrightarrow> b_parent c = rid \<longrightarrow> deleted_in E cfg w' c)) \<and>
    (\<forall>i. i \<noteq> rid \<longrightarrow> (\<forall>c. backup_view E w i = Some c \<longrightarrow> b_parent c \<noteq> rid) \<longrightarrow>
      backup_view E w' i = backup_view E w i)"
proof -
  note sh = delete_backup_shrinks(1) [OF assms(1,3,2,5)]
  have "backup_view E w' i = backup_view E w i"
    if "i \<noteq> rid" "\<forall>c. backup_view E w i = Some c \<longrightarrow> b_parent c \<noteq> rid" for i
    by (rule shrinks_outside [OF sh]) (use that in \<open>auto simp: cascade_def\<close>)
  with delete_backup_shrinks(2) [OF assms(1,3,2,5) refl assms(4)] show ?thesis by blast
qed

theorem delete_cascade_witness:
  "fst (delete_backup ref_env ''a'' (ex_sys [] ex_chain 0)) = None \<and>
   deleted_in ref_env ex_cfg (snd (delete_backup ref_env ''a'' (ex_sys [] ex_chain 0)))
     (ex_record ''l'' ''l.trn'' BackupTypeLog ''a'' (ns_per_day + 1))" (is "?ok \<and> ?del")
proof
  let ?w = "ex_sys [] ex_chain 0"
  let ?w' = "snd (delete_backup ref_env ''a'' ?w)"
  show ok: ?ok by code_simp
  then have d: "delete_backup ref_env ''a'' ?w = (None, ?w')" by (simp add: prod_eq_iff)
  have o: "storage_opens ref_env ex_cfg" by (simp add: storage_opens_def ex_storage)
  from delete_cascade [OF aws_ok_ref_env ex_backups_wf ex_s3cfg o d] obtain r where
    "backup_view ref_env ?w ''a'' = Some r"
    "is_full r \<longrightarrow> (\<forall>i c. backup_view ref_env ?w i = Some c \<longrightarrow> b_parent c = ''a'' \<longrightarrow>
      deleted_in ref_env ex_cfg ?w' c)" by blast
  then show ?del
    by (auto simp: ex_backup_view ex_chain_def is_full_def dest!: spec [of _ "''l''"])
qed

lemma delete_one_error:
  assumes aws: "aws_ok E" and wf: "backups_wf E w" and tr: "tracks E w c"
    and d: "delete_one E c w = (Some e, w')"
  shows "backup_view E w' = backup_view E w"
proof -
  have m: "backup_view E w2 = backup_view E w"
    if "mark_deleted E c w1 = (Some e, w2)" "db w1 = db w" for w1 w2
  proof -
    have wf1: "backups_wf E w1" using wf wf_eq_db [OF that(2)] by simp
    have v: "backup_view E w1 = backup_view E w" by (rule view_eq_db [OF that(2)])
    with tr obtain r where "backup_view E w1 (b_id c) = Some r" by (auto simp: tracks_def)
    from mark_deleted_effect [OF wf1 that(1) this] v show ?thesis by simp
  qed
  from d m view_eq_db show ?thesis
    by (auto simp: delete_one_def split: if_splits sum.splits prod.splits option.splits
        dest!: s3_new_frame(1) s3_ops_frame(3))
qed

text \<open>
  C32. A deletion that fails leaves the record it was asked to delete as it was: the record is marked
  only after its logs and its object are gone. (With a stored S3 configuration, for a record that is not its own
  parent.)
\<close>

theorem delete_error_keeps_record:
  assumes "aws_ok E" and "backups_wf E w" and "s3cfg_get E w = Inr cfg"
    and "delete_backup E rid w = (Some e, w')"
    and "backup_view E w rid = Some r" and "b_parent r \<noteq> rid"
  shows "backup_view E w' rid = Some r"
proof -
  have g: "br_find_by_id E rid w = Inr r" by (rule backups.get_some [OF assms(2,5)])
  have id: "b_id r = rid" by (rule backups.view_key [OF assms(2,5)])
  have tr: "tracks E w r" using assms(5) id by (simp add: tracks_def)
  show ?thesis
  proof (cases "is_full r")
    case False
    with g assms(4) have "delete_one E r w = (Some e, w')" by (simp add: delete_backup_def)
    from delete_one_error [OF assms(1,2) tr this] assms(5) show ?thesis by simp
  next
    case True
    from backups.all_Inr [OF assms(2)] obtain rs where al: "br_find_all E w = Inr rs" ..
    obtain e1 w1 where c: "delete_children E rid rs w = (e1, w1)" by fastforce
    have "\<forall>c \<in> set rs. tracks E w c" using all_tracks(1) [OF assms(2) al] by blast
    note sh = conjunct1 [OF delete_children_shrinks [OF assms(1,3,2) this c]]
    have "rid \<notin> b_id ` {c \<in> set rs. b_parent c = rid}"
      using all_tracks(2) [OF assms(2) al] assms(5,6) by auto
    then have v1: "backup_view E w1 rid = Some r" using shrinks_outside [OF sh] assms(5) by simp
    show ?thesis
    proof (cases e1)
      case (Some y)
      with v1 g True al c assms(4) show ?thesis by (simp add: delete_backup_def)
    next
      case None
      with g True al c assms(4) have "delete_one E r w1 = (Some e, w')" by (simp add: delete_backup_def)
      from delete_one_error [OF assms(1) shrinks_wf [OF sh] tracks_shrinks [OF sh tr] this] v1
      show ?thesis by simp
    qed
  qed
qed

definition refusing_env :: "(ref_db, ref_s3, ref_os) env" where
  "refusing_env = ref_env\<lparr>aws_delete := (\<lambda>c b k s. (Some (Err ''AccessDenied''), s))\<rparr>"

lemma refusing_env_ok: "aws_ok refusing_env" "bolt_ok refusing_env"
  using bolt_ok_ref_env aws_ok_ref_env
  by (simp_all add: refusing_env_def bolt_ok_def bolt_reads_ok_def bolt_put_ok_def bolt_delete_ok_def
      aws_ok_def aws_upload_ok_def aws_list_ok_def aws_get_ok_def aws_delete_ok_def aws_quiet_ok_def
      same_objs_def)

lemma refusing_env_views:
  "backup_view refusing_env = backup_view ref_env" "backups_wf refusing_env = backups_wf ref_env"
  "s3cfg_get refusing_env = s3cfg_get ref_env"
  using refusing_env_ok(2) bolt_ok_ref_env
  by (simp_all add: refusing_env_def fun_eq_iff backup_view_def backups_wf_def view_bucket_def
      bucket_wf_def s3cfg_get_def store_get_def)

theorem delete_error_keeps_record_witness:
  "(case delete_backup refusing_env ''a'' (ex_sys [] ex_chain 0) of
      (e, w') \<Rightarrow> e \<noteq> None \<and> backup_view ref_env w' ''a'' = backup_view ref_env (ex_sys [] ex_chain 0) ''a'')"
proof -
  let ?w = "ex_sys [] ex_chain 0"
  have "isl (case fst (delete_backup refusing_env ''a'' ?w) of Some e \<Rightarrow> Inl e | None \<Rightarrow> Inr ())"
    by code_simp
  then obtain e w' where d: "delete_backup refusing_env ''a'' ?w = (Some e, w')"
    by (cases "delete_backup refusing_env ''a'' ?w") (auto split: option.splits)
  have v: "backup_view refusing_env ?w ''a'' = Some (ex_record ''a'' ''a.bak'' BackupTypeFull '''' ns_per_day)"
    by (simp add: refusing_env_views ex_backup_view ex_chain_def)
  have "backup_view refusing_env w' ''a'' = Some (ex_record ''a'' ''a.bak'' BackupTypeFull '''' ns_per_day)"
    by (rule delete_error_keeps_record [OF refusing_env_ok(1) _ _ d v])
      (simp_all add: refusing_env_views ex_backups_wf ex_s3cfg)
  with d v show ?thesis by (simp add: refusing_env_views)
qed

text \<open>
  Without a stored S3 configuration a deletion still succeeds: the record is marked expired and the
  object store is not asked for anything, so the object of the record stays behind.
\<close>

theorem delete_without_config_keeps_object:
  assumes "backups_wf E w" and "s3cfg_get E w = Inl e" and "backup_view E w (b_id c) = Some c"
  shows "delete_one E c w = mark_deleted E c w \<and> s3 (snd (delete_one E c w)) = s3 w \<and>
    (fst (delete_one E c w) = None \<longrightarrow>
      backup_view E (snd (delete_one E c w)) (b_id c) = Some (expired_copy c))"
proof -
  have m: "delete_one E c w = mark_deleted E c w" using assms(2) by (simp add: delete_one_def)
  from mark_deleted_effect [OF assms(1) surjective_pairing assms(3)] show ?thesis
    unfolding m by simp
qed

theorem delete_without_config_keeps_object_witness:
  "s3 (snd (delete_one ref_env (ex_record ''a'' ''a.bak'' BackupTypeFull '''' 5)
     ((ex_sys [] [ex_record ''a'' ''a.bak'' BackupTypeFull '''' 5] 0)
       \<lparr>db := (\<lambda>b. if b = bucketBackupRecords
          then [(''a'', Json (EBackup (ex_record ''a'' ''a.bak'' BackupTypeFull '''' 5)))] else [])\<rparr>))) =
   \<lparr>rs_objs = [(''pre/a.bak'', (''x'', 0))], rs_rules = []\<rparr>"
proof -
  let ?r = "ex_record ''a'' ''a.bak'' BackupTypeFull '''' 5"
  let ?w = "(ex_sys [] [?r] 0) \<lparr>db := (\<lambda>b. if b = bucketBackupRecords
    then [(''a'', Json (EBackup ?r))] else [])\<rparr>"
  have wf: "backups_wf ref_env ?w"
    by (simp add: backups_wf_def bucket_wf_def ref_env_sel decode_backup_def)
  have c: "s3cfg_get ref_env ?w = Inl s3_config_missing"
    by (simp add: s3cfg_get_def store_get_def ref_env_sel bucket_defs)
  have v: "backup_view ref_env ?w (b_id ?r) = Some ?r"
    by (simp add: backup_view_def view_bucket_def ref_env_sel decode_backup_def)
  have "s3 ?w = \<lparr>rs_objs = [(''pre/a.bak'', (''x'', 0))], rs_rules = []\<rparr>" by (simp add: ex_sys_def)
  with delete_without_config_keeps_object [OF wf c v] show ?thesis by metis
qed

section \<open>The limits of the rule\<close>

definition ex_twins :: "backup_record list" where
  "ex_twins = [ex_record ''a'' ''t.bak'' BackupTypeFull '''' ns_per_day,
     ex_record ''b'' ''t.bak'' BackupTypeFull '''' (ns_per_day + 1000000000),
     ex_record ''c'' ''c.bak'' BackupTypeFull '''' (3 * ns_per_day)]"

text \<open>
  The golden rule needs the file names to be different. When two fulls of a database share one
  (which the object key's resolution of a minute allows), deleting the older removes the object of
  the newer: of three completed fulls whose object was there, two stay completed and only one of
  those can be restored.
\<close>

theorem shared_file_name_breaks_golden_rule:
  "case apply_sqlserver_retention ref_env (ex_sys [] ex_twins (10 * ns_per_day)) of
     (x, w') \<Rightarrow> x = (1, None) \<and>
       (case br_find_all ref_env w' of
          Inl e \<Rightarrow> False
        | Inr rs \<Rightarrow>
            map b_id (filter sweepable rs) = [''b'', ''c''] \<and>
            map b_id (filter (\<lambda>r. sweepable r \<and>
              fst (exists_in_s3 ref_env (adapter_of ex_cfg) (b_file_name r) w')) rs) = [''c''])"
  by code_simp

section \<open>Policies\<close>

lemma retain_days_view:
  assumes "policies_wf E w"
  shows "retain_days_for E iid w =
    (case policy_view E w iid of Some p \<Rightarrow> p_retain_days p
     | None \<Rightarrow> (case policy_view E w keyGlobalRetention of Some p \<Rightarrow> p_retain_days p | None \<Rightarrow> 3))"
  using assms store_get_wf [of E bucketRetention decode_policy policy_key w]
  by (simp add: retain_days_for_def pol_find_by_instance_def pol_find_global_def policy_view_def
      policies_wf_def default_retention_policy_def split: option.splits)

text \<open>
  The retention the sweep uses is the one that was saved: a window below one day is refused without
  a write; a policy saved for an instance is that instance's window; the one saved without an
  instance is the window of every instance that has none of its own.
\<close>

theorem saved_policy_applies:
  assumes "policies_wf E w" and "retention_save E p w = (r, w')"
  shows "if p_retain_days p < 1 then r \<noteq> None \<and> w' = w
    else policies_wf E w' \<and> (r = None \<longrightarrow>
      (if p_instance_id p \<noteq> '''' then retain_days_for E (p_instance_id p) w' = p_retain_days p
       else (\<forall>j. policy_view E w j = None \<longrightarrow> retain_days_for E j w' = p_retain_days p)))"
proof (cases "p_retain_days p < 1")
  case True
  with assms(2) show ?thesis by (auto simp: retention_save_def)
next
  case False
  obtain t w1 where n: "now E w = (t, w1)" by fastforce
  define p2 where "p2 = (if is_zero_time (p_created p) then p\<lparr>p_updated := t, p_created := t\<rparr>
    else p\<lparr>p_updated := t\<rparr>)"
  have s: "pol_save E p2 w1 = (r, w')"
    using assms(2) n False by (simp add: retention_save_def p2_def Let_def split: if_splits)
  have sel: "p_instance_id p2 = p_instance_id p" "p_retain_days p2 = p_retain_days p"
    "policy_key p2 = policy_key p"
    by (simp_all add: p2_def policy_key_def)
  note d = now_frame(1) [OF n]
  have v: "policy_view E w1 = policy_view E w"
    by (simp add: policy_view_def view_bucket_def d fun_eq_iff)
  have wf1: "policies_wf E w1" using assms(1) by (simp add: policies_wf_def bucket_wf_def d)
  from policies.put_law [OF wf1 s] have wf': "policies_wf E w'" and
    v': "r = None \<Longrightarrow> policy_view E w' = (policy_view E w)(policy_key p \<mapsto> p2)"
    by (simp_all add: sel v)
  show ?thesis
    using False wf' v' by (auto simp: retain_days_view [OF wf'] policy_key_def sel)
qed

theorem saved_policy_applies_witness:
  "retain_days_for ref_env ''i1''
     (snd (retention_save ref_env (default_retention_policy\<lparr>p_retain_days := 9\<rparr>) (ex_sys [] [] 5))) = 9"
proof -
  let ?w = "ex_sys [] [] 5" and ?p = "default_retention_policy\<lparr>p_retain_days := 9\<rparr>"
  have wf: "policies_wf ref_env ?w"
    by (simp add: policies_wf_def bucket_wf_def ex_sys_def ref_env_sel bucket_defs)
  have n: "policy_view ref_env ?w ''i1'' = None"
    by (simp add: policy_view_def view_bucket_def ex_sys_def ref_env_sel bucket_defs)
  have r: "fst (retention_save ref_env ?p ?w) = None" by code_simp
  from saved_policy_applies [OF wf surjective_pairing, of ?p] r n
  show ?thesis by (simp add: default_retention_policy_def)
qed

end
