(* ===== verification/Adapters.thy ===== *)
theory Adapters
  imports Example_System
begin

text \<open>
  The engine adapters (\<open>adapters/database\<close>): the factory, the data sources, the listing of
  databases, and the dump and load of one database for SQL Server, MySQL and MariaDB, PostgreSQL and
  Redis. Drivers, tools and the Redis client are fields of the environment; the statements, command
  lines, object keys and the treatment of every error are the code's.

  A reader is the stream a dump yields with the way its \<open>Close\<close> looks at the processes behind
  it: the four reader types of the sources.
\<close>

section \<open>Text\<close>

text \<open>Single quote, back quote, line feed and tab.\<close>

definition sq :: string where "sq = [CHR 0x27]"
definition bq :: string where "bq = [CHR 0x60]"
definition dq :: string where "dq = [CHR 0x22]"
definition lf :: string where "lf = [CHR 0x0A]"
definition tab :: string where "tab = [CHR 0x09]"

text \<open>\<open>url.QueryEscape\<close>.\<close>

definition unreserved :: "char \<Rightarrow> bool" where
  "unreserved c = (let n = (of_char c :: nat) in
     (48 \<le> n \<and> n \<le> 57) \<or> (65 \<le> n \<and> n \<le> 90) \<or> (97 \<le> n \<and> n \<le> 122) \<or>
     c = CHR ''-'' \<or> c = CHR ''_'' \<or> c = CHR ''.'' \<or> c = CHR ''~'')"

definition hex_upper :: "nat \<Rightarrow> char" where
  "hex_upper d = (if d < 10 then char_of (48 + d) else char_of (55 + d))"

definition escape_char :: "char \<Rightarrow> string" where
  "escape_char c =
     (if unreserved c then [c]
      else if c = CHR '' '' then ''+''
      else (let n = (of_char c :: nat) in [CHR ''%'', hex_upper (n div 16), hex_upper (n mod 16)]))"

definition query_escape :: "string \<Rightarrow> string" where
  "query_escape s = concat (map escape_char s)"

text \<open>\<open>strconv.Atoi\<close>: an optional sign and decimal digits, within 64 bits.\<close>

definition is_digit :: "char \<Rightarrow> bool" where
  "is_digit c = (48 \<le> (of_char c :: nat) \<and> (of_char c :: nat) \<le> 57)"

definition digits_value :: "string \<Rightarrow> nat" where
  "digits_value s = foldl (\<lambda>n c. 10 * n + (of_char c - 48)) 0 s"

definition atoi :: "string \<Rightarrow> int option" where
  "atoi s =
     (let neg = has_prefix s ''-'';
          ds = (if neg \<or> has_prefix s ''+'' then tl s else s);
          n = (if neg then - int (digits_value ds) else int (digits_value ds))
      in if ds \<noteq> '''' \<and> list_all is_digit ds \<and> - (2 ^ 63) \<le> n \<and> n < 2 ^ 63 then Some n else None)"

text \<open>
  \<open>fmt.Sscanf (s, "%d", &n)\<close>, of which the program uses only the number: leading blanks, a sign,
  and the longest run of digits; None when nothing was scanned.
\<close>

definition sscanf_d :: "string \<Rightarrow> int option" where
  "sscanf_d s =
     (let t = dropWhile (\<lambda>c. c = CHR '' '' \<or> c = CHR 0x09 \<or> c = CHR 0x0D) s;
          sign = has_prefix t ''-'' \<or> has_prefix t ''+'';
          ds = takeWhile is_digit (if sign then tl t else t)
      in atoi (if sign then hd t # ds else ds))"

section \<open>Connections\<close>

datatype db_adapter =
    SQLServerAdapter sql_conn inst_rec
  | MySQLAdapter sql_conn inst_rec
  | PostgresAdapter sql_conn inst_rec
  | RedisAdapter redis_opts inst_rec

definition sqlserver_dsn :: "inst_rec \<Rightarrow> string" where
  "sqlserver_dsn i =
     (let cert = (case map_of (i_extra i) ''trust_cert'' of Some v \<Rightarrow> v | None \<Rightarrow> ''true'');
          tmo = (case map_of (i_extra i) ''conn_timeout_seconds'' of
                   None \<Rightarrow> 300
                 | Some v \<Rightarrow> (case atoi v of Some n \<Rightarrow> if 0 < n then n else 300 | None \<Rightarrow> 300))
      in ''sqlserver://'' @ query_escape (i_username i) @ '':'' @ query_escape (i_password i) @ ''@'' @
         i_host i @ '':'' @ show_int (i_port i) @ ''?connection+timeout='' @ show_int tmo @
         ''&trustservercertificate='' @ cert)"

definition mysql_dsn :: "inst_rec \<Rightarrow> string" where
  "mysql_dsn i =
     i_username i @ '':'' @ i_password i @ ''@tcp('' @ i_host i @ '':'' @ show_int (i_port i) @
     '')/?timeout=10s&parseTime=true''"

definition postgres_dsn :: "inst_rec \<Rightarrow> string" where
  "postgres_dsn i =
     (let dsn = ''host='' @ i_host i @ '' port='' @ show_int (i_port i) @ '' user='' @ i_username i @
        '' password='' @ i_password i @ '' sslmode=disable connect_timeout=10''
      in if i_database i \<noteq> '''' then dsn @ '' dbname='' @ i_database i else dsn)"

definition redis_options :: "inst_rec \<Rightarrow> redis_opts" where
  "redis_options i =
     \<lparr>ro_addr = i_host i @ '':'' @ show_int (i_port i),
      ro_password = (if i_password i \<noteq> '''' then i_password i else ''''),
      ro_db = (case map_of (i_extra i) ''db'' of
                 None \<Rightarrow> 0
               | Some v \<Rightarrow> (case sscanf_d v of Some n \<Rightarrow> n | None \<Rightarrow> 0))\<rparr>"

definition open_sql :: "('d, 's, 'm) env \<Rightarrow> string \<Rightarrow> string \<Rightarrow> string \<Rightarrow> (sql_conn \<Rightarrow> db_adapter) \<Rightarrow>
    ('d, 's, 'm) sys \<Rightarrow> db_adapter res \<times> ('d, 's, 'm) sys" where
  "open_sql E driver name dsn con w =
     (case sql_open E driver dsn (os w) of
        (Some e, m) \<Rightarrow> (Inl (WrapErr (''abrir conexi'' @ u_o @ ''n '' @ name @ '': '') e ''''), w\<lparr>os := m\<rparr>)
      | (None, m) \<Rightarrow> (Inr (con \<lparr>q_driver = driver, q_dsn = dsn\<rparr>), w\<lparr>os := m\<rparr>))"

text \<open>The four functions \<open>New\<close>, and the factory over them.\<close>

definition sqlserver_new :: "('d, 's, 'm) env \<Rightarrow> inst_rec \<Rightarrow> ('d, 's, 'm) sys \<Rightarrow>
    db_adapter res \<times> ('d, 's, 'm) sys" where [simp]:
  "sqlserver_new E i w =
     open_sql E ''sqlserver'' ''sqlserver'' (sqlserver_dsn i) (\<lambda>c. SQLServerAdapter c i) w"

definition mysql_new :: "('d, 's, 'm) env \<Rightarrow> inst_rec \<Rightarrow> ('d, 's, 'm) sys \<Rightarrow>
    db_adapter res \<times> ('d, 's, 'm) sys" where [simp]:
  "mysql_new E i w = open_sql E ''mysql'' ''mysql'' (mysql_dsn i) (\<lambda>c. MySQLAdapter c i) w"

definition postgres_new :: "('d, 's, 'm) env \<Rightarrow> inst_rec \<Rightarrow> ('d, 's, 'm) sys \<Rightarrow>
    db_adapter res \<times> ('d, 's, 'm) sys" where [simp]:
  "postgres_new E i w = open_sql E ''pgx'' ''postgres'' (postgres_dsn i) (\<lambda>c. PostgresAdapter c i) w"

definition redis_new :: "('d, 's, 'm) env \<Rightarrow> inst_rec \<Rightarrow> ('d, 's, 'm) sys \<Rightarrow>
    db_adapter res \<times> ('d, 's, 'm) sys" where [simp]:
  "redis_new E i w = (Inr (RedisAdapter (redis_options i) i), w\<lparr>os := redis_open E (redis_options i) (os w)\<rparr>)"

definition new_adapter :: "('d, 's, 'm) env \<Rightarrow> inst_rec \<Rightarrow> ('d, 's, 'm) sys \<Rightarrow>
    db_adapter res \<times> ('d, 's, 'm) sys" where
  "new_adapter E i w =
     (case i_engine i of
        EngineSQLServer \<Rightarrow> sqlserver_new E i w
      | EngineMySQL \<Rightarrow> mysql_new E i w
      | EngineMariaDB \<Rightarrow> mysql_new E i w
      | EnginePostgres \<Rightarrow> postgres_new E i w
      | EngineRedis \<Rightarrow> redis_new E i w
      | EngineOther s \<Rightarrow> (Inl (Err (''motor no soportado: '' @ go_quote s)), w))"

text \<open>The four methods \<open>Ping\<close>.\<close>

definition sqlserver_ping :: "('d, 's, 'm) env \<Rightarrow> sql_conn \<Rightarrow> ('d, 's, 'm) sys \<Rightarrow>
    gerr option \<times> ('d, 's, 'm) sys" where [simp]:
  "sqlserver_ping E c w = (case sql_ping E c (os w) of (e, m) \<Rightarrow> (e, w\<lparr>os := m\<rparr>))"

definition mysql_ping :: "('d, 's, 'm) env \<Rightarrow> sql_conn \<Rightarrow> ('d, 's, 'm) sys \<Rightarrow>
    gerr option \<times> ('d, 's, 'm) sys" where [simp]:
  "mysql_ping E c w = (case sql_ping E c (os w) of (e, m) \<Rightarrow> (e, w\<lparr>os := m\<rparr>))"

definition postgres_ping :: "('d, 's, 'm) env \<Rightarrow> sql_conn \<Rightarrow> ('d, 's, 'm) sys \<Rightarrow>
    gerr option \<times> ('d, 's, 'm) sys" where [simp]:
  "postgres_ping E c w = (case sql_ping E c (os w) of (e, m) \<Rightarrow> (e, w\<lparr>os := m\<rparr>))"

definition redis_adapter_ping :: "('d, 's, 'm) env \<Rightarrow> redis_opts \<Rightarrow> ('d, 's, 'm) sys \<Rightarrow>
    gerr option \<times> ('d, 's, 'm) sys" where [simp]:
  "redis_adapter_ping E c w = (case redis_ping E c (os w) of (e, m) \<Rightarrow> (e, w\<lparr>os := m\<rparr>))"

definition ad_ping :: "('d, 's, 'm) env \<Rightarrow> db_adapter \<Rightarrow> ('d, 's, 'm) sys \<Rightarrow>
    gerr option \<times> ('d, 's, 'm) sys" where
  "ad_ping E ad w =
     (case ad of
        SQLServerAdapter c i \<Rightarrow> sqlserver_ping E c w
      | MySQLAdapter c i \<Rightarrow> mysql_ping E c w
      | PostgresAdapter c i \<Rightarrow> postgres_ping E c w
      | RedisAdapter r i \<Rightarrow> redis_adapter_ping E r w)"

text \<open>The four methods \<open>Close\<close>.\<close>

definition sqlserver_close :: "('d, 's, 'm) env \<Rightarrow> sql_conn \<Rightarrow> ('d, 's, 'm) sys \<Rightarrow>
    gerr option \<times> ('d, 's, 'm) sys" where [simp]:
  "sqlserver_close E c w = (case sql_close E c (os w) of (e, m) \<Rightarrow> (e, w\<lparr>os := m\<rparr>))"

definition mysql_close :: "('d, 's, 'm) env \<Rightarrow> sql_conn \<Rightarrow> ('d, 's, 'm) sys \<Rightarrow>
    gerr option \<times> ('d, 's, 'm) sys" where [simp]:
  "mysql_close E c w = (case sql_close E c (os w) of (e, m) \<Rightarrow> (e, w\<lparr>os := m\<rparr>))"

definition postgres_close :: "('d, 's, 'm) env \<Rightarrow> sql_conn \<Rightarrow> ('d, 's, 'm) sys \<Rightarrow>
    gerr option \<times> ('d, 's, 'm) sys" where [simp]:
  "postgres_close E c w = (case sql_close E c (os w) of (e, m) \<Rightarrow> (e, w\<lparr>os := m\<rparr>))"

definition redis_adapter_close :: "('d, 's, 'm) env \<Rightarrow> redis_opts \<Rightarrow> ('d, 's, 'm) sys \<Rightarrow>
    gerr option \<times> ('d, 's, 'm) sys" where [simp]:
  "redis_adapter_close E c w = (case redis_close E c (os w) of (e, m) \<Rightarrow> (e, w\<lparr>os := m\<rparr>))"

definition ad_close :: "('d, 's, 'm) env \<Rightarrow> db_adapter \<Rightarrow> ('d, 's, 'm) sys \<Rightarrow>
    gerr option \<times> ('d, 's, 'm) sys" where
  "ad_close E ad w =
     (case ad of
        SQLServerAdapter c i \<Rightarrow> sqlserver_close E c w
      | MySQLAdapter c i \<Rightarrow> mysql_close E c w
      | PostgresAdapter c i \<Rightarrow> postgres_close E c w
      | RedisAdapter r i \<Rightarrow> redis_adapter_close E r w)"

text \<open>\<open>defer adapter.Close()\<close>: the adapter is closed when the function returns, and the error is dropped.\<close>

definition closing :: "('d, 's, 'm) env \<Rightarrow> db_adapter \<Rightarrow> 'a \<times> ('d, 's, 'm) sys \<Rightarrow> 'a \<times> ('d, 's, 'm) sys" where
  "closing E ad p = (case p of (x, w) \<Rightarrow> (x, snd (ad_close E ad w)))"

section \<open>Listing databases\<close>

definition sqlserver_list_query :: string where
  "sqlserver_list_query =
     ''SELECT name FROM sys.databases'' @ lf @ tab @ tab @
     '' WHERE name NOT IN ('' @ sq @ ''tempdb'' @ sq @ '','' @ sq @ ''model'' @ sq @ '')'' @ lf @ tab @ tab @
     ''   AND state_desc = '' @ sq @ ''ONLINE'' @ sq @ lf @ tab @ tab @ '' ORDER BY name''"

definition mysql_list_query :: string where
  "mysql_list_query =
     ''SELECT SCHEMA_NAME FROM information_schema.SCHEMATA'' @ lf @ tab @ tab @
     '' WHERE SCHEMA_NAME NOT IN ('' @ sq @ ''information_schema'' @ sq @ '','' @ sq @
     ''performance_schema'' @ sq @ '','' @ sq @ ''mysql'' @ sq @ '','' @ sq @ ''sys'' @ sq @ '')'' @
     lf @ tab @ tab @ '' ORDER BY SCHEMA_NAME''"

definition postgres_list_query :: string where
  "postgres_list_query =
     ''SELECT datname FROM pg_database WHERE datistemplate = false AND datname NOT IN ('' @ sq @
     ''postgres'' @ sq @ '') ORDER BY datname''"

text \<open>\<open>splitLines\<close> and \<open>splitColon\<close> of the Redis adapter.\<close>

definition strip_cr :: "string \<Rightarrow> string" where
  "strip_cr l = (if l \<noteq> [] \<and> last l = CHR 0x0D then butlast l else l)"

lemma dropWhile_shorter: "dropWhile P s = c # rest \<Longrightarrow> length rest < length s"
  using length_dropWhile_le [of P s] by auto

function split_lines :: "string \<Rightarrow> string list" where
  "split_lines s =
     (case dropWhile (\<lambda>c. c \<noteq> CHR 0x0A) s of
        [] \<Rightarrow> (if s = [] then [] else [s])
      | _ # rest \<Rightarrow> strip_cr (takeWhile (\<lambda>c. c \<noteq> CHR 0x0A) s) # split_lines rest)"
  by auto
termination
  by (relation "measure length") (auto dest: dropWhile_shorter)

declare split_lines.simps [simp del]

definition split_colon :: "string \<Rightarrow> string list" where
  "split_colon s =
     (case dropWhile (\<lambda>c. c \<noteq> CHR '':'') s of
        [] \<Rightarrow> [s]
      | _ # rest \<Rightarrow> [takeWhile (\<lambda>c. c \<noteq> CHR '':'') s, rest])"

definition redis_databases :: "string \<Rightarrow> string list" where
  "redis_databases info =
     (let dbs = [hd (split_colon l). l \<leftarrow> split_lines info, 2 < length l \<and> has_prefix l ''db'']
      in if dbs = [] then [''db0''] else dbs)"

definition sqlserver_databases :: "('d, 's, 'm) env \<Rightarrow> sql_conn \<Rightarrow> ('d, 's, 'm) sys \<Rightarrow>
    string list res \<times> ('d, 's, 'm) sys" where [simp]:
  "sqlserver_databases E c w = (case sql_query E c sqlserver_list_query [] (os w) of (r, m) \<Rightarrow> (r, w\<lparr>os := m\<rparr>))"

definition mysql_databases :: "('d, 's, 'm) env \<Rightarrow> sql_conn \<Rightarrow> ('d, 's, 'm) sys \<Rightarrow>
    string list res \<times> ('d, 's, 'm) sys" where [simp]:
  "mysql_databases E c w = (case sql_query E c mysql_list_query [] (os w) of (r, m) \<Rightarrow> (r, w\<lparr>os := m\<rparr>))"

definition postgres_databases :: "('d, 's, 'm) env \<Rightarrow> sql_conn \<Rightarrow> ('d, 's, 'm) sys \<Rightarrow>
    string list res \<times> ('d, 's, 'm) sys" where [simp]:
  "postgres_databases E c w = (case sql_query E c postgres_list_query [] (os w) of (r, m) \<Rightarrow> (r, w\<lparr>os := m\<rparr>))"

definition redis_list_databases :: "('d, 's, 'm) env \<Rightarrow> redis_opts \<Rightarrow> ('d, 's, 'm) sys \<Rightarrow>
    string list res \<times> ('d, 's, 'm) sys" where [simp]:
  "redis_list_databases E r w =
     (case redis_info E r (os w) of
        (Inl e, m) \<Rightarrow> (Inl e, w\<lparr>os := m\<rparr>)
      | (Inr info, m) \<Rightarrow> (Inr (redis_databases info), w\<lparr>os := m\<rparr>))"

definition list_databases :: "('d, 's, 'm) env \<Rightarrow> db_adapter \<Rightarrow> ('d, 's, 'm) sys \<Rightarrow>
    string list res \<times> ('d, 's, 'm) sys" where
  "list_databases E ad w =
     (case ad of
        SQLServerAdapter c i \<Rightarrow> sqlserver_databases E c w
      | MySQLAdapter c i \<Rightarrow> mysql_databases E c w
      | PostgresAdapter c i \<Rightarrow> postgres_databases E c w
      | RedisAdapter r i \<Rightarrow> redis_list_databases E r w)"

section \<open>Readers\<close>

datatype reader =
    DockerReader stream string string
  | PipeReader stream
  | CmdReader stream
  | NopReader stream

fun reader_stream :: "reader \<Rightarrow> stream" where
  "reader_stream (DockerReader st c p) = st"
| "reader_stream (PipeReader st) = st"
| "reader_stream (CmdReader st) = st"
| "reader_stream (NopReader st) = st"

definition plain_cmd :: "string list \<Rightarrow> command" where
  "plain_cmd args = \<lparr>cmd_env = [], cmd_args = args\<rparr>"

text \<open>A process run for its effect, its error and output discarded.\<close>

definition run_ignored :: "('d, 's, 'm) env \<Rightarrow> string list \<Rightarrow> ('d, 's, 'm) sys \<Rightarrow> ('d, 's, 'm) sys" where
  "run_ignored E args w = (case cmd_run E (plain_cmd args) (mem_stream '''') (os w) of (r, m) \<Rightarrow> w\<lparr>os := m\<rparr>)"

text \<open>
  \<open>Close\<close>: the pipes of MySQL keep the first error among the close and the exits, the command
  of PostgreSQL adds what it wrote to standard error, the Docker reader drops the exit of
  \<open>cat\<close> and removes the file in the container.
\<close>

fun first_error :: "gerr option \<Rightarrow> gerr option list \<Rightarrow> gerr option" where
  "first_error e [] = e"
| "first_error e (x # xs) = first_error (if x \<noteq> None \<and> e = None then x else e) xs"

definition docker_close :: "('d, 's, 'm) env \<Rightarrow> stream \<Rightarrow> string \<Rightarrow> string \<Rightarrow> ('d, 's, 'm) sys \<Rightarrow>
    gerr option \<times> ('d, 's, 'm) sys" where [simp]:
  "docker_close E st c p w = (st_close_err st, run_ignored E [''docker'', ''exec'', c, ''rm'', ''-f'', p] w)"

definition pipe_close :: "stream \<Rightarrow> gerr option" where [simp]:
  "pipe_close st = first_error (st_close_err st) (st_wait_errs st)"

definition cmd_close :: "stream \<Rightarrow> gerr option" where [simp]:
  "cmd_close st =
     (case first_error None (st_wait_errs st) of
        Some we \<Rightarrow>
          (if st_close_err st = None
           then (let msg = trim_space (st_stderr st)
                 in Some (if msg \<noteq> '''' then WrapErr '''' we ('': '' @ msg) else we))
           else st_close_err st)
      | None \<Rightarrow> st_close_err st)"

definition reader_close :: "('d, 's, 'm) env \<Rightarrow> reader \<Rightarrow> ('d, 's, 'm) sys \<Rightarrow>
    gerr option \<times> ('d, 's, 'm) sys" where
  "reader_close E rd w =
     (case rd of
        DockerReader st c p \<Rightarrow> docker_close E st c p w
      | PipeReader st \<Rightarrow> (pipe_close st, w)
      | CmdReader st \<Rightarrow> (cmd_close st, w)
      | NopReader st \<Rightarrow> (None, w))"

section \<open>Object keys\<close>

definition object_key :: "inst_rec \<Rightarrow> string \<Rightarrow> string \<Rightarrow> time \<Rightarrow> string" where
  "object_key i dbn ext t =
     engine_str EngineSQLServer @ ''/'' @ i_name i @ ''/'' @ dbn @ ''/'' @ dbn @ ''_'' @ stamp_minute t @
     ''.'' @ ext"

definition dump_key :: "engine_type \<Rightarrow> inst_rec \<Rightarrow> string \<Rightarrow> string \<Rightarrow> time \<Rightarrow> string" where
  "dump_key eng i dbn ext t =
     engine_str eng @ ''/'' @ i_name i @ ''/'' @ dbn @ ''_'' @ stamp_second t @ ''.'' @ ext"

section \<open>SQL Server\<close>

definition first_name :: "string \<Rightarrow> string option" where
  "first_name out =
     (case split_on (CHR 0x0A) (trim_space out) of
        [] \<Rightarrow> None | n # _ \<Rightarrow> (if n \<noteq> '''' then Some n else None))"

definition docker_ps :: "string \<Rightarrow> command" where
  "docker_ps filt =
     plain_cmd [''sh'', ''-c'', ''docker ps --format '' @ sq @ ''{{.Names}}'' @ sq @ '' --filter '' @ filt]"

definition no_container :: gerr where
  "no_container = Err (''no se encontr'' @ u_o @ '' el contenedor de docker para sql server'')"

definition find_docker_container :: "('d, 's, 'm) env \<Rightarrow> int \<Rightarrow> ('d, 's, 'm) sys \<Rightarrow>
    string res \<times> ('d, 's, 'm) sys" where
  "find_docker_container E port w =
     (case cmd_output E (docker_ps (''publish='' @ show_int port)) (os w) of ((e1, out1), m1) \<Rightarrow>
        (case (if e1 = None then first_name out1 else None) of
           Some n \<Rightarrow> (Inr n, w\<lparr>os := m1\<rparr>)
         | None \<Rightarrow>
             (case cmd_output E (docker_ps ''ancestor=mcr.microsoft.com/mssql/server:2025-latest'') m1 of
                ((e2, out2), m2) \<Rightarrow>
                  (case (if e2 = None then first_name out2 else None) of
                     Some n \<Rightarrow> (Inr n, w\<lparr>os := m2\<rparr>)
                   | None \<Rightarrow>
                       (case cmd_output E (docker_ps ''ancestor=mcr.microsoft.com/mssql/server'') m2 of
                          ((e3, out3), m3) \<Rightarrow>
                            (case first_name out3 of
                               Some n \<Rightarrow> (Inr n, w\<lparr>os := m3\<rparr>)
                             | None \<Rightarrow> (Inl no_container, w\<lparr>os := m3\<rparr>)))))))"

definition no_rows :: gerr where "no_rows = Err ''sql: no rows in result set''"

definition recovery_model :: "('d, 's, 'm) env \<Rightarrow> sql_conn \<Rightarrow> string \<Rightarrow> ('d, 's, 'm) sys \<Rightarrow>
    string res \<times> ('d, 's, 'm) sys" where
  "recovery_model E c dbn w =
     (case sql_query E c ''SELECT recovery_model_desc FROM sys.databases WHERE name = @p1'' [dbn] (os w) of
        (r, m) \<Rightarrow>
          (case (case r of Inl e \<Rightarrow> Inl e | Inr [] \<Rightarrow> Inl no_rows | Inr (x # _) \<Rightarrow> Inr x) of
             Inl e \<Rightarrow>
               (Inl (WrapErr (''consultar recovery model de '' @ go_quote dbn @ '': '') e ''''), w\<lparr>os := m\<rparr>)
           | Inr x \<Rightarrow> (Inr x, w\<lparr>os := m\<rparr>)))"

text \<open>The private \<open>backup\<close>: the object key is read off the clock before anything is run.\<close>

definition sqlserver_dump :: "('d, 's, 'm) env \<Rightarrow> sql_conn \<Rightarrow> inst_rec \<Rightarrow> string \<Rightarrow> string \<Rightarrow>
    (string \<Rightarrow> string) \<Rightarrow> ('d, 's, 'm) sys \<Rightarrow> (reader \<times> string) res \<times> ('d, 's, 'm) sys" where
  "sqlserver_dump E c i dbn ext sql_for w =
     (case now E w of (t, w0) \<Rightarrow>
      (case find_docker_container E (i_port i) w0 of
         (Inl e, w1) \<Rightarrow> (Inl (WrapErr (''detecci'' @ u_o @ ''n docker: '') e ''''), w1)
       | (Inr container, w1) \<Rightarrow>
           let path = ''/var/opt/mssql/data/tmp_backiie_'' @ ext @ ''.bak'' in
           (case sql_exec E c (sql_for path) (os w1) of
              (Some e, m) \<Rightarrow>
                (Inl (WrapErr (''respaldo sql server ('' @ ext @ ''): '') e ''''), w1\<lparr>os := m\<rparr>)
            | (None, m) \<Rightarrow>
                (case cmd_start E [plain_cmd [''docker'', ''exec'', ''-i'', container, ''cat'', path]] m of
                   (Inl (n, e), m') \<Rightarrow> (Inl (WrapErr ''iniciar extraccion: '' e ''''), w1\<lparr>os := m'\<rparr>)
                 | (Inr st, m') \<Rightarrow>
                     (Inr (DockerReader st container path, object_key i dbn ext t), w1\<lparr>os := m'\<rparr>)))))"

definition backup_stmt :: "string \<Rightarrow> string \<Rightarrow> string \<Rightarrow> string" where
  "backup_stmt kind dbn path =
     ''BACKUP '' @ kind @ '' ['' @ dbn @ ''] TO DISK = '' @ sq @ path @ sq @ '' WITH INIT''"

definition sqlserver_backup where
  "sqlserver_backup E c i dbn w = sqlserver_dump E c i dbn ''bak'' (backup_stmt ''DATABASE'' dbn) w"

definition sqlserver_backup_log where
  "sqlserver_backup_log E c i dbn w =
     (case recovery_model E c dbn w of
        (Inl e, w1) \<Rightarrow> (Inl e, w1)
      | (Inr model, w1) \<Rightarrow>
          if model = ''SIMPLE'' then (Inl ErrLogBackupNotApplicable, w1)
          else sqlserver_dump E c i dbn ''trn'' (backup_stmt ''LOG'' dbn) w1)"

text \<open>
  The load of a full or of a log: the bytes go to a file in the container, the statement is run, and
  the file is removed whether or not the statement failed.
\<close>

definition restore_full_stmt :: "string \<Rightarrow> string \<Rightarrow> string \<Rightarrow> string" where
  "restore_full_stmt dbn path clause =
     lf @ tab @ tab @ ''RESTORE DATABASE ['' @ dbn @ '']'' @ lf @ tab @ tab @ ''FROM DISK = '' @ sq @ path @
     sq @ lf @ tab @ tab @ ''WITH REPLACE, STATS = 10, '' @ clause @ lf @ tab"

definition restore_log_stmt :: "string \<Rightarrow> string \<Rightarrow> string \<Rightarrow> string" where
  "restore_log_stmt dbn path clause =
     lf @ tab @ tab @ ''RESTORE LOG ['' @ dbn @ '']'' @ lf @ tab @ tab @ ''FROM DISK = '' @ sq @ path @
     sq @ lf @ tab @ tab @ ''WITH STATS = 10, '' @ clause @ lf @ tab"

definition sqlserver_load :: "('d, 's, 'm) env \<Rightarrow> sql_conn \<Rightarrow> inst_rec \<Rightarrow> string \<Rightarrow> stream \<Rightarrow>
    string \<Rightarrow> string \<Rightarrow> string \<Rightarrow> ('d, 's, 'm) sys \<Rightarrow> gerr option \<times> ('d, 's, 'm) sys" where
  "sqlserver_load E c i path st stmt send_text exec_text w =
     (case find_docker_container E (i_port i) w of
        (Inl e, w1) \<Rightarrow> (Some (WrapErr (''detecci'' @ u_o @ ''n docker: '') e ''''), w1)
      | (Inr container, w1) \<Rightarrow>
          (case cmd_run E (plain_cmd [''docker'', ''exec'', ''-i'', container, ''sh'', ''-c'', ''cat > '' @ path])
                  st (os w1) of
             ((Some e, out1), m) \<Rightarrow> (Some (WrapErr send_text e ''''), w1\<lparr>os := m\<rparr>)
           | ((None, out1), m) \<Rightarrow>
               (case sql_exec E c stmt m of (r, m') \<Rightarrow>
                 (map_option (\<lambda>e. WrapErr exec_text e '''') r,
                  run_ignored E [''docker'', ''exec'', container, ''rm'', ''-f'', path] (w1\<lparr>os := m'\<rparr>)))))"

definition sqlserver_restore where
  "sqlserver_restore E c i dbn st no_recovery w =
     (let path = ''/var/opt/mssql/data/tmp_backiie_rest.bak'' in
      sqlserver_load E c i path st
        (restore_full_stmt dbn path (if no_recovery then ''NORECOVERY'' else ''RECOVERY''))
        ''enviar archivo al contenedor: '' ''restaurar base de datos: '' w)"

definition sqlserver_restore_log where
  "sqlserver_restore_log E c i dbn st recovery w =
     (let path = ''/var/opt/mssql/data/tmp_backiie_rest.trn'' in
      sqlserver_load E c i path st
        (restore_log_stmt dbn path (if recovery then ''RECOVERY'' else ''NORECOVERY''))
        ''enviar archivo de log al contenedor: '' ''restaurar log: '' w)"

section \<open>MySQL and MariaDB\<close>

definition mysql_backup :: "('d, 's, 'm) env \<Rightarrow> inst_rec \<Rightarrow> string \<Rightarrow> ('d, 's, 'm) sys \<Rightarrow>
    (reader \<times> string) res \<times> ('d, 's, 'm) sys" where
  "mysql_backup E i dbn w =
     (case now E w of (t, w1) \<Rightarrow>
        let eng = (if i_engine i = EngineMariaDB then EngineMariaDB else EngineMySQL);
            dump = plain_cmd [''mysqldump'', ''--host='' @ i_host i, ''--port='' @ show_int (i_port i),
              ''--user='' @ i_username i, ''--password='' @ i_password i, ''--single-transaction'',
              ''--routines'', ''--triggers'', ''--compress'', ''--skip-lock-tables'', dbn]
        in (case cmd_start E [dump, plain_cmd [''gzip'', ''-c'']] (os w1) of
              (Inl (n, e), m) \<Rightarrow>
                (Inl (WrapErr (if n = 0 then ''iniciar mysqldump: '' else ''iniciar gzip: '') e ''''),
                 w1\<lparr>os := m\<rparr>)
            | (Inr st, m) \<Rightarrow> (Inr (PipeReader st, dump_key eng i dbn ''sql.gz'' t), w1\<lparr>os := m\<rparr>)))"

definition mysql_restore :: "('d, 's, 'm) env \<Rightarrow> sql_conn \<Rightarrow> inst_rec \<Rightarrow> string \<Rightarrow> stream \<Rightarrow>
    ('d, 's, 'm) sys \<Rightarrow> gerr option \<times> ('d, 's, 'm) sys" where
  "mysql_restore E c i dbn st w =
     (case sql_exec E c (''CREATE DATABASE IF NOT EXISTS '' @ bq @ dbn @ bq) (os w) of (ignored, m) \<Rightarrow>
      (case gzip_open E st of
         Inl e \<Rightarrow> (Some (WrapErr ''descomprimir backup mysql: '' e ''''), w\<lparr>os := m\<rparr>)
       | Inr plain \<Rightarrow>
           (case cmd_run E (plain_cmd [''mysql'', ''--host='' @ i_host i, ''--port='' @ show_int (i_port i),
                   ''--user='' @ i_username i, ''--password='' @ i_password i, dbn]) plain m of
              ((Some e, out), m') \<Rightarrow>
                (Some (WrapErr ''restaurar mysql: '' e (lf @ trim_space out)), w\<lparr>os := m'\<rparr>)
            | ((None, out), m') \<Rightarrow> (None, w\<lparr>os := m'\<rparr>))))"

section \<open>PostgreSQL\<close>

definition pg_password :: "inst_rec \<Rightarrow> string list" where
  "pg_password i = [''PGPASSWORD='' @ i_password i]"

definition postgres_backup :: "('d, 's, 'm) env \<Rightarrow> inst_rec \<Rightarrow> string \<Rightarrow> ('d, 's, 'm) sys \<Rightarrow>
    (reader \<times> string) res \<times> ('d, 's, 'm) sys" where
  "postgres_backup E i dbn w =
     (case now E w of (t, w1) \<Rightarrow>
      (case cmd_start E [\<lparr>cmd_env = pg_password i,
              cmd_args = [''pg_dump'', ''-h'', i_host i, ''-p'', show_int (i_port i), ''-U'', i_username i,
                ''-d'', dbn, ''--no-password'', ''--compress=9'', ''--format=plain'', ''--no-owner'',
                ''--no-privileges'']\<rparr>] (os w1) of
         (Inl (n, e), m) \<Rightarrow> (Inl (WrapErr ''iniciar pg_dump: '' e ''''), w1\<lparr>os := m\<rparr>)
       | (Inr st, m) \<Rightarrow> (Inr (CmdReader st, dump_key EnginePostgres i dbn ''sql.gz'' t), w1\<lparr>os := m\<rparr>)))"

text \<open>
  The dump is unpacked when its first two bytes are those of gzip; when the header cannot be read
  after all, \<open>psql\<close> gets what the attempt left of the stream.
\<close>

definition is_gzip :: "stream \<Rightarrow> bool" where
  "is_gzip st = has_prefix (st_bytes st) [CHR 0x1F, CHR 0x8B]"

definition postgres_input :: "('d, 's, 'm) env \<Rightarrow> stream \<Rightarrow> stream" where
  "postgres_input E st =
     (if is_gzip st then (case gzip_open E st of Inr plain \<Rightarrow> plain | Inl _ \<Rightarrow> gzip_rest E st) else st)"

definition postgres_restore :: "('d, 's, 'm) env \<Rightarrow> sql_conn \<Rightarrow> inst_rec \<Rightarrow> string \<Rightarrow> stream \<Rightarrow>
    ('d, 's, 'm) sys \<Rightarrow> gerr option \<times> ('d, 's, 'm) sys" where
  "postgres_restore E c i dbn st w =
     (case sql_exec E c (''CREATE DATABASE '' @ dq @ dbn @ dq) (os w) of (ignored, m) \<Rightarrow>
      (case cmd_run E \<lparr>cmd_env = pg_password i,
              cmd_args = [''psql'', ''-h'', i_host i, ''-p'', show_int (i_port i), ''-U'', i_username i,
                ''-d'', dbn, ''--no-password'']\<rparr> (postgres_input E st) m of
         ((Some e, out), m') \<Rightarrow>
           (Some (WrapErr ''restaurar postgres: '' e (lf @ trim_space out)), w\<lparr>os := m'\<rparr>)
       | ((None, out), m') \<Rightarrow> (None, w\<lparr>os := m'\<rparr>)))"

section \<open>Redis\<close>

text \<open>A Go map as an association list with one entry per key.\<close>

definition map_put :: "string \<Rightarrow> string \<Rightarrow> (string \<times> string) list \<Rightarrow> (string \<times> string) list" where
  "map_put k v xs = (k, v) # filter (\<lambda>x. fst x \<noteq> k) xs"

text \<open>
  The keys of a page are dumped before the next page is asked for. A key that cannot be dumped is skipped;
  a scan that fails ends the backup.
\<close>

fun dump_keys :: "('d, 's, 'm) env \<Rightarrow> redis_opts \<Rightarrow> string list \<Rightarrow> (string \<times> string) list \<Rightarrow> 'm \<Rightarrow>
    (string \<times> string) list \<times> 'm" where
  "dump_keys E r [] acc m = (acc, m)"
| "dump_keys E r (k # ks) acc m =
     (case redis_dump E r k m of
        (Inl e, m') \<Rightarrow> dump_keys E r ks acc m'
      | (Inr v, m') \<Rightarrow> dump_keys E r ks (map_put k v acc) m')"

fun dump_pages :: "('d, 's, 'm) env \<Rightarrow> redis_opts \<Rightarrow> ('m \<Rightarrow> string list res \<times> 'm) list \<Rightarrow>
    (string \<times> string) list \<Rightarrow> 'm \<Rightarrow> (string \<times> string) list res \<times> 'm" where
  "dump_pages E r [] acc m = (Inr acc, m)"
| "dump_pages E r (scan # ps) acc m =
     (case scan m of
        (Inl e, m1) \<Rightarrow> (Inl (WrapErr ''scan keys: '' e ''''), m1)
      | (Inr ks, m1) \<Rightarrow> (case dump_keys E r ks acc m1 of (acc', m2) \<Rightarrow> dump_pages E r ps acc' m2))"

definition redis_backup :: "('d, 's, 'm) env \<Rightarrow> redis_opts \<Rightarrow> inst_rec \<Rightarrow> string \<Rightarrow> ('d, 's, 'm) sys \<Rightarrow>
    (reader \<times> string) res \<times> ('d, 's, 'm) sys" where
  "redis_backup E r i dbn w =
     (case now E w of (t, w1) \<Rightarrow>
      (case dump_pages E r (redis_scan E r (os w1)) [] (os w1) of
         (Inl e, m') \<Rightarrow> (Inl e, w1\<lparr>os := m'\<rparr>)
       | (Inr dump, m') \<Rightarrow>
           (Inr (NopReader (mem_stream (gzip_bytes E (json_map E dump))),
                 dump_key EngineRedis i dbn ''json.gz'' t), w1\<lparr>os := m'\<rparr>)))"

fun restore_keys :: "('d, 's, 'm) env \<Rightarrow> redis_opts \<Rightarrow> (string \<times> string) list \<Rightarrow> 'm \<Rightarrow>
    gerr option \<times> 'm" where
  "restore_keys E r [] m = (None, m)"
| "restore_keys E r ((k, v) # xs) m =
     (case redis_restore E r k v m of
        (Some e, m') \<Rightarrow> (Some (WrapErr (''restaurar clave '' @ go_quote k @ '': '') e ''''), m')
      | (None, m') \<Rightarrow> restore_keys E r xs m')"

definition redis_load :: "('d, 's, 'm) env \<Rightarrow> redis_opts \<Rightarrow> stream \<Rightarrow> ('d, 's, 'm) sys \<Rightarrow>
    gerr option \<times> ('d, 's, 'm) sys" where
  "redis_load E r st w =
     (case gzip_open E st of
        Inl e \<Rightarrow> (Some (WrapErr ''descomprimir backup redis: '' e ''''), w)
      | Inr plain \<Rightarrow>
          (case st_read_err plain of
             Some e \<Rightarrow> (Some (WrapErr ''leer backup redis: '' e ''''), w)
           | None \<Rightarrow>
               (case json_unmap E (st_bytes plain) of
                  Inl e \<Rightarrow> (Some (WrapErr ''parsear backup redis: '' e ''''), w)
                | Inr dump \<Rightarrow>
                    (case restore_keys E r (map_range E (os w) dump) (os w) of
                       (e, m) \<Rightarrow> (e, w\<lparr>os := m\<rparr>)))))"

section \<open>The adapter interface\<close>

definition ad_backup :: "('d, 's, 'm) env \<Rightarrow> db_adapter \<Rightarrow> string \<Rightarrow> ('d, 's, 'm) sys \<Rightarrow>
    (reader \<times> string) res \<times> ('d, 's, 'm) sys" where
  "ad_backup E ad dbn w =
     (case ad of
        SQLServerAdapter c i \<Rightarrow> sqlserver_backup E c i dbn w
      | MySQLAdapter c i \<Rightarrow> mysql_backup E i dbn w
      | PostgresAdapter c i \<Rightarrow> postgres_backup E i dbn w
      | RedisAdapter r i \<Rightarrow> redis_backup E r i dbn w)"

text \<open>The type assertion to \<open>ports.LogCapableAdapter\<close>, and the two methods it gives.\<close>

definition log_capable :: "db_adapter \<Rightarrow> (sql_conn \<times> inst_rec) option" where
  "log_capable ad = (case ad of SQLServerAdapter c i \<Rightarrow> Some (c, i) | _ \<Rightarrow> None)"

definition ad_restore :: "('d, 's, 'm) env \<Rightarrow> db_adapter \<Rightarrow> string \<Rightarrow> stream \<Rightarrow> bool \<Rightarrow>
    ('d, 's, 'm) sys \<Rightarrow> gerr option \<times> ('d, 's, 'm) sys" where
  "ad_restore E ad dbn st no_recovery w =
     (case ad of
        SQLServerAdapter c i \<Rightarrow> sqlserver_restore E c i dbn st no_recovery w
      | MySQLAdapter c i \<Rightarrow> mysql_restore E c i dbn st w
      | PostgresAdapter c i \<Rightarrow> postgres_restore E c i dbn st w
      | RedisAdapter r i \<Rightarrow> redis_load E r st w)"

section \<open>What the adapters leave alone\<close>

definition same_stores :: "('d, 's, 'm) sys \<Rightarrow> ('d, 's, 'm) sys \<Rightarrow> bool" where
  "same_stores w w' \<longleftrightarrow> db w' = db w \<and> s3 w' = s3 w \<and> events w' = events w"

lemma same_stores_refl [simp]: "same_stores w w"
  by (simp add: same_stores_def)

lemma same_stores_os [simp]: "same_stores w (w'\<lparr>os := m\<rparr>) = same_stores w w'"
  by (simp add: same_stores_def)

lemma same_stores_trans: "same_stores w w1 \<Longrightarrow> same_stores w1 w2 \<Longrightarrow> same_stores w w2"
  by (simp add: same_stores_def)

lemma run_ignored_same [simp]: "same_stores w (run_ignored E args w') = same_stores w w'"
  by (simp add: run_ignored_def split: prod.splits)

lemma now_same: "now E w = (t, w') \<Longrightarrow> same_stores w w'"
  by (auto simp: now_def split: prod.splits)

lemma new_adapter_same [frame]: "new_adapter E i w = (r, w') \<Longrightarrow> same_stores w w'"
  by (auto simp: new_adapter_def open_sql_def split: engine_type.splits prod.splits option.splits)

lemma ad_close_same: "same_stores w (snd (ad_close E ad w)) \<and> db (snd (ad_close E ad w)) = db w \<and>
    s3 (snd (ad_close E ad w)) = s3 w \<and> events (snd (ad_close E ad w)) = events w"
  by (auto simp: ad_close_def same_stores_def split: db_adapter.split prod.split)

lemma closing_sel [simp]:
  "fst (closing E ad p) = fst p" "db (snd (closing E ad p)) = db (snd p)"
  "s3 (snd (closing E ad p)) = s3 (snd p)" "events (snd (closing E ad p)) = events (snd p)"
  using ad_close_same [of "snd p" E ad] by (cases p; simp add: closing_def)+

lemma closing_same [frame]: "closing E ad p = (x, w') \<Longrightarrow> x = fst p \<and> same_stores (snd p) w'"
  using closing_sel [of E ad p] by (simp add: same_stores_def)

lemma list_databases_same [frame]: "list_databases E ad w = (r, w') \<Longrightarrow> same_stores w w'"
  by (auto simp: list_databases_def split: db_adapter.splits prod.splits sum.splits)

lemma reader_close_same [frame]: "reader_close E rd w = (e, w') \<Longrightarrow> same_stores w w'"
  by (auto simp: reader_close_def split: reader.splits)

lemma find_docker_container_same: "find_docker_container E p w = (r, w') \<Longrightarrow> same_stores w w'"
  by (auto simp: find_docker_container_def split: prod.splits option.splits)

lemma recovery_model_same: "recovery_model E c dbn w = (r, w') \<Longrightarrow> same_stores w w'"
  by (auto simp: recovery_model_def split: prod.splits sum.splits list.splits)

lemma sqlserver_dump_same: "sqlserver_dump E c i dbn ext f w = (r, w') \<Longrightarrow> same_stores w w'"
  by (auto simp: sqlserver_dump_def Let_def split: prod.splits sum.splits option.splits
      dest!: now_same find_docker_container_same intro: same_stores_trans)

lemma sqlserver_backup_log_same [frame]:
  "sqlserver_backup_log E c i dbn w = (r, w') \<Longrightarrow> same_stores w w'"
  by (auto simp: sqlserver_backup_log_def split: prod.splits sum.splits if_splits
      dest!: recovery_model_same sqlserver_dump_same intro: same_stores_trans)

lemma ad_backup_same [frame]: "ad_backup E ad dbn w = (r, w') \<Longrightarrow> same_stores w w'"
  by (auto simp: ad_backup_def sqlserver_backup_def mysql_backup_def postgres_backup_def redis_backup_def
      Let_def split: db_adapter.splits prod.splits sum.splits dest!: now_same sqlserver_dump_same)

lemma sqlserver_load_same: "sqlserver_load E c i p st s a b w = (r, w') \<Longrightarrow> same_stores w w'"
  by (auto simp: sqlserver_load_def split: prod.splits sum.splits option.splits
      dest!: find_docker_container_same)

lemma ad_restore_same [frame]: "ad_restore E ad dbn st nr w = (r, w') \<Longrightarrow> same_stores w w'"
  by (auto simp: ad_restore_def sqlserver_restore_def mysql_restore_def postgres_restore_def redis_load_def
      Let_def split: db_adapter.splits prod.splits sum.splits option.splits dest!: sqlserver_load_same)

lemma sqlserver_restore_log_same [frame]:
  "sqlserver_restore_log E c i dbn st rec w = (r, w') \<Longrightarrow> same_stores w w'"
  by (auto simp: sqlserver_restore_log_def Let_def dest!: sqlserver_load_same)

section \<open>Credentials in the data source\<close>

lemma hex_upper_ne: "d < 16 \<Longrightarrow> hex_upper d \<notin> {CHR '':'', CHR ''@'', CHR ''%'', CHR ''+''}"
proof -
  have "\<forall>d \<in> set [0..<16]. hex_upper d \<notin> {CHR '':'', CHR ''@'', CHR ''%'', CHR ''+''}" by code_simp
  then show "d < 16 \<Longrightarrow> ?thesis" by simp
qed

lemma hex_upper_inj: "a < 16 \<Longrightarrow> b < 16 \<Longrightarrow> hex_upper a = hex_upper b \<Longrightarrow> a = b"
  by (auto simp: hex_upper_def split: if_splits)

lemma of_char_bound: "(of_char c :: nat) div 16 < 16" "(of_char c :: nat) mod 16 < 16"
proof -
  have "(of_char c :: nat) < 256" by simp
  then show "(of_char c :: nat) div 16 < 16" by (simp add: div_less_iff_less_mult)
qed simp

lemma escape_char_cases:
  obtains (plain) "escape_char c = [c]" "unreserved c"
  | (space) "escape_char c = ''+''" "c = CHR '' ''"
  | (hex) "escape_char c = [CHR ''%'', hex_upper (of_char c div 16), hex_upper (of_char c mod 16)]"
proof -
  consider "unreserved c" | "\<not> unreserved c" "c = CHR '' ''" | "\<not> unreserved c" "c \<noteq> CHR '' ''" by blast
  then show thesis by cases (use that in \<open>simp_all add: escape_char_def Let_def\<close>)
qed

lemma unreserved_ne: "unreserved c \<Longrightarrow> c \<notin> {CHR '':'', CHR ''@'', CHR ''%'', CHR ''+''}"
  by (auto simp: unreserved_def)

lemma escape_char_clean: "x \<in> set (escape_char c) \<Longrightarrow> x \<notin> {CHR '':'', CHR ''@''}"
proof (cases c rule: escape_char_cases)
  case plain
  then show "x \<in> set (escape_char c) \<Longrightarrow> ?thesis" using unreserved_ne by auto
next
  case hex
  then show "x \<in> set (escape_char c) \<Longrightarrow> ?thesis"
    using hex_upper_ne [OF of_char_bound(1) [of c]] hex_upper_ne [OF of_char_bound(2) [of c]] by auto
qed auto

lemma query_escape_clean: "x \<in> set (query_escape s) \<Longrightarrow> x \<noteq> CHR '':'' \<and> x \<noteq> CHR ''@''"
  using escape_char_clean by (fastforce simp: query_escape_def)

lemma char_from_hex: "of_char c div 16 = (of_char d :: nat) div 16 \<Longrightarrow>
    of_char c mod 16 = (of_char d :: nat) mod 16 \<Longrightarrow> c = d"
  by (metis div_mult_mod_eq of_char_eq_iff)

lemma escape_char_prefix_free:
  assumes "escape_char c @ s = escape_char d @ t"
  shows "c = d \<and> s = t"
proof (cases c rule: escape_char_cases)
  case plain
  with assms unreserved_ne [of c] show ?thesis by (cases d rule: escape_char_cases) auto
next
  case space
  with assms unreserved_ne [of d] show ?thesis by (cases d rule: escape_char_cases) auto
next
  case hex
  with assms unreserved_ne [of d] show ?thesis
    by (cases d rule: escape_char_cases)
      (auto dest!: hex_upper_inj [OF of_char_bound(1) of_char_bound(1)]
        hex_upper_inj [OF of_char_bound(2) of_char_bound(2)] char_from_hex)
qed

lemma escape_char_ne: "escape_char c \<noteq> []"
  by (cases c rule: escape_char_cases) auto

lemma query_escape_inj: "query_escape s = query_escape t \<Longrightarrow> s = t"
proof (induction s arbitrary: t)
  case Nil
  then show ?case using escape_char_ne by (cases t) (auto simp: query_escape_def)
next
  case (Cons c s)
  then obtain d t' where t: "t = d # t'"
    using escape_char_ne by (cases t) (auto simp: query_escape_def)
  with Cons.prems have "escape_char c @ query_escape s = escape_char d @ query_escape t'"
    by (simp add: query_escape_def)
  from escape_char_prefix_free [OF this] Cons.IH t show ?case by blast
qed

lemma split_at_sep: "u @ x # p = v @ x # q \<Longrightarrow> x \<notin> set u \<Longrightarrow> x \<notin> set v \<Longrightarrow> u = v \<and> p = q"
  by (induction u arbitrary: v) (auto simp: Cons_eq_append_conv append_eq_Cons_conv)

text \<open>
  No name or password can pass for another part of the SQL Server data source: two instances with the
  same data source have the same user and the same password, and the two escaped parts hold neither
  of the characters that separate them.
\<close>

theorem sqlserver_dsn_credentials:
  assumes "sqlserver_dsn i = sqlserver_dsn j"
  shows "i_username i = i_username j \<and> i_password i = i_password j"
proof -
  let ?u = "\<lambda>k. query_escape (i_username k)" and ?p = "\<lambda>k. query_escape (i_password k)"
  obtain r s where e: "?u i @ CHR '':'' # ?p i @ CHR ''@'' # r = ?u j @ CHR '':'' # ?p j @ CHR ''@'' # s"
    using assms by (auto simp: sqlserver_dsn_def Let_def)
  have n: "CHR '':'' \<notin> set (query_escape x)" "CHR ''@'' \<notin> set (query_escape x)" for x
    using query_escape_clean by blast+
  note u = split_at_sep [OF e n(1) n(1)]
  note p = split_at_sep [OF conjunct2 [OF u] n(2) n(2)]
  show ?thesis using query_escape_inj [OF conjunct1 [OF u]] query_escape_inj [OF conjunct1 [OF p]] ..
qed

theorem sqlserver_dsn_credentials_witness:
  "sqlserver_dsn (ex_instance ''x'' EngineSQLServer) = sqlserver_dsn (ex_instance ''y'' EngineMySQL) \<and>
   i_password (ex_instance ''x'' EngineSQLServer) = i_password (ex_instance ''y'' EngineMySQL)"
proof -
  have e: "sqlserver_dsn (ex_instance ''x'' EngineSQLServer) = sqlserver_dsn (ex_instance ''y'' EngineMySQL)"
    by (simp add: sqlserver_dsn_def ex_instance_def)
  from sqlserver_dsn_credentials [OF e] e show ?thesis by simp
qed

section \<open>Readers and keys\<close>

lemma first_error_some: "first_error (Some e) xs = Some e"
  by (induction xs) auto

lemma first_error_None: "first_error e xs = None \<longleftrightarrow> e = None \<and> (\<forall>x \<in> set xs. x = None)"
  by (induction xs arbitrary: e) (auto simp: first_error_some)

text \<open>
  What closing a dump says of the processes behind it: for MySQL and PostgreSQL it fails exactly when
  the pipe or one of the processes did; for the container of SQL Server it says nothing of the process, so a
  dump whose extraction failed closes without an error.
\<close>

theorem close_reports_exit:
  "(fst (reader_close E (PipeReader st) w) = None \<longleftrightarrow>
      st_close_err st = None \<and> (\<forall>x \<in> set (st_wait_errs st). x = None)) \<and>
   (fst (reader_close E (CmdReader st) w) = None \<longleftrightarrow>
      st_close_err st = None \<and> (\<forall>x \<in> set (st_wait_errs st). x = None)) \<and>
   fst (reader_close E (DockerReader st c p) w) = st_close_err st"
proof -
  have "first_error None (st_wait_errs st) = None \<longleftrightarrow> (\<forall>x \<in> set (st_wait_errs st). x = None)"
    by (simp add: first_error_None)
  then show ?thesis
    by (cases "first_error None (st_wait_errs st)")
      (auto simp: reader_close_def first_error_None Let_def split: option.splits)
qed

theorem close_reports_exit_witness:
  "fst (reader_close ref_env
     (DockerReader (mem_stream ''''\<lparr>st_wait_errs := [Some (Err ''exit status 1'')]\<rparr>) ''c'' ''p'')
     (ex_sys [] [] 0)) = None"
  using close_reports_exit [of ref_env "mem_stream ''''\<lparr>st_wait_errs := [Some (Err ''exit status 1'')]\<rparr>"
      "ex_sys [] [] 0" "''c''" "''p''"]
  by (simp add: mem_stream_def)

text \<open>
  Two full backups of one database that start within the same minute are given the same object key;
  the key of a log is never that of a full.
\<close>

theorem object_key_resolution:
  "(minute_number t = minute_number u \<longrightarrow> object_key i dbn ext t = object_key i dbn ext u) \<and>
   object_key i dbn ''bak'' t \<noteq> object_key j dbn' ''trn'' u"
proof
  show "minute_number t = minute_number u \<longrightarrow> object_key i dbn ext t = object_key i dbn ext u"
  proof
    assume "minute_number t = minute_number u"
    from stamp_minute_cong [OF this] show "object_key i dbn ext t = object_key i dbn ext u"
      by (simp add: object_key_def)
  qed
  have "last (object_key i dbn ''bak'' t) = CHR ''k''" "last (object_key j dbn' ''trn'' u) = CHR ''n''"
    by (simp_all add: object_key_def)
  then show "object_key i dbn ''bak'' t \<noteq> object_key j dbn' ''trn'' u" by auto
qed

theorem object_key_resolution_witness:
  "object_key (ex_instance ''x'' EngineSQLServer) ''db'' ''bak'' 1000000000 =
   object_key (ex_instance ''x'' EngineSQLServer) ''db'' ''bak'' 59000000000"
proof -
  have "minute_number 1000000000 = minute_number 59000000000"
    unfolding minute_number_def ns_per_second_def by simp
  with object_key_resolution [of 1000000000 59000000000 "ex_instance ''x'' EngineSQLServer" "''db''" "''bak''"]
  show ?thesis by blast
qed

text \<open>
  The Redis adapter always finds a database, and every name it reports starts with db.
\<close>

theorem redis_databases_found:
  "redis_databases info \<noteq> [] \<and> list_all (\<lambda>d. has_prefix d ''db'') (redis_databases info)"
proof -
  have "has_prefix (hd (split_colon l)) ''db''" if "has_prefix l ''db''" for l
    using that by (auto simp: has_prefix_append split_colon_def split: list.splits)
  then show ?thesis
    by (auto simp: redis_databases_def Let_def list_all_iff)
qed

text \<open>
  Every dump of one kind goes through the same file of the container, whatever database it is of: of two that
  run at a time, one reads and then removes what the other has written.
\<close>

theorem dumps_share_a_file:
  assumes "sqlserver_dump E c i d1 ext f w = (Inr (r1, k1), w1)" "sqlserver_dump E c i d2 ext g v = (Inr (r2, k2), v1)"
  shows "\<exists>s1 n1 s2 n2 p. r1 = DockerReader s1 n1 p \<and> r2 = DockerReader s2 n2 p"
  using assms by (auto simp: sqlserver_dump_def Let_def split: prod.splits sum.splits option.splits)

end
