(* ===== verification/RunBackup.thy ===== *)
theory RunBackup
  imports Adapters Retention
begin

text \<open>
  Taking backups (\<open>application/usecases/run_backup.go\<close>, with the hashing reader of
  \<open>internal/hash/sha256.go\<close>): the record is saved as running before anything is dumped, the dump
  is streamed to the store while it is counted and hashed, the dump's exit is checked when its reader
  is closed, and only then the record is completed.
\<close>

section \<open>One database\<close>

text \<open>\<open>HashingReader.Sum\<close> after n bytes of the stream were read.\<close>

definition hash_sum :: "('d, 's, 'm) env \<Rightarrow> stream \<Rightarrow> nat \<Rightarrow> string" where
  "hash_sum E st n = hex_encode (sha256 E (take n (st_bytes st)))"

definition initial_record :: "inst_rec \<Rightarrow> string \<Rightarrow> backup_type \<Rightarrow> string \<Rightarrow> int \<Rightarrow> string \<Rightarrow> time \<Rightarrow>
    time \<Rightarrow> backup_record" where
  "initial_record i dbn bt parent days rid t1 t2 =
     \<lparr>b_id = rid, b_instance_id = i_id i, b_instance_name = i_name i, b_database = dbn, b_file_name = '''',
      b_engine = i_engine i, b_type = bt, b_parent = parent, b_size = 0, b_hash = '''',
      b_status = StatusRunning, b_error = '''', b_started = t1, b_completed = None,
      b_expires = add_days t2 days, b_retain_days = days, b_duration_ms = 0\<rparr>"

definition completed_record :: "backup_record \<Rightarrow> string \<Rightarrow> int \<Rightarrow> string \<Rightarrow> time \<Rightarrow> backup_record" where
  "completed_record r key sz h t =
     r\<lparr>b_file_name := key, b_status := StatusCompleted, b_size := sz, b_hash := h, b_completed := Some t,
       b_duration_ms := millis (time_sub t (b_started r))\<rparr>"

text \<open>\<open>_ = UpdateStatus (..., StatusFailed, err.Error ())\<close>: its own error is dropped.\<close>

definition mark_failed :: "('d, 's, 'm) env \<Rightarrow> string \<Rightarrow> gerr \<Rightarrow> ('d, 's, 'm) sys \<Rightarrow> ('d, 's, 'm) sys" where
  "mark_failed E rid e w = snd (br_update_status E rid StatusFailed (err_text e) w)"

definition finish_backup :: "('d, 's, 'm) env \<Rightarrow> inst_rec \<Rightarrow> s3_adapter \<Rightarrow> backup_record \<Rightarrow> reader \<Rightarrow>
    string \<Rightarrow> ('d, 's, 'm) sys \<Rightarrow> gerr option \<times> ('d, 's, 'm) sys" where
  "finish_backup E i a r rd key w =
     (case s3_upload E a key (reader_stream rd) w of
        ((Inl e, n), w1) \<Rightarrow>
          (case reader_close E rd w1 of (ce, w2) \<Rightarrow> (Some e, mark_failed E (b_id r) e w2))
      | ((Inr sz, n), w1) \<Rightarrow>
          (case reader_close E rd w1 of
             (Some ce, w2) \<Rightarrow>
               (case s3_delete E a key w2 of (de, w3) \<Rightarrow> (Some ce, mark_failed E (b_id r) ce w3))
           | (None, w2) \<Rightarrow>
               (case s3_tag E a key (b_expires r) w2 of (te, w3) \<Rightarrow>
                (case now E w3 of (t, w4) \<Rightarrow>
                 (case br_update E
                         (completed_record r key sz (hash_sum E (reader_stream rd) n) t) w4 of
                    (Some e, w5) \<Rightarrow> (Some (WrapErr ''actualizar registro: '' e ''''), w5)
                  | (None, w5) \<Rightarrow> (None, emit (NotifyCompleted (i_name i) (b_database r) (b_id r)) w5))))))"

definition backup_database :: "('d, 's, 'm) env \<Rightarrow> inst_rec \<Rightarrow> string \<Rightarrow> backup_type \<Rightarrow> string \<Rightarrow>
    (string \<Rightarrow> ('d, 's, 'm) sys \<Rightarrow> (reader \<times> string) res \<times> ('d, 's, 'm) sys) \<Rightarrow> s3_adapter \<Rightarrow> int \<Rightarrow>
    ('d, 's, 'm) sys \<Rightarrow> gerr option \<times> ('d, 's, 'm) sys" where
  "backup_database E i dbn bt parent do_backup a days w =
     (case new_id E w of (rid, w1) \<Rightarrow>
      (case now E w1 of (t1, w2) \<Rightarrow>
       (case now E w2 of (t2, w3) \<Rightarrow>
          let r = initial_record i dbn bt parent days rid t1 t2 in
          (case br_save E r w3 of
             (Some e, w4) \<Rightarrow> (Some (WrapErr ''guardar registro inicial: '' e ''''), w4)
           | (None, w4) \<Rightarrow>
               (case do_backup dbn (emit (NotifyStarted (i_name i) dbn) w4) of
                  (Inl e, w5) \<Rightarrow> (Some e, mark_failed E rid e w5)
                | (Inr (rd, key), w5) \<Rightarrow> finish_backup E i a r rd key w5)))))"

section \<open>One instance, and all of them\<close>

definition log_failure :: "inst_rec \<Rightarrow> string \<Rightarrow> gerr \<Rightarrow> ('d, 's, 'm) sys \<Rightarrow> ('d, 's, 'm) sys" where
  "log_failure i dbn e w = emit (NotifyFailed (i_name i) dbn e) w"

fun pick_latest :: "backup_record option \<Rightarrow> backup_record list \<Rightarrow> backup_record option" where
  "pick_latest best [] = best"
| "pick_latest best (r # rs) =
     pick_latest (case best of
                    None \<Rightarrow> Some r
                  | Some b \<Rightarrow> if b_started b < b_started r then Some r else Some b) rs"

definition latest_completed_full :: "('d, 's, 'm) env \<Rightarrow> string \<Rightarrow> string \<Rightarrow> ('d, 's, 'm) sys \<Rightarrow>
    backup_record option res" where
  "latest_completed_full E iid dbn w =
     (case br_find_by_instance E iid w of
        Inl e \<Rightarrow> Inl e
      | Inr rs \<Rightarrow> Inr (pick_latest None
          (filter (\<lambda>r. b_database r = dbn \<and> b_status r = StatusCompleted \<and> is_full r) rs)))"

definition run_retain_days :: "('d, 's, 'm) env \<Rightarrow> string \<Rightarrow> ('d, 's, 'm) sys \<Rightarrow> int" where
  "run_retain_days E iid w =
     (case pol_find_by_instance E iid w of
        Inr p \<Rightarrow> p_retain_days p
      | Inl _ \<Rightarrow> (case pol_find_global E w of Inr g \<Rightarrow> p_retain_days g | Inl _ \<Rightarrow> 7))"

fun backup_all :: "('d, 's, 'm) env \<Rightarrow> inst_rec \<Rightarrow> db_adapter \<Rightarrow> s3_adapter \<Rightarrow> int \<Rightarrow> backup_type \<Rightarrow>
    string list \<Rightarrow> ('d, 's, 'm) sys \<Rightarrow> ('d, 's, 'm) sys" where
  "backup_all E i ad a days bt [] w = w"
| "backup_all E i ad a days bt (d # ds) w =
     (if d \<in> set (i_excluded i) then backup_all E i ad a days bt ds w
      else if bt = BackupTypeFull then
        (case backup_database E i d BackupTypeFull '''' (ad_backup E ad) a days w of
           (Some e, w1) \<Rightarrow> backup_all E i ad a days bt ds (log_failure i d e w1)
         | (None, w1) \<Rightarrow> backup_all E i ad a days bt ds w1)
      else
        (case (latest_completed_full E (i_id i) d w, log_capable ad) of
           (Inr (Some p), Some (c, ci)) \<Rightarrow>
             (case backup_database E i d BackupTypeLog (b_id p) (sqlserver_backup_log E c ci) a days w of
                (Some e, w1) \<Rightarrow>
                  backup_all E i ad a days bt ds (if is_log_na e then w1 else log_failure i d e w1)
              | (None, w1) \<Rightarrow> backup_all E i ad a days bt ds w1)
         | _ \<Rightarrow> backup_all E i ad a days bt ds w))"

definition run_for_instance :: "('d, 's, 'm) env \<Rightarrow> string \<Rightarrow> backup_type \<Rightarrow> ('d, 's, 'm) sys \<Rightarrow>
    gerr option \<times> ('d, 's, 'm) sys" where
  "run_for_instance E iid bt w =
     (case inst_find_by_id E iid w of
        Inl e \<Rightarrow> (Some (WrapErr (''instancia '' @ go_quote iid @ '': '') e ''''), w)
      | Inr i \<Rightarrow>
          if \<not> i_enabled i then (None, w)
          else if bt = BackupTypeLog \<and> i_engine i \<noteq> EngineSQLServer then (None, w)
          else (case s3cfg_get E w of
            Inl e \<Rightarrow> (Some (WrapErr ''config S3: '' e ''''), w)
          | Inr cfg \<Rightarrow> (case s3_new E cfg w of
              (Inl e, w1) \<Rightarrow> (Some (WrapErr ''conectar S3: '' e ''''), w1)
            | (Inr a, w1) \<Rightarrow>
                let days = run_retain_days E iid w1 in
                (case new_adapter E i w1 of
                   (Inl e, w2) \<Rightarrow> (Some e, w2)
                 | (Inr ad, w2) \<Rightarrow> closing E ad
                     (if bt = BackupTypeLog \<and> log_capable ad = None then (None, w2)
                      else (case list_databases E ad w2 of
                        (Inl e, w3) \<Rightarrow> (Some (WrapErr ''listar bases de datos: '' e ''''), w3)
                      | (Inr dbs, w3) \<Rightarrow> (None, backup_all E i ad a days bt dbs w3)))))))"

fun run_each :: "('d, 's, 'm) env \<Rightarrow> backup_type \<Rightarrow> inst_rec list \<Rightarrow> ('d, 's, 'm) sys \<Rightarrow>
    ('d, 's, 'm) sys" where
  "run_each E bt [] w = w"
| "run_each E bt (i # is) w =
     (if i_enabled i then run_each E bt is (snd (run_for_instance E (i_id i) bt w))
      else run_each E bt is w)"

definition run_for_all :: "('d, 's, 'm) env \<Rightarrow> backup_type \<Rightarrow> ('d, 's, 'm) sys \<Rightarrow>
    gerr option \<times> ('d, 's, 'm) sys" where
  "run_for_all E bt w =
     (case inst_find_all E w of Inl e \<Rightarrow> (Some e, w) | Inr is \<Rightarrow> (None, run_each E bt is w))"

section \<open>What one backup does\<close>

lemma new_id_frame [frame]:
  assumes "new_id E w = (i, w')"
  shows "db w' = db w" "s3 w' = s3 w" "events w' = events w"
  using assms by (auto simp: new_id_def split: prod.splits)

lemma same_storesD:
  assumes "same_stores w w'"
  shows "db w' = db w" "s3 w' = s3 w" "events w' = events w"
  using assms by (simp_all add: same_stores_def)

lemma emit_sel [simp]:
  "db (emit e w) = db w" "s3 (emit e w) = s3 w" "os (emit e w) = os w" "events (emit e w) = events w @ [e]"
  by (simp_all add: emit_def)

text \<open>Two versions of one record: the fields no update of the run touches are the same.\<close>

definition same_origin :: "backup_record \<Rightarrow> backup_record \<Rightarrow> bool" where
  "same_origin q r \<longleftrightarrow> b_id q = b_id r \<and> b_type q = b_type r \<and> b_parent q = b_parent r \<and>
     b_instance_id q = b_instance_id r \<and> b_database q = b_database r \<and> b_engine q = b_engine r"

lemma same_origin_refl [simp]: "same_origin r r"
  by (simp add: same_origin_def)

text \<open>
  The record of a failed attempt: its end, its status and the text of the error. With a database file that
  takes every write and times that JSON can hold, it is the one that is stored.
\<close>

definition failed_of :: "gerr \<Rightarrow> backup_record \<Rightarrow> backup_record \<Rightarrow> bool" where
  "failed_of e r q \<longleftrightarrow> (\<exists>t. q = with_end t (with_status StatusFailed (err_text e) r))"

definition written :: "('d, 's, 'm) env \<Rightarrow> backup_record \<Rightarrow> bool" where
  "written E r \<longleftrightarrow> bolt_writes E \<and> (\<forall>m. json_time_ok (fst (os_now E m))) \<and> json_time_ok (b_started r) \<and>
     json_time_ok (b_expires r)"

lemma failed_of_sel:
  assumes "failed_of e r q"
  shows "same_origin q r" "b_id q = b_id r" "b_status q = StatusFailed" "b_error q = err_text e" "b_file_name q = b_file_name r"
  using assms by (auto simp: failed_of_def with_end_def with_status_def same_origin_def)

lemma now_value: "now E w = (t, w1) \<Longrightarrow> t = fst (os_now E (os w))"
  by (auto simp: now_def split: prod.splits)

lemma written_encode:
  assumes "written E r" "now E w = (t, w1)" "b_started q = b_started r" "b_expires q = b_expires r" "b_completed q = Some t"
  shows "encode_backup q = Inr (Json (EBackup q))"
  using assms(1,3-5) now_value [OF assms(2)]
  by (simp add: written_def encode_backup_def encode_def json_times_ok_def opt_time_def)

lemma mark_failed_effect:
  assumes wf: "backups_wf E w" and v: "backup_view E w rid = Some r"
  shows "backups_wf E (mark_failed E rid e w) \<and> s3 (mark_failed E rid e w) = s3 w \<and>
    events (mark_failed E rid e w) = events w \<and>
    (\<exists>q. (q = r \<or> failed_of e r q) \<and> (written E r \<longrightarrow> failed_of e r q) \<and>
       backup_view E (mark_failed E rid e w) = (backup_view E w)(rid \<mapsto> q))"
proof -
  have g: "br_find_by_id E rid w = Inr r" by (rule backups.get_some [OF wf v])
  have id: "b_id r = rid" by (rule backups.view_key [OF wf v])
  obtain t w1 where n: "now E w = (t, w1)" by fastforce
  note fr = now_frame [OF n]
  let ?q = "with_end t (with_status StatusFailed (err_text e) r)"
  have qf: "failed_of e r ?q" by (auto simp: failed_of_def)
  have qid: "b_id ?q = rid" using failed_of_sel(2) [OF qf] id by simp
  obtain x w2 where p: "store_put E bucketBackupRecords rid (encode_backup ?q) w1 = (x, w2)" by fastforce
  then have m: "mark_failed E rid e w = w2"
    by (simp add: mark_failed_def br_update_status_def g n)
  have "br_save E ?q w1 = (x, w2)" using p qid by (simp add: br_save_def)
  moreover have "backups_wf E w1" using wf by (simp add: wf_eq_db [OF fr(1)])
  ultimately have l: "backups_wf E w2 \<and>
    backup_view E w2 = (if x = None then (backup_view E w1)(rid \<mapsto> ?q) else backup_view E w1)"
    using backups.put_law [of E w1 ?q x w2] qid by simp
  have "backup_view E w1 = (backup_view E w)(rid \<mapsto> r)"
    using v view_eq_db [OF fr(1), of E] by (simp add: fun_upd_idem)
  moreover have "x = None" if "written E r"
  proof (rule store_put_taken)
    show "store_put E bucketBackupRecords rid (Inr (Json (EBackup ?q))) w1 = (x, w2)"
      using p written_encode [OF that n, of ?q] by (simp add: with_end_def with_status_def)
    show "bolt_writes E" using that by (simp add: written_def)
  qed
  ultimately have "\<exists>q. (q = r \<or> failed_of e r q) \<and> (written E r \<longrightarrow> failed_of e r q) \<and>
      backup_view E w2 = (backup_view E w)(rid \<mapsto> q)"
    using l qf by (cases "x = None") auto
  then show ?thesis using l store_put_frame [OF p] fr by (simp add: m)
qed

text \<open>What a finished, and what a failed backup leaves, in terms of the record r it saved.\<close>

definition backup_done :: "('d, 's, 'm) env \<Rightarrow> s3_adapter \<Rightarrow> backup_record \<Rightarrow> ('d, 's, 'm) sys \<Rightarrow>
    ('d, 's, 'm) sys \<Rightarrow> bool" where
  "backup_done E a r w w' \<longleftrightarrow>
     (\<exists>key x t. let q = completed_record r key (int (length x)) (hex_encode (sha256 E x)) t in
        backup_view E w' = (backup_view E w)(b_id r \<mapsto> q) \<and>
        s3_view E a w' = (s3_view E a w)(key \<mapsto> x))"

definition backup_undone :: "('d, 's, 'm) env \<Rightarrow> gerr \<Rightarrow> backup_record \<Rightarrow> ('d, 's, 'm) sys \<Rightarrow>
    ('d, 's, 'm) sys \<Rightarrow> bool" where
  "backup_undone E e r w w' \<longleftrightarrow>
     (\<exists>q. (q = r \<or> failed_of e r q) \<and> (written E r \<longrightarrow> failed_of e r q) \<and>
        backup_view E w' = (backup_view E w)(b_id r \<mapsto> q))"

lemma undone_refl: "backup_view E w (b_id r) = Some r \<Longrightarrow> \<not> written E r \<Longrightarrow> backup_undone E e r w w"
  by (auto simp: backup_undone_def fun_upd_idem intro!: exI [of _ r])

lemma undone_mark:
  assumes "backups_wf E w1" "backup_view E w1 (b_id r) = Some r" "backup_view E w1 = backup_view E w"
  shows "backup_undone E e r w (mark_failed E (b_id r) e w1)"
  using mark_failed_effect [OF assms(1,2), of e] assms(3) by (auto simp: backup_undone_def)

lemma finish_backup_effect:
  assumes aws: "aws_ok E" and wf: "backups_wf E w" and v: "backup_view E w (b_id r) = Some r"
    and f: "finish_backup E i a r rd key w = (e, w')"
  shows "backups_wf E w' \<and> (e = None \<longrightarrow> backup_done E a r w w' \<and>
      events w' = events w @ [NotifyCompleted (i_name i) (b_database r) (b_id r)]) \<and>
    (\<forall>y. e = Some y \<longrightarrow> backup_undone E y r w w' \<and> events w' = events w)"
proof -
  obtain ru n w1 where u: "s3_upload E a key (reader_stream rd) w = ((ru, n), w1)"
    by (metis prod.exhaust)
  note ul = storage.upload_law [OF aws u]
  obtain ce w2 where c: "reader_close E rd w1 = (ce, w2)" by fastforce
  note d1 = s3_ops_frame(5) [OF u] and d2 = same_storesD [OF reader_close_same [OF c]]
  have db2: "db w2 = db w" "events w2 = events w" using d1 d2 by simp_all
  note v2 = view_eq_db [OF db2(1), of E]
  have wf2: "backups_wf E w2" using wf by (simp add: wf_eq_db [OF db2(1)])
  show ?thesis
  proof (cases ru)
    case (Inl x)
    then have "e = Some x" "w' = mark_failed E (b_id r) x w2"
      using f u c by (simp_all add: finish_backup_def)
    then show ?thesis
      using undone_mark [OF wf2 _ v2] mark_failed_effect [OF wf2, of "b_id r" r x] v v2 db2 by simp
  next
    case (Inr sz)
    show ?thesis
    proof (cases ce)
      case (Some x)
      obtain de w3 where d: "s3_delete E a key w2 = (de, w3)" by fastforce
      note d3 = s3_ops_frame(3) [OF d]
      have db3: "db w3 = db w" "events w3 = events w" using d3 db2 by simp_all
      have wf3: "backups_wf E w3" using wf by (simp add: wf_eq_db [OF db3(1)])
      have "e = Some x" "w' = mark_failed E (b_id r) x w3"
        using f u c d Inr Some by (simp_all add: finish_backup_def)
      then show ?thesis
        using undone_mark [OF wf3 _ view_eq_db [OF db3(1)]] mark_failed_effect [OF wf3, of "b_id r" r x]
          v view_eq_db [OF db3(1), of E] db3 by simp
    next
      case None
      obtain te w3 where t: "s3_tag E a key (b_expires r) w2 = (te, w3)" by fastforce
      obtain tm w4 where nw: "now E w3 = (tm, w4)" by fastforce
      let ?q = "completed_record r key sz (hash_sum E (reader_stream rd) n) tm"
      obtain ue w5 where up: "br_update E ?q w4 = (ue, w5)" by fastforce
      note d3 = s3_ops_frame(4) [OF t] and d4 = now_frame [OF nw]
      have db4: "db w4 = db w" "events w4 = events w" using d3 d4 db2 by simp_all
      have wf4: "backups_wf E w4" using wf by (simp add: wf_eq_db [OF db4(1)])
      have sv: "br_save E ?q w4 = (ue, w5)" using up by (simp add: br_update_def br_save_def)
      note pl = backups.put_law [OF wf4 sv]
      have id: "b_id ?q = b_id r" by (simp add: completed_record_def)
      have fr5: "s3 w5 = s3 w4" "events w5 = events w4"
        using sv by (auto simp: br_save_def dest: store_put_frame)
      note v4 = view_eq_db [OF db4(1), of E]
      show ?thesis
      proof (cases ue)
        case (Some x)
        then obtain y where "e = Some y" "w' = w5" using f u c t nw up Inr None by (auto simp: finish_backup_def)
        moreover have "\<not> written E r"
        proof
          assume wr: "written E r"
          have "encode_backup ?q = Inr (Json (EBackup ?q))"
            by (rule written_encode [OF wr nw]) (simp_all add: completed_record_def)
          then have "store_put E bucketBackupRecords (b_id ?q) (Inr (Json (EBackup ?q))) w4 = (ue, w5)"
            using up by (simp add: br_update_def)
          then show False using store_put_taken Some wr by (fastforce simp: written_def)
        qed
        ultimately show ?thesis
          using pl Some v4 fr5 db4 undone_refl [OF v, of y] by (simp add: backup_undone_def)
      next
        case N: None
        then have e: "e = None" "w' = emit (NotifyCompleted (i_name i) (b_database r) (b_id r)) w5"
          using f u c t nw up Inr None by (auto simp: finish_backup_def)
        let ?x = "st_bytes (reader_stream rd)"
        have "s3_view E a w5 = s3_view E a w1"
          using view_eq_s3 [OF fr5(1), of E a] view_eq_s3 [OF d4(2), of E a] s3_tag_view [OF aws t]
            view_eq_s3 [OF d2(2), of E a] by simp
        moreover have "s3_view E a w1 = (s3_view E a w)(key \<mapsto> ?x)"
          using ul Inr by (auto simp: fun_eq_iff)
        moreover have "?q = completed_record r key (int (length ?x)) (hex_encode (sha256 E ?x)) tm"
          using ul Inr by (simp add: hash_sum_def)
        ultimately have "backup_done E a r w w'"
          using pl N v4 id e view_eq_db [of w' w5 E] view_eq_s3 [of w' w5 E a]
          by (auto simp: backup_done_def Let_def)
        then show ?thesis using e pl fr5 db4 wf_eq_db [of w' w5 E] by simp
      qed
    qed
  qed
qed

text \<open>
  A dump touches neither the database file nor the object store nor the notifier: all dumps of the
  adapters are such.
\<close>

definition quiet_dump :: "(string \<Rightarrow> ('d, 's, 'm) sys \<Rightarrow> (reader \<times> string) res \<times> ('d, 's, 'm) sys) \<Rightarrow> bool" where
  "quiet_dump f \<longleftrightarrow> (\<forall>d u. same_stores u (snd (f d u)))"

lemma quiet_dumpD: "quiet_dump f \<Longrightarrow> f d u = (r, u') \<Longrightarrow> same_stores u u'"
  unfolding quiet_dump_def by (metis snd_conv)

lemma quiet_dumps [simp, intro]: "quiet_dump (ad_backup E ad)" "quiet_dump (sqlserver_backup_log E c i)"
  unfolding quiet_dump_def using ad_backup_same sqlserver_backup_log_same by (metis prod.collapse)+

text \<open>The identifier the next record gets.\<close>

definition next_id :: "('d, 's, 'm) env \<Rightarrow> ('d, 's, 'm) sys \<Rightarrow> string" where
  "next_id E w = fst (os_uuid E (os w))"

lemma backup_database_effect:
  assumes aws: "aws_ok E" and wf: "backups_wf E w"
    and fr: "quiet_dump do_backup"
    and b: "backup_database E i dbn bt parent do_backup a days w = (e, w')"
  shows "\<exists>r m1 m2. r = initial_record i dbn bt parent days (next_id E w) (fst (os_now E m1)) (fst (os_now E m2)) \<and>
    backups_wf E w' \<and>
    (if e = None
     then backup_done E a r w w' \<and>
       events w' = events w @ [NotifyStarted (i_name i) dbn, NotifyCompleted (i_name i) dbn (b_id r)]
     else (backup_view E w' = backup_view E w \<and> \<not> written E r) \<and> events w' = events w \<or>
       backup_undone E (the e) r w w' \<and> events w' = events w @ [NotifyStarted (i_name i) dbn])"
proof -
  obtain rid w1 t1 w2 t2 w3 where n: "new_id E w = (rid, w1)" "now E w1 = (t1, w2)" "now E w2 = (t2, w3)"
    by (metis prod.exhaust)
  have rid: "rid = next_id E w" using n(1) by (auto simp: new_id_def next_id_def split: prod.splits)
  let ?r = "initial_record i dbn bt parent days rid t1 t2"
  have id: "b_id ?r = rid" "b_database ?r = dbn" by (simp_all add: initial_record_def)
  have d3: "db w3 = db w" "s3 w3 = s3 w" "events w3 = events w"
    using new_id_frame [OF n(1)] now_frame [OF n(2)] now_frame [OF n(3)] by simp_all
  have wf3: "backups_wf E w3" using wf by (simp add: wf_eq_db [OF d3(1)])
  obtain se w4 where sv: "br_save E ?r w3 = (se, w4)" by fastforce
  note pl = backups.put_law [OF wf3 sv]
  have f4: "s3 w4 = s3 w" "events w4 = events w"
    using sv d3 by (auto simp: br_save_def dest: store_put_frame)
  note v3 = view_eq_db [OF d3(1), of E]
  have "backups_wf E w' \<and> (if e = None
     then backup_done E a ?r w w' \<and>
       events w' = events w @ [NotifyStarted (i_name i) dbn, NotifyCompleted (i_name i) dbn (b_id ?r)]
     else (backup_view E w' = backup_view E w \<and> \<not> written E ?r) \<and> events w' = events w \<or>
       backup_undone E (the e) ?r w w' \<and> events w' = events w @ [NotifyStarted (i_name i) dbn])"
  proof (cases se)
    case (Some x)
    then obtain y where "e = Some y" "w' = w4" using b n sv by (auto simp: backup_database_def Let_def)
    moreover have "\<not> written E ?r"
    proof
      assume wr: "written E ?r"
      then have "encode_backup ?r = Inr (Json (EBackup ?r))"
        by (simp add: written_def encode_backup_def encode_def json_times_ok_def opt_time_def initial_record_def)
      then have "store_put E bucketBackupRecords (b_id ?r) (Inr (Json (EBackup ?r))) w3 = (se, w4)"
        using sv by (simp add: br_save_def)
      then show False using store_put_taken Some wr by (fastforce simp: written_def)
    qed
    ultimately show ?thesis using pl Some v3 f4 by simp
  next
    case None
    let ?w = "emit (NotifyStarted (i_name i) dbn) w4"
    obtain rr w5 where d: "do_backup dbn ?w = (rr, w5)" by fastforce
    note s5 = same_storesD [OF quiet_dumpD [OF fr d]]
    have v5: "backup_view E w5 = (backup_view E w)(rid \<mapsto> ?r)"
      using pl None v3 id view_eq_db [of w5 w4 E] s5 by simp
    have e5: "events w5 = events w @ [NotifyStarted (i_name i) dbn]" using s5 f4 by simp
    have s35: "s3_view E a w5 = s3_view E a w" by (rule view_eq_s3) (simp add: s5 f4)
    have wf5: "backups_wf E w5" using pl wf_eq_db [of w5 w4 E] s5 by simp
    have un: "backup_undone E y ?r w u" if "backup_undone E y ?r w5 u" for u y
      using that v5 id by (auto simp: backup_undone_def)
    have dn: "backup_done E a ?r w u" if "backup_done E a ?r w5 u" for u
      using that v5 id s35 by (auto simp: backup_done_def Let_def)
    show ?thesis
    proof (cases rr)
      case (Inl x)
      then have "e = Some x" "w' = mark_failed E rid x w5"
        using b n sv None d by (simp_all add: backup_database_def Let_def)
      then show ?thesis
        using un undone_mark [OF wf5, of ?r w5 x] mark_failed_effect [OF wf5, of rid ?r x] v5 id e5 by simp
    next
      case (Inr p)
      obtain rd key where p: "p = (rd, key)" by fastforce
      have f: "finish_backup E i a ?r rd key w5 = (e, w')"
        using b n sv None d Inr p by (simp add: backup_database_def Let_def)
      have "backup_view E w5 (b_id ?r) = Some ?r" using v5 id by simp
      from finish_backup_effect [OF aws wf5 this f] show ?thesis
        using un dn e5 id by (cases e) simp_all
    qed
  qed
  then show ?thesis
    using rid [symmetric] now_value [OF n(2), symmetric] now_value [OF n(3), symmetric]
    by - (rule exI [of _ ?r], rule exI [of _ "os w1"], rule exI [of _ "os w2"], auto)
qed

section \<open>What a backup promises\<close>

text \<open>
  C2. A backup that reports success is in the bucket. Its record is completed and names instance, database,
  type and parent; its object is there under the recorded key, with the recorded size and SHA-256; no
  other record and no other object changed; and the notifier heard of its start and its end.
\<close>

theorem completed_backup_is_stored:
  assumes "aws_ok E" and "backups_wf E w"
    and "quiet_dump do_backup"
    and "backup_database E i dbn bt parent do_backup a days w = (None, w')"
  shows "\<exists>r x. backup_view E w' = (backup_view E w)(next_id E w \<mapsto> r) \<and>
    s3_view E a w' = (s3_view E a w)(b_file_name r \<mapsto> x) \<and>
    b_status r = StatusCompleted \<and> b_size r = int (length x) \<and> b_hash r = hex_encode (sha256 E x) \<and>
    b_instance_id r = i_id i \<and> b_database r = dbn \<and> b_type r = bt \<and> b_parent r = parent \<and>
    b_engine r = i_engine i \<and> b_retain_days r = days \<and>
    events w' = events w @ [NotifyStarted (i_name i) dbn, NotifyCompleted (i_name i) dbn (next_id E w)]"
proof -
  from backup_database_effect [OF assms] obtain r t1 t2 where
    r: "r = initial_record i dbn bt parent days (next_id E w) t1 t2" "backup_done E a r w w'"
    "events w' = events w @ [NotifyStarted (i_name i) dbn, NotifyCompleted (i_name i) dbn (b_id r)]"
    by auto
  from r(2) obtain key x t where
    "backup_view E w' = (backup_view E w)(b_id r \<mapsto>
       completed_record r key (int (length x)) (hex_encode (sha256 E x)) t)"
    "s3_view E a w' = (s3_view E a w)(key \<mapsto> x)"
    by (auto simp: backup_done_def Let_def)
  with r show ?thesis
    by (intro exI [of _ "completed_record r key (int (length x)) (hex_encode (sha256 E x)) t"] exI [of _ x])
      (simp add: initial_record_def completed_record_def)
qed

theorem completed_backup_is_stored_witness:
  "let i = ex_instance ''srv'' EnginePostgres; w = ex_sys [i] [] 0;
       p = backup_database ref_env i ''db'' BackupTypeFull '''' (ad_backup ref_env (PostgresAdapter
             \<lparr>q_driver = ''pgx'', q_dsn = ''''\<rparr> i)) (adapter_of ex_cfg) 3 w
   in fst p = None \<and> (\<exists>r. backup_view ref_env (snd p) ''id-0'' = Some r \<and> b_status r = StatusCompleted \<and>
        s3_view ref_env (adapter_of ex_cfg) (snd p) (b_file_name r) \<noteq> None)"
proof -
  let ?i = "ex_instance ''srv'' EnginePostgres"
  let ?w = "ex_sys [?i] [] 0"
  let ?b = "ad_backup ref_env (PostgresAdapter \<lparr>q_driver = ''pgx'', q_dsn = ''''\<rparr> ?i)"
  let ?p = "backup_database ref_env ?i ''db'' BackupTypeFull '''' ?b (adapter_of ex_cfg) 3 ?w"
  have ok: "fst ?p = None" by code_simp
  then have p: "?p = (None, snd ?p)" by (simp add: prod_eq_iff)
  have id: "next_id ref_env ?w = ''id-0''" by code_simp
  from completed_backup_is_stored [OF aws_ok_ref_env ex_backups_wf quiet_dumps(1) p]
  show ?thesis using ok id by (auto simp: Let_def)
qed

text \<open>
  C26. A backup that reports an error completes nothing and says so: every record that is completed afterwards was so
  before; at most the record of this attempt was added, and it is failed, with the text of the error that is
  reported, or still running. It is failed whenever the database file takes every write and the clock and the expiry
  are in the years that JSON can hold: only a refused write leaves an attempt running, or without a record.
\<close>

theorem failed_backup_completes_nothing:
  assumes "aws_ok E" and "backups_wf E w"
    and "quiet_dump do_backup"
    and "backup_database E i dbn bt parent do_backup a days w = (Some e, w')"
  shows "(\<forall>j r. backup_view E w' j = Some r \<longrightarrow> b_status r = StatusCompleted \<longrightarrow>
      backup_view E w j = Some r) \<and>
    (\<forall>j. j \<noteq> next_id E w \<longrightarrow> backup_view E w' j = backup_view E w j) \<and>
    (backup_view E w' = backup_view E w \<or>
      (\<exists>r. backup_view E w' (next_id E w) = Some r \<and> b_instance_id r = i_id i \<and> b_database r = dbn \<and> b_type r = bt \<and>
        (b_status r = StatusRunning \<or> b_status r = StatusFailed \<and> b_error r = err_text e))) \<and>
    (bolt_writes E \<and> (\<forall>m. json_time_ok (fst (os_now E m)) \<and> json_time_ok (add_days (fst (os_now E m)) days)) \<longrightarrow>
      (\<exists>r. backup_view E w' (next_id E w) = Some r \<and> b_status r = StatusFailed \<and> b_error r = err_text e))"
proof -
  from backup_database_effect [OF assms] obtain r m1 m2 where
    r: "r = initial_record i dbn bt parent days (next_id E w) (fst (os_now E m1)) (fst (os_now E m2))"
    "backup_view E w' = backup_view E w \<and> \<not> written E r \<or> backup_undone E e r w w'" by auto
  have s: "b_id r = next_id E w" "b_status r = StatusRunning" "b_instance_id r = i_id i" "b_database r = dbn" "b_type r = bt"
    using r(1) by (simp_all add: initial_record_def)
  have wr: "written E r"
    if "bolt_writes E" "\<forall>m. json_time_ok (fst (os_now E m)) \<and> json_time_ok (add_days (fst (os_now E m)) days)"
    using that by (simp add: r(1) written_def initial_record_def)
  from r(2) show ?thesis
  proof
    assume "backup_undone E e r w w'"
    then obtain q where q: "q = r \<or> failed_of e r q" "written E r \<longrightarrow> failed_of e r q"
      "backup_view E w' = (backup_view E w)(b_id r \<mapsto> q)" by (auto simp: backup_undone_def)
    then have "b_status q \<noteq> StatusCompleted" using s failed_of_sel(3) by fastforce
    moreover have "b_instance_id q = i_id i \<and> b_database q = dbn \<and> b_type q = bt \<and>
        (b_status q = StatusRunning \<or> b_status q = StatusFailed \<and> b_error q = err_text e)"
      using q(1) s failed_of_sel [of e r q] by (auto simp: same_origin_def)
    moreover have "failed_of e r q \<Longrightarrow> b_status q = StatusFailed \<and> b_error q = err_text e"
      using failed_of_sel by blast
    ultimately show ?thesis using q(2,3) s wr by auto
  next
    assume "backup_view E w' = backup_view E w \<and> \<not> written E r"
    then have v: "backup_view E w' = backup_view E w" and n: "\<not> written E r" by simp_all
    show ?thesis using n wr by (auto simp: v)
  qed
qed

theorem failed_backup_completes_nothing_witness:
  "let i = ex_instance ''srv'' EnginePostgres; w = ex_sys [i] [] 0;
       w0 = w\<lparr>os := (os w)\<lparr>ro_dump := (mem_stream ''x'')\<lparr>st_wait_errs := [Some (Err ''exit status 1'')]\<rparr>\<rparr>\<rparr>;
       p = backup_database (fixed_env 0) i ''db'' BackupTypeFull '''' (ad_backup (fixed_env 0) (PostgresAdapter
             \<lparr>q_driver = ''pgx'', q_dsn = ''''\<rparr> i)) (adapter_of ex_cfg) 3 w0
   in fst p = Some (Err ''exit status 1'') \<and>
      map_option (\<lambda>r. (b_status r, b_error r)) (backup_view (fixed_env 0) (snd p) ''id-0'') =
        Some (StatusFailed, ''exit status 1'')"
proof -
  let ?E = "fixed_env 0" and ?i = "ex_instance ''srv'' EnginePostgres"
  let ?v = "ex_sys [?i] [] 0"
  let ?w = "?v\<lparr>os := (os ?v)\<lparr>ro_dump := (mem_stream ''x'')\<lparr>st_wait_errs := [Some (Err ''exit status 1'')]\<rparr>\<rparr>\<rparr>"
  let ?b = "ad_backup ?E (PostgresAdapter \<lparr>q_driver = ''pgx'', q_dsn = ''''\<rparr> ?i)"
  let ?p = "backup_database ?E ?i ''db'' BackupTypeFull '''' ?b (adapter_of ex_cfg) 3 ?w"
  have e: "fst ?p = Some (Err ''exit status 1'')" by code_simp
  then have p: "?p = (Some (Err ''exit status 1''), snd ?p)" by (simp add: prod_eq_iff)
  have wf: "backups_wf ?E ?w"
    using ex_backups_wf [of "[?i]" "[]" 0] wf_eq_db [of ?w ?v] by (simp add: fixed_env_views)
  have n: "next_id ?E ?w = ''id-0''" "err_text (Err ''exit status 1'') = ''exit status 1''" by code_simp+
  have "bolt_writes ?E" by (simp add: bolt_writes_def fixed_env_def ref_env_sel)
  moreover have "json_time_ok 0" "json_time_ok (add_days 0 3)" by code_simp+
  ultimately obtain r where "backup_view ?E (snd ?p) ''id-0'' = Some r" "b_status r = StatusFailed"
    "b_error r = ''exit status 1''"
    using failed_backup_completes_nothing [OF fixed_env_ok(2) wf quiet_dumps(1) p] n by auto
  then show ?thesis using e by (simp add: Let_def)
qed

text \<open>
  A log backup that does not apply is not a failure for the caller, and yet it leaves one in the history:
  for a database in the SIMPLE model the run reports no error and notifies none, but a start was
  notified that no end follows, and a failed record is stored.
\<close>

theorem inapplicable_log_leaves_failed_record:
  "let w = (ex_sys [ex_instance ''srv'' EngineSQLServer]
              [(ex_record ''a'' ''a.bak'' BackupTypeFull '''' 5)\<lparr>b_database := ''SIMPLE''\<rparr>] 0);
       p = run_for_instance ref_env ''i1'' BackupTypeLog (w\<lparr>os := (os w)\<lparr>ro_dbs := [''SIMPLE'']\<rparr>\<rparr>)
   in fst p = None \<and> events (snd p) = [NotifyStarted ''srv'' ''SIMPLE''] \<and>
      map_option (\<lambda>r. (b_status r, b_error r)) (backup_view ref_env (snd p) ''id-0'') =
        Some (StatusFailed, log_na_text)"
  by code_simp

section \<open>The chain a log extends\<close>

lemma pick_latest_some:
  "pick_latest best rs = Some p \<Longrightarrow>
    (best = Some p \<or> p \<in> set rs) \<and> (\<forall>q \<in> set rs. b_started q \<le> b_started p) \<and>
    (\<forall>b. best = Some b \<longrightarrow> b_started b \<le> b_started p)"
proof (induction rs arbitrary: best)
  case (Cons r rs)
  then show ?case by (cases best) (fastforce split: if_splits)+
qed simp

lemma pick_latest_None: "pick_latest best rs = None \<longleftrightarrow> best = None \<and> rs = []"
  by (induction rs arbitrary: best) (auto split: option.splits)

definition chain_candidates :: "('d, 's, 'm) env \<Rightarrow> ('d, 's, 'm) sys \<Rightarrow> string \<Rightarrow> string \<Rightarrow> backup_record set" where
  "chain_candidates E w iid dbn =
     {r. backup_view E w (b_id r) = Some r \<and> b_instance_id r = iid \<and> b_database r = dbn \<and>
         b_status r = StatusCompleted \<and> is_full r}"

lemma latest_completed_full_cases:
  assumes wf: "backups_wf E w"
  obtains (none) "latest_completed_full E iid dbn w = Inr None" "chain_candidates E w iid dbn = {}"
  | (some) p where "latest_completed_full E iid dbn w = Inr (Some p)" "p \<in> chain_candidates E w iid dbn"
      "\<forall>q \<in> chain_candidates E w iid dbn. b_started q \<le> b_started p"
proof -
  from backups.all_Inr [OF wf] obtain rs where al: "br_find_all E w = Inr rs" ..
  let ?fs = "filter (\<lambda>r. b_database r = dbn \<and> b_status r = StatusCompleted \<and> is_full r)
    (filter (\<lambda>r. b_instance_id r = iid) rs)"
  have l: "latest_completed_full E iid dbn w = Inr (pick_latest None ?fs)"
    by (simp add: latest_completed_full_def br_find_by_instance_def store_filter_def al)
  have fs: "set ?fs = chain_candidates E w iid dbn"
    using all_tracks(2) [OF wf al] by (auto simp: chain_candidates_def)
  show thesis
  proof (cases "pick_latest None ?fs")
    case None
    then have "?fs = []" by (simp only: pick_latest_None)
    with fs have "chain_candidates E w iid dbn = {}" by (metis list.set(1))
    with none l None show ?thesis by simp
  next
    case (Some p)
    from pick_latest_some [OF Some] fs have "p \<in> chain_candidates E w iid dbn"
      "\<forall>q \<in> chain_candidates E w iid dbn. b_started q \<le> b_started p" by blast+
    with some l Some show ?thesis by simp
  qed
qed

text \<open>
  A log backup is chained to the newest completed full of its instance and database: what
  \<open>latestCompletedFull\<close> answers is such a full and none started later, and it answers nothing only when
  there is none.
\<close>

theorem log_extends_latest_full:
  assumes "backups_wf E w"
  shows "\<exists>o1. latest_completed_full E iid dbn w = Inr o1 \<and>
    (case o1 of
       None \<Rightarrow> chain_candidates E w iid dbn = {}
     | Some p \<Rightarrow> p \<in> chain_candidates E w iid dbn \<and>
         (\<forall>q \<in> chain_candidates E w iid dbn. b_started q \<le> b_started p))"
  by (rule latest_completed_full_cases [OF assms, of iid dbn]) auto

theorem log_extends_latest_full_witness:
  "latest_completed_full ref_env ''i1'' ''db'' (ex_sys [] ex_chain 0) =
     Inr (Some (ex_record ''c'' ''c.bak'' BackupTypeFull '''' (3 * ns_per_day))) \<and>
   ex_record ''c'' ''c.bak'' BackupTypeFull '''' (3 * ns_per_day) \<in>
     chain_candidates ref_env (ex_sys [] ex_chain 0) ''i1'' ''db''"
proof -
  have l: "latest_completed_full ref_env ''i1'' ''db'' (ex_sys [] ex_chain 0) =
      Inr (Some (ex_record ''c'' ''c.bak'' BackupTypeFull '''' (3 * ns_per_day)))" by code_simp
  from log_extends_latest_full [OF ex_backups_wf, of "''i1''" "''db''" "[]" ex_chain 0] l
  show ?thesis by auto
qed

text \<open>
  The records of a database form chains: a full has no parent, and every other record has as its parent
  a full of the same instance and database that is still on record.
\<close>

definition chain_wf :: "('d, 's, 'm) env \<Rightarrow> ('d, 's, 'm) sys \<Rightarrow> bool" where
  "chain_wf E w \<longleftrightarrow>
     (\<forall>i r. backup_view E w i = Some r \<longrightarrow> i \<noteq> '''' \<and>
        (if is_full r then b_parent r = ''''
         else (\<exists>p. backup_view E w (b_parent r) = Some p \<and> is_full p \<and>
           b_instance_id p = b_instance_id r \<and> b_database p = b_database r)))"

lemma chain_wf_shrinks:
  assumes c: "chain_wf E w" and s: "shrinks E cfg D w w'"
  shows "chain_wf E w'"
  unfolding chain_wf_def
proof (intro allI impI)
  fix i r assume "backup_view E w' i = Some r"
  from shrinks_back [OF s this] obtain q where
    q: "backup_view E w i = Some q" "r = q \<or> r = expired_copy q" by auto
  from c q(1) have cq: "i \<noteq> '''' \<and> (if is_full q then b_parent q = ''''
     else (\<exists>p. backup_view E w (b_parent q) = Some p \<and> is_full p \<and>
       b_instance_id p = b_instance_id q \<and> b_database p = b_database q))"
    unfolding chain_wf_def by blast
  have eq: "is_full r = is_full q" "b_parent r = b_parent q" "b_instance_id r = b_instance_id q"
    "b_database r = b_database q" using q(2) by auto
  show "i \<noteq> '''' \<and> (if is_full r then b_parent r = ''''
     else (\<exists>p. backup_view E w' (b_parent r) = Some p \<and> is_full p \<and>
       b_instance_id p = b_instance_id r \<and> b_database p = b_database r))"
  proof (cases "is_full q")
    case False
    with cq obtain p where p: "backup_view E w (b_parent q) = Some p" "is_full p"
      "b_instance_id p = b_instance_id q" "b_database p = b_database q" by auto
    from shrinks_forth [OF s p(1)] p obtain p' where "backup_view E w' (b_parent q) = Some p'" "is_full p'"
      "b_instance_id p' = b_instance_id q" "b_database p' = b_database q" by auto
    with False cq eq show ?thesis by auto
  qed (use cq eq in auto)
qed

lemma chain_wf_insert:
  assumes c: "chain_wf E w" and v: "backup_view E w' = (backup_view E w)(n \<mapsto> r)"
    and n: "n \<noteq> ''''" "backup_view E w n = None"
    and r: "if is_full r then b_parent r = ''''
      else (\<exists>p. backup_view E w (b_parent r) = Some p \<and> is_full p \<and>
        b_instance_id p = b_instance_id r \<and> b_database p = b_database r)"
  shows "chain_wf E w'"
  unfolding chain_wf_def
proof (intro allI impI)
  have keep: "backup_view E w x = Some p \<Longrightarrow> backup_view E w' x = Some p" for x p
    using v n by auto
  fix i q assume q: "backup_view E w' i = Some q"
  show "i \<noteq> '''' \<and> (if is_full q then b_parent q = ''''
     else (\<exists>p. backup_view E w' (b_parent q) = Some p \<and> is_full p \<and>
       b_instance_id p = b_instance_id q \<and> b_database p = b_database q))"
  proof (cases "i = n")
    case True
    with q v have "q = r" by simp
    with r n True keep show ?thesis by (auto split: if_splits)
  next
    case False
    with q v have "backup_view E w i = Some q" by simp
    with c have "i \<noteq> '''' \<and> (if is_full q then b_parent q = ''''
     else (\<exists>p. backup_view E w (b_parent q) = Some p \<and> is_full p \<and>
       b_instance_id p = b_instance_id q \<and> b_database p = b_database q))"
      unfolding chain_wf_def by blast
    with keep show ?thesis by (auto split: if_splits)
  qed
qed

text \<open>
  C18. Backups keep the chains well formed, whether they succeed or fail: after a full, or a log chained
  to a completed full of the same database, every log on record still has its full on record. The new
  identifier must not be in use.
\<close>

theorem backup_keeps_chains:
  assumes "aws_ok E" and "backups_wf E w" and "quiet_dump do_backup" and "chain_wf E w"
    and "next_id E w \<noteq> ''''" and "backup_view E w (next_id E w) = None"
    and "bt = BackupTypeFull \<and> parent = '''' \<or>
      bt = BackupTypeLog \<and> parent \<in> b_id ` chain_candidates E w (i_id i) dbn"
    and "backup_database E i dbn bt parent do_backup a days w = (e, w')"
  shows "chain_wf E w'"
proof -
  from backup_database_effect [OF assms(1-3,8)] obtain r t1 t2 where
    r: "r = initial_record i dbn bt parent days (next_id E w) t1 t2"
    "backup_view E w' = backup_view E w \<or> backup_done E a r w w' \<or> backup_undone E (the e) r w w'"
    by (auto split: if_splits)
  have id: "b_id r = next_id E w" by (simp add: r(1) initial_record_def)
  have ok: "if is_full q then b_parent q = ''''
      else (\<exists>p. backup_view E w (b_parent q) = Some p \<and> is_full p \<and>
        b_instance_id p = b_instance_id q \<and> b_database p = b_database q)"
    if "b_type q = bt" "b_parent q = parent" "b_instance_id q = i_id i" "b_database q = dbn" for q
    using assms(7) that by (auto simp: is_full_def chain_candidates_def)
  consider (same) "backup_view E w' = backup_view E w"
    | (new) q where "backup_view E w' = (backup_view E w)(next_id E w \<mapsto> q)" "same_origin q r"
    using r(2) id failed_of_sel(1) by (auto simp: backup_done_def Let_def backup_undone_def completed_record_def same_origin_def)
  then show ?thesis
  proof cases
    case same
    then show ?thesis using assms(4) by (simp add: chain_wf_def)
  next
    case new
    then have "b_type q = bt" "b_parent q = parent" "b_instance_id q = i_id i" "b_database q = dbn"
      by (simp_all add: r(1) same_origin_def initial_record_def)
    from chain_wf_insert [OF assms(4) new(1) assms(5,6) ok [OF this]] show ?thesis .
  qed
qed

definition chain_list :: "backup_record list \<Rightarrow> bool" where
  "chain_list rs = list_all (\<lambda>r. b_id r \<noteq> '''' \<and>
     (if is_full r then b_parent r = ''''
      else (case map_of (map (\<lambda>r. (b_id r, r)) rs) (b_parent r) of
              None \<Rightarrow> False
            | Some p \<Rightarrow> is_full p \<and> b_instance_id p = b_instance_id r \<and> b_database p = b_database r))) rs"

lemma ex_chain_wf: "chain_wf ref_env (ex_sys ins ex_chain t)"
proof -
  have l: "chain_list ex_chain" by code_simp
  have m: "i = b_id r \<and> r \<in> set ex_chain" if "map_of (map (\<lambda>r. (b_id r, r)) ex_chain) i = Some r" for i r
    using map_of_SomeD [OF that] by auto
  show ?thesis
    unfolding chain_wf_def ex_backup_view
  proof (intro allI impI)
    fix i r assume "map_of (map (\<lambda>r. (b_id r, r)) ex_chain) i = Some r"
    from m [OF this] have i: "i = b_id r" and r: "r \<in> set ex_chain" by simp_all
    from bspec [OF l [unfolded chain_list_def list_all_iff] r]
    show "i \<noteq> '''' \<and> (if is_full r then b_parent r = ''''
       else (\<exists>p. map_of (map (\<lambda>r. (b_id r, r)) ex_chain) (b_parent r) = Some p \<and> is_full p \<and>
         b_instance_id p = b_instance_id r \<and> b_database p = b_database r))"
      unfolding i by (cases "map_of (map (\<lambda>r. (b_id r, r)) ex_chain) (b_parent r)") (simp_all split: if_splits)
  qed
qed

theorem backup_keeps_chains_witness:
  "chain_wf ref_env (snd (backup_database ref_env (ex_instance ''srv'' EngineSQLServer) ''db'' BackupTypeLog ''c''
     (sqlserver_backup_log ref_env \<lparr>q_driver = ''sqlserver'', q_dsn = ''''\<rparr> (ex_instance ''srv'' EngineSQLServer))
     (adapter_of ex_cfg) 3 (ex_sys [] ex_chain 0)))"
proof -
  let ?w = "ex_sys [] ex_chain 0"
  have "next_id ref_env ?w = ''id-0''" by code_simp
  moreover have "backup_view ref_env ?w ''id-0'' = None" by (simp add: ex_backup_view ex_chain_def)
  moreover have "ex_record ''c'' ''c.bak'' BackupTypeFull '''' (3 * ns_per_day) \<in>
      chain_candidates ref_env ?w (i_id (ex_instance ''srv'' EngineSQLServer)) ''db''"
    by (simp add: chain_candidates_def ex_backup_view ex_chain_def is_full_def ex_instance_def)
  then have "''c'' \<in> b_id ` chain_candidates ref_env ?w (i_id (ex_instance ''srv'' EngineSQLServer)) ''db''"
    by (metis ex_record_sel(1) image_eqI)
  ultimately show ?thesis
    using backup_keeps_chains [OF aws_ok_ref_env ex_backups_wf quiet_dumps(2) ex_chain_wf _ _ _ surjective_pairing]
    by simp
qed

end
