(* ===== verification/Restore.thy ===== *)
theory Restore
  imports RunBackup
begin

text \<open>
  Restoring (\<open>application/usecases/restore_usecase.go\<close>): one backup with the chain it needs, every
  database at its latest point, and a database at a point in time. Every attempt is recorded. The calls
  made to an engine are kept, in order, in the events of the system.
\<close>

definition ConfirmPhrase :: string where "ConfirmPhrase = ''confirmar''"

section \<open>Looking up\<close>

definition restore_find_all where
  "restore_find_all E w = inst_find_all E w"

definition find_history :: "('d, 's, 'm) env \<Rightarrow> ('d, 's, 'm) sys \<Rightarrow> restore_record list res" where
  "find_history E w =
     (case rr_find_all E w of Inl e \<Rightarrow> Inl e | Inr rs \<Rightarrow> Inr (sort_slice E (\<lambda>r. - rr_started r) rs))"

definition resolve_instance :: "('d, 's, 'm) env \<Rightarrow> string \<Rightarrow> ('d, 's, 'm) sys \<Rightarrow> inst_rec res" where
  "resolve_instance E name w =
     (case inst_find_all E w of
        Inl e \<Rightarrow> Inl (WrapErr ''listar instancias: '' e '''')
      | Inr is \<Rightarrow>
          (case List.find (\<lambda>i. to_lower (i_name i) = to_lower name) is of
             Some i \<Rightarrow> Inr i
           | None \<Rightarrow> Inl (Err (''instancia '' @ go_quote name @ '' no encontrada''))))"

definition build_chain :: "('d, 's, 'm) env \<Rightarrow> backup_record \<Rightarrow> ('d, 's, 'm) sys \<Rightarrow>
    backup_record list res" where
  "build_chain E target w =
     (if is_full target then Inr [target]
      else (case br_find_by_id E (b_parent target) w of
              Inl e \<Rightarrow> Inl (WrapErr (''full padre del log '' @ b_id target @ '' no encontrado: '') e '''')
            | Inr full \<Rightarrow>
                (case br_find_by_instance E (b_instance_id target) w of
                   Inl e \<Rightarrow> Inl e
                 | Inr rs \<Rightarrow> Inr (full # sort_slice E b_started
                     (filter (\<lambda>r. b_parent r = b_id full \<and> b_status r = StatusCompleted \<and>
                        \<not> b_started target < b_started r) rs)))))"

section \<open>Records of the attempts\<close>

definition start_restore_record :: "('d, 's, 'm) env \<Rightarrow> inst_rec \<Rightarrow> string \<Rightarrow> string \<Rightarrow>
    ('d, 's, 'm) sys \<Rightarrow> restore_record \<times> ('d, 's, 'm) sys" where
  "start_restore_record E i dbn bid w =
     (case new_id E w of (rid, w1) \<Rightarrow>
      (case now E w1 of (t, w2) \<Rightarrow>
         let r = \<lparr>rr_id = rid, rr_instance_id = i_id i, rr_instance_name = i_name i, rr_database = dbn,
                  rr_target = bid, rr_chain = [], rr_status = StatusRunning, rr_error = '''',
                  rr_started = t, rr_completed = None\<rparr>
         in (r, snd (rr_save E r w2))))"

definition finish_restore_record :: "('d, 's, 'm) env \<Rightarrow> restore_record \<Rightarrow> string list \<Rightarrow> gerr option \<Rightarrow>
    ('d, 's, 'm) sys \<Rightarrow> ('d, 's, 'm) sys" where
  "finish_restore_record E r ids e w =
     (case now E w of (t, w1) \<Rightarrow>
        let r1 = r\<lparr>rr_completed := Some t, rr_chain := ids\<rparr>;
            r2 = (case e of
                    Some x \<Rightarrow> r1\<lparr>rr_status := StatusFailed, rr_error := err_text x\<rparr>
                  | None \<Rightarrow> r1\<lparr>rr_status := StatusCompleted\<rparr>)
        in snd (rr_update E r2 w1))"

section \<open>Restoring one backup\<close>

text \<open>
  The loop over the chain: the first backup is restored as a full, left in recovery when more follow on
  SQL Server, the others as logs, the last of which brings the database back.
\<close>

fun apply_chain :: "('d, 's, 'm) env \<Rightarrow> inst_rec \<Rightarrow> db_adapter \<Rightarrow> s3_adapter \<Rightarrow> string \<Rightarrow> bool \<Rightarrow>
    backup_record list \<Rightarrow> string list \<Rightarrow> ('d, 's, 'm) sys \<Rightarrow>
    (string list \<times> gerr option) \<times> ('d, 's, 'm) sys" where
  "apply_chain E i ad a dbn first [] ids w = ((ids, None), w)"
| "apply_chain E i ad a dbn first (c # cs) ids w =
     (let ids' = ids @ [b_id c] in
      case s3_download E a (b_file_name c) w of
        (Inl e, w1) \<Rightarrow> ((ids', Some e), w1)
      | (Inr st, w1) \<Rightarrow>
          if first then
            (let nr = (cs \<noteq> [] \<and> i_engine i = EngineSQLServer) in
             case ad_restore E ad dbn st nr (emit (RestoreFull (i_name i) dbn st nr) w1) of
               (Some e, w2) \<Rightarrow> ((ids', Some e), w2)
             | (None, w2) \<Rightarrow> apply_chain E i ad a dbn False cs ids' w2)
          else
            (case log_capable ad of
               None \<Rightarrow> ((ids', Some (Err ''el adaptador no soporta logs'')), w1)
             | Some (c', i') \<Rightarrow>
                 (case sqlserver_restore_log E c' i' dbn st (cs = [])
                         (emit (RestoreLog (i_name i) dbn st (cs = [])) w1) of
                    (Some e, w2) \<Rightarrow> ((ids', Some e), w2)
                  | (None, w2) \<Rightarrow> apply_chain E i ad a dbn False cs ids' w2)))"

definition restore_chain :: "('d, 's, 'm) env \<Rightarrow> inst_rec \<Rightarrow> db_adapter \<Rightarrow> s3_config \<Rightarrow> string \<Rightarrow>
    backup_record list res \<Rightarrow> ('d, 's, 'm) sys \<Rightarrow> (string list \<times> gerr option) \<times> ('d, 's, 'm) sys" where
  "restore_chain E i ad cfg dbn chain w =
     (case chain of
        Inl e \<Rightarrow> (([], Some e), w)
      | Inr cs \<Rightarrow> (case s3_new E cfg w of
          (Inl e, w1) \<Rightarrow> (([], Some e), w1)
        | (Inr a, w1) \<Rightarrow> apply_chain E i ad a dbn True cs [] w1))"

definition restore_backup :: "('d, 's, 'm) env \<Rightarrow> string \<Rightarrow> string \<Rightarrow> string \<Rightarrow> ('d, 's, 'm) sys \<Rightarrow>
    gerr option \<times> ('d, 's, 'm) sys" where
  "restore_backup E bid tname dbn w =
     (case br_find_by_id E bid w of
        Inl e \<Rightarrow> (Some (WrapErr ''registro de respaldo no encontrado: '' e ''''), w)
      | Inr rec \<Rightarrow> (case resolve_instance E tname w of
          Inl e \<Rightarrow> (Some e, w)
        | Inr target \<Rightarrow> (case s3cfg_get E w of
            Inl e \<Rightarrow> (Some (WrapErr (''configuraci'' @ u_o @ ''n S3 no disponible: '') e ''''), w)
          | Inr cfg \<Rightarrow> (case new_adapter E target w of
              (Inl e, w1) \<Rightarrow> (Some (WrapErr ''conectar instancia destino: '' e ''''), w1)
            | (Inr ad, w1) \<Rightarrow> closing E ad
                (case start_restore_record E target dbn bid w1 of
                   (rr, w2) \<Rightarrow>
                     let chain = (if i_engine target = EngineSQLServer then build_chain E rec w2
                                  else Inr [rec])
                     in (case restore_chain E target ad cfg dbn chain w2 of
                           ((ids, e), w3) \<Rightarrow> (e, finish_restore_record E rr ids e w3)))))))"

section \<open>A point in time\<close>

definition restore_point_in_time :: "('d, 's, 'm) env \<Rightarrow> string \<Rightarrow> string \<Rightarrow> time \<Rightarrow> ('d, 's, 'm) sys \<Rightarrow>
    gerr option \<times> ('d, 's, 'm) sys" where
  "restore_point_in_time E tname dbn tt w =
     (case resolve_instance E tname w of
        Inl e \<Rightarrow> (Some e, w)
      | Inr i \<Rightarrow> (case br_find_by_instance E (i_id i) w of
          Inl e \<Rightarrow> (Some e, w)
        | Inr rs \<Rightarrow>
            (case pick_latest None (filter (\<lambda>r. b_database r = dbn \<and> b_status r = StatusCompleted \<and>
                     \<not> tt < b_started r) rs) of
               None \<Rightarrow> (Some (Err (''no se encontr'' @ u_o @ '' ning'' @ [CHR 0xC3, CHR 0xBA] @
                 ''n respaldo completado antes de '' @ fmt_rfc3339 tt @ '' para '' @ tname @ ''/'' @ dbn)), w)
             | Some best \<Rightarrow> restore_backup E (b_id best) tname dbn w)))"

section \<open>Every database at its latest point\<close>

text \<open>Go maps as association lists with one entry per key.\<close>

definition upd :: "string \<Rightarrow> 'a \<Rightarrow> (string \<times> 'a) list \<Rightarrow> (string \<times> 'a) list" where
  "upd k v xs = (k, v) # filter (\<lambda>x. fst x \<noteq> k) xs"

fun latest_fulls :: "backup_record list \<Rightarrow> (string \<times> backup_record) list \<Rightarrow>
    (string \<times> backup_record) list" where
  "latest_fulls [] acc = acc"
| "latest_fulls (r # rs) acc =
     (if \<not> is_full r \<or> b_status r \<noteq> StatusCompleted \<or> equal_fold (b_database r) ''master''
      then latest_fulls rs acc
      else (case map_of acc (b_database r) of
              None \<Rightarrow> latest_fulls rs (upd (b_database r) r acc)
            | Some cur \<Rightarrow>
                if b_started cur < b_started r then latest_fulls rs (upd (b_database r) r acc)
                else latest_fulls rs acc))"

fun latest_logs :: "backup_record list \<Rightarrow> (string \<times> backup_record) list \<Rightarrow> backup_record list \<Rightarrow>
    (string \<times> string) list \<Rightarrow> (string \<times> string) list" where
  "latest_logs al fulls [] res = res"
| "latest_logs al fulls (r # rs) res =
     (if b_status r \<noteq> StatusCompleted \<or> is_full r then latest_logs al fulls rs res
      else (case map_of fulls (b_database r) of
              None \<Rightarrow> latest_logs al fulls rs res
            | Some f \<Rightarrow>
                if b_parent r \<noteq> b_id f then latest_logs al fulls rs res
                else (case (case map_of res (b_database r) of
                              None \<Rightarrow> None | Some i \<Rightarrow> List.find (\<lambda>q. b_id q = i) al) of
                        None \<Rightarrow> latest_logs al fulls rs (upd (b_database r) (b_id r) res)
                      | Some cur \<Rightarrow>
                          if b_started cur < b_started r
                          then latest_logs al fulls rs (upd (b_database r) (b_id r) res)
                          else latest_logs al fulls rs res)))"

definition points_of :: "backup_record list \<Rightarrow> (string \<times> string) list" where
  "points_of rs =
     (let fulls = latest_fulls rs []
      in latest_logs rs fulls rs (map (\<lambda>(d, f). (d, b_id f)) fulls))"

definition latest_restore_points :: "('d, 's, 'm) env \<Rightarrow> string \<Rightarrow> ('d, 's, 'm) sys \<Rightarrow>
    (string \<times> string) list res" where
  "latest_restore_points E iid w =
     (case br_find_by_instance E iid w of Inl e \<Rightarrow> Inl e | Inr rs \<Rightarrow> Inr (points_of rs))"

record restore_point =
  pt_instance :: string
  pt_database :: string
  pt_backup :: string
  pt_at :: time
  pt_is_log :: bool

fun point_rows :: "('d, 's, 'm) env \<Rightarrow> string \<Rightarrow> (string \<times> string) list \<Rightarrow> ('d, 's, 'm) sys \<Rightarrow>
    restore_point list" where
  "point_rows E name [] w = []"
| "point_rows E name ((d, i) # ps) w =
     (case br_find_by_id E i w of
        Inl e \<Rightarrow> point_rows E name ps w
      | Inr r \<Rightarrow> \<lparr>pt_instance = name, pt_database = d, pt_backup = i, pt_at = b_started r,
                  pt_is_log = (\<not> is_full r)\<rparr> # point_rows E name ps w)"

text \<open>\<open>LatestRestorePoints\<close>; its rows carry no instance name, which \<open>PreviewRestoreAll\<close> adds.\<close>

definition list_restore_points :: "('d, 's, 'm) env \<Rightarrow> string \<Rightarrow> string \<Rightarrow> ('d, 's, 'm) sys \<Rightarrow>
    restore_point list res" where
  "list_restore_points E name iid w =
     (case latest_restore_points E iid w of
        Inl e \<Rightarrow> Inl e
      | Inr ps \<Rightarrow> Inr (sort_key pt_database (point_rows E name (map_range E (os w) ps) w)))"

fun preview_rows :: "('d, 's, 'm) env \<Rightarrow> inst_rec list \<Rightarrow> ('d, 's, 'm) sys \<Rightarrow> restore_point list" where
  "preview_rows E [] w = []"
| "preview_rows E (i # is) w =
     (if \<not> i_enabled i \<or> i_engine i = EngineRedis then preview_rows E is w
      else (case list_restore_points E (i_name i) (i_id i) w of
              Inl e \<Rightarrow> preview_rows E is w
            | Inr ps \<Rightarrow> ps @ preview_rows E is w))"

definition preview_restore_all :: "('d, 's, 'm) env \<Rightarrow> ('d, 's, 'm) sys \<Rightarrow> restore_point list res" where
  "preview_restore_all E w =
     (case inst_find_all E w of
        Inl e \<Rightarrow> Inl (WrapErr ''listar instancias: '' e '''')
      | Inr is \<Rightarrow> Inr (sort_key pt_instance (sort_key pt_database (preview_rows E is w))))"

fun restore_points :: "('d, 's, 'm) env \<Rightarrow> inst_rec \<Rightarrow> (string \<times> string) list \<Rightarrow> ('d, 's, 'm) sys \<Rightarrow>
    string list \<times> ('d, 's, 'm) sys" where
  "restore_points E i [] w = ([], w)"
| "restore_points E i ((d, b) # ps) w =
     (case restore_backup E b (i_name i) d w of
        (e, w1) \<Rightarrow> (case restore_points E i ps w1 of
          (fs, w2) \<Rightarrow> ((case e of None \<Rightarrow> fs
             | Some x \<Rightarrow> (i_name i @ ''/'' @ d @ '': '' @ err_text x) # fs), w2)))"

fun restore_instances :: "('d, 's, 'm) env \<Rightarrow> inst_rec list \<Rightarrow> ('d, 's, 'm) sys \<Rightarrow>
    string list \<times> ('d, 's, 'm) sys" where
  "restore_instances E [] w = ([], w)"
| "restore_instances E (i # is) w =
     (if \<not> i_enabled i \<or> i_engine i = EngineRedis then restore_instances E is w
      else (case latest_restore_points E (i_id i) w of
              Inl e \<Rightarrow> (case restore_instances E is w of
                (fs, w1) \<Rightarrow> ((i_name i @ '': '' @ err_text e) # fs, w1))
            | Inr ps \<Rightarrow> (case restore_points E i (map_range E (os w) ps) w of
                (fs1, w1) \<Rightarrow> (case restore_instances E is w1 of
                  (fs2, w2) \<Rightarrow> (fs1 @ fs2, w2)))))"

definition restore_all :: "('d, 's, 'm) env \<Rightarrow> string \<Rightarrow> ('d, 's, 'm) sys \<Rightarrow>
    gerr option \<times> ('d, 's, 'm) sys" where
  "restore_all E confirm w =
     (if trim_space (to_lower confirm) \<noteq> ConfirmPhrase
      then (Some (Err (''confirmaci'' @ u_o @ ''n inv'' @ u_a @ ''lida: debe escribirse exactamente '' @
              go_quote ConfirmPhrase)), w)
      else (case inst_find_all E w of
              Inl e \<Rightarrow> (Some (WrapErr ''listar instancias: '' e ''''), w)
            | Inr is \<Rightarrow> (case restore_instances E is w of
                (fs, w1) \<Rightarrow>
                  ((if fs = [] then None
                    else Some (Err (''fallaron '' @ show_nat (length fs) @ '' restauraciones: '' @
                           join fs ''; ''))), w1))))"

section \<open>The order of the calls\<close>

text \<open>
  What an engine must be asked for a chain of n backups: with the first stream a full restore, which leaves
  the database in recovery when logs follow on SQL Server; with each later stream a log restore, of which
  the last brings the database back. \<open>streams_of\<close> says that the streams are, in order, the objects
  the backups of a list name: what is stored under the key when the stream can be read to its end.
\<close>

fun restore_calls :: "string \<Rightarrow> string \<Rightarrow> bool \<Rightarrow> nat \<Rightarrow> nat \<Rightarrow> stream list \<Rightarrow> event list" where
  "restore_calls name dbn sql n j [] = []"
| "restore_calls name dbn sql n j (st # sts) =
     (if j = 0 then RestoreFull name dbn st (1 < n \<and> sql) else RestoreLog name dbn st (Suc j = n)) #
     restore_calls name dbn sql n (Suc j) sts"

definition stream_of :: "('d, 's, 'm) env \<Rightarrow> s3_adapter \<Rightarrow> ('d, 's, 'm) sys \<Rightarrow> backup_record \<Rightarrow> stream \<Rightarrow> bool" where
  "stream_of E a w c st \<longleftrightarrow>
     (\<exists>x. s3_view E a w (b_file_name c) = Some x \<and> (st_read_err st = None \<longrightarrow> st_bytes st = x))"

definition streams_of :: "('d, 's, 'm) env \<Rightarrow> s3_adapter \<Rightarrow> ('d, 's, 'm) sys \<Rightarrow> backup_record list \<Rightarrow>
    stream list \<Rightarrow> bool" where
  "streams_of E a w cs sts = list_all2 (stream_of E a w) (take (length sts) cs) sts"

lemma streams_of_Nil [simp]: "streams_of E a w cs []"
  by (simp add: streams_of_def)

lemma streams_of_Cons [simp]:
  "streams_of E a w (c # cs) (st # sts) \<longleftrightarrow> stream_of E a w c st \<and> streams_of E a w cs sts"
  by (simp add: streams_of_def)

lemma streams_of_cong: "s3_view E a w' = s3_view E a w \<Longrightarrow> streams_of E a w' = streams_of E a w"
  by (simp add: streams_of_def [abs_def] stream_of_def [abs_def])

lemma s3_download_stream:
  assumes "aws_ok E" "s3_download E a (b_file_name c) w = (Inr st, w')"
  shows "stream_of E a w c st"
  using storage.download_law [OF assms] by (simp add: stream_of_def)

lemma s3_download_frame:
  assumes "aws_ok E" "s3_download E a k w = (r, w')"
  shows "db w' = db w \<and> events w' = events w \<and> s3_view E b w' = s3_view E b w"
proof -
  obtain r' s where g: "aws_get E (a_client a) (a_bucket a) (full_key a k) (s3 w) = (r', s)" by fastforce
  then have s: "s3 w' = s" using assms(2) by (auto simp: s3_download_def Let_def split: sum.splits)
  have "aws_get_ok E" using assms(1) by (simp add: aws_ok_def)
  from this [unfolded aws_get_ok_def, rule_format, OF g] have "same_objs E (s3 w) s" by blast
  then show ?thesis
    using s3_ops_frame(2) [OF assms(2)] s by (simp add: s3_view_def same_objs_def fun_eq_iff)
qed

lemma ad_restore_frame:
  assumes "ad_restore E ad dbn st nr w = (r, w')"
  shows "db w' = db w \<and> events w' = events w \<and> s3_view E b w' = s3_view E b w"
  using same_storesD [OF ad_restore_same [OF assms]] view_eq_s3 [of w' w E b] by simp

lemma restore_log_frame:
  assumes "sqlserver_restore_log E c i dbn st rec w = (r, w')"
  shows "db w' = db w \<and> events w' = events w \<and> s3_view E b w' = s3_view E b w"
  using same_storesD [OF sqlserver_restore_log_same [OF assms]] view_eq_s3 [of w' w E b] by simp

lemma emit_view [simp]: "s3_view E b (emit e w) = s3_view E b w"
  by (simp add: s3_view_def fun_eq_iff)

lemma apply_logs_effect:
  assumes aws: "aws_ok E" and g: "apply_chain E i ad a dbn False cs ids w = ((ids', e), w')" and j: "0 < j"
  shows "db w' = db w \<and> s3_view E b w' = s3_view E b w \<and>
    (\<exists>sts. events w' = events w @ restore_calls (i_name i) dbn sql (j + length cs) j sts \<and>
      streams_of E a w cs sts \<and> (e = None \<longrightarrow> length sts = length cs \<and> ids' = ids @ map b_id cs))"
  using g j
proof (induction cs arbitrary: ids w j)
  case Nil
  then show ?case by (auto intro!: exI [of _ "[]"])
next
  case (Cons c cs)
  obtain r w1 where d: "s3_download E a (b_file_name c) w = (r, w1)" by fastforce
  note fd = s3_download_frame [OF aws d]
  show ?case
  proof (cases r)
    case (Inl x)
    with Cons.prems d fd [of b] show ?thesis by (auto simp: Let_def intro!: exI [of _ "[]"])
  next
    case (Inr st)
    have st: "stream_of E a w c st" using s3_download_stream [OF aws d [unfolded Inr]] .
    show ?thesis
    proof (cases "log_capable ad")
      case None
      with Cons.prems d fd [of b] Inr show ?thesis by (auto simp: Let_def intro!: exI [of _ "[]"])
    next
      case (Some p)
      obtain c' i' where p: "p = (c', i')" by fastforce
      let ?w1 = "emit (RestoreLog (i_name i) dbn st (cs = [])) w1"
      obtain re w2 where l: "sqlserver_restore_log E c' i' dbn st (cs = []) ?w1 = (re, w2)" by fastforce
      note fl = restore_log_frame [OF l]
      have e2: "db w2 = db w" "s3_view E b w2 = s3_view E b w" "s3_view E a w2 = s3_view E a w"
        "events w2 = events w @ [RestoreLog (i_name i) dbn st (cs = [])]"
        using fl [of b] fl [of a] fd [of b] fd [of a] by simp_all
      show ?thesis
      proof (cases re)
        case (Some y)
        with Cons.prems d Inr \<open>log_capable ad = Some p\<close> p l have "e = Some y" "w' = w2"
          by (auto simp: Let_def)
        with e2 st Cons.prems(2) show ?thesis by (auto intro!: exI [of _ "[st]"])
      next
        case None
        with Cons.prems d Inr \<open>log_capable ad = Some p\<close> p l
        have "apply_chain E i ad a dbn False cs (ids @ [b_id c]) w2 = ((ids', e), w')"
          by (auto simp: Let_def)
        from Cons.IH [OF this zero_less_Suc [of j]] obtain sts where
          k: "db w' = db w2" "s3_view E b w' = s3_view E b w2"
          "events w' = events w2 @ restore_calls (i_name i) dbn sql (Suc j + length cs) (Suc j) sts"
          "streams_of E a w2 cs sts" "e = None \<longrightarrow> length sts = length cs \<and> ids' = ids @ b_id c # map b_id cs"
          by auto
        then show ?thesis
          using e2 st Cons.prems(2) streams_of_cong [OF e2(3)] by (auto intro!: exI [of _ "st # sts"])
      qed
    qed
  qed
qed

lemma apply_chain_effect:
  assumes aws: "aws_ok E" and g: "apply_chain E i ad a dbn True cs ids w = ((ids', e), w')"
  shows "db w' = db w \<and> s3_view E b w' = s3_view E b w \<and>
    (\<exists>sts. events w' = events w @ restore_calls (i_name i) dbn (i_engine i = EngineSQLServer) (length cs) 0 sts \<and>
      streams_of E a w cs sts \<and> (e = None \<longrightarrow> length sts = length cs \<and> ids' = ids @ map b_id cs))"
proof (cases cs)
  case Nil
  with g show ?thesis by (auto intro!: exI [of _ "[]"])
next
  case (Cons c cs')
  obtain r w1 where d: "s3_download E a (b_file_name c) w = (r, w1)" by fastforce
  note fd = s3_download_frame [OF aws d]
  show ?thesis
  proof (cases r)
    case (Inl x)
    with g d fd [of b] Cons show ?thesis by (auto simp: Let_def intro!: exI [of _ "[]"])
  next
    case (Inr st)
    have st: "stream_of E a w c st" using s3_download_stream [OF aws d [unfolded Inr]] .
    let ?nr = "cs' \<noteq> [] \<and> i_engine i = EngineSQLServer"
    obtain re w2 where l: "ad_restore E ad dbn st ?nr (emit (RestoreFull (i_name i) dbn st ?nr) w1) = (re, w2)"
      by fastforce
    note fl = ad_restore_frame [OF l]
    have e2: "db w2 = db w" "s3_view E b w2 = s3_view E b w" "s3_view E a w2 = s3_view E a w"
      "events w2 = events w @ [RestoreFull (i_name i) dbn st (0 < length cs' \<and> i_engine i = EngineSQLServer)]"
      using fl [of b] fl [of a] fd [of b] fd [of a] by simp_all
    show ?thesis
    proof (cases re)
      case (Some y)
      with g d Inr l Cons have "e = Some y" "w' = w2" by (auto simp: Let_def)
      with e2 st Cons show ?thesis by (auto intro!: exI [of _ "[st]"])
    next
      case None
      with g d Inr l Cons have "apply_chain E i ad a dbn False cs' (ids @ [b_id c]) w2 = ((ids', e), w')"
        by (auto simp: Let_def)
      from apply_logs_effect [OF aws this, of 1 b] obtain sts where
        k: "db w' = db w2" "s3_view E b w' = s3_view E b w2"
        "events w' = events w2 @ restore_calls (i_name i) dbn (i_engine i = EngineSQLServer) (Suc (length cs')) 1 sts"
        "streams_of E a w2 cs' sts" "e = None \<longrightarrow> length sts = length cs' \<and> ids' = ids @ b_id c # map b_id cs'"
        by auto
      then show ?thesis
        using e2 st Cons streams_of_cong [OF e2(3)] by (auto intro!: exI [of _ "st # sts"])
    qed
  qed
qed

section \<open>One restore\<close>

lemma restore_records_frame:
  assumes "bolt_ok E"
  shows "start_restore_record E i dbn bid w = (r, w') \<Longrightarrow>
      s3 w' = s3 w \<and> events w' = events w \<and>
      (\<forall>b. b \<noteq> bucketRestoreRecords \<longrightarrow> bolt_get E (db w') b = bolt_get E (db w) b)"
    and "s3 (finish_restore_record E r ids e w) = s3 w \<and> events (finish_restore_record E r ids e w) = events w \<and>
      (\<forall>b. b \<noteq> bucketRestoreRecords \<longrightarrow>
         bolt_get E (db (finish_restore_record E r ids e w)) b = bolt_get E (db w) b)"
proof -
  have sv: "s3 (snd (rr_save E q u)) = s3 u \<and> events (snd (rr_save E q u)) = events u \<and>
      (\<forall>b. b \<noteq> bucketRestoreRecords \<longrightarrow> bolt_get E (db (snd (rr_save E q u))) b = bolt_get E (db u) b)"
    for q and u :: "('a, 'b, 'c) sys"
    unfolding rr_save_def
    using store_put_frame [OF surjective_pairing] store_put_other_bucket [OF surjective_pairing assms] by blast
  have up: "rr_update E q u = rr_save E q u" for q and u :: "('a, 'b, 'c) sys"
    by (simp add: rr_update_def rr_save_def)
  show "start_restore_record E i dbn bid w = (r, w') \<Longrightarrow>
      s3 w' = s3 w \<and> events w' = events w \<and>
      (\<forall>b. b \<noteq> bucketRestoreRecords \<longrightarrow> bolt_get E (db w') b = bolt_get E (db w) b)"
    using sv by (auto simp: start_restore_record_def Let_def new_id_frame now_frame split: prod.splits)
  show "s3 (finish_restore_record E r ids e w) = s3 w \<and> events (finish_restore_record E r ids e w) = events w \<and>
      (\<forall>b. b \<noteq> bucketRestoreRecords \<longrightarrow>
         bolt_get E (db (finish_restore_record E r ids e w)) b = bolt_get E (db w) b)"
    using sv by (auto simp: finish_restore_record_def Let_def up now_frame split: prod.splits)
qed

lemma restore_chain_effect:
  assumes aws: "aws_ok E" and g: "restore_chain E i ad cfg dbn chain w = ((ids, e), w')"
  shows "db w' = db w \<and> s3_view E b w' = s3_view E b w \<and>
    ((events w' = events w \<and> e \<noteq> None) \<or>
     (\<exists>cs sts. chain = Inr cs \<and>
        events w' = events w @ restore_calls (i_name i) dbn (i_engine i = EngineSQLServer) (length cs) 0 sts \<and>
        streams_of E (adapter_of cfg) w cs sts \<and> (e = None \<longrightarrow> length sts = length cs \<and> ids = map b_id cs)))"
proof (cases chain)
  case (Inl x)
  with g show ?thesis by (auto simp: restore_chain_def)
next
  case (Inr cs)
  obtain ra w1 where n: "s3_new E cfg w = (ra, w1)" by fastforce
  note fr = s3_new_frame [OF n] and vw = s3_new_view [OF aws n]
  show ?thesis
  proof (cases ra)
    case (Inl x)
    with g Inr n fr vw show ?thesis by (auto simp: restore_chain_def)
  next
    case (Inr a)
    then have a: "a = adapter_of cfg" using s3_new_result n by blast
    from g \<open>chain = Inr cs\<close> n Inr have "apply_chain E i ad a dbn True cs [] w1 = ((ids, e), w')"
      by (simp add: restore_chain_def)
    from apply_chain_effect [OF aws this, of b] fr vw [of b] streams_of_cong [OF vw [of a]] \<open>chain = Inr cs\<close> a
    show ?thesis by auto
  qed
qed

text \<open>The backup records a system holds, and so the chains, depend on their bucket alone.\<close>

lemma backup_reads_cong:
  assumes "bolt_ok E" "bolt_get E (db w') bucketBackupRecords = bolt_get E (db w) bucketBackupRecords"
  shows "br_find_all E w' = br_find_all E w" "br_find_by_id E k w' = br_find_by_id E k w"
    "build_chain E rec w' = build_chain E rec w"
proof -
  have "map_of (bolt_each E (db w') bucketBackupRecords) = map_of (bolt_each E (db w) bucketBackupRecords)"
    using assms by (simp add: bolt_ok_get [symmetric] fun_eq_iff)
  moreover have "sorted_wrt (<) (map fst (bolt_each E (db u) bucketBackupRecords))" for u :: "('a, 'b, 'c) sys"
    by (rule bolt_ok_sorted [OF assms(1)])
  ultimately have "bolt_each E (db w') bucketBackupRecords = bolt_each E (db w) bucketBackupRecords"
    using map_of_sorted_unique by blast
  then show a: "br_find_all E w' = br_find_all E w"
    by (simp add: br_find_all_def store_all_def)
  show b: "br_find_by_id E k w' = br_find_by_id E k w" for k
    using assms(2) by (simp add: br_find_by_id_def store_get_def)
  show "build_chain E rec w' = build_chain E rec w"
    unfolding build_chain_def br_find_by_instance_def a b ..
qed

text \<open>
  What is asked of the engine for one request: nothing, by a restore that fails, or the calls for a
  beginning of the chain, with the objects of its backups.
\<close>

definition asks_for_chain where
  "asks_for_chain E bid tname dbn w es e \<longleftrightarrow>
     (es = [] \<and> e \<noteq> None) \<or>
     (\<exists>rec i cfg cs sts. br_find_by_id E bid w = Inr rec \<and> resolve_instance E tname w = Inr i \<and>
        s3cfg_get E w = Inr cfg \<and>
        (if i_engine i = EngineSQLServer then build_chain E rec w = Inr cs else cs = [rec]) \<and>
        es = restore_calls (i_name i) dbn (i_engine i = EngineSQLServer) (length cs) 0 sts \<and>
        streams_of E (adapter_of cfg) w cs sts \<and> (e = None \<longrightarrow> length sts = length cs))"

lemma restore_backup_effect:
  assumes aws: "aws_ok E" and bolt: "bolt_ok E" and g: "restore_backup E bid tname dbn w = (e, w')"
  shows "(\<forall>b. b \<noteq> bucketRestoreRecords \<longrightarrow> bolt_get E (db w') b = bolt_get E (db w) b) \<and>
    s3_view E b w' = s3_view E b w \<and>
    (\<exists>es. events w' = events w @ es \<and> asks_for_chain E bid tname dbn w es e)"
proof (cases "\<exists>x. e = Some x \<and> w' = w")
  case True
  then show ?thesis by (auto simp: asks_for_chain_def)
next
  case False
  with g obtain rec target cfg where
    r: "br_find_by_id E bid w = Inr rec" "resolve_instance E tname w = Inr target" "s3cfg_get E w = Inr cfg"
    by (auto simp: restore_backup_def split: sum.splits)
  obtain ra w1 where n: "new_adapter E target w = (ra, w1)" by fastforce
  note f1 = same_storesD [OF new_adapter_same [OF n]]
  show ?thesis
  proof (cases ra)
    case (Inl x)
    with g r n have "w' = w1" "e \<noteq> None" by (auto simp: restore_backup_def)
    then show ?thesis using f1 view_eq_s3 [OF f1(2), of E b] by (auto simp: asks_for_chain_def)
  next
    case (Inr ad)
    obtain rr w2 where s: "start_restore_record E target dbn bid w1 = (rr, w2)" by fastforce
    note f2 = restore_records_frame(1) [OF bolt s]
    let ?chain = "if i_engine target = EngineSQLServer then build_chain E rec w2 else Inr [rec]"
    obtain ids x w3 where c: "restore_chain E target ad cfg dbn ?chain w2 = ((ids, x), w3)"
      by (metis prod.exhaust)
    have "closing E ad (x, finish_restore_record E rr ids x w3) = (e, w')"
      using g r n Inr s c by (auto simp: restore_backup_def Let_def)
    from closing_same [OF this] have e: "e = x" and f5: "same_stores (finish_restore_record E rr ids x w3) w'" by simp_all
    note f4 = restore_records_frame(2) [OF bolt, of rr ids x w3, folded same_storesD [OF f5]]
    note f3 = restore_chain_effect [OF aws c, of b]
    have "bolt_get E (db w2) bucketBackupRecords = bolt_get E (db w) bucketBackupRecords"
      using f2 f1 by (simp add: bucket_defs)
    then have bc: "build_chain E rec w2 = build_chain E rec w"
      using backup_reads_cong(3) [OF bolt] by blast
    have view: "s3_view E a w2 = s3_view E a w" for a using f2 f1 view_eq_s3 [of w2 w E a] by simp
    have "s3_view E b w' = s3_view E b w" using f4 f3 view view_eq_s3 [of w' w3 E b] by simp
    moreover have "\<forall>b. b \<noteq> bucketRestoreRecords \<longrightarrow> bolt_get E (db w') b = bolt_get E (db w) b"
      using f4 f3 f2 f1 by simp
    moreover have "\<exists>es. events w' = events w @ es \<and> asks_for_chain E bid tname dbn w es e"
    proof -
      have ev: "events w' = events w3" "events w2 = events w" using f4 f2 f1 by simp_all
      from f3 consider (none) "events w3 = events w2" "x \<noteq> None"
        | (calls) cs sts where "?chain = Inr cs"
            "events w3 = events w2 @ restore_calls (i_name target) dbn (i_engine target = EngineSQLServer) (length cs) 0 sts"
            "streams_of E (adapter_of cfg) w2 cs sts" "x = None \<longrightarrow> length sts = length cs" by blast
      then show ?thesis
      proof cases
        case none
        with e ev show ?thesis by (auto simp: asks_for_chain_def)
      next
        case calls
        from calls(1) bc have "if i_engine target = EngineSQLServer then build_chain E rec w = Inr cs else cs = [rec]"
          by (auto split: if_splits)
        with calls e ev r streams_of_cong [OF view] show ?thesis unfolding asks_for_chain_def by metis
      qed
    qed
    ultimately show ?thesis by blast
  qed
qed

text \<open>
  C5. A restore asks the engine for the chain in order, with the right objects. Either it fails having asked for
  nothing, or the calls it made are, in order, those for a beginning of the chain of the requested backup, on the
  instance the name resolves to: with the object of the first backup a full restore, which leaves the database in
  recovery when logs follow it on SQL Server; with the object of every later one a log restore, which leaves it
  in recovery unless it is the last of the chain, which brings the database back. Each call is given the stream of the
  object its own backup names (with the stored bytes, when the download does not break off). A restore that
  succeeds has made the calls of the whole chain. For an engine other than SQL Server the chain is the requested backup.
\<close>

theorem restore_calls_in_order:
  assumes "aws_ok E" and "bolt_ok E" and "restore_backup E bid tname dbn w = (e, w')"
  shows "(events w' = events w \<and> e \<noteq> None) \<or>
    (\<exists>rec i cfg cs sts. br_find_by_id E bid w = Inr rec \<and> resolve_instance E tname w = Inr i \<and>
      s3cfg_get E w = Inr cfg \<and>
      (if i_engine i = EngineSQLServer then build_chain E rec w = Inr cs else cs = [rec]) \<and>
      events w' = events w @ restore_calls (i_name i) dbn (i_engine i = EngineSQLServer) (length cs) 0 sts \<and>
      streams_of E (adapter_of cfg) w cs sts \<and> (e = None \<longrightarrow> length sts = length cs))"
proof -
  from restore_backup_effect [OF assms] obtain es where
    es: "events w' = events w @ es" "asks_for_chain E bid tname dbn w es e" by blast
  then show ?thesis unfolding asks_for_chain_def by auto
qed

definition ex_logs :: "backup_record list" where
  "ex_logs = [ex_record ''a'' ''a.bak'' BackupTypeFull '''' 10, ex_record ''l'' ''l.trn'' BackupTypeLog ''a'' 20,
     ex_record ''m'' ''m.trn'' BackupTypeLog ''a'' 30, ex_record ''n'' ''n.trn'' BackupTypeLog ''a'' 40]"

definition ex_logs_sys :: "(ref_db, ref_s3, ref_os) sys" where
  "ex_logs_sys = (ex_sys [ex_instance ''srv'' EngineSQLServer] ex_logs 50)
     \<lparr>s3 := \<lparr>rs_objs = [(''pre/a.bak'', (''A'', 0)), (''pre/l.trn'', (''L'', 0)), (''pre/m.trn'', (''M'', 0))],
              rs_rules = []\<rparr>\<rparr>"

theorem restore_calls_in_order_witness:
  "let p = restore_backup ref_env ''m'' ''SRV'' ''new'' ex_logs_sys
   in fst p = None \<and> (\<exists>a l m. events (snd p) =
        [RestoreFull ''srv'' ''new'' a True, RestoreLog ''srv'' ''new'' l False, RestoreLog ''srv'' ''new'' m True] \<and>
        (st_read_err a = None \<longrightarrow> st_bytes a = ''A'') \<and> (st_read_err l = None \<longrightarrow> st_bytes l = ''L'') \<and>
        (st_read_err m = None \<longrightarrow> st_bytes m = ''M''))"
proof -
  let ?p = "restore_backup ref_env ''m'' ''SRV'' ''new'' ex_logs_sys"
  have ok: "fst ?p = None" by code_simp
  then have p: "?p = (None, snd ?p)" by (simp add: prod_eq_iff)
  have r: "resolve_instance ref_env ''SRV'' ex_logs_sys = Inr (ex_instance ''srv'' EngineSQLServer)" by code_simp
  have f: "br_find_by_id ref_env ''m'' ex_logs_sys = Inr (ex_record ''m'' ''m.trn'' BackupTypeLog ''a'' 30)" by code_simp
  have g: "s3cfg_get ref_env ex_logs_sys = Inr ex_cfg" by code_simp
  let ?cs = "[ex_record ''a'' ''a.bak'' BackupTypeFull '''' 10, ex_record ''l'' ''l.trn'' BackupTypeLog ''a'' 20,
        ex_record ''m'' ''m.trn'' BackupTypeLog ''a'' 30]"
  have c: "build_chain ref_env (ex_record ''m'' ''m.trn'' BackupTypeLog ''a'' 30) ex_logs_sys = Inr ?cs" by code_simp
  have v: "s3_view ref_env (adapter_of ex_cfg) ex_logs_sys ''a.bak'' = Some ''A''"
    "s3_view ref_env (adapter_of ex_cfg) ex_logs_sys ''l.trn'' = Some ''L''"
    "s3_view ref_env (adapter_of ex_cfg) ex_logs_sys ''m.trn'' = Some ''M''" by code_simp+
  have i: "i_engine (ex_instance ''srv'' EngineSQLServer) = EngineSQLServer" "i_name (ex_instance ''srv'' EngineSQLServer) = ''srv''"
    by (simp_all add: ex_instance_def)
  have ev: "events ex_logs_sys = []" by (simp add: ex_logs_sys_def ex_sys_def)
  from restore_calls_in_order [OF aws_ok_ref_env bolt_ok_ref_env p] r f g c i obtain sts where
    s: "events (snd ?p) = events ex_logs_sys @ restore_calls ''srv'' ''new'' True (length ?cs) 0 sts"
    "streams_of ref_env (adapter_of ex_cfg) ex_logs_sys ?cs sts" "length sts = length ?cs" by auto
  from s(3) obtain a l m where sts: "sts = [a, l, m]" by (auto simp: length_Suc_conv)
  show ?thesis
    unfolding Let_def
    using ok s(1,2) ev by (auto simp: sts stream_of_def v)
qed

text \<open>What restoring leaves alone: every object, and every bucket but the history of restores.\<close>

definition only_history :: "('d, 's, 'm) env \<Rightarrow> ('d, 's, 'm) sys \<Rightarrow> ('d, 's, 'm) sys \<Rightarrow> bool" where
  "only_history E w w' \<longleftrightarrow>
     (\<forall>b. b \<noteq> bucketRestoreRecords \<longrightarrow> bolt_get E (db w') b = bolt_get E (db w) b) \<and>
     (\<forall>a. s3_view E a w' = s3_view E a w)"

lemma only_history_refl [simp]: "only_history E w w"
  by (simp add: only_history_def)

lemma only_history_trans: "only_history E w w1 \<Longrightarrow> only_history E w1 w2 \<Longrightarrow> only_history E w w2"
  by (simp add: only_history_def)

lemma restore_backup_history:
  assumes "aws_ok E" "bolt_ok E" "restore_backup E bid tname dbn w = (e, w')"
  shows "only_history E w w'"
  unfolding only_history_def
proof (rule conjI [OF _ allI])
  show "\<forall>b. b \<noteq> bucketRestoreRecords \<longrightarrow> bolt_get E (db w') b = bolt_get E (db w) b"
    by (rule conjunct1 [OF restore_backup_effect [OF assms]])
  show "s3_view E a w' = s3_view E a w" for a
    by (rule conjunct1 [OF conjunct2 [OF restore_backup_effect [OF assms]]])
qed

lemma restore_points_history:
  assumes "aws_ok E" "bolt_ok E" "restore_points E i ps w = (fs, w')"
  shows "only_history E w w'"
  using assms(3)
proof (induction ps arbitrary: w fs)
  case (Cons p ps)
  obtain d b where p: "p = (d, b)" by fastforce
  obtain e w1 where r: "restore_backup E b (i_name i) d w = (e, w1)" by fastforce
  obtain gs w2 where s: "restore_points E i ps w1 = (gs, w2)" by fastforce
  have "w' = w2" using Cons.prems by (simp add: p r s)
  then show ?case
    using only_history_trans [OF restore_backup_history [OF assms(1,2) r]] Cons.IH s by blast
qed simp

lemma restore_instances_history:
  assumes "aws_ok E" "bolt_ok E" "restore_instances E is w = (fs, w')"
  shows "only_history E w w'"
  using assms(3)
proof (induction "is" arbitrary: w fs)
  case (Cons i "is")
  show ?case
  proof (cases "\<not> i_enabled i \<or> i_engine i = EngineRedis \<or> isl (latest_restore_points E (i_id i) w)")
    case True
    with Cons show ?thesis by (auto split: prod.splits sum.splits if_splits)
  next
    case False
    then obtain ps where ps: "latest_restore_points E (i_id i) w = Inr ps"
      by (cases "latest_restore_points E (i_id i) w") auto
    obtain gs w1 where r: "restore_points E i (map_range E (os w) ps) w = (gs, w1)" by fastforce
    obtain hs w2 where s: "restore_instances E is w1 = (hs, w2)" by fastforce
    have "w' = w2" using Cons.prems False by (simp add: ps r s)
    then show ?thesis
      using only_history_trans [OF restore_points_history [OF assms(1,2) r]] Cons.IH s by blast
  qed
qed simp

text \<open>
  C25. Restoring is read-only for what it restores from: restoring one backup, a database at a point in time or every
  database at its latest point leaves every object, and every bucket but that of the restore history, as they were,
  whether it succeeds or fails.
\<close>

theorem restore_changes_only_history:
  assumes "aws_ok E" and "bolt_ok E"
    and "restore_backup E bid tname dbn w = (e, w') \<or> restore_point_in_time E tname dbn tt w = (e, w') \<or>
      restore_all E confirm w = (e, w')"
  shows "(\<forall>b. b \<noteq> bucketRestoreRecords \<longrightarrow> bolt_get E (db w') b = bolt_get E (db w) b) \<and>
    (\<forall>a. s3_view E a w' = s3_view E a w)"
proof -
  have one: "only_history E w w'" if "restore_backup E b n d w = (e, w')" for b n d
    using restore_backup_history [OF assms(1,2) that] .
  have pit: "only_history E w w'" if "restore_point_in_time E tname dbn tt w = (e, w')"
    using that one by (auto simp: restore_point_in_time_def split: sum.splits option.splits)
  have all: "only_history E w w'" if "restore_all E confirm w = (e, w')"
    using that restore_instances_history [OF assms(1,2)]
    by (auto simp: restore_all_def split: if_splits sum.splits prod.splits)
  from assms(3) one pit all have "only_history E w w'" by blast
  then show ?thesis by (simp add: only_history_def)
qed

theorem restore_changes_only_history_witness:
  "let w = ex_sys [ex_instance ''srv'' EngineSQLServer] ex_logs 50;
       kept = (\<lambda>p. backup_view ref_env (snd p) ''a'' = Some (ex_record ''a'' ''a.bak'' BackupTypeFull '''' 10))
   in kept (restore_backup ref_env ''m'' ''srv'' ''db'' w) \<and> kept (restore_all ref_env ''confirmar'' w) \<and>
      kept (restore_point_in_time ref_env ''srv'' ''db'' 35 w)"
proof -
  let ?w = "ex_sys [ex_instance ''srv'' EngineSQLServer] ex_logs 50"
  have kept: "backup_view ref_env (snd p) ''a'' = Some (ex_record ''a'' ''a.bak'' BackupTypeFull '''' 10)"
    if "restore_backup ref_env ''m'' ''srv'' ''db'' ?w = p \<or> restore_point_in_time ref_env ''srv'' ''db'' 35 ?w = p \<or>
      restore_all ref_env ''confirmar'' ?w = p" for p
  proof -
    obtain e u where p: "p = (e, u)" by fastforce
    from restore_changes_only_history [OF aws_ok_ref_env bolt_ok_ref_env that [unfolded p]]
    have "bolt_get ref_env (db u) bucketBackupRecords = bolt_get ref_env (db ?w) bucketBackupRecords"
      by (simp add: bucket_defs)
    then have "backup_view ref_env u = backup_view ref_env ?w"
      by (simp add: backup_view_def view_bucket_def fun_eq_iff)
    then show ?thesis by (simp add: p ex_backup_view ex_logs_def)
  qed
  show ?thesis unfolding Let_def using kept by blast
qed

section \<open>The chain of a backup\<close>

lemma last_of_sorted:
  assumes "sorted (map f xs)" "x \<in> set xs" "\<forall>y \<in> set xs. f y \<le> f x" "\<forall>y \<in> set xs. f y = f x \<longrightarrow> y = x"
  shows "last xs = x"
proof -
  have ne: "xs \<noteq> []" using assms(2) by auto
  then have l: "last xs \<in> set xs" by simp
  obtain ys zs where s: "xs = ys @ x # zs" using split_list [OF assms(2)] by blast
  have "f x \<le> f (last xs)"
    using assms(1) unfolding s by (cases zs) (auto simp: sorted_append)
  then have "f (last xs) = f x" using assms(3) l by fastforce
  then show ?thesis using assms(4) l by blast
qed

text \<open>
  C12. The chain that is restored for a backup: a full by itself; for a log the full it names as its parent
  and then, in the order they were started, exactly the completed logs of that full that started no
  later than the log. A completed log is in its own chain, and it is the last of it when no other log of
  the chain started at the same time.
\<close>

theorem restore_chain_shape:
  assumes "backups_wf E w" and "backup_view E w (b_id rec) = Some rec" and "build_chain E rec w = Inr cs"
  shows "if is_full rec then cs = [rec]
    else (\<exists>full logs. cs = full # logs \<and> backup_view E w (b_parent rec) = Some full \<and>
      sorted (map b_started logs) \<and>
      set logs = {r. backup_view E w (b_id r) = Some r \<and> b_instance_id r = b_instance_id rec \<and>
        b_parent r = b_parent rec \<and> b_status r = StatusCompleted \<and> b_started r \<le> b_started rec} \<and>
      (b_status rec = StatusCompleted \<longrightarrow> rec \<in> set logs \<and>
        ((\<forall>r \<in> set logs. b_started r = b_started rec \<longrightarrow> r = rec) \<longrightarrow> last cs = rec)))"
proof (cases "is_full rec")
  case True
  with assms(3) show ?thesis by (simp add: build_chain_def)
next
  case False
  from backups.all_Inr [OF assms(1)] obtain rs where al: "br_find_all E w = Inr rs" ..
  from assms(3) False obtain full where f: "br_find_by_id E (b_parent rec) w = Inr full"
    by (auto simp: build_chain_def split: sum.splits)
  then have v: "backup_view E w (b_parent rec) = Some full" by (simp add: backups.get_view [OF assms(1)])
  then have id: "b_id full = b_parent rec" by (rule backups.view_key [OF assms(1)])
  define logs where "logs = sort_slice E b_started (filter (\<lambda>r. b_parent r = b_id full \<and>
    b_status r = StatusCompleted \<and> \<not> b_started rec < b_started r)
    (filter (\<lambda>r. b_instance_id r = b_instance_id rec) rs))"
  have cs: "cs = full # logs"
    using assms(3) False f al by (simp add: build_chain_def br_find_by_instance_def store_filter_def logs_def)
  have set: "set logs = {r. backup_view E w (b_id r) = Some r \<and> b_instance_id r = b_instance_id rec \<and>
      b_parent r = b_parent rec \<and> b_status r = StatusCompleted \<and> b_started r \<le> b_started rec}"
    using all_tracks(2) [OF assms(1) al] by (auto simp: logs_def id)
  have sorted: "sorted (map b_started logs)" by (simp add: logs_def)
  have "last cs = rec" if "rec \<in> set logs" "\<forall>r \<in> set logs. b_started r = b_started rec \<longrightarrow> r = rec"
  proof -
    have "last logs = rec" by (rule last_of_sorted [OF sorted that(1) _ that(2)]) (use set in simp)
    moreover have "logs \<noteq> []" using that(1) by auto
    ultimately show ?thesis by (simp add: cs)
  qed
  then show ?thesis using False cs v sorted set assms(2) by auto
qed

theorem restore_chain_shape_witness:
  "\<exists>full logs. build_chain ref_env (ex_record ''m'' ''m.trn'' BackupTypeLog ''a'' 30) (ex_sys [] ex_logs 0) =
     Inr (full # logs) \<and> ex_record ''l'' ''l.trn'' BackupTypeLog ''a'' 20 \<in> set logs"
proof -
  let ?m = "ex_record ''m'' ''m.trn'' BackupTypeLog ''a'' 30" and ?w = "ex_sys [] ex_logs 0"
  have v: "backup_view ref_env ?w (b_id ?m) = Some ?m" by (simp add: ex_backup_view ex_logs_def)
  have c: "build_chain ref_env ?m ?w = Inr [ex_record ''a'' ''a.bak'' BackupTypeFull '''' 10,
      ex_record ''l'' ''l.trn'' BackupTypeLog ''a'' 20, ?m]" by code_simp
  have "\<not> is_full ?m" by (simp add: is_full_def)
  with restore_chain_shape [OF ex_backups_wf v c] obtain full logs where
    cs: "[ex_record ''a'' ''a.bak'' BackupTypeFull '''' 10, ex_record ''l'' ''l.trn'' BackupTypeLog ''a'' 20, ?m] =
      full # logs" and
    l: "set logs = {r. backup_view ref_env ?w (b_id r) = Some r \<and> b_instance_id r = b_instance_id ?m \<and>
        b_parent r = b_parent ?m \<and> b_status r = StatusCompleted \<and> b_started r \<le> b_started ?m}"
    by auto
  have "ex_record ''l'' ''l.trn'' BackupTypeLog ''a'' 20 \<in> set logs"
    unfolding l by (simp add: ex_backup_view ex_logs_def)
  then show ?thesis using c cs by blast
qed

section \<open>The latest point of every database\<close>

lemma map_of_upd [simp]: "map_of (upd k v xs) k' = (if k' = k then Some v else map_of xs k')"
  by (induction xs) (auto simp: upd_def)

definition full_for :: "string \<Rightarrow> backup_record \<Rightarrow> bool" where
  "full_for d r \<longleftrightarrow> is_full r \<and> b_status r = StatusCompleted \<and> \<not> equal_fold d ''master'' \<and> b_database r = d"

definition log_for :: "string \<Rightarrow> backup_record \<Rightarrow> backup_record \<Rightarrow> bool" where
  "log_for d f r \<longleftrightarrow> b_status r = StatusCompleted \<and> \<not> is_full r \<and> b_database r = d \<and> b_parent r = b_id f"

lemma latest_fulls_pick:
  "map_of (latest_fulls rs acc) d = pick_latest (map_of acc d) (filter (full_for d) rs)"
  by (induction rs arbitrary: acc) (auto simp: full_for_def split: option.splits)

lemma find_id:
  assumes "distinct (map b_id al)" "r \<in> set al"
  shows "List.find (\<lambda>q. b_id q = b_id r) al = Some r"
  using assms by (induction al) (auto simp: image_iff)

lemma latest_logs_pick:
  assumes al: "distinct (map b_id al)" and rs: "set rs \<subseteq> set al"
    and best: "\<forall>d. map_of res d = map_option b_id (best d) \<and> (\<forall>r. best d = Some r \<longrightarrow> r \<in> set al)"
  shows "map_of (latest_logs al fulls rs res) d =
    (case map_of fulls d of
       None \<Rightarrow> map_of res d
     | Some f \<Rightarrow> map_option b_id (pick_latest (best d) (filter (log_for d f) rs)))"
  using rs best
proof (induction rs arbitrary: res best)
  case Nil
  then show ?case by (cases "map_of fulls d") simp_all
next
  case (Cons r rs)
  let ?d = "b_database r"
  have rsub: "set rs \<subseteq> set al" and r: "r \<in> set al" using Cons.prems(1) by auto
  consider (skip) "b_status r \<noteq> StatusCompleted \<or> is_full r \<or> map_of fulls ?d = None \<or>
      (\<exists>f. map_of fulls ?d = Some f \<and> b_parent r \<noteq> b_id f)"
    | (log) f where "map_of fulls ?d = Some f" "log_for ?d f r"
    by (cases "map_of fulls ?d"; cases "is_full r"; cases "b_status r = StatusCompleted")
      (auto simp: log_for_def)
  then show ?case
  proof cases
    case skip
    then have "latest_logs al fulls (r # rs) res = latest_logs al fulls rs res"
      by (auto split: option.splits)
    moreover have "filter (log_for d f) (r # rs) = filter (log_for d f) rs" if "map_of fulls d = Some f" for f
      using skip that by (auto simp: log_for_def)
    ultimately show ?thesis
      using Cons.IH [OF rsub Cons.prems(2)] by (cases "map_of fulls d") simp_all
  next
    case log
    have cur: "(case map_of res ?d of None \<Rightarrow> None | Some i \<Rightarrow> List.find (\<lambda>q. b_id q = i) al) = best ?d"
      using Cons.prems(2) find_id [OF al] by (cases "best ?d") auto
    let ?new = "case best ?d of None \<Rightarrow> True | Some b \<Rightarrow> b_started b < b_started r"
    have step: "latest_logs al fulls (r # rs) res =
        latest_logs al fulls rs (if ?new then upd ?d (b_id r) res else res)"
      using log cur by (auto simp: log_for_def split: option.splits)
    define best' where "best' = (if ?new then best(?d := Some r) else best)"
    have b': "\<forall>d. map_of (if ?new then upd ?d (b_id r) res else res) d = map_option b_id (best' d) \<and>
        (\<forall>q. best' d = Some q \<longrightarrow> q \<in> set al)"
      using Cons.prems(2) r by (auto simp: best'_def)
    have "pick_latest (best d) (filter (log_for d f') (r # rs)) = pick_latest (best' d) (filter (log_for d f') rs)"
      if "map_of fulls d = Some f'" for f'
      using log that by (cases "best d") (auto simp: best'_def log_for_def)
    moreover have "map_of (if ?new then upd ?d (b_id r) res else res) d = map_of res d" if "map_of fulls d = None"
      using log that by auto
    ultimately show ?thesis
      unfolding step Cons.IH [OF rsub b'] by (cases "map_of fulls d") simp_all
  qed
qed

lemma points_of_pick:
  assumes "distinct (map b_id rs)"
  shows "map_of (points_of rs) d =
    (case pick_latest None (filter (full_for d) rs) of
       None \<Rightarrow> None
     | Some f \<Rightarrow> map_option b_id (pick_latest (Some f) (filter (log_for d f) rs)))"
proof -
  let ?F = "latest_fulls rs []"
  have F: "map_of ?F d = pick_latest None (filter (full_for d) rs)" for d
    by (simp add: latest_fulls_pick)
  have sub: "f \<in> set rs" if "map_of ?F d = Some f" for d f
    using that pick_latest_some [of None "filter (full_for d) rs" f] by (simp add: F)
  have m: "map_of (map (\<lambda>(d, f). (d, b_id f)) xs) d = map_option b_id (map_of xs d)"
    for xs :: "(string \<times> backup_record) list" and d
    by (induction xs) auto
  have best: "\<forall>d. map_of (map (\<lambda>(d, f). (d, b_id f)) ?F) d = map_option b_id (map_of ?F d) \<and>
      (\<forall>r. map_of ?F d = Some r \<longrightarrow> r \<in> set rs)"
    using sub by (simp add: m)
  note l = latest_logs_pick [OF assms subset_refl best, of ?F d]
  show ?thesis
    unfolding F [symmetric] by (cases "map_of ?F d") (simp_all add: points_of_def Let_def l m)
qed

text \<open>
  C13. What \<open>RestoreAll\<close> restores for a database of an instance: nothing for master and for databases
  without a completed full; otherwise a completed backup that is the newest completed full, or a log chained
  off it, with no newer log chained off it.
\<close>

theorem latest_point_is_newest:
  assumes "backups_wf E w" and "latest_restore_points E iid w = Inr ps"
  shows "if equal_fold d ''master'' \<or> chain_candidates E w iid d = {} then map_of ps d = None
    else (\<exists>f r. map_of ps d = Some (b_id r) \<and> f \<in> chain_candidates E w iid d \<and>
      (\<forall>q \<in> chain_candidates E w iid d. b_started q \<le> b_started f) \<and>
      backup_view E w (b_id r) = Some r \<and> (r = f \<or> log_for d f r) \<and>
      (\<forall>q. backup_view E w (b_id q) = Some q \<longrightarrow> b_instance_id q = iid \<longrightarrow> log_for d f q \<longrightarrow>
         b_started q \<le> b_started r))"
proof -
  from backups.all_Inr [OF assms(1)] obtain al where al: "br_find_all E w = Inr al" ..
  let ?rs = "filter (\<lambda>r. b_instance_id r = iid) al"
  have ps: "ps = points_of ?rs"
    using assms(2) al by (simp add: latest_restore_points_def br_find_by_instance_def store_filter_def)
  have d: "distinct (map b_id ?rs)"
    using backups.all_distinct [OF assms(1) al] by (simp add: distinct_map_filter)
  note mem = all_tracks(2) [OF assms(1) al]
  have F: "set (filter (full_for d) ?rs) = (if equal_fold d ''master'' then {} else chain_candidates E w iid d)"
    using mem by (auto simp: full_for_def chain_candidates_def)
  have L: "set (filter (log_for d f) ?rs) =
      {q. backup_view E w (b_id q) = Some q \<and> b_instance_id q = iid \<and> log_for d f q}" for f
    using mem by auto
  show ?thesis
  proof (cases "pick_latest None (filter (full_for d) ?rs)")
    case None
    then have "filter (full_for d) ?rs = []" by (simp only: pick_latest_None)
    then have "(if equal_fold d ''master'' then {} else chain_candidates E w iid d) = {}"
      using F by (metis list.set(1))
    moreover have "map_of ps d = None" unfolding ps points_of_pick [OF d] None by simp
    ultimately show ?thesis by (simp split: if_splits)
  next
    case (Some f)
    note pf = pick_latest_some [OF Some]
    have m: "\<not> equal_fold d ''master''" using pf F by (auto split: if_splits)
    then have f: "f \<in> chain_candidates E w iid d" "\<forall>q \<in> chain_candidates E w iid d. b_started q \<le> b_started f"
      using pf F by auto
    obtain r where r: "pick_latest (Some f) (filter (log_for d f) ?rs) = Some r"
      using pick_latest_None [of "Some f" "filter (log_for d f) ?rs"]
      by (cases "pick_latest (Some f) (filter (log_for d f) ?rs)") simp_all
    note pr = pick_latest_some [OF r]
    have "map_of ps d = Some (b_id r)"
      by (simp only: ps points_of_pick [OF d] Some option.case r option.map)
    moreover have "backup_view E w (b_id r) = Some r" "r = f \<or> log_for d f r"
      using pr f(1) L [of f] by (auto simp: chain_candidates_def)
    moreover have "\<forall>q. backup_view E w (b_id q) = Some q \<longrightarrow> b_instance_id q = iid \<longrightarrow> log_for d f q \<longrightarrow>
        b_started q \<le> b_started r"
      using pr L [of f] by blast
    ultimately show ?thesis using m f by (simp add: ex_in_conv [symmetric]) blast
  qed
qed

theorem latest_point_is_newest_witness:
  "latest_restore_points ref_env ''i1'' (ex_sys [] ex_logs 0) = Inr [(''db'', ''n'')] \<and>
   (\<exists>r. b_id r = ''n'' \<and> log_for ''db'' (ex_record ''a'' ''a.bak'' BackupTypeFull '''' 10) r)"
proof -
  let ?w = "ex_sys [] ex_logs 0" and ?a = "ex_record ''a'' ''a.bak'' BackupTypeFull '''' 10"
  have l: "latest_restore_points ref_env ''i1'' ?w = Inr [(''db'', ''n'')]" by code_simp
  have c: "chain_candidates ref_env ?w ''i1'' ''db'' = {?a}"
    by (auto simp: chain_candidates_def ex_backup_view ex_logs_def is_full_def split: if_splits)
  have m: "\<not> equal_fold ''db'' ''master''" by code_simp
  from latest_point_is_newest [OF ex_backups_wf l, of "''db''"] c m obtain r where
    "b_id r = ''n''" "r = ?a \<or> log_for ''db'' ?a r" by auto
  then have "b_id r = ''n'' \<and> log_for ''db'' ?a r" by auto
  with l show ?thesis by blast
qed

section \<open>A point in time\<close>

definition pit_candidates :: "('d, 's, 'm) env \<Rightarrow> ('d, 's, 'm) sys \<Rightarrow> string \<Rightarrow> string \<Rightarrow> time \<Rightarrow>
    backup_record set" where
  "pit_candidates E w iid dbn tt =
     {r. backup_view E w (b_id r) = Some r \<and> b_instance_id r = iid \<and> b_database r = dbn \<and>
         b_status r = StatusCompleted \<and> b_started r \<le> tt}"

text \<open>
  C14. A point-in-time restore restores the newest completed backup of the database that was started by the
  given time; when there is none it fails, and changes nothing.
\<close>

theorem point_in_time_is_newest:
  assumes "backups_wf E w" and "resolve_instance E tname w = Inr i"
  shows "if pit_candidates E w (i_id i) dbn tt = {}
    then (\<exists>e. restore_point_in_time E tname dbn tt w = (Some e, w))
    else (\<exists>r \<in> pit_candidates E w (i_id i) dbn tt.
      (\<forall>q \<in> pit_candidates E w (i_id i) dbn tt. b_started q \<le> b_started r) \<and>
      restore_point_in_time E tname dbn tt w = restore_backup E (b_id r) tname dbn w)"
proof -
  from backups.all_Inr [OF assms(1)] obtain al where al: "br_find_all E w = Inr al" ..
  let ?fs = "filter (\<lambda>r. b_database r = dbn \<and> b_status r = StatusCompleted \<and> \<not> tt < b_started r)
    (filter (\<lambda>r. b_instance_id r = i_id i) al)"
  have fs: "set ?fs = pit_candidates E w (i_id i) dbn tt"
    using all_tracks(2) [OF assms(1) al] by (auto simp: pit_candidates_def)
  show ?thesis
  proof (cases "pick_latest None ?fs")
    case None
    then have "?fs = []" by (simp only: pick_latest_None)
    then have "pit_candidates E w (i_id i) dbn tt = {}" using fs by (metis list.set(1))
    with None show ?thesis
      by (simp add: restore_point_in_time_def assms(2) br_find_by_instance_def store_filter_def al)
  next
    case (Some p)
    from pick_latest_some [OF Some] fs have "p \<in> pit_candidates E w (i_id i) dbn tt"
      "\<forall>q \<in> pit_candidates E w (i_id i) dbn tt. b_started q \<le> b_started p" by blast+
    moreover have "restore_point_in_time E tname dbn tt w = restore_backup E (b_id p) tname dbn w"
      using Some by (simp add: restore_point_in_time_def assms(2) br_find_by_instance_def store_filter_def al)
    ultimately show ?thesis by auto
  qed
qed

theorem point_in_time_is_newest_witness:
  "fst (restore_point_in_time ref_env ''srv'' ''db'' 35 (ex_sys [ex_instance ''srv'' EngineSQLServer] ex_logs 50)) = None \<and>
   (\<exists>e. restore_point_in_time ref_env ''srv'' ''db'' 5 (ex_sys [ex_instance ''srv'' EngineSQLServer] ex_logs 50) =
     (Some e, ex_sys [ex_instance ''srv'' EngineSQLServer] ex_logs 50))"
proof
  let ?w = "ex_sys [ex_instance ''srv'' EngineSQLServer] ex_logs 50"
  show "fst (restore_point_in_time ref_env ''srv'' ''db'' 35 ?w) = None" by code_simp
  have r: "resolve_instance ref_env ''srv'' ?w = Inr (ex_instance ''srv'' EngineSQLServer)" by code_simp
  have "pit_candidates ref_env ?w (i_id (ex_instance ''srv'' EngineSQLServer)) ''db'' 5 = {}"
    by (auto simp: pit_candidates_def ex_backup_view ex_logs_def split: if_splits)
  with point_in_time_is_newest [OF ex_backups_wf r, of "''db''" 5]
  show "\<exists>e. restore_point_in_time ref_env ''srv'' ''db'' 5 ?w = (Some e, ?w)" by simp
qed

section \<open>The history of restores\<close>

lemma rr_save_taken:
  assumes "restores_wf E w" "bolt_writes E" "json_times_ok (rr_started r # opt_time (rr_completed r))"
  shows "restores_wf E (snd (rr_save E r w)) \<and>
    restore_view E (snd (rr_save E r w)) = (restore_view E w)(rr_id r \<mapsto> r)"
proof -
  have "fst (rr_save E r w) = None"
    using assms(2,3) by (simp add: rr_save_def encode_restore_def encode_def store_put_def bolt_writes_def
        split: prod.splits) (metis fst_conv)
  with restores.put_law [OF assms(1) surjective_pairing] show ?thesis by simp
qed

text \<open>
  C24. Every attempt that reached its target is on record, as long as every write of the database succeeds (the code drops
  the error of writing the record, and an attempt whose record cannot be written leaves none) and the clock reads years
  that JSON can hold. Once the adapter of the target instance is open, the restore then leaves a record under
  a new identifier that names the instance, the database and the requested backup, and that is completed
  exactly when the restore succeeded and failed, with the error's text, otherwise.
\<close>

theorem restore_is_recorded:
  assumes "aws_ok E" and "restores_wf E w" and "bolt_writes E" and "\<forall>m. json_time_ok (fst (os_now E m))"
    and "br_find_by_id E bid w = Inr rec" and "resolve_instance E tname w = Inr target"
    and "s3cfg_get E w = Inr cfg" and "new_adapter E target w = (Inr ad, w1)"
    and "restore_backup E bid tname dbn w = (e, w')"
  shows "\<exists>r. restore_view E w' (next_id E w1) = Some r \<and> rr_instance_id r = i_id target \<and>
    rr_database r = dbn \<and> rr_target r = bid \<and>
    (case e of
       None \<Rightarrow> rr_status r = StatusCompleted
     | Some x \<Rightarrow> rr_status r = StatusFailed \<and> rr_error r = err_text x)"
proof -
  have clock: "json_time_ok t" if "now E u = (t, u')" for t and u u' :: "('a, 'b, 'c) sys"
    using assms(4) that by (auto simp: now_def split: prod.splits) (metis fst_conv)
  obtain rr w2 where s: "start_restore_record E target dbn bid w1 = (rr, w2)" by fastforce
  obtain ids x w3 where c: "restore_chain E target ad cfg dbn
      (if i_engine target = EngineSQLServer then build_chain E rec w2 else Inr [rec]) w2 = ((ids, x), w3)"
    by (metis prod.exhaust)
  define wf where "wf = finish_restore_record E rr ids x w3"
  have "closing E ad (x, wf) = (e, w')"
    using assms(5-9) s c by (auto simp: restore_backup_def Let_def wf_def)
  from closing_same [OF this] have e: "e = x" and closed: "same_stores wf w'" by simp_all
  obtain rid wa t wb where n: "new_id E w1 = (rid, wa)" "now E wa = (t, wb)" by (metis prod.exhaust)
  have rr: "rr = \<lparr>rr_id = rid, rr_instance_id = i_id target, rr_instance_name = i_name target,
      rr_database = dbn, rr_target = bid, rr_chain = [], rr_status = StatusRunning, rr_error = '''',
      rr_started = t, rr_completed = None\<rparr>" and w2: "w2 = snd (rr_save E rr wb)"
    using s n by (auto simp: start_restore_record_def Let_def)
  have "rid = next_id E w1" using n(1) by (auto simp: new_id_def next_id_def split: prod.splits)
  have wfdb: "restores_wf E u' = restores_wf E u" if "db u' = db u" for u u' :: "('a, 'b, 'c) sys"
    using that by (simp add: restores_wf_def bucket_wf_def)
  have "db wb = db w"
    using new_id_frame [OF n(1)] now_frame [OF n(2)] same_storesD [OF new_adapter_same [OF assms(8)]] by simp
  then have "restores_wf E wb" using assms(2) wfdb by blast
  from rr_save_taken [OF this assms(3), of rr] have "restores_wf E w2"
    unfolding w2 using clock [OF n(2)] by (simp add: rr json_times_ok_def opt_time_def)
  moreover have "db w3 = db w2" using restore_chain_effect [OF assms(1) c] by blast
  ultimately have wf3: "restores_wf E w3" using wfdb by blast
  obtain t' wc where n': "now E w3 = (t', wc)" by fastforce
  define r2 where "r2 = (case x of
      Some y \<Rightarrow> rr\<lparr>rr_completed := Some t', rr_chain := ids, rr_status := StatusFailed, rr_error := err_text y\<rparr>
    | None \<Rightarrow> rr\<lparr>rr_completed := Some t', rr_chain := ids, rr_status := StatusCompleted\<rparr>)"
  have w': "wf = snd (rr_save E r2 wc)"
    using n' unfolding wf_def by (cases x) (simp_all add: finish_restore_record_def Let_def rr_update_def rr_save_def r2_def)
  have "restores_wf E wc" using wf3 wfdb [of wc w3] now_frame [OF n'] by simp
  moreover have "json_times_ok (rr_started r2 # opt_time (rr_completed r2))"
    using clock [OF n(2)] clock [OF n'] by (cases x) (simp_all add: r2_def rr json_times_ok_def opt_time_def)
  ultimately have "restore_view E wf = (restore_view E wc)(rr_id r2 \<mapsto> r2)"
    using rr_save_taken assms(3) w' by blast
  moreover have "restore_view E w' = restore_view E wf"
    using same_storesD(1) [OF closed] by (simp add: restore_view_def view_bucket_def fun_eq_iff)
  ultimately have "restore_view E w' = (restore_view E wc)(rr_id r2 \<mapsto> r2)" by simp
  then show ?thesis
    using \<open>rid = next_id E w1\<close> e by (cases x) (auto simp: r2_def rr)
qed

theorem restore_is_recorded_witness:
  "map_option rr_status (restore_view (fixed_env 50) (snd (restore_backup (fixed_env 50) ''m'' ''srv'' ''new''
      (ex_sys [ex_instance ''srv'' EngineSQLServer] ex_logs 0))) ''id-0'') = Some StatusCompleted"
proof -
  let ?E = "fixed_env 50" and ?i = "ex_instance ''srv'' EngineSQLServer"
  let ?w = "ex_sys [?i] ex_logs 0"
  let ?p = "restore_backup ?E ''m'' ''srv'' ''new'' ?w"
  have wf: "restores_wf ?E ?w"
    using fixed_env_ok(1) by (simp add: restores_wf_def bucket_wf_def) (simp add: fixed_env_def ref_env_sel ex_sys_def bucket_defs)
  have wr: "bolt_writes ?E" by (simp add: bolt_writes_def fixed_env_def ref_env_sel)
  have t: "\<forall>m. json_time_ok (fst (os_now ?E m))" by (simp add: json_time_ok_def ns_per_day_def)
  have f: "br_find_by_id ?E ''m'' ?w = Inr (ex_record ''m'' ''m.trn'' BackupTypeLog ''a'' 30)" by code_simp
  have r: "resolve_instance ?E ''srv'' ?w = Inr ?i" by code_simp
  have c: "s3cfg_get ?E ?w = Inr ex_cfg" by (simp add: fixed_env_views ex_s3cfg)
  have n: "new_adapter ?E ?i ?w = (Inr (SQLServerAdapter \<lparr>q_driver = ''sqlserver'', q_dsn = sqlserver_dsn ?i\<rparr> ?i), ?w)"
    by (simp add: new_adapter_def open_sql_def fixed_env_def ref_env_sel ex_instance_def)
  have ok: "fst ?p = None" by code_simp
  then have p: "?p = (None, snd ?p)" by (simp add: prod_eq_iff)
  have id: "next_id ?E ?w = ''id-0''" by code_simp
  from restore_is_recorded [OF fixed_env_ok(2) wf wr t f r c n p] id show ?thesis by auto
qed

section \<open>Instances with one name\<close>

text \<open>
  \<open>RestoreAll\<close> finds the target of a backup by the name of its instance, ignoring case. With two
  instances whose names differ in case only, the backups of the second are restored into the first:
  the calls go to one server, and the history holds two attempts on it.
\<close>

theorem restore_all_confuses_equal_names:
  "let i = ex_instance ''srv'' EngineSQLServer; j = i\<lparr>i_id := ''i2'', i_name := ''SRV''\<rparr>;
       a = ex_record ''a'' ''a.bak'' BackupTypeFull '''' 10;
       b = (ex_record ''b'' ''b.bak'' BackupTypeFull '''' 20)\<lparr>b_instance_id := ''i2'', b_instance_name := ''SRV''\<rparr>;
       p = restore_all ref_env ''confirmar'' (ex_sys [i, j] [a, b] 50)
   in fst p = None \<and>
      events (snd p) = [RestoreFull ''srv'' ''db'' (mem_stream ''x'') False, RestoreFull ''srv'' ''db'' (mem_stream ''x'') False] \<and>
      (case rr_find_all ref_env (snd p) of
         Inl e \<Rightarrow> False
       | Inr rs \<Rightarrow> map (\<lambda>r. (rr_instance_id r, rr_target r)) rs = [(''i1'', ''a''), (''i1'', ''b'')])"
  by code_simp

end
