(* ===== verification/Lifecycle.thy ===== *)
theory Lifecycle
  imports Retention Adapters
begin

text \<open>
  Expiry rules on the bucket: the conversions and calls of \<open>adapters/storage/s3/lifecycle.go\<close> and
  \<open>application/usecases/lifecycle_usecase.go\<close>, which keeps one rule per instance with its own
  retention, and a global one, beside the rules of others.
\<close>

section \<open>The adapter\<close>

definition managedByBackiie :: string where "managedByBackiie = ''backiie-''"

text \<open>The prefix of a rule's filter, else the deprecated one of the rule itself, else none.\<close>

definition aws_prefix :: "aws_rule \<Rightarrow> string" where
  "aws_prefix r =
     (case ar_filter r of
        Some f \<Rightarrow> (case af_prefix f of
          Some p \<Rightarrow> p
        | None \<Rightarrow> (case ar_prefix r of Some p \<Rightarrow> p | None \<Rightarrow> ''''))
      | None \<Rightarrow> (case ar_prefix r of Some p \<Rightarrow> p | None \<Rightarrow> ''''))"

definition rule_of_aws :: "aws_rule \<Rightarrow> lifecycle_rule" where
  "rule_of_aws r =
     (let i = (case ar_id r of Some s \<Rightarrow> s | None \<Rightarrow> '''') in
      \<lparr>l_id = i, l_status = ar_status r, l_prefix = aws_prefix r,
       l_days = (case ar_expiration r of Some (Some d) \<Rightarrow> d | _ \<Rightarrow> 0),
       l_managed_by = (if has_prefix i managedByBackiie then ''backiie'' else '''')\<rparr>)"

definition aws_of_rule :: "lifecycle_rule \<Rightarrow> aws_rule" where
  "aws_of_rule r =
     \<lparr>ar_id = Some (l_id r), ar_status = l_status r,
      ar_filter = Some \<lparr>af_prefix = (if l_prefix r \<noteq> '''' then Some (l_prefix r) else None), af_rest = ''''\<rparr>,
      ar_prefix = None, ar_expiration = Some (Some (l_days r)), ar_rest = ''''\<rparr>"

definition is_no_such_lifecycle :: "('d, 's, 'm) env \<Rightarrow> gerr \<Rightarrow> bool" where
  "is_no_such_lifecycle E e =
     (case api_code E e of
        Some c \<Rightarrow> c = ''NoSuchLifecycleConfiguration'' \<or> c = ''NoSuchBucketPolicy''
      | None \<Rightarrow> str_contains (err_text e) ''NoSuchLifecycle'' \<or> str_contains (err_text e) ''404'')"

definition get_lifecycle_rules :: "('d, 's, 'm) env \<Rightarrow> s3_adapter \<Rightarrow> ('d, 's, 'm) sys \<Rightarrow>
    lifecycle_rule list res \<times> ('d, 's, 'm) sys" where
  "get_lifecycle_rules E a w =
     (case aws_get_rules E (a_client a) (a_bucket a) (s3 w) of
        (Inl e, s) \<Rightarrow> (if is_no_such_lifecycle E e then Inr [] else Inl e, w\<lparr>s3 := s\<rparr>)
      | (Inr rs, s) \<Rightarrow> (Inr (map rule_of_aws rs), w\<lparr>s3 := s\<rparr>))"

definition put_lifecycle_rules :: "('d, 's, 'm) env \<Rightarrow> s3_adapter \<Rightarrow> lifecycle_rule list \<Rightarrow>
    ('d, 's, 'm) sys \<Rightarrow> gerr option \<times> ('d, 's, 'm) sys" where
  "put_lifecycle_rules E a rs w =
     (if rs = []
      then (case aws_delete_rules E (a_client a) (a_bucket a) (s3 w) of (e, s) \<Rightarrow> (e, w\<lparr>s3 := s\<rparr>))
      else (case aws_put_rules E (a_client a) (a_bucket a) (map aws_of_rule rs) (s3 w) of
              (e, s) \<Rightarrow> (e, w\<lparr>s3 := s\<rparr>)))"

section \<open>The use case\<close>

definition lifecycle_manager :: "('d, 's, 'm) env \<Rightarrow> ('d, 's, 'm) sys \<Rightarrow>
    s3_adapter res \<times> ('d, 's, 'm) sys" where
  "lifecycle_manager E w =
     (case s3cfg_get E w of
        Inl e \<Rightarrow> (Inl (Err ''S3 no configurado''), w)
      | Inr cfg \<Rightarrow> s3_new E cfg w)"

definition get_rules :: "('d, 's, 'm) env \<Rightarrow> ('d, 's, 'm) sys \<Rightarrow>
    lifecycle_rule list res \<times> ('d, 's, 'm) sys" where
  "get_rules E w =
     (case lifecycle_manager E w of
        (Inl e, w1) \<Rightarrow> (Inl e, w1) | (Inr a, w1) \<Rightarrow> get_lifecycle_rules E a w1)"

definition build_instance_prefix :: "string \<Rightarrow> string \<Rightarrow> string \<Rightarrow> string" where
  "build_instance_prefix s3prefix eng name =
     (if s3prefix = '''' then eng @ ''/'' @ name @ ''/''
      else s3prefix @ ''/'' @ eng @ ''/'' @ name @ ''/'')"

definition id_char :: "char \<Rightarrow> bool" where
  "id_char c = (byte_in 97 122 c \<or> byte_in 65 90 c \<or> byte_in 48 57 c \<or> c = CHR ''-'' \<or> c = CHR ''_'')"

function sanitize_id :: "string \<Rightarrow> string" where
  "sanitize_id s =
     (case s of
        [] \<Rightarrow> []
      | c # cs \<Rightarrow> (if id_char c then c else CHR ''-'') # sanitize_id (drop (rune_length s - 1) cs))"
  by auto
termination by (relation "measure length") auto

declare sanitize_id.simps [simp del]

text \<open>\<open>int32 (n)\<close>.\<close>

definition to_int32 :: "int \<Rightarrow> int" where
  "to_int32 n = (n + 2 ^ 31) mod 2 ^ 32 - 2 ^ 31"

definition instance_rule :: "string \<Rightarrow> inst_rec \<Rightarrow> int \<Rightarrow> lifecycle_rule" where
  "instance_rule s3prefix i days =
     \<lparr>l_id = ''backiie-'' @ sanitize_id (i_name i), l_status = ''Enabled'',
      l_prefix = build_instance_prefix s3prefix (engine_str (i_engine i)) (i_name i),
      l_days = to_int32 days, l_managed_by = ''backiie''\<rparr>"

definition global_rule :: "string \<Rightarrow> int \<Rightarrow> lifecycle_rule" where
  "global_rule s3prefix days =
     \<lparr>l_id = ''backiie-global'', l_status = ''Enabled'',
      l_prefix = (if s3prefix \<noteq> '''' then s3prefix @ ''/'' else s3prefix),
      l_days = to_int32 days, l_managed_by = ''backiie''\<rparr>"

text \<open>
  The loop over the policies, with the days of the global policy and the rules so far. In
  \<open>instMap\<close> the last of several instances with one identifier stands.
\<close>

fun policy_rules :: "string \<Rightarrow> inst_rec list \<Rightarrow> retention_policy list \<Rightarrow> int \<Rightarrow> lifecycle_rule list \<Rightarrow>
    lifecycle_rule list" where
  "policy_rules s3prefix is [] gdays acc = acc @ [global_rule s3prefix gdays]"
| "policy_rules s3prefix is (p # ps) gdays acc =
     (if p_instance_id p = '''' then policy_rules s3prefix is ps (p_retain_days p) acc
      else (case List.find (\<lambda>i. i_id i = p_instance_id p) (rev is) of
              None \<Rightarrow> policy_rules s3prefix is ps gdays acc
            | Some i \<Rightarrow>
                policy_rules s3prefix is ps gdays (acc @ [instance_rule s3prefix i (p_retain_days p)])))"

definition is_external :: "lifecycle_rule \<Rightarrow> bool" where
  "is_external r = (l_managed_by r \<noteq> ''backiie'')"

definition sync_with_retention :: "('d, 's, 'm) env \<Rightarrow> ('d, 's, 'm) sys \<Rightarrow>
    gerr option \<times> ('d, 's, 'm) sys" where
  "sync_with_retention E w =
     (case lifecycle_manager E w of
        (Inl e, w1) \<Rightarrow> (Some e, w1)
      | (Inr a, w1) \<Rightarrow> (case get_lifecycle_rules E a w1 of
          (Inl e, w2) \<Rightarrow> (Some (WrapErr ''leer reglas actuales: '' e ''''), w2)
        | (Inr rules, w2) \<Rightarrow> (case s3cfg_get E w2 of
            Inl e \<Rightarrow> (Some (WrapErr ''config S3: '' e ''''), w2)
          | Inr cfg \<Rightarrow> (case inst_find_all E w2 of
              Inl e \<Rightarrow> (Some (WrapErr ''listar instancias: '' e ''''), w2)
            | Inr is \<Rightarrow> (case pol_find_all E w2 of
                Inl e \<Rightarrow> (Some (WrapErr (''listar pol'' @ u_i @ ''ticas: '') e ''''), w2)
              | Inr ps \<Rightarrow>
                  put_lifecycle_rules E a
                    (filter is_external rules @
                     policy_rules (trim_suffix (c_prefix cfg) ''/'') is ps
                       (p_retain_days default_retention_policy) [])
                    w2)))))"

definition delete_rule :: "('d, 's, 'm) env \<Rightarrow> string \<Rightarrow> ('d, 's, 'm) sys \<Rightarrow>
    gerr option \<times> ('d, 's, 'm) sys" where
  "delete_rule E rid w =
     (case lifecycle_manager E w of
        (Inl e, w1) \<Rightarrow> (Some e, w1)
      | (Inr a, w1) \<Rightarrow> (case get_lifecycle_rules E a w1 of
          (Inl e, w2) \<Rightarrow> (Some e, w2)
        | (Inr rules, w2) \<Rightarrow> put_lifecycle_rules E a (filter (\<lambda>r. l_id r \<noteq> rid) rules) w2))"

section \<open>Reading back\<close>

lemma rule_of_aws_of_rule:
  "l_managed_by r = (if has_prefix (l_id r) managedByBackiie then ''backiie'' else '''') \<Longrightarrow>
    rule_of_aws (aws_of_rule r) = r"
  by (cases r) (simp add: rule_of_aws_def aws_of_rule_def aws_prefix_def Let_def)

lemma rule_of_aws_managed:
  "l_managed_by (rule_of_aws x) =
    (if has_prefix (l_id (rule_of_aws x)) managedByBackiie then ''backiie'' else '''')"
  by (simp add: rule_of_aws_def Let_def)

lemma rule_of_aws_idem [simp]: "rule_of_aws (aws_of_rule (rule_of_aws x)) = rule_of_aws x"
  by (rule rule_of_aws_of_rule) (rule rule_of_aws_managed)

lemma own_rules_managed:
  "l_managed_by (instance_rule p i d) = (if has_prefix (l_id (instance_rule p i d)) managedByBackiie then ''backiie'' else '''')"
  "l_managed_by (global_rule p d) = (if has_prefix (l_id (global_rule p d)) managedByBackiie then ''backiie'' else '''')"
  by (simp_all add: instance_rule_def global_rule_def managedByBackiie_def has_prefix_append)

lemma own_rules_back [simp]:
  "rule_of_aws (aws_of_rule (instance_rule p i d)) = instance_rule p i d"
  "rule_of_aws (aws_of_rule (global_rule p d)) = global_rule p d"
  using own_rules_managed rule_of_aws_of_rule by blast+

lemma policy_rules_own:
  "(\<forall>r \<in> set acc. \<not> is_external r \<and> rule_of_aws (aws_of_rule r) = r) \<Longrightarrow>
    \<forall>r \<in> set (policy_rules p is ps g acc). \<not> is_external r \<and> rule_of_aws (aws_of_rule r) = r"
proof (induction p "is" ps g acc rule: policy_rules.induct)
  case (1 p "is" g acc)
  have "\<not> is_external (global_rule p g)" by (simp add: is_external_def global_rule_def)
  with 1 show ?case by auto
next
  case (2 p "is" q ps g acc)
  have "\<not> is_external (instance_rule p i d)" for i d by (simp add: is_external_def instance_rule_def)
  with 2 show ?case by (auto split: option.splits)
qed

text \<open>
  The rules of a bucket: what a successful write stored is what is read next, neither reading nor
  opening a client changes them, and no call on the rules changes an object.
\<close>

definition aws_rules_ok :: "('d, 's, 'm) env \<Rightarrow> bool" where
  "aws_rules_ok E \<longleftrightarrow>
     (\<forall>c b rs s s'. aws_put_rules E c b rs s = (None, s') \<longrightarrow> fst (aws_get_rules E c b s') = Inr rs) \<and>
     (\<forall>c b c' b' s. fst (aws_get_rules E c b (snd (aws_get_rules E c' b' s))) = fst (aws_get_rules E c b s)) \<and>
     (\<forall>c b cfg s. fst (aws_get_rules E c b (snd (aws_load E cfg s))) = fst (aws_get_rules E c b s)) \<and>
     (\<forall>c b s. same_objs E s (snd (aws_get_rules E c b s))) \<and>
     (\<forall>c b rs s. same_objs E s (snd (aws_put_rules E c b rs s))) \<and>
     (\<forall>c b s. same_objs E s (snd (aws_delete_rules E c b s)))"

lemma ref_env_rules_ok [simp, intro]: "aws_rules_ok ref_env"
  by (auto simp: aws_rules_ok_def ref_env_sel same_objs_def)

lemma put_get_rules:
  assumes "aws_rules_ok E" "put_lifecycle_rules E a rs w = (None, w')" "rs \<noteq> []"
  shows "fst (get_lifecycle_rules E a w') = Inr (map (rule_of_aws \<circ> aws_of_rule) rs)"
proof -
  obtain s where p: "aws_put_rules E (a_client a) (a_bucket a) (map aws_of_rule rs) (s3 w) = (None, s)"
    and w': "w' = w\<lparr>s3 := s\<rparr>"
    using assms(2,3) by (auto simp: put_lifecycle_rules_def split: prod.splits)
  have "fst (aws_get_rules E (a_client a) (a_bucket a) s) = Inr (map aws_of_rule rs)"
    using conjunct1 [OF assms(1) [unfolded aws_rules_ok_def]] p by metis
  then show ?thesis
    by (auto simp: get_lifecycle_rules_def w' split: prod.splits)
qed

lemma rules_frame:
  "db (snd (get_lifecycle_rules E a w)) = db w" "db (snd (put_lifecycle_rules E a rs w)) = db w"
  "db (snd (lifecycle_manager E w)) = db w"
  by (auto simp: get_lifecycle_rules_def put_lifecycle_rules_def lifecycle_manager_def s3_new_def
      split: prod.splits sum.splits option.splits)

lemma rules_objects:
  assumes "aws_rules_ok E" "aws_ok E"
  shows "same_objs E (s3 w) (s3 (snd (get_lifecycle_rules E a w)))"
    "same_objs E (s3 w) (s3 (snd (put_lifecycle_rules E a rs w)))"
    "same_objs E (s3 w) (s3 (snd (lifecycle_manager E w)))"
proof -
  have g: "same_objs E s (snd (aws_get_rules E c b s))" "same_objs E s (snd (aws_put_rules E c b rs' s))"
    "same_objs E s (snd (aws_delete_rules E c b s))" "same_objs E s (snd (aws_load E cfg s))" for c b s rs' cfg
    using assms by (simp_all add: aws_rules_ok_def aws_ok_def aws_quiet_ok_def)
  have r: "same_objs E s s" for s by (simp add: same_objs_def)
  show "same_objs E (s3 w) (s3 (snd (get_lifecycle_rules E a w)))"
    using g(1) [of "s3 w" "a_client a" "a_bucket a"]
    by (auto simp: get_lifecycle_rules_def split: prod.splits sum.splits)
  show "same_objs E (s3 w) (s3 (snd (put_lifecycle_rules E a rs w)))"
    using g(2) [of "s3 w" "a_client a" "a_bucket a" "map aws_of_rule rs"] g(3) [of "s3 w" "a_client a" "a_bucket a"]
    by (auto simp: put_lifecycle_rules_def split: prod.splits)
  show "same_objs E (s3 w) (s3 (snd (lifecycle_manager E w)))"
    using g(4) [of "s3 w"] r
    by (auto simp: lifecycle_manager_def s3_new_def split: prod.splits sum.splits option.splits) (metis snd_conv)+
qed

section \<open>Synchronising\<close>

text \<open>A successful synchronisation read the rules, the configuration, the instances and the policies.\<close>

definition sync_plan :: "s3_config \<Rightarrow> inst_rec list \<Rightarrow> retention_policy list \<Rightarrow> lifecycle_rule list" where
  "sync_plan cfg is ps =
     policy_rules (trim_suffix (c_prefix cfg) ''/'') is ps (p_retain_days default_retention_policy) []"

lemma sync_plan_own:
  "r \<in> set (sync_plan cfg is ps) \<Longrightarrow> \<not> is_external r \<and> rule_of_aws (aws_of_rule r) = r"
  unfolding sync_plan_def
  using policy_rules_own [of "[]" "trim_suffix (c_prefix cfg) ''/''" "is" ps "p_retain_days default_retention_policy"]
  by (simp only: list.set ball_empty simp_thms)

lemma policy_rules_nonempty: "policy_rules p is ps g acc \<noteq> []"
  by (induction p "is" ps g acc rule: policy_rules.induct) (auto split: option.splits)

lemma manager_opens:
  assumes "lifecycle_manager E w = (Inr a, w1)"
  obtains cfg where "s3cfg_get E w = Inr cfg" "a = adapter_of cfg" "w1 = w\<lparr>s3 := snd (aws_load E cfg (s3 w))\<rparr>"
  using assms
  by (auto simp: lifecycle_manager_def s3_new_def split: sum.splits prod.splits option.splits)

lemma sync_success:
  assumes ok: "aws_rules_ok E" and s: "sync_with_retention E w = (None, w')"
  obtains cfg ins ps old where
    "s3cfg_get E w = Inr cfg" "inst_find_all E w = Inr ins" "pol_find_all E w = Inr ps"
    "fst (get_lifecycle_rules E (adapter_of cfg) w) = Inr old" "db w' = db w"
    "fst (get_lifecycle_rules E (adapter_of cfg) w') =
       Inr (map (rule_of_aws \<circ> aws_of_rule) (filter is_external old @ sync_plan cfg ins ps))"
proof -
  obtain a w1 where m: "lifecycle_manager E w = (Inr a, w1)"
    using s by (auto simp: sync_with_retention_def split: prod.splits sum.splits)
  obtain cfg where c: "s3cfg_get E w = Inr cfg" "a = adapter_of cfg"
      "w1 = w\<lparr>s3 := snd (aws_load E cfg (s3 w))\<rparr>"
    using manager_opens [OF m] by blast
  obtain old w2 where g: "get_lifecycle_rules E a w1 = (Inr old, w2)"
    using s m by (auto simp: sync_with_retention_def split: prod.splits sum.splits)
  have d: "db w1 = db w" "db w2 = db w"
    using c(3) rules_frame(1) [of E a w1] g by simp_all
  have c2: "s3cfg_get E w2 = Inr cfg" "inst_find_all E w2 = inst_find_all E w" "pol_find_all E w2 = pol_find_all E w"
    using c(1) d by (simp_all add: s3cfg_get_def store_get_def inst_find_all_def pol_find_all_def store_all_def)
  obtain ins ps where i: "inst_find_all E w = Inr ins" "pol_find_all E w = Inr ps"
    and p: "put_lifecycle_rules E a (filter is_external old @ sync_plan cfg ins ps) w2 = (None, w')"
    using s m g c2 by (auto simp: sync_with_retention_def sync_plan_def split: prod.splits sum.splits)
  have "filter is_external old @ sync_plan cfg ins ps \<noteq> []"
    using policy_rules_nonempty by (simp add: sync_plan_def)
  note pg = put_get_rules [OF ok p this]
  have l: "fst (aws_get_rules E x b (snd (aws_load E cfg s))) = fst (aws_get_rules E x b s)" for x b s
    using ok by (simp add: aws_rules_ok_def)
  have "fst (get_lifecycle_rules E a w1) = fst (get_lifecycle_rules E a w)"
    using l [of "a_client a" "a_bucket a" "s3 w"]
    by (auto simp: get_lifecycle_rules_def c(3) split: prod.splits sum.splits)
  with g have "fst (get_lifecycle_rules E a w) = Inr old" by simp
  with that c i pg d rules_frame(2) [of E a _ w2] p show ?thesis by (metis snd_conv)
qed

lemma same_objs_trans: "same_objs E a b \<Longrightarrow> same_objs E b c \<Longrightarrow> same_objs E a c"
  by (simp add: same_objs_def)

lemma sync_objects:
  assumes "aws_rules_ok E" "aws_ok E"
  shows "same_objs E (s3 w) (s3 (snd (sync_with_retention E w)))"
proof -
  obtain r w1 where m: "lifecycle_manager E w = (r, w1)" by (cases "lifecycle_manager E w")
  have o1: "same_objs E (s3 w) (s3 w1)" using rules_objects(3) [OF assms, of w] m by simp
  show ?thesis
  proof (cases r)
    case (Inr a)
    obtain g w2 where g: "get_lifecycle_rules E a w1 = (g, w2)" by (cases "get_lifecycle_rules E a w1")
    have o2: "same_objs E (s3 w) (s3 w2)"
      using same_objs_trans [OF o1] rules_objects(1) [OF assms, of w1 a] g by simp
    have o3: "same_objs E (s3 w) (s3 (snd (put_lifecycle_rules E a rs w2)))" for rs
      using same_objs_trans [OF o2] rules_objects(2) [OF assms, of w2 a rs] by simp
    show ?thesis using o2 o3 m g Inr by (simp add: sync_with_retention_def split: sum.splits)
  qed (use m o1 in \<open>simp add: sync_with_retention_def\<close>)
qed

lemma read_back:
  assumes "fst (get_lifecycle_rules E a w) = Inr rs" "r \<in> set rs"
  shows "rule_of_aws (aws_of_rule r) = r"
  using assms by (auto simp: get_lifecycle_rules_def split: prod.splits sum.splits if_splits)

text \<open>
  C16. A synchronisation that reports success leaves in the bucket, as read back through the adapter,
  the rules of other tools that were there, in their order, followed by exactly the rules planned
  from the stored policies, and it changes neither the database nor an object of the bucket.
\<close>

theorem sync_replaces_own_rules:
  assumes "aws_rules_ok E" "aws_ok E" "sync_with_retention E w = (None, w')"
    "s3cfg_get E w = Inr cfg" "inst_find_all E w = Inr ins" "pol_find_all E w = Inr ps"
    "fst (get_lifecycle_rules E (adapter_of cfg) w) = Inr old"
  shows "fst (get_lifecycle_rules E (adapter_of cfg) w') =
           Inr (filter is_external old @ sync_plan cfg ins ps) \<and>
         db w' = db w \<and> same_objs E (s3 w) (s3 w')"
proof -
  obtain r where r: "fst (get_lifecycle_rules E (adapter_of cfg) w') =
       Inr (map (rule_of_aws \<circ> aws_of_rule) (filter is_external old @ sync_plan cfg ins ps))"
    and d: "db w' = db w"
    using sync_success [OF assms(1,3)] assms(4-7) by (metis sum.inject(2))
  have "map (rule_of_aws \<circ> aws_of_rule) (filter is_external old @ sync_plan cfg ins ps) =
      filter is_external old @ sync_plan cfg ins ps"
    by (rule map_idI) (auto dest: read_back [OF assms(7)] sync_plan_own)
  with r d sync_objects [OF assms(1,2), of w] assms(3) show ?thesis by simp
qed

definition old_rule :: aws_rule where
  "old_rule = \<lparr>ar_id = Some ''glacier'', ar_status = ''Enabled'', ar_filter = None, ar_prefix = Some ''logs/'',
     ar_expiration = None, ar_rest = ''transition to GLACIER after 30 days''\<rparr>"

definition rules_sys :: "inst_rec list \<Rightarrow> retention_policy list \<Rightarrow> aws_rule list \<Rightarrow> (ref_db, ref_s3, ref_os) sys" where
  "rules_sys ins ps rs =
     (ex_sys ins [] 0)\<lparr>
       db := (db (ex_sys ins [] 0)) (bucketRetention := map (\<lambda>p. (policy_key p, Json (EPolicy p))) ps),
       s3 := \<lparr>rs_objs = [], rs_rules = rs\<rparr>\<rparr>"

definition ex_policy :: "string \<Rightarrow> int \<Rightarrow> retention_policy" where
  "ex_policy i n = default_retention_policy\<lparr>p_instance_id := i, p_retain_days := n\<rparr>"

lemma rules_sys_reads:
  "s3cfg_get ref_env (rules_sys ins ps rs) = Inr ex_cfg"
  "fst (get_lifecycle_rules ref_env (adapter_of cfg) (rules_sys ins ps rs)) = Inr (map rule_of_aws rs)"
  by (simp_all add: rules_sys_def ex_sys_def s3cfg_get_def store_get_def ref_env_sel decode_s3_config_def
      bucket_defs get_lifecycle_rules_def)

theorem sync_replaces_own_rules_witness:
  "fst (get_lifecycle_rules ref_env (adapter_of ex_cfg)
     (snd (sync_with_retention ref_env (rules_sys [ex_instance ''srv'' EngineMySQL] [ex_policy ''i1'' 9] [old_rule])))) =
   Inr [rule_of_aws old_rule, instance_rule ''pre'' (ex_instance ''srv'' EngineMySQL) 9, global_rule ''pre'' 3]"
proof -
  let ?w = "rules_sys [ex_instance ''srv'' EngineMySQL] [ex_policy ''i1'' 9] [old_rule]"
  have i: "inst_find_all ref_env ?w = Inr [ex_instance ''srv'' EngineMySQL]" by code_simp
  have p: "pol_find_all ref_env ?w = Inr [ex_policy ''i1'' 9]" by code_simp
  have n: "fst (sync_with_retention ref_env ?w) = None" by code_simp
  have e: "filter is_external (map rule_of_aws [old_rule]) @
      sync_plan ex_cfg [ex_instance ''srv'' EngineMySQL] [ex_policy ''i1'' 9] =
      [rule_of_aws old_rule, instance_rule ''pre'' (ex_instance ''srv'' EngineMySQL) 9, global_rule ''pre'' 3]"
    by code_simp
  have s: "sync_with_retention ref_env ?w = (None, snd (sync_with_retention ref_env ?w))"
    using n by (metis prod.collapse)
  show ?thesis
    using sync_replaces_own_rules [OF ref_env_rules_ok aws_ok_ref_env s rules_sys_reads(1) i p rules_sys_reads(2)]
    unfolding e by blast
qed

text \<open>
  Synchronising twice is synchronising once: a second successful synchronisation with the same
  stored configuration leaves the rules the first one left.
\<close>

theorem sync_idempotent:
  assumes "aws_rules_ok E" "sync_with_retention E w = (None, w')" "sync_with_retention E w' = (None, w'')"
    "s3cfg_get E w = Inr cfg"
  shows "fst (get_lifecycle_rules E (adapter_of cfg) w'') = fst (get_lifecycle_rules E (adapter_of cfg) w')"
proof -
  have same: "s3cfg_get E w' = s3cfg_get E w" "inst_find_all E w' = inst_find_all E w"
      "pol_find_all E w' = pol_find_all E w" if "db w' = db w"
    using that by (simp_all add: s3cfg_get_def store_get_def inst_find_all_def pol_find_all_def store_all_def)
  obtain ins ps old where 1: "inst_find_all E w = Inr ins" "pol_find_all E w = Inr ps" "db w' = db w"
      "fst (get_lifecycle_rules E (adapter_of cfg) w) = Inr old"
      "fst (get_lifecycle_rules E (adapter_of cfg) w') =
        Inr (map (rule_of_aws \<circ> aws_of_rule) (filter is_external old @ sync_plan cfg ins ps))"
    using sync_success [OF assms(1,2)] assms(4) by (metis sum.inject(2))
  have 2: "fst (get_lifecycle_rules E (adapter_of cfg) w'') =
      Inr (map (rule_of_aws \<circ> aws_of_rule)
        (filter is_external (map (rule_of_aws \<circ> aws_of_rule) (filter is_external old @ sync_plan cfg ins ps)) @
         sync_plan cfg ins ps))"
    using sync_success [OF assms(1,3)] same [OF 1(3)] assms(4) 1 by (metis sum.inject(2))
  have m: "map (rule_of_aws \<circ> aws_of_rule) (filter is_external old @ sync_plan cfg ins ps) =
      filter is_external old @ sync_plan cfg ins ps"
    by (rule map_idI) (auto dest: read_back [OF 1(4)] sync_plan_own)
  have f: "filter is_external (sync_plan cfg ins ps) = []"
    using sync_plan_own by (auto simp: filter_empty_conv)
  show ?thesis using 1(5) 2 unfolding m by (simp add: f m [simplified])
qed

theorem sync_idempotent_witness:
  "let w = rules_sys [ex_instance ''srv'' EngineMySQL] [ex_policy ''i1'' 9] [old_rule];
       w' = snd (sync_with_retention ref_env w) in
   fst (get_lifecycle_rules ref_env (adapter_of ex_cfg) (snd (sync_with_retention ref_env w'))) =
   fst (get_lifecycle_rules ref_env (adapter_of ex_cfg) w')"
proof -
  let ?w = "rules_sys [ex_instance ''srv'' EngineMySQL] [ex_policy ''i1'' 9] [old_rule]"
  have "fst (sync_with_retention ref_env ?w) = None"
    "fst (sync_with_retention ref_env (snd (sync_with_retention ref_env ?w))) = None" by code_simp+
  then show ?thesis
    using sync_idempotent [OF ref_env_rules_ok _ _ rules_sys_reads(1)] unfolding Let_def by (metis prod.collapse)
qed

lemma sqlserver_dump_key:
  "sqlserver_dump E c i dbn ext f w = (Inr (rd, k), w') \<Longrightarrow> \<exists>t. k = object_key i dbn ext t"
  by (auto simp: sqlserver_dump_def Let_def split: prod.splits sum.splits option.splits)

lemma sqlserver_log_key:
  "sqlserver_backup_log E c i dbn w = (Inr (rd, k), w') \<Longrightarrow> \<exists>t. k = object_key i dbn ''trn'' t"
  by (auto simp: sqlserver_backup_log_def split: prod.splits sum.splits if_splits dest: sqlserver_dump_key)

text \<open>The instance a connected adapter was made for.\<close>

fun adapter_inst :: "db_adapter \<Rightarrow> inst_rec" where
  "adapter_inst (SQLServerAdapter c i) = i"
| "adapter_inst (MySQLAdapter c i) = i"
| "adapter_inst (PostgresAdapter c i) = i"
| "adapter_inst (RedisAdapter r i) = i"

lemma new_adapter_engine:
  assumes "new_adapter E i w = (Inr ad, w')"
  shows "adapter_inst ad = i"
    "(case ad of SQLServerAdapter c j \<Rightarrow> i_engine i = EngineSQLServer
      | MySQLAdapter c j \<Rightarrow> i_engine i = EngineMySQL \<or> i_engine i = EngineMariaDB
      | PostgresAdapter c j \<Rightarrow> i_engine i = EnginePostgres | RedisAdapter r j \<Rightarrow> i_engine i = EngineRedis)"
  using assms
  by (auto simp: new_adapter_def open_sql_def split: engine_type.splits prod.splits sum.splits option.splits)

lemma backup_key_shape:
  assumes "new_adapter E i w = (Inr ad, w1)" "ad_backup E ad dbn w2 = (Inr (rd, k), w3)"
  shows "\<exists>r. k = engine_str (i_engine i) @ ''/'' @ i_name i @ ''/'' @ r"
  using new_adapter_engine [OF assms(1)] assms(2)
  by (cases ad)
    (auto simp: ad_backup_def sqlserver_backup_def mysql_backup_def postgres_backup_def redis_backup_def Let_def
      dump_key_def object_key_def split: prod.splits sum.splits dest!: sqlserver_dump_key)

lemma log_key_shape:
  assumes "new_adapter E i w = (Inr ad, w1)" "log_capable ad = Some (c, j)"
    "sqlserver_backup_log E c j dbn w2 = (Inr (rd, k), w3)"
  shows "\<exists>r. k = engine_str (i_engine i) @ ''/'' @ i_name i @ ''/'' @ r"
  using new_adapter_engine [OF assms(1)] assms(2) sqlserver_log_key [OF assms(3)]
  by (cases ad) (auto simp: log_capable_def object_key_def)

text \<open>
  The prefix of an instance's rule, and that of the global rule, cover every object a backup of
  that instance stores: the key an adapter made for the instance gives a full backup or a log,
  under the bucket prefix of the storage adapter.
\<close>

theorem instance_rule_covers_backups:
  assumes "new_adapter E i w = (Inr ad, w1)"
    "ad_backup E ad dbn w2 = (Inr (rd, k), w3) \<or>
     (\<exists>c j. log_capable ad = Some (c, j) \<and> sqlserver_backup_log E c j dbn w2 = (Inr (rd, k), w3))"
  shows "has_prefix (full_key (adapter_of cfg) k)
           (l_prefix (instance_rule (trim_suffix (c_prefix cfg) ''/'') i days)) \<and>
         has_prefix (full_key (adapter_of cfg) k) (l_prefix (global_rule (trim_suffix (c_prefix cfg) ''/'') days))"
proof -
  have "\<exists>r. k = engine_str (i_engine i) @ ''/'' @ i_name i @ ''/'' @ r"
    using assms(2) backup_key_shape [OF assms(1)] log_key_shape [OF assms(1)] by blast
  then show ?thesis
    by (auto simp: instance_rule_def build_instance_prefix_def global_rule_def full_key_def adapter_of_def
        has_prefix_append)
qed

theorem instance_rule_covers_backups_witness:
  "let i = ex_instance ''srv'' EngineMariaDB;
       ad = projr (fst (new_adapter ref_env i (ex_sys [] [] 0)));
       k = snd (projr (fst (ad_backup ref_env ad ''db'' (ex_sys [] [] 0)))) in
   k = ''mariadb/srv/db_00010101_000000.sql.gz'' \<and>
   has_prefix (full_key (adapter_of ex_cfg) k) (l_prefix (instance_rule (trim_suffix (c_prefix ex_cfg) ''/'') i 3))"
proof -
  let ?i = "ex_instance ''srv'' EngineMariaDB" and ?w = "ex_sys [] [] 0"
  let ?ad = "projr (fst (new_adapter ref_env ?i ?w))"
  let ?b = "projr (fst (ad_backup ref_env ?ad ''db'' ?w))"
  have 1: "isl (fst (new_adapter ref_env ?i ?w)) = False" by code_simp
  have 2: "isl (fst (ad_backup ref_env ?ad ''db'' ?w)) = False" by code_simp
  have 3: "snd ?b = ''mariadb/srv/db_00010101_000000.sql.gz''" by code_simp
  have "new_adapter ref_env ?i ?w = (Inr ?ad, snd (new_adapter ref_env ?i ?w))"
    using 1 by (metis prod.collapse sum.collapse(2))
  moreover have "ad_backup ref_env ?ad ''db'' ?w = (Inr (fst ?b, snd ?b), snd (ad_backup ref_env ?ad ''db'' ?w))"
    using 2 by (metis prod.collapse sum.collapse(2))
  ultimately show ?thesis
    using instance_rule_covers_backups [of ref_env ?i ?w ?ad _ "''db''" ?w "fst ?b" "snd ?b" _ ex_cfg 3] 3
    unfolding Let_def by blast
qed

text \<open>
  \<open>DeleteRule\<close> that reports success leaves, as read back, every rule but those with the
  given identifier, in their order, when there is such a rule; the database is as it was.
\<close>

theorem delete_rule_removes_one:
  assumes "aws_rules_ok E" "delete_rule E rid w = (None, w')" "s3cfg_get E w = Inr cfg"
    "fst (get_lifecycle_rules E (adapter_of cfg) w) = Inr old" "filter (\<lambda>r. l_id r \<noteq> rid) old \<noteq> []"
  shows "fst (get_lifecycle_rules E (adapter_of cfg) w') = Inr (filter (\<lambda>r. l_id r \<noteq> rid) old) \<and> db w' = db w"
proof -
  obtain a w1 where m: "lifecycle_manager E w = (Inr a, w1)"
    using assms(2) by (auto simp: delete_rule_def split: prod.splits sum.splits)
  have c: "a = adapter_of cfg" "w1 = w\<lparr>s3 := snd (aws_load E cfg (s3 w))\<rparr>"
    using manager_opens [OF m] assms(3) by (metis sum.inject(2))+
  have l: "fst (aws_get_rules E x b (snd (aws_load E cfg s))) = fst (aws_get_rules E x b s)" for x b s
    using assms(1) by (simp add: aws_rules_ok_def)
  have "fst (get_lifecycle_rules E a w1) = fst (get_lifecycle_rules E a w)"
    using l [of "a_client a" "a_bucket a" "s3 w"]
    by (auto simp: get_lifecycle_rules_def c(2) split: prod.splits sum.splits)
  then obtain w2 where g: "get_lifecycle_rules E a w1 = (Inr old, w2)"
    using assms(4) c(1) by (cases "get_lifecycle_rules E a w1") simp
  have p: "put_lifecycle_rules E a (filter (\<lambda>r. l_id r \<noteq> rid) old) w2 = (None, w')"
    using assms(2) m g by (simp add: delete_rule_def)
  have "map (rule_of_aws \<circ> aws_of_rule) (filter (\<lambda>r. l_id r \<noteq> rid) old) = filter (\<lambda>r. l_id r \<noteq> rid) old"
    by (rule map_idI) (auto dest: read_back [OF assms(4)])
  then show ?thesis
    using put_get_rules [OF assms(1) p assms(5)] rules_frame(1) [of E a w1] rules_frame(2) [of E a _ w2] p g c
    by (metis snd_conv select_convs(1) sys.ext_inject sys.surjective sys.update_convs(2))
qed

theorem delete_rule_removes_one_witness:
  "fst (get_lifecycle_rules ref_env (adapter_of ex_cfg)
      (snd (delete_rule ref_env ''backiie-global''
        (rules_sys [] [] [old_rule, aws_of_rule (global_rule ''pre'' 3)])))) = Inr [rule_of_aws old_rule]"
proof -
  let ?w = "rules_sys [] [] [old_rule, aws_of_rule (global_rule ''pre'' 3)]"
  have "fst (delete_rule ref_env ''backiie-global'' ?w) = None" by code_simp
  then have d: "delete_rule ref_env ''backiie-global'' ?w = (None, snd (delete_rule ref_env ''backiie-global'' ?w))"
    by (metis prod.collapse)
  have f: "filter (\<lambda>r. l_id r \<noteq> ''backiie-global'') (map rule_of_aws [old_rule, aws_of_rule (global_rule ''pre'' 3)]) =
      [rule_of_aws old_rule]" by code_simp
  show ?thesis
    using delete_rule_removes_one [OF ref_env_rules_ok d rules_sys_reads(1) rules_sys_reads(2)] unfolding f by simp
qed

text \<open>
  Synchronising does not keep the rules of other tools as they were, although it says so: a rule
  that only moves old objects to another storage class, written back by a successful
  synchronisation, has lost the move and got an expiry of 0 days. And two instances whose names
  differ in a character the identifier cannot hold, or one named \<open>global\<close>, get rules with one and the
  same identifier.
\<close>

theorem sync_rewrites_foreign_rules:
  "(let w = rules_sys [] [] [old_rule]; r = sync_with_retention ref_env w in
     fst r = None \<and>
     rs_rules (s3 (snd r)) =
       [old_rule\<lparr>ar_filter := Some \<lparr>af_prefix = Some ''logs/'', af_rest = ''''\<rparr>, ar_prefix := None,
          ar_expiration := Some (Some 0), ar_rest := ''''\<rparr>, aws_of_rule (global_rule ''pre'' 3)]) \<and>
   l_id (instance_rule p (ex_instance ''a b'' EngineMySQL) m) = l_id (instance_rule p (ex_instance ''a-b'' EngineMySQL) n) \<and>
   l_id (instance_rule p (ex_instance ''global'' EngineMySQL) m) = l_id (global_rule p n)"
proof -
  have "let w = rules_sys [] [] [old_rule]; r = sync_with_retention ref_env w in
     fst r = None \<and>
     rs_rules (s3 (snd r)) =
       [old_rule\<lparr>ar_filter := Some \<lparr>af_prefix = Some ''logs/'', af_rest = ''''\<rparr>, ar_prefix := None,
          ar_expiration := Some (Some 0), ar_rest := ''''\<rparr>, aws_of_rule (global_rule ''pre'' 3)]"
    by code_simp
  moreover have "sanitize_id ''a b'' = sanitize_id ''a-b''" "sanitize_id ''global'' = ''global''" by code_simp+
  ultimately show ?thesis by (simp add: instance_rule_def global_rule_def ex_instance_def)
qed

end
