(* ===== verification/SelfBackup.thy ===== *)
theory SelfBackup
  imports Retention
begin

text \<open>
  The program's own state: \<open>application/usecases/self_backup_usecase.go\<close>, which uploads a
  snapshot of the bbolt file and prunes old ones, \<open>self_restore_usecase.go\<close>, which brings the
  newest back, and the command \<open>recover\<close> of \<open>cmd/recover.go\<close> that asks for the bucket and runs it.
\<close>

section \<open>Taking a snapshot\<close>

definition selfBackupPrefix :: string where "selfBackupPrefix = ''_backiie-meta''"

definition env_or :: "('d, 's, 'm) env \<Rightarrow> 'm \<Rightarrow> string \<Rightarrow> string \<Rightarrow> string" where
  "env_or E m key def = (let v = os_getenv E m key in if v \<noteq> '''' then v else def)"

definition local_hostname :: "('d, 's, 'm) env \<Rightarrow> 'm \<Rightarrow> string" where
  "local_hostname E m =
     (let h = os_getenv E m ''BACKIIE_HOSTNAME'' in
      if h = '''' then (case os_hostname E m of Inl e \<Rightarrow> ''unknown'' | Inr n \<Rightarrow> n) else h)"

definition self_prefix :: "string \<Rightarrow> string" where
  "self_prefix host = selfBackupPrefix @ ''/'' @ host"

text \<open>The loop of \<open>pruneOld\<close>: a deletion that fails is ignored.\<close>

fun prune_objects :: "('d, 's, 'm) env \<Rightarrow> s3_adapter \<Rightarrow> time \<Rightarrow> storage_object list \<Rightarrow>
    ('d, 's, 'm) sys \<Rightarrow> ('d, 's, 'm) sys" where
  "prune_objects E a cutoff [] w = w"
| "prune_objects E a cutoff (x # xs) w =
     (if \<not> has_suffix (so_key x) ''.db'' then prune_objects E a cutoff xs w
      else if so_modified x < cutoff
      then prune_objects E a cutoff xs (snd (s3_delete E a (so_key x) w))
      else prune_objects E a cutoff xs w)"

definition prune_old :: "('d, 's, 'm) env \<Rightarrow> s3_adapter \<Rightarrow> string \<Rightarrow> ('d, 's, 'm) sys \<Rightarrow>
    gerr option \<times> ('d, 's, 'm) sys" where
  "prune_old E a prefix w =
     (let days = (case pol_find_global E w of Inr p \<Rightarrow> p_retain_days p | Inl _ \<Rightarrow> 3) in
      case now E w of (t, w1) \<Rightarrow>
      (case s3_list E a prefix w1 of
         (Inl e, w2) \<Rightarrow> (Some e, w2)
       | (Inr xs, w2) \<Rightarrow> (None, prune_objects E a (add_days t (- days)) xs w2)))"

definition self_backup_run :: "('d, 's, 'm) env \<Rightarrow> string \<Rightarrow> ('d, 's, 'm) sys \<Rightarrow>
    gerr option \<times> ('d, 's, 'm) sys" where
  "self_backup_run E host w =
     (case s3cfg_get E w of
        Inl e \<Rightarrow> (Some (WrapErr ''config S3: '' e ''''), w)
      | Inr cfg \<Rightarrow> (case s3_new E cfg w of
          (Inl e, w1) \<Rightarrow> (Some (WrapErr ''conectar S3: '' e ''''), w1)
        | (Inr a, w1) \<Rightarrow> (case now E w1 of (t, w2) \<Rightarrow>
            (case s3_upload E a (self_prefix host @ ''/backiie_'' @ stamp_minute t @ ''.db'')
                    (bolt_snapshot E (db w2)) w2 of
               ((Inl e, n), w3) \<Rightarrow> (Some (WrapErr ''subir self-backup: '' e ''''), w3)
             | ((Inr sz, n), w3) \<Rightarrow> (None, snd (prune_old E a (self_prefix host) w3))))))"

section \<open>Bringing it back\<close>

text \<open>The objects of a listing that are snapshots, newest first.\<close>

definition snapshots :: "('d, 's, 'm) env \<Rightarrow> storage_object list \<Rightarrow> storage_object list" where
  "snapshots E xs = sort_slice E (\<lambda>x. - so_modified x) (filter (\<lambda>x. has_suffix (so_key x) ''.db'') xs)"

definition replace_file :: "('d, 's, 'm) env \<Rightarrow> string \<Rightarrow> stream \<Rightarrow> 'm \<Rightarrow> gerr option \<times> 'm" where
  "replace_file E path st m =
     (let tmp = path @ ''.tmp'' in
      case fs_create E tmp m of
        (Some e, m1) \<Rightarrow> (Some (WrapErr ''crear archivo temporal: '' e ''''), m1)
      | (None, m1) \<Rightarrow> (case fs_write E tmp (st_bytes st) m1 of (we, mw) \<Rightarrow>
          (case fs_close E tmp mw of (ce, m2) \<Rightarrow>
          (case (case we of Some e \<Rightarrow> Some e | None \<Rightarrow> st_read_err st) of
             Some e \<Rightarrow> (Some (WrapErr ''escribir archivo temporal: '' e ''''), fs_remove E tmp m2)
           | None \<Rightarrow> (case fs_rename E tmp path m2 of
               (Some e, m3) \<Rightarrow>
                 (Some (WrapErr ''reemplazar base de datos local: '' e ''''), fs_remove E tmp m3)
             | (None, m3) \<Rightarrow> (None, m3))))))"

definition self_restore_run :: "('d, 's, 'm) env \<Rightarrow> string \<Rightarrow> s3_config \<Rightarrow> string \<Rightarrow> ('d, 's, 'm) sys \<Rightarrow>
    gerr option \<times> ('d, 's, 'm) sys" where
  "self_restore_run E path cfg hostname w =
     (let host = (if hostname = '''' then local_hostname E (os w) else hostname) in
      case s3_new E cfg w of
        (Inl e, w1) \<Rightarrow> (Some (WrapErr ''conectar S3: '' e ''''), w1)
      | (Inr a, w1) \<Rightarrow> (case s3_list E a (self_prefix host) w1 of
          (Inl e, w2) \<Rightarrow> (Some (WrapErr ''listar self-backups: '' e ''''), w2)
        | (Inr xs, w2) \<Rightarrow> (case snapshots E xs of
            [] \<Rightarrow> (Some (Err (''no se encontraron respaldos de BackiieTUI para el host '' @ go_quote host)), w2)
          | latest # rest \<Rightarrow> (case s3_download E a (so_key latest) w2 of
              (Inl e, w3) \<Rightarrow> (Some (WrapErr (''descargar '' @ so_key latest @ '': '') e ''''), w3)
            | (Inr st, w3) \<Rightarrow>
                (case replace_file E path st (os w3) of (e, m) \<Rightarrow> (e, w3\<lparr>os := m\<rparr>))))))"

text \<open>
  The command: the answers are the lines of standard input, none left reads as the empty string. The
  result is the exit code.
\<close>

definition next_line :: "string list \<Rightarrow> string \<times> string list" where
  "next_line ls = (case ls of [] \<Rightarrow> ('''', []) | l # ls' \<Rightarrow> (l, ls'))"

definition prompt :: "string list \<Rightarrow> string \<times> string list" where
  "prompt ls = (case next_line ls of (l, ls') \<Rightarrow> (trim_space l, ls'))"

definition run_recover :: "('d, 's, 'm) env \<Rightarrow> string list \<Rightarrow> ('d, 's, 'm) sys \<Rightarrow> nat \<times> ('d, 's, 'm) sys" where
  "run_recover E ls w =
     (case next_line ls of (ans, ls0) \<Rightarrow>
      if to_lower (trim_space ans) \<noteq> ''y'' then (0, w)
      else
      (case prompt ls0 of (endpoint, ls1) \<Rightarrow>
      (case prompt ls1 of (bucket, ls2) \<Rightarrow>
      (case prompt ls2 of (access, ls3) \<Rightarrow>
      (case prompt ls3 of (secret, ls4) \<Rightarrow>
      (case prompt ls4 of (pathPrefix, ls5) \<Rightarrow>
      (case prompt ls5 of (hostname, ls6) \<Rightarrow>
         let cfg = \<lparr>c_bucket = bucket, c_region = '''', c_endpoint = endpoint, c_access_key = access,
                    c_secret_key = secret, c_prefix = pathPrefix, c_path_style = False\<rparr>
         in (case self_restore_run E (env_or E (os w) ''BACKIIE_DB_PATH'' ''backiie.db'') cfg hostname w of
               (Some e, w1) \<Rightarrow> (1, w1) | (None, w1) \<Rightarrow> (0, w1)))))))))"

section \<open>The file system\<close>

text \<open>
  A call of \<open>os\<close> changes the files it names and no other; what is written to a file just created is
  what it holds, also once the file is closed (whatever \<open>Close\<close>, whose error the code drops, reports); a rename that succeeds moves the contents, one that fails changes nothing.
\<close>

definition fs_ok :: "('d, 's, 'm) env \<Rightarrow> bool" where
  "fs_ok E \<longleftrightarrow>
     (\<forall>p q m. q \<noteq> p \<longrightarrow> fs_content E (snd (fs_create E p m)) q = fs_content E m q) \<and>
     (\<forall>p q x m. q \<noteq> p \<longrightarrow> fs_content E (snd (fs_write E p x m)) q = fs_content E m q) \<and>
     (\<forall>p x m. fst (fs_write E p x m) = None \<longrightarrow> fs_content E (snd (fs_write E p x m)) p = Some x) \<and>
     (\<forall>p m. fs_content E (snd (fs_close E p m)) = fs_content E m) \<and>
     (\<forall>p q m. q \<noteq> p \<longrightarrow> fs_content E (fs_remove E p m) q = fs_content E m q) \<and>
     (\<forall>p q m. p \<noteq> q \<longrightarrow> fs_content E (snd (fs_rename E p q m)) =
        (if fst (fs_rename E p q m) = None then (fs_content E m)(q := fs_content E m p, p := None)
         else fs_content E m))"

lemma map_of_filter_fst: "map_of (filter (\<lambda>x. P (fst x)) xs) k = (if P k then map_of xs k else None)"
  by (induction xs) auto

lemma ref_env_fs_ok [simp, intro]: "fs_ok ref_env"
  unfolding fs_ok_def
  by (auto simp: ref_env_def map_of_filter_fst [of "\<lambda>k. k \<noteq> _ \<and> k \<noteq> _"]
      map_of_filter_neq fun_eq_iff split: option.splits)

text \<open>Replacing a file: all of the new contents or the old file, and nothing else but the temporary one.\<close>

lemma replace_file_effect:
  assumes ok: "fs_ok E" and r: "replace_file E path st m = (e, m')"
  shows "\<forall>q. q \<noteq> path \<longrightarrow> q \<noteq> path @ ''.tmp'' \<longrightarrow> fs_content E m' q = fs_content E m q"
    and "e = None \<Longrightarrow> fs_content E m' path = Some (st_bytes st) \<and> st_read_err st = None"
    and "e \<noteq> None \<Longrightarrow> fs_content E m' path = fs_content E m path"
proof -
  let ?tmp = "path @ ''.tmp''"
  have ne: "?tmp \<noteq> path" by simp
  obtain e1 m1 where c: "fs_create E ?tmp m = (e1, m1)" by fastforce
  obtain e2 mw where wr: "fs_write E ?tmp (st_bytes st) m1 = (e2, mw)" by fastforce
  obtain ce m2 where cl: "fs_close E ?tmp mw = (ce, m2)" by fastforce
  have closed: "fs_content E m2 = fs_content E mw" using ok cl unfolding fs_ok_def by (metis snd_conv)
  obtain e3 m3 where rn: "fs_rename E ?tmp path m2 = (e3, m3)" by fastforce
  have f1: "q \<noteq> ?tmp \<Longrightarrow> fs_content E m1 q = fs_content E m q" for q
    using ok c unfolding fs_ok_def by (metis snd_conv)
  have f2: "q \<noteq> ?tmp \<Longrightarrow> fs_content E m2 q = fs_content E m q" for q
    using ok wr f1 unfolding closed fs_ok_def by (metis snd_conv)
  have t2: "e2 = None \<Longrightarrow> fs_content E m2 ?tmp = Some (st_bytes st)"
    using ok wr unfolding closed fs_ok_def by (metis fst_conv snd_conv)
  have rm: "q \<noteq> ?tmp \<Longrightarrow> fs_content E (fs_remove E ?tmp x) q = fs_content E x q" for q x
    using ok unfolding fs_ok_def by simp
  have f3: "fs_content E m3 = (if e3 = None then (fs_content E m2)(path := fs_content E m2 ?tmp, ?tmp := None)
      else fs_content E m2)"
    using ok rn ne unfolding fs_ok_def by (metis fst_conv snd_conv)
  have d: "(e \<noteq> None \<and> (m' = m1 \<or> m' = fs_remove E ?tmp m2 \<or> (m' = fs_remove E ?tmp m3 \<and> e3 \<noteq> None))) \<or>
      (e = None \<and> m' = m3 \<and> e2 = None \<and> st_read_err st = None \<and> e3 = None)"
    using r by (cases e1; cases e2; cases "st_read_err st"; cases e3)
      (auto simp: replace_file_def Let_def c wr cl rn)
  show "\<forall>q. q \<noteq> path \<longrightarrow> q \<noteq> ?tmp \<longrightarrow> fs_content E m' q = fs_content E m q"
    using d f1 f2 rm f3 by auto
  show "e = None \<Longrightarrow> fs_content E m' path = Some (st_bytes st) \<and> st_read_err st = None"
    using d t2 f3 ne by auto
  show "e \<noteq> None \<Longrightarrow> fs_content E m' path = fs_content E m path"
    using d f1 f2 rm f3 ne by auto
qed

section \<open>Recovery\<close>

lemma snapshots_head:
  assumes "snapshots E xs = x # rest"
  shows "x \<in> set xs" "has_suffix (so_key x) ''.db''"
    "\<forall>y \<in> set xs. has_suffix (so_key y) ''.db'' \<longrightarrow> so_modified y \<le> so_modified x"
proof -
  have s: "set (snapshots E xs) = {y \<in> set xs. has_suffix (so_key y) ''.db''}"
    by (simp add: snapshots_def)
  then show "x \<in> set xs" "has_suffix (so_key x) ''.db''" using assms by auto
  have "sorted (map (\<lambda>y. - so_modified y) (x # rest))"
    unfolding assms [symmetric] by (simp add: snapshots_def)
  then have "\<forall>y \<in> set (x # rest). so_modified y \<le> so_modified x" by auto
  then show "\<forall>y \<in> set xs. has_suffix (so_key y) ''.db'' \<longrightarrow> so_modified y \<le> so_modified x"
    using s assms by auto
qed

definition resolve_host :: "('d, 's, 'm) env \<Rightarrow> string \<Rightarrow> 'm \<Rightarrow> string" where
  "resolve_host E hostname m = (if hostname = '''' then local_hostname E m else hostname)"

lemma self_restore_effect:
  assumes aw: "aws_ok E" and ok: "fs_ok E" and r: "self_restore_run E path cfg hostname w = (e, w')"
  shows "db w' = db w" "events w' = events w" "s3_view E a w' = s3_view E a w"
    "\<forall>q. q \<noteq> path \<longrightarrow> q \<noteq> path @ ''.tmp'' \<longrightarrow> fs_content E (os w') q = fs_content E (os w) q"
    "e \<noteq> None \<Longrightarrow> fs_content E (os w') path = fs_content E (os w) path"
    "e = None \<Longrightarrow> \<exists>xs x c w1 w2. s3_new E cfg w = (Inr (adapter_of cfg), w1) \<and>
       s3_list E (adapter_of cfg) (self_prefix (resolve_host E hostname (os w))) w1 = (Inr xs, w2) \<and>
       x \<in> set xs \<and> has_suffix (so_key x) ''.db'' \<and>
       (\<forall>y \<in> set xs. has_suffix (so_key y) ''.db'' \<longrightarrow> so_modified y \<le> so_modified x) \<and>
       s3_view E (adapter_of cfg) w (so_key x) = Some c \<and> fs_content E (os w') path = Some c"
proof -
  let ?a = "adapter_of cfg" and ?p = "self_prefix (resolve_host E hostname (os w))"
  obtain rn w1 where n: "s3_new E cfg w = (rn, w1)" by fastforce
  obtain rl w2 where l: "s3_list E ?a ?p w1 = (rl, w2)" by fastforce
  have n': "rn = Inr b \<Longrightarrow> b = ?a" for b using s3_new_result n by blast
  note f1 = s3_new_frame [OF n] and v1 = s3_new_view [OF aw n]
  note f2 = s3_ops_frame(1) [OF l]
  have v2: "s3_view E ?a w2 = s3_view E ?a w" "s3_view E b w2 = s3_view E b w" for b
  proof -
    have "s3_view E b w2 = s3_view E b w1" for b
      using aw l unfolding aws_ok_def aws_list_ok_def same_objs_def s3_list_def s3_view_def
      by (fastforce split: prod.splits)
    then show "s3_view E ?a w2 = s3_view E ?a w" "s3_view E b w2 = s3_view E b w" using v1 by simp_all
  qed
  have early: "w' = w1 \<and> e \<noteq> None \<and> isl rn \<or> w' = w2 \<and> e \<noteq> None \<or>
      (\<exists>xs x rest rd w3. rn = Inr ?a \<and> rl = Inr xs \<and> snapshots E xs = x # rest \<and>
         s3_download E ?a (so_key x) w2 = (rd, w3) \<and>
         ((isl rd \<and> e \<noteq> None \<and> w' = w3) \<or>
          (\<exists>st m. rd = Inr st \<and> replace_file E path st (os w3) = (e, m) \<and> w' = w3\<lparr>os := m\<rparr>)))"
    using r n l n'
    by (auto simp: self_restore_run_def Let_def resolve_host_def split: sum.splits list.splits prod.splits)
  have main: "db w' = db w \<and> events w' = events w \<and> (\<forall>b. s3_view E b w' = s3_view E b w) \<and>
     (\<forall>q. q \<noteq> path \<longrightarrow> q \<noteq> path @ ''.tmp'' \<longrightarrow> fs_content E (os w') q = fs_content E (os w) q) \<and>
     (e \<noteq> None \<longrightarrow> fs_content E (os w') path = fs_content E (os w) path) \<and>
     (e = None \<longrightarrow> (\<exists>xs x c. rn = Inr ?a \<and> rl = Inr xs \<and>
       x \<in> set xs \<and> has_suffix (so_key x) ''.db'' \<and>
       (\<forall>y \<in> set xs. has_suffix (so_key y) ''.db'' \<longrightarrow> so_modified y \<le> so_modified x) \<and>
       s3_view E ?a w (so_key x) = Some c \<and> fs_content E (os w') path = Some c))"
    using early
  proof (elim disjE exE conjE)
    fix xs x rest rd w3
    assume 1: "rn = Inr ?a" "rl = Inr xs" "snapshots E xs = x # rest"
      and d: "s3_download E ?a (so_key x) w2 = (rd, w3)"
    note f3 = s3_ops_frame(2) [OF d]
    have v3: "s3_view E b w3 = s3_view E b w" for b
    proof -
      have "s3_view E b w3 = s3_view E b w2"
        using aw d unfolding aws_ok_def aws_get_ok_def same_objs_def s3_download_def s3_view_def Let_def
        by (fastforce split: prod.splits sum.splits)
      then show ?thesis using v2 by simp
    qed
    {
      assume "isl rd" "e \<noteq> None" "w' = w3"
      then show ?thesis using f1 f2 f3 v3 by auto
    next
      fix st m
      assume 2: "rd = Inr st" "replace_file E path st (os w3) = (e, m)" "w' = w3\<lparr>os := m\<rparr>"
      have v: "s3_view E b w' = s3_view E b w" for b
        unfolding v3 [of b, symmetric] 2(3) by (simp add: s3_view_def fun_eq_iff)
      note rf = replace_file_effect [OF ok 2(2)]
      have "\<exists>c. s3_view E ?a w2 (so_key x) = Some c \<and> (st_read_err st = None \<longrightarrow> st_bytes st = c)"
        using storage.download_law [OF aw d] 2(1) by blast
      then show ?thesis
        using rf v f1 f2 f3 v2(1) 1 snapshots_head [OF 1(3)] 2(3) by simp blast
    }
  qed (use f1 f2 v1 v2 in auto)
  then show "db w' = db w" "events w' = events w" "s3_view E a w' = s3_view E a w"
    "\<forall>q. q \<noteq> path \<longrightarrow> q \<noteq> path @ ''.tmp'' \<longrightarrow> fs_content E (os w') q = fs_content E (os w) q"
    "e \<noteq> None \<Longrightarrow> fs_content E (os w') path = fs_content E (os w) path"
    by blast+
  show "\<exists>xs x c w1 w2. s3_new E cfg w = (Inr (adapter_of cfg), w1) \<and>
       s3_list E (adapter_of cfg) ?p w1 = (Inr xs, w2) \<and>
       x \<in> set xs \<and> has_suffix (so_key x) ''.db'' \<and>
       (\<forall>y \<in> set xs. has_suffix (so_key y) ''.db'' \<longrightarrow> so_modified y \<le> so_modified x) \<and>
       s3_view E (adapter_of cfg) w (so_key x) = Some c \<and> fs_content E (os w') path = Some c" if "e = None"
  proof -
    from main that obtain xs x c where "rn = Inr ?a" "rl = Inr xs"
      and x: "x \<in> set xs" "has_suffix (so_key x) ''.db''"
        "\<forall>y \<in> set xs. has_suffix (so_key y) ''.db'' \<longrightarrow> so_modified y \<le> so_modified x"
        "s3_view E ?a w (so_key x) = Some c" "fs_content E (os w') path = Some c" by blast
    with n l have "s3_new E cfg w = (Inr ?a, w1)" "s3_list E ?a ?p w1 = (Inr xs, w2)" by simp_all
    with x show ?thesis by (intro exI conjI)
  qed
qed

text \<open>
  C15. Restoring the program's own database is all or nothing: when it reports an error the local
  database file holds what it held; when it succeeds the file holds the complete contents of the
  object the adapter returned for the newest snapshot listed. Either way no other file than that and
  its temporary one changes, and nothing in the bucket or the open database does.
\<close>

theorem self_restore_all_or_nothing:
  assumes "aws_ok E" "fs_ok E" "self_restore_run E path cfg hostname w = (e, w')"
  shows "(e \<noteq> None \<longrightarrow> fs_content E (os w') path = fs_content E (os w) path) \<and>
     (e = None \<longrightarrow> (\<exists>xs x c w1 w2. s3_new E cfg w = (Inr (adapter_of cfg), w1) \<and>
       s3_list E (adapter_of cfg) (self_prefix (resolve_host E hostname (os w))) w1 = (Inr xs, w2) \<and>
       x \<in> set xs \<and> has_suffix (so_key x) ''.db'' \<and>
       (\<forall>y \<in> set xs. has_suffix (so_key y) ''.db'' \<longrightarrow> so_modified y \<le> so_modified x) \<and>
       s3_view E (adapter_of cfg) w (so_key x) = Some c \<and> fs_content E (os w') path = Some c)) \<and>
     (\<forall>q. q \<noteq> path \<longrightarrow> q \<noteq> path @ ''.tmp'' \<longrightarrow> fs_content E (os w') q = fs_content E (os w) q) \<and>
     db w' = db w \<and> s3_view E a w' = s3_view E a w"
  using self_restore_effect [OF assms] by blast

definition snap_cfg :: "string \<Rightarrow> s3_config" where
  "snap_cfg p = ex_cfg\<lparr>c_prefix := p\<rparr>"

definition snap_sys :: "(string \<times> (string \<times> time)) list \<Rightarrow> (ref_db, ref_s3, ref_os) sys" where
  "snap_sys obs = (ex_sys [] [] 0)\<lparr>s3 := \<lparr>rs_objs = obs, rs_rules = []\<rparr>,
     os := (os (ex_sys [] [] 0))\<lparr>ro_files := [(''backiie.db'', ''old'')]\<rparr>\<rparr>"

definition two_snapshots :: "(ref_db, ref_s3, ref_os) sys" where
  "two_snapshots = snap_sys [(''_backiie-meta/host/backiie_a.db'', (''first'', 5)),
     (''_backiie-meta/host/backiie_b.db'', (''second'', 7)), (''_backiie-meta/host/note.txt'', (''x'', 9))]"

theorem self_restore_all_or_nothing_witness:
  "let r = self_restore_run ref_env ''backiie.db'' (snap_cfg '''') '''' two_snapshots in
   fst r = None \<and> fs_content ref_env (os (snd r)) ''backiie.db'' = Some ''second'' \<and>
   db (snd r) = db two_snapshots"
proof -
  let ?r = "self_restore_run ref_env ''backiie.db'' (snap_cfg '''') '''' two_snapshots"
  have "fst ?r = None" "fs_content ref_env (os (snd ?r)) ''backiie.db'' = Some ''second''" by code_simp+
  then show ?thesis
    using self_restore_all_or_nothing [OF aws_ok_ref_env ref_env_fs_ok, of _ _ _ _ "fst ?r" "snd ?r"]
    unfolding Let_def by (metis prod.collapse)
qed

text \<open>
  C38. With a path prefix configured the program cannot restore itself: keys come back from a listing
  with the prefix already in front and are given to the download, which puts it there again, so
  unless the bucket happens to hold objects under the doubled prefix the restore fails whatever
  snapshots there are, and the local file stays as it was.
\<close>

theorem prefixed_self_restore_fails:
  assumes "aws_ok E" "fs_ok E"
    "\<forall>k. s3_view E (adapter_of cfg) w (full_key (adapter_of cfg) k) = None"
  shows "fst (self_restore_run E path cfg hostname w) \<noteq> None \<and>
     fs_content E (os (snd (self_restore_run E path cfg hostname w))) path = fs_content E (os w) path"
proof -
  obtain e w' where r: "self_restore_run E path cfg hostname w = (e, w')" by fastforce
  have "e \<noteq> None"
  proof
    assume "e = None"
    then obtain xs x c w1 w2 where n: "s3_new E cfg w = (Inr (adapter_of cfg), w1)"
      and l: "s3_list E (adapter_of cfg) (self_prefix (resolve_host E hostname (os w))) w1 = (Inr xs, w2)"
      and x: "x \<in> set xs" "s3_view E (adapter_of cfg) w (so_key x) = Some c"
      using self_restore_effect(6) [OF assms(1,2) r] by blast
    have "so_key x \<in> full_key (adapter_of cfg) ` UNIV"
      using s3_list_keys [OF assms(1) l] x(1) by auto
    with x(2) assms(3) show False by auto
  qed
  with self_restore_effect(5) [OF assms(1,2) r] r show ?thesis by simp
qed

theorem prefixed_self_restore_fails_witness:
  "fst (self_restore_run ref_env ''backiie.db'' (snap_cfg ''pre'') ''''
     (snap_sys [(''pre/_backiie-meta/host/backiie_a.db'', (''first'', 5))])) \<noteq> None"
proof -
  have a: "full_key (adapter_of (snap_cfg ''pre'')) k = ''pre/'' @ k" for k
    by (simp add: full_key_def adapter_of_def snap_cfg_def ex_cfg_def trim_suffix_def has_suffix_def)
  have "\<forall>k. s3_view ref_env (adapter_of (snap_cfg ''pre''))
      (snap_sys [(''pre/_backiie-meta/host/backiie_a.db'', (''first'', 5))])
      (full_key (adapter_of (snap_cfg ''pre'')) k) = None"
    by (simp add: s3_view_def a snap_sys_def ref_env_sel)
  from prefixed_self_restore_fails [OF aws_ok_ref_env ref_env_fs_ok this] show ?thesis by blast
qed

text \<open>
  The snapshots of a host are looked up by a prefix that does not end in a slash: restoring a host
  named srv1 installs the newer snapshot of a host named srv10 in the same bucket, by command line
  and without an error.
\<close>

theorem recover_takes_other_hosts_snapshot:
  "let r = run_recover ref_env [''y'', '''', ''bk'', ''a'', ''s'', '''', ''srv1'']
       (snap_sys [(''_backiie-meta/srv1/backiie_a.db'', (''state of srv1'', 5)),
          (''_backiie-meta/srv10/backiie_a.db'', (''state of srv10'', 7))]) in
   fst r = 0 \<and> fs_content ref_env (os (snd r)) ''backiie.db'' = Some ''state of srv10''"
  unfolding Let_def by (rule conjI) code_simp+

lemma next_line_Cons [simp]: "next_line (l # ls) = (l, ls)"
  by (simp add: next_line_def)

lemma lower_y: "to_lower ''y'' = ''y''" "to_lower ''Y'' = ''y''"
  by code_simp+

lemma lower_char_y: "lower_char c = CHR ''y'' \<Longrightarrow> c = CHR ''y'' \<or> c = CHR ''Y''"
proof (cases "65 \<le> (of_char c :: nat) \<and> (of_char c :: nat) \<le> 90")
  case True
  assume l: "lower_char c = CHR ''y''"
  have e: "char_of ((of_char c :: nat) + 32) = CHR ''y''" using l True unfolding lower_char_def by (simp only: if_True simp_thms)
  have "((of_char c :: nat) + 32) mod 256 = of_char (CHR ''y'')"
    unfolding e [symmetric] by (simp only: of_char_of)
  then have "(of_char c :: nat) + 32 = 121" using True by simp
  then have "of_char c = (89::nat)" by simp
  moreover have "of_char (CHR ''Y'') = (89::nat)" by simp
  ultimately show ?thesis by (metis char_of_char)
next
  case False
  assume l: "lower_char c = CHR ''y''"
  from l False show ?thesis unfolding lower_char_def by (simp only: if_False) simp
qed
lemma to_lower_Nil: "to_lower s = [] \<longleftrightarrow> s = []"
  by (cases s rule: to_lower.cases) auto

lemma to_lower_y: "to_lower s = ''y'' \<Longrightarrow> s \<in> {''y'', ''Y''}"
  by (cases s rule: to_lower.cases) (auto simp: to_lower_Nil split: if_splits dest: lower_char_y)

lemma run_recover_yes:
  assumes "to_lower (trim_space ans) = ''y''"
  shows "\<exists>cfg host. run_recover E (ans # ls) w =
     (case self_restore_run E (env_or E (os w) ''BACKIIE_DB_PATH'' ''backiie.db'') cfg host w of
        (Some e, w1) \<Rightarrow> (1, w1) | (None, w1) \<Rightarrow> (0, w1))"
  using assms by (simp add: run_recover_def Let_def split_beta) blast

text \<open>
  \<open>recover\<close> that does not get a yes (in either case, with white space around it) does nothing and
  exits with 0; with a yes the exit code is 1 just when the restore failed, and then the database file is
  what it was.
\<close>

theorem recover_confirmed:
  assumes "aws_ok E" "fs_ok E" "run_recover E (ans # ls) w = (code, w')"
  shows "(trim_space ans \<notin> {''y'', ''Y''} \<longrightarrow> code = 0 \<and> w' = w) \<and>
     (code \<noteq> 0 \<longrightarrow> fs_content E (os w') (env_or E (os w) ''BACKIIE_DB_PATH'' ''backiie.db'') =
        fs_content E (os w) (env_or E (os w) ''BACKIIE_DB_PATH'' ''backiie.db'')) \<and> db w' = db w"
proof -
  note y = to_lower_y
  show ?thesis
  proof (cases "to_lower (trim_space ans) = ''y''")
    case False
    then have "run_recover E (ans # ls) w = (0, w)" by (simp add: run_recover_def)
    with assms(3) show ?thesis by simp
  next
    case True
    obtain cfg host where
        r: "run_recover E (ans # ls) w =
          (case self_restore_run E (env_or E (os w) ''BACKIIE_DB_PATH'' ''backiie.db'') cfg host w of
             (Some e, w1) \<Rightarrow> (1, w1) | (None, w1) \<Rightarrow> (0, w1))"
      using run_recover_yes [OF True] by blast
    obtain e w1 where
        s: "self_restore_run E (env_or E (os w) ''BACKIIE_DB_PATH'' ''backiie.db'') cfg host w = (e, w1)"
      by fastforce
    have "w1 = w'" "code \<noteq> 0 \<Longrightarrow> e \<noteq> None"
      using assms(3) by (simp_all add: r s split: option.splits)
    with self_restore_effect(1,5) [OF assms(1,2) s] y [OF True] show ?thesis by blast
  qed
qed

theorem recover_confirmed_witness:
  "run_recover ref_env [''no''] two_snapshots = (0, two_snapshots)"
proof -
  have "trim_space ''no'' \<notin> {''y'', ''Y''}" by code_simp
  then show ?thesis
    using recover_confirmed [OF aws_ok_ref_env ref_env_fs_ok, of "''no''" "[]" two_snapshots]
    by (metis prod.collapse)
qed

section \<open>What a self-backup changes\<close>

lemma prune_objects_view:
  assumes "aws_ok E"
  shows "s3_view E a (prune_objects E a c xs w) k = s3_view E a w k \<or>
     (s3_view E a (prune_objects E a c xs w) k = None \<and>
       (\<exists>x \<in> set xs. so_key x = k \<and> has_suffix k ''.db'' \<and> so_modified x < c))"
proof (induction xs arbitrary: w)
  case (Cons x xs)
  have "s3_view E a (snd (s3_delete E a (so_key x) w)) k = s3_view E a w k \<or>
      (k = so_key x \<and> s3_view E a (snd (s3_delete E a (so_key x) w)) k = None)"
    using storage.remove_shrinks [OF assms surjective_pairing] by blast
  then show ?case
    using Cons.IH [of w] Cons.IH [of "snd (s3_delete E a (so_key x) w)"] by auto
qed simp

lemma prune_objects_frame: "db (prune_objects E a c xs w) = db w \<and> events (prune_objects E a c xs w) = events w"
proof (induction xs arbitrary: w)
  case (Cons x xs)
  then show ?case using s3_ops_frame(3) [OF surjective_pairing, of E a "so_key x" w] by simp
qed simp

lemma prune_old_effect:
  assumes aw: "aws_ok E"
  shows "db (snd (prune_old E a p w)) = db w" "events (snd (prune_old E a p w)) = events w"
    "s3_view E a (snd (prune_old E a p w)) k = s3_view E a w k \<or>
       (s3_view E a (snd (prune_old E a p w)) k = None \<and> has_suffix k ''.db'' \<and> has_prefix k (full_key a p))"
proof -
  obtain t w1 where n: "now E w = (t, w1)" by fastforce
  obtain rl w2 where l: "s3_list E a p w1 = (rl, w2)" by fastforce
  have f1: "db w1 = db w" "s3 w1 = s3 w" "events w1 = events w"
    using n by (auto simp: now_def split: prod.splits)
  note f2 = s3_ops_frame(1) [OF l]
  have v1: "s3_view E a w1 = s3_view E a w" by (rule view_eq_s3 [OF f1(2)])
  have v2: "s3_view E a w2 = s3_view E a w" using storage.list_law [OF aw l] v1 by simp
  show "db (snd (prune_old E a p w)) = db w" "events (snd (prune_old E a p w)) = events w"
    using f1 f2 by (auto simp: prune_objects_frame prune_old_def Let_def n l split: sum.splits)
  show "s3_view E a (snd (prune_old E a p w)) k = s3_view E a w k \<or>
       (s3_view E a (snd (prune_old E a p w)) k = None \<and> has_suffix k ''.db'' \<and> has_prefix k (full_key a p))"
  proof (cases rl)
    case (Inr xs)
    have "has_prefix (so_key x) (full_key a p)" if "x \<in> set xs" for x
      using s3_list_keys [OF aw l [unfolded Inr]] that full_key_prefix [of "so_key x" a p] by blast
    then show ?thesis
      using prune_objects_view [OF aw, of a _ xs w2 k] v2 by (auto simp: prune_old_def Let_def n l Inr)
  qed (simp add: prune_old_def Let_def n l v2)
qed

lemma self_backup_effect:
  assumes aw: "aws_ok E" and c: "s3cfg_get E w = Inr cfg" and r: "self_backup_run E host w = (e, w')"
  shows "db w' = db w \<and> events w' = events w \<and>
    (\<exists>t. (e = None \<longrightarrow> st_read_err (bolt_snapshot E (db w)) = None) \<and>
      (\<forall>k. let new = self_prefix host @ ''/backiie_'' @ stamp_minute t @ ''.db''; v = s3_view E (adapter_of cfg) in
        (v w' k = v w k \<and> (e \<noteq> None \<or> k \<noteq> new)) \<or>
        (k = new \<and> (e \<noteq> None \<or> v w' k = Some (st_bytes (bolt_snapshot E (db w))))) \<or>
        (e = None \<and> v w' k = None \<and> has_suffix k ''.db'' \<and>
          has_prefix k (full_key (adapter_of cfg) (self_prefix host)))))"
proof -
  let ?a = "adapter_of cfg"
  obtain rn w1 where n: "s3_new E cfg w = (rn, w1)" by fastforce
  note f1 = s3_new_frame [OF n] and v1 = s3_new_view [OF aw n, of ?a]
  show ?thesis
  proof (cases rn)
    case (Inl x)
    then show ?thesis using r n c f1 v1 by (auto simp: self_backup_run_def Let_def)
  next
    case (Inr b)
    have b: "b = ?a" using s3_new_result n Inr by blast
    obtain t w2 where nw: "now E w1 = (t, w2)" by fastforce
    have f2: "db w2 = db w" "events w2 = events w" "s3 w2 = s3 w1"
      using nw f1 by (auto simp: now_def split: prod.splits)
    have v2: "s3_view E ?a w2 = s3_view E ?a w" using view_eq_s3 [OF f2(3)] v1 by simp
    let ?k = "self_prefix host @ ''/backiie_'' @ stamp_minute t @ ''.db''"
    obtain ru m w3 where u: "s3_upload E ?a ?k (bolt_snapshot E (db w2)) w2 = ((ru, m), w3)" by (metis prod.exhaust)
    note f3 = s3_ops_frame(5) [OF u] and L = storage.upload_law [OF aw u]
    show ?thesis
    proof (cases ru)
      case (Inl x)
      then show ?thesis
        using r n c Inr b nw u f2 f3 L v2
        by (intro conjI exI [of _ t]) (auto simp: self_backup_run_def Let_def)
    next
      case (Inr sz)
      have w': "e = None" "w' = snd (prune_old E ?a (self_prefix host) w3)"
        using r n c \<open>rn = Inr b\<close> b nw u Inr by (simp_all add: self_backup_run_def)
      note P = prune_old_effect [OF aw, of ?a "self_prefix host" w3]
      have "db w' = db w" "events w' = events w" using P(1,2) w' f2 f3 by simp_all
      moreover have "st_read_err (bolt_snapshot E (db w)) = None" using L Inr f2 by auto
      moreover have "(s3_view E ?a w' k = s3_view E ?a w k \<and> k \<noteq> ?k) \<or>
          (k = ?k \<and> s3_view E ?a w' k = Some (st_bytes (bolt_snapshot E (db w)))) \<or>
          (s3_view E ?a w' k = None \<and> has_suffix k ''.db'' \<and> has_prefix k (full_key ?a (self_prefix host)))" for k
        using P(3) [of k] L Inr f2(1) v2 unfolding w'(2) by (cases "k = ?k") auto
      ultimately show ?thesis using w'(1) by (auto simp: Let_def)
    qed
  qed
qed

text \<open>
  A self-backup that reports success has uploaded a complete snapshot of the database under this
  host's prefix, or the same call has already pruned it again. Beside that one object it adds and
  changes nothing, and it removes an object only if its key, which the adapter reads relative to the
  bucket prefix, ends in .db and begins with the prefixed path of this host's snapshots. A run that
  fails has changed at most the object it was uploading. The database and its records stay.
\<close>

theorem self_backup_touches_only_snapshots:
  assumes "aws_ok E" "s3cfg_get E w = Inr cfg" "self_backup_run E host w = (e, w')"
  shows "db w' = db w \<and>
    (\<exists>t. (e = None \<longrightarrow> st_read_err (bolt_snapshot E (db w)) = None) \<and>
      (\<forall>k. let new = self_prefix host @ ''/backiie_'' @ stamp_minute t @ ''.db''; v = s3_view E (adapter_of cfg) in
        (v w' k = v w k \<and> (e \<noteq> None \<or> k \<noteq> new)) \<or>
        (k = new \<and> (e \<noteq> None \<or> v w' k = Some (st_bytes (bolt_snapshot E (db w))))) \<or>
        (e = None \<and> v w' k = None \<and> has_suffix k ''.db'' \<and>
          has_prefix k (full_key (adapter_of cfg) (self_prefix host)))))"
  using self_backup_effect [OF assms] by blast

theorem self_backup_touches_only_snapshots_witness:
  "s3_view ref_env (adapter_of ex_cfg) (snd (self_backup_run ref_env ''host'' (ex_sys [] ex_chain (10 * ns_per_day)))) ''a.bak'' =
   Some ''x''"
proof -
  let ?w = "ex_sys [] ex_chain (10 * ns_per_day)"
  have v: "s3_view ref_env (adapter_of ex_cfg) ?w ''a.bak'' = Some ''x''"
    by (simp add: ex_s3_view ex_chain_def)
  have p: "\<not> has_prefix ''a.bak'' (full_key (adapter_of ex_cfg) (self_prefix ''host''))"
    by code_simp
  have q: "''a.bak'' \<noteq> self_prefix ''host'' @ r" for r
    by (simp add: self_prefix_def selfBackupPrefix_def)
  show ?thesis
    using self_backup_touches_only_snapshots [OF aws_ok_ref_env ex_s3cfg surjective_pairing,
        of "''host''" "[]" ex_chain "10 * ns_per_day"] v p q
    unfolding Let_def by metis
qed

text \<open>
  With a path prefix configured, and no object under the doubled prefix, no snapshot is ever
  pruned, however old: a successful self-backup only adds. Without a prefix, one that is older than
  the window goes.
\<close>

theorem prefixed_snapshots_never_pruned:
  assumes "aws_ok E" "s3cfg_get E w = Inr cfg" "self_backup_run E host w = (None, w')"
    "a_prefix (adapter_of cfg) \<noteq> ''''"
    "\<forall>k. s3_view E (adapter_of cfg) w (full_key (adapter_of cfg) k) = None"
    "s3_view E (adapter_of cfg) w k = Some c"
  shows "s3_view E (adapter_of cfg) w' k \<noteq> None"
proof -
  have "\<not> has_prefix k (full_key (adapter_of cfg) (self_prefix host))"
    using assms(5,6) by (auto simp: full_key_prefix)
  then show ?thesis using self_backup_effect [OF assms(1-3)] assms(6) by (auto simp: Let_def) (metis option.discI)
qed

definition aged_sys :: "string \<Rightarrow> (ref_db, ref_s3, ref_os) sys" where
  "aged_sys p = (ex_sys [] [] (30 * ns_per_day))
     \<lparr>db := (db (ex_sys [] [] 0)) (bucketS3Config := [(keyS3Config, Json (ES3Config (snap_cfg p)))]),
      s3 := \<lparr>rs_objs = [((if p = '''' then '''' else p @ ''/'') @ ''_backiie-meta/host/backiie_old.db'', (''x'', 0))], rs_rules = []\<rparr>\<rparr>"

lemma self_backup_succeeds: "s3cfg_get ref_env w = Inr cfg \<Longrightarrow> fst (self_backup_run ref_env host w) = None"
  by (simp add: self_backup_run_def s3_new_def now_def s3_upload_def Let_def ref_env_sel ref_env_upload
      ref_env_def mem_stream_def split: prod.splits)

theorem prefixed_snapshots_never_pruned_witness:
  "s3_view ref_env (adapter_of (snap_cfg ''pre'')) (snd (self_backup_run ref_env ''host'' (aged_sys ''pre'')))
     ''_backiie-meta/host/backiie_old.db'' \<noteq> None"
proof -
  let ?w = "aged_sys ''pre''" and ?cfg = "snap_cfg ''pre''"
  have a: "full_key (adapter_of ?cfg) k = ''pre/'' @ k" for k
    by (simp add: full_key_def adapter_of_def snap_cfg_def ex_cfg_def trim_suffix_def has_suffix_def)
  have "\<forall>k. s3_view ref_env (adapter_of ?cfg) ?w (full_key (adapter_of ?cfg) k) = None"
    by (simp add: s3_view_def a aged_sys_def ref_env_sel)
  moreover have c: "s3cfg_get ref_env ?w = Inr ?cfg" "a_prefix (adapter_of ?cfg) \<noteq> ''''"
    "s3_view ref_env (adapter_of ?cfg) ?w ''_backiie-meta/host/backiie_old.db'' = Some ''x''" by code_simp+
  moreover have "self_backup_run ref_env ''host'' ?w = (None, snd (self_backup_run ref_env ''host'' ?w))"
    using self_backup_succeeds [OF c(1)] by (metis prod.collapse)
  ultimately show ?thesis
    using prefixed_snapshots_never_pruned [OF aws_ok_ref_env] by blast
qed

end
