(* ===== verification/UseCases.thy ===== *)
theory UseCases
  imports Retention Adapters Example_System
begin

text \<open>
  The use cases behind the configuration tabs: \<open>application/usecases/instance_usecase.go\<close>,
  \<open>s3config_usecase.go\<close> and \<open>scheduler_usecase.go\<close>.
\<close>

section \<open>Instances\<close>

definition validate_instance :: "inst_rec \<Rightarrow> gerr option" where
  "validate_instance i =
     (if i_name i = '''' then Some (Err ''el nombre de la instancia es requerido'')
      else if \<not> engine_valid (i_engine i)
      then Some (Err (''motor inv'' @ u_a @ ''lido: '' @ go_quote (engine_label (i_engine i))))
      else if i_host i = '''' then Some (Err ''el host es requerido'')
      else None)"

text \<open>\<open>Create\<close> writes into the instance it is given, so that is a result too.\<close>

definition instance_create :: "('d, 's, 'm) env \<Rightarrow> inst_rec \<Rightarrow> ('d, 's, 'm) sys \<Rightarrow>
    (gerr option \<times> inst_rec) \<times> ('d, 's, 'm) sys" where
  "instance_create E i w =
     (case validate_instance i of
        Some e \<Rightarrow> ((Some e, i), w)
      | None \<Rightarrow> (case new_id E w of (rid, w1) \<Rightarrow> (case now E w1 of (t, w2) \<Rightarrow>
          let i1 = i\<lparr>i_id := rid, i_created := t, i_updated := t\<rparr>;
              i2 = (if i_port i1 = 0 then i1\<lparr>i_port := default_port (i_engine i1)\<rparr> else i1)
          in (case inst_save E i2 w2 of (e, w3) \<Rightarrow> ((e, i2), w3)))))"

definition instance_update :: "('d, 's, 'm) env \<Rightarrow> inst_rec \<Rightarrow> ('d, 's, 'm) sys \<Rightarrow>
    (gerr option \<times> inst_rec) \<times> ('d, 's, 'm) sys" where
  "instance_update E i w =
     (case validate_instance i of
        Some e \<Rightarrow> ((Some e, i), w)
      | None \<Rightarrow> (case now E w of (t, w1) \<Rightarrow>
          let i1 = i\<lparr>i_updated := t\<rparr> in
          (case inst_update E i1 w1 of (e, w2) \<Rightarrow> ((e, i1), w2))))"

definition instance_delete where
  "instance_delete E rid w = inst_delete E rid w"

definition instance_find_all where
  "instance_find_all E w = inst_find_all E w"

definition instance_find_by_id where
  "instance_find_by_id E rid w = inst_find_by_id E rid w"

text \<open>The duration of a ping; 0 with the error when there is one.\<close>

definition instance_test_connection :: "('d, 's, 'm) env \<Rightarrow> inst_rec \<Rightarrow> ('d, 's, 'm) sys \<Rightarrow>
    (int \<times> gerr option) \<times> ('d, 's, 'm) sys" where
  "instance_test_connection E i w =
     (case new_adapter E i w of
        (Inl e, w1) \<Rightarrow> ((0, Some e), w1)
      | (Inr ad, w1) \<Rightarrow> closing E ad
          (case now E w1 of (start, w2) \<Rightarrow> (case ad_ping E ad w2 of
             (Some e, w3) \<Rightarrow> ((0, Some e), w3)
           | (None, w3) \<Rightarrow> (case now E w3 of (t, w4) \<Rightarrow> ((time_sub t start, None), w4)))))"

section \<open>The S3 configuration\<close>

definition s3config_save :: "('d, 's, 'm) env \<Rightarrow> s3_config \<Rightarrow> ('d, 's, 'm) sys \<Rightarrow>
    gerr option \<times> ('d, 's, 'm) sys" where
  "s3config_save E cfg w =
     (if c_bucket cfg = '''' then (Some (Err ''el bucket es requerido''), w)
      else if c_access_key cfg = '''' \<or> c_secret_key cfg = ''''
      then (Some (Err ''las credenciales S3 son requeridas''), w)
      else s3cfg_save E cfg w)"

definition s3config_get where
  "s3config_get E w = s3cfg_get E w"

definition s3config_test_connection :: "('d, 's, 'm) env \<Rightarrow> s3_config \<Rightarrow> ('d, 's, 'm) sys \<Rightarrow>
    gerr option \<times> ('d, 's, 'm) sys" where
  "s3config_test_connection E cfg w =
     (case s3_new E cfg w of
        (Inl e, w1) \<Rightarrow> (Some e, w1)
      | (Inr a, w1) \<Rightarrow> (case s3_list E a '''' w1 of
          (Inl e, w2) \<Rightarrow> (Some e, w2) | (Inr xs, w2) \<Rightarrow> (None, w2)))"

section \<open>The schedule\<close>

definition scheduler_uc_get :: "('d, 's, 'm) env \<Rightarrow> ('d, 's, 'm) sys \<Rightarrow> scheduler_config" where
  "scheduler_uc_get E w =
     (case sched_get E w of Inl e \<Rightarrow> default_scheduler_config | Inr c \<Rightarrow> c)"

definition scheduler_uc_save where
  "scheduler_uc_save E c w = sched_save E c w"

section \<open>Saving and finding instances\<close>

lemma default_port_valid: "engine_valid e \<Longrightarrow> 0 < default_port e"
  by (cases e) simp_all

lemma now_db: "now E w = (t, w') \<Longrightarrow> db w' = db w"
  by (auto simp: now_def split: prod.splits)

lemma new_id_db: "new_id E w = (i, w') \<Longrightarrow> db w' = db w"
  by (auto simp: new_id_def split: prod.splits)

lemma instance_view_db:
  "db w' = db w \<Longrightarrow> instance_view E w' = instance_view E w \<and> instances_wf E w' = instances_wf E w"
  by (simp add: instance_view_def instances_wf_def view_bucket_def bucket_wf_def fun_eq_iff)

text \<open>
  Creating an instance accepts exactly a named one with a known engine and a host, up to failures of
  the database. What it accepted is found under its new identifier as it was given, save for the identifier, the two
  times, which are equal, and a port of 0, which becomes the engine's own; every other instance is as
  it was. What it refused changed nothing.
\<close>

theorem created_instance_is_found:
  assumes "instances_wf E w" "instance_create E i w = ((e, i'), w')"
  shows "(if e = None
     then validate_instance i = None \<and> instance_find_by_id E (i_id i') w' = Inr i' \<and>
       i' = i\<lparr>i_id := i_id i', i_created := i_created i', i_updated := i_created i',
              i_port := (if i_port i = 0 then default_port (i_engine i) else i_port i)\<rparr> \<and> i_port i' \<noteq> 0 \<and>
       (\<forall>k. k \<noteq> i_id i' \<longrightarrow> instance_view E w' k = instance_view E w k)
     else instance_view E w' = instance_view E w \<and> (validate_instance i \<noteq> None \<longrightarrow> w' = w))"
proof (cases "validate_instance i")
  case (Some x)
  then have "e = Some x" "w' = w" using assms(2) by (simp_all add: instance_create_def)
  with Some show ?thesis by simp
next
  case None
  obtain rid w1 where n: "new_id E w = (rid, w1)" by fastforce
  obtain t w2 where t: "now E w1 = (t, w2)" by fastforce
  define i2 where "i2 = i\<lparr>i_id := rid, i_created := t, i_updated := t,
      i_port := (if i_port i = 0 then default_port (i_engine i) else i_port i)\<rparr>"
  have eq: "(let i1 = i\<lparr>i_id := rid, i_created := t, i_updated := t\<rparr>
     in if i_port i1 = 0 then i1\<lparr>i_port := default_port (i_engine i1)\<rparr> else i1) = i2"
    by (simp add: i2_def Let_def)
  have s: "inst_save E i2 w2 = (e, w')" "i' = i2"
    using assms(2) None n t eq by (auto simp: instance_create_def Let_def split: prod.splits if_splits)
  note v = instance_view_db [of w2 w E, OF trans [OF now_db [OF t] new_id_db [OF n]]]
  have wf: "instances_wf E w2" using v assms(1) by simp
  have "engine_valid (i_engine i)" using None by (simp add: validate_instance_def split: if_splits)
  then have "i_port i2 \<noteq> 0" using default_port_valid [of "i_engine i"] by (auto simp: i2_def)
  moreover note instances.put_law [OF wf s(1)] v
  moreover have "e = None \<Longrightarrow> inst_find_by_id E (i_id i2) w' = Inr i2"
    using instances.put_get [OF wf] s(1) by simp
  ultimately show ?thesis
    using None s(2) by (auto simp: instance_find_by_id_def i2_def)
qed

theorem created_instance_is_found_witness:
  "let p = instance_create ref_env ((ex_instance ''srv'' EngineMySQL)\<lparr>i_port := 0\<rparr>) (ex_sys [] [] 5) in
   instance_find_by_id ref_env ''id-0'' (snd p) = Inr (snd (fst p)) \<and> i_port (snd (fst p)) = 3306"
proof -
  let ?i = "(ex_instance ''srv'' EngineMySQL)\<lparr>i_port := 0\<rparr>"
  let ?p = "instance_create ref_env ?i (ex_sys [] [] 5)"
  have "fst (fst ?p) = None" "i_id (snd (fst ?p)) = ''id-0''" "i_port (snd (fst ?p)) = 3306" by code_simp+
  moreover have p: "?p = ((fst (fst ?p), snd (fst ?p)), snd ?p)" by simp
  ultimately show ?thesis
    using created_instance_is_found [OF ex_instances_wf p] unfolding Let_def by metis
qed

text \<open>
  Updating writes only over an instance that is stored: a success replaces that one and touches no
  other; an unknown identifier and invalid input are errors that change nothing. Only the time of the update
  is set by the use case.
\<close>

theorem update_replaces_existing:
  assumes "instances_wf E w" "instance_update E i w = ((e, i'), w')"
  shows "(if e = None
     then validate_instance i = None \<and> instance_view E w (i_id i) \<noteq> None \<and> i' = i\<lparr>i_updated := i_updated i'\<rparr> \<and>
       instance_view E w' = (instance_view E w)(i_id i \<mapsto> i')
     else instance_view E w' = instance_view E w) \<and>
     (instance_view E w (i_id i) = None \<longrightarrow> e \<noteq> None)"
proof (cases "validate_instance i")
  case (Some x)
  then have "e = Some x" "w' = w" using assms(2) by (simp_all add: instance_update_def)
  with Some show ?thesis by simp
next
  case None
  obtain t w1 where t: "now E w = (t, w1)" by fastforce
  note v = instance_view_db [of w1 w E, OF now_db [OF t]]
  have wf: "instances_wf E w1" using v assms(1) by simp
  have u: "inst_update E (i\<lparr>i_updated := t\<rparr>) w1 = (e, w')" "i' = i\<lparr>i_updated := t\<rparr>"
    using assms(2) None t by (auto simp: instance_update_def Let_def split: prod.splits)
  have g: "bolt_get E (db w1) bucketInstances (i_id i) = None \<longleftrightarrow> instance_view E w1 (i_id i) = None"
    using wf unfolding instances_wf_def instance_view_def bucket_wf_def view_bucket_def
    by (auto split: option.splits sum.splits) force
  show ?thesis
  proof (cases "instance_view E w1 (i_id i)")
    case None
    then have "w' = w1" "e \<noteq> None" using u(1) g by (auto simp: inst_update_def)
    with v None show ?thesis by simp
  next
    case (Some j)
    with g have "inst_save E (i\<lparr>i_updated := t\<rparr>) w1 = (e, w')"
      using u(1) by (auto simp: inst_update_def inst_save_def)
    note p = instances.put_law [OF wf this]
    show ?thesis using p u(2) v Some \<open>validate_instance i = None\<close> by simp
  qed
qed

theorem update_replaces_existing_witness:
  "fst (fst (instance_update ref_env (ex_instance ''srv'' EngineMySQL) (ex_sys [] [] 5))) \<noteq> None"
proof -
  let ?i = "ex_instance ''srv'' EngineMySQL"
  let ?p = "instance_update ref_env ?i (ex_sys [] [] 5)"
  have "instance_view ref_env (ex_sys [] [] 5) (i_id ?i) = None" by (simp add: ex_instance_view)
  moreover have p: "?p = ((fst (fst ?p), snd (fst ?p)), snd ?p)" by simp
  ultimately show ?thesis
    using update_replaces_existing [OF ex_instances_wf p] by metis
qed

end
