(* ===== verification/Scheduler.thy ===== *)
theory Scheduler
  imports UseCases RunBackup SelfBackup
begin

text \<open>
  The scheduler (\<open>internal/scheduler/scheduler.go\<close>): which jobs it registers with the cron library
  for the stored schedule, starting, stopping and reloading, and what a run of any of its jobs may change.
  The cron library is modelled by what the code sees of it: the entries added, whether it was started, and,
  as parameters, which expressions it accepts and when an entry fires next.
\<close>

section \<open>State\<close>

datatype job = JobFull | JobLog | JobSelfBackup | JobRetention

record cron =
  cr_zone :: string
  cr_entries :: "(string \<times> job) list"
  cr_running :: bool

record scheduler =
  sd_cron :: "cron option"
  sd_has_retention :: bool
  sd_has_self_backup :: bool
  sd_entry_ids :: "nat list"

text \<open>\<open>cron.New\<close>, and \<open>AddFunc\<close>: entries are numbered from 1.\<close>

definition cron_new :: "string \<Rightarrow> cron" where
  "cron_new zone = \<lparr>cr_zone = zone, cr_entries = [], cr_running = False\<rparr>"

definition add_entry :: "string \<Rightarrow> job \<Rightarrow> scheduler \<Rightarrow> scheduler" where
  "add_entry x j s =
     (case sd_cron s of
        None \<Rightarrow> s
      | Some c \<Rightarrow> s\<lparr>sd_cron := Some (c\<lparr>cr_entries := cr_entries c @ [(x, j)]\<rparr>),
                    sd_entry_ids := sd_entry_ids s @ [Suc (length (cr_entries c))]\<rparr>)"

section \<open>Operations\<close>

fun add_funcs :: "('d, 's, 'm) env \<Rightarrow> string \<Rightarrow> job \<Rightarrow> string list \<Rightarrow> scheduler \<Rightarrow>
    gerr option \<times> scheduler" where
  "add_funcs E what j [] s = (None, s)"
| "add_funcs E what j (x # xs) s =
     (case cron_parse E x of
        Some e \<Rightarrow> (Some (WrapErr (''agregar cron '' @ what @ '' '' @ go_quote x @ '': '') e ''''), s)
      | None \<Rightarrow> add_funcs E what j xs (add_entry x j s))"

text \<open>One of the two fixed jobs, registered only when its use case was given.\<close>

definition add_fixed :: "('d, 's, 'm) env \<Rightarrow> string \<Rightarrow> job \<Rightarrow> string \<Rightarrow> bool \<Rightarrow> scheduler \<Rightarrow>
    gerr option \<times> scheduler" where
  "add_fixed E what j x wanted s =
     (if \<not> wanted then (None, s)
      else (case cron_parse E x of
              Some e \<Rightarrow> (Some (WrapErr (''agregar cron de '' @ what @ '': '') e ''''), s)
            | None \<Rightarrow> (None, add_entry x j s)))"

definition self_backup_cron :: string where "self_backup_cron = ''0 0 0,12 * * *''"
definition retention_cron :: string where "retention_cron = ''0 0 1 * * *''"

definition zone_of :: "('d, 's, 'm) env \<Rightarrow> string \<Rightarrow> string" where
  "zone_of E z = (if z \<noteq> '''' \<and> load_location E z = None then z else ''UTC'')"

definition start_cron :: "scheduler \<Rightarrow> scheduler" where
  "start_cron s = s\<lparr>sd_cron := map_option (\<lambda>c. c\<lparr>cr_running := True\<rparr>) (sd_cron s)\<rparr>"

text \<open>An early return on an error, and the schedule in force: the stored one or the default.\<close>

definition and_then :: "gerr option \<times> scheduler \<Rightarrow> (scheduler \<Rightarrow> gerr option \<times> scheduler) \<Rightarrow>
    gerr option \<times> scheduler" where
  "and_then r f = (case r of (Some e, u) \<Rightarrow> (Some e, u) | (None, u) \<Rightarrow> f u)"

definition stored_schedule :: "('d, 's, 'm) env \<Rightarrow> ('d, 's, 'm) sys \<Rightarrow> scheduler_config" where
  "stored_schedule E w = (case sched_get E w of Inl e \<Rightarrow> default_scheduler_config | Inr c \<Rightarrow> c)"

definition scheduler_start :: "('d, 's, 'm) env \<Rightarrow> ('d, 's, 'm) sys \<Rightarrow> scheduler \<Rightarrow>
    gerr option \<times> scheduler" where
  "scheduler_start E w s =
     (let cfg = stored_schedule E w in
      if \<not> sc_enabled cfg then (None, s)
      else
        and_then (and_then (and_then (and_then
          (add_funcs E ''full'' JobFull (sc_full cfg)
             (s\<lparr>sd_cron := Some (cron_new (zone_of E (sc_timezone cfg)))\<rparr>))
          (add_funcs E ''log'' JobLog (sc_log cfg)))
          (\<lambda>u. add_fixed E ''self-backup'' JobSelfBackup self_backup_cron (sd_has_self_backup u) u))
          (\<lambda>u. add_fixed E (''retenci'' @ u_o @ ''n'') JobRetention retention_cron (sd_has_retention u) u))
          (\<lambda>u. (None, start_cron u)))"

definition scheduler_stop :: "scheduler \<Rightarrow> scheduler" where
  "scheduler_stop s = (if sd_cron s \<noteq> None then s\<lparr>sd_cron := None, sd_entry_ids := []\<rparr> else s)"

definition scheduler_reload :: "('d, 's, 'm) env \<Rightarrow> ('d, 's, 'm) sys \<Rightarrow> scheduler \<Rightarrow>
    gerr option \<times> scheduler" where
  "scheduler_reload E w s = scheduler_start E w (scheduler_stop s)"

text \<open>
  A started cron computes the next times and keeps its entries sorted by them, those that never run again
  (the zero time) last.
\<close>

definition next_run_times :: "('d, 's, 'm) env \<Rightarrow> 'm \<Rightarrow> scheduler \<Rightarrow> time list" where
  "next_run_times E m s =
     (case sd_cron s of
        None \<Rightarrow> []
      | Some c \<Rightarrow>
          if cr_running c then
            (let ts = map (\<lambda>(x, j). cron_next E x (cr_zone c) m) (cr_entries c)
             in sort (filter (\<lambda>t. t \<noteq> zero_time) ts) @ filter (\<lambda>t. t = zero_time) ts)
          else map (\<lambda>_. zero_time) (cr_entries c))"

text \<open>What an entry runs; a job's error is logged and dropped.\<close>

definition run_job :: "('d, 's, 'm) env \<Rightarrow> string \<Rightarrow> job \<Rightarrow> ('d, 's, 'm) sys \<Rightarrow> ('d, 's, 'm) sys" where
  "run_job E host j w =
     (case j of
        JobFull \<Rightarrow> snd (run_for_all E BackupTypeFull w)
      | JobLog \<Rightarrow> snd (run_for_all E BackupTypeLog w)
      | JobSelfBackup \<Rightarrow> snd (self_backup_run E host w)
      | JobRetention \<Rightarrow> snd (apply_retention E w))"

section \<open>What is registered\<close>

text \<open>The jobs of a schedule, in the order they are registered.\<close>

definition jobs_of :: "scheduler \<Rightarrow> scheduler_config \<Rightarrow> (string \<times> job) list" where
  "jobs_of s cfg =
     map (\<lambda>x. (x, JobFull)) (sc_full cfg) @ map (\<lambda>x. (x, JobLog)) (sc_log cfg) @
     (if sd_has_self_backup s then [(self_backup_cron, JobSelfBackup)] else []) @
     (if sd_has_retention s then [(retention_cron, JobRetention)] else [])"

text \<open>The kept identifiers are those of the entries, and there are none without a cron.\<close>

definition numbered :: "scheduler \<Rightarrow> bool" where
  "numbered s =
     (sd_entry_ids s = (case sd_cron s of None \<Rightarrow> [] | Some c \<Rightarrow> map Suc [0..<length (cr_entries c)]))"

definition flags :: "scheduler \<Rightarrow> bool \<times> bool" where
  "flags s = (sd_has_retention s, sd_has_self_backup s)"

text \<open>Adding jobs: all of them, or an error and a cron that still does not run.\<close>

definition added :: "gerr option \<times> scheduler \<Rightarrow> cron \<Rightarrow> (string \<times> job) list \<Rightarrow> bool \<times> bool \<Rightarrow> bool \<Rightarrow> bool" where
  "added r c js fl good \<longleftrightarrow> (\<exists>es. sd_cron (snd r) = Some (c\<lparr>cr_entries := es\<rparr>) \<and>
     flags (snd r) = fl \<and> numbered (snd r) \<and> (fst r = None \<longleftrightarrow> good) \<and>
     (good \<longrightarrow> es = cr_entries c @ js))"

lemma add_entry_added:
  assumes "sd_cron s = Some c" "numbered s"
  shows "sd_cron (add_entry x j s) = Some (c\<lparr>cr_entries := cr_entries c @ [(x, j)]\<rparr>)"
    "numbered (add_entry x j s)" "flags (add_entry x j s) = flags s"
  using assms by (simp_all add: add_entry_def numbered_def flags_def)

lemma add_funcs_added:
  assumes "sd_cron s = Some c" "numbered s"
  shows "added (add_funcs E what j xs s) c (map (\<lambda>x. (x, j)) xs) (flags s) (\<forall>x \<in> set xs. cron_parse E x = None)"
  using assms
proof (induction xs arbitrary: s c)
  case Nil
  then show ?case by (auto simp: added_def intro: exI [of _ "cr_entries c"])
next
  case (Cons x xs)
  show ?case
  proof (cases "cron_parse E x")
    case None
    from Cons.IH [OF add_entry_added(1,2) [OF Cons.prems], of x j] None show ?thesis
      by (auto simp: added_def add_entry_added(3) [OF Cons.prems])
  next
    case (Some e)
    with Cons.prems show ?thesis by (auto simp: added_def intro: exI [of _ "cr_entries c"])
  qed
qed

lemma add_fixed_added:
  assumes "sd_cron s = Some c" "numbered s"
  shows "added (add_fixed E what j x b s) c (if b then [(x, j)] else []) (flags s) (b \<longrightarrow> cron_parse E x = None)"
  using assms add_entry_added [OF assms, of x j]
  by (auto simp: added_def add_fixed_def intro: exI [of _ "cr_entries c"] split: option.splits)

lemma added_then:
  assumes "added r c js fl good"
    and "\<And>u d. sd_cron u = Some d \<Longrightarrow> numbered u \<Longrightarrow> flags u = fl \<Longrightarrow> added (f u) d js' fl good'"
  shows "added (and_then r f) c (js @ js') fl (good \<and> good')"
proof (cases r)
  case (Pair o1 u)
  show ?thesis
  proof (cases o1)
    case None
    have "good" "sd_cron u = Some (c\<lparr>cr_entries := cr_entries c @ js\<rparr>)" "flags u = fl" "numbered u"
      using assms(1) by (auto simp: added_def Pair None)
    with assms(2) [OF this(2,4,3)] show ?thesis
      by (auto simp: added_def and_then_def Pair None)
  next
    case (Some e)
    with assms(1) show ?thesis by (auto simp: added_def and_then_def Pair)
  qed
qed

lemma start_registers:
  assumes st: "sd_cron s = None" "numbered s" and r: "scheduler_start E w s = (e, s')"
    and cfg: "cfg = stored_schedule E w"
  shows "numbered s' \<and>
     (if \<not> sc_enabled cfg then e = None \<and> s' = s
      else if \<forall>x \<in> set (jobs_of s cfg). cron_parse E (fst x) = None
      then e = None \<and> sd_cron s' = Some \<lparr>cr_zone = zone_of E (sc_timezone cfg), cr_entries = jobs_of s cfg, cr_running = True\<rparr>
      else e \<noteq> None \<and> (\<exists>c. sd_cron s' = Some c \<and> \<not> cr_running c))"
proof (cases "sc_enabled cfg")
  case False
  then show ?thesis using r st by (simp add: scheduler_start_def cfg)
next
  case True
  let ?c = "cron_new (zone_of E (sc_timezone cfg))"
  let ?s = "s\<lparr>sd_cron := Some ?c\<rparr>"
  have s0: "sd_cron ?s = Some ?c" "numbered ?s" "flags ?s = flags s"
    using st by (simp_all add: numbered_def cron_new_def flags_def)
  let ?r = "and_then (and_then (and_then (add_funcs E ''full'' JobFull (sc_full cfg) ?s)
      (add_funcs E ''log'' JobLog (sc_log cfg)))
      (\<lambda>u. add_fixed E ''self-backup'' JobSelfBackup self_backup_cron (sd_has_self_backup u) u))
      (\<lambda>u. add_fixed E (''retenci'' @ u_o @ ''n'') JobRetention retention_cron (sd_has_retention u) u)"
  have A1: "added (add_funcs E ''full'' JobFull (sc_full cfg) ?s) ?c (map (\<lambda>x. (x, JobFull)) (sc_full cfg))
      (flags s) (\<forall>x \<in> set (sc_full cfg). cron_parse E x = None)"
    using add_funcs_added [OF s0(1,2)] s0(3) by simp
  have A2: "added (add_funcs E ''log'' JobLog (sc_log cfg) u) d (map (\<lambda>x. (x, JobLog)) (sc_log cfg)) (flags s)
      (\<forall>x \<in> set (sc_log cfg). cron_parse E x = None)" if "sd_cron u = Some d" "numbered u" "flags u = flags s" for u d
    using add_funcs_added [OF that(1,2)] that(3) by simp
  have A3: "added (add_fixed E n j x (g u) u) d (if g s then [(x, j)] else []) (flags s)
      (g s \<longrightarrow> cron_parse E x = None)"
    if "sd_cron u = Some d" "numbered u" "flags u = flags s" "flags u = flags s \<Longrightarrow> g u = g s" for u d n j x g
    using add_fixed_added [OF that(1,2), of E n j x "g u"] that(4) [OF that(3)] that(3) by simp
  have "added ?r ?c (((map (\<lambda>x. (x, JobFull)) (sc_full cfg) @ map (\<lambda>x. (x, JobLog)) (sc_log cfg)) @
      (if sd_has_self_backup s then [(self_backup_cron, JobSelfBackup)] else [])) @
      (if sd_has_retention s then [(retention_cron, JobRetention)] else [])) (flags s)
      ((((\<forall>x \<in> set (sc_full cfg). cron_parse E x = None) \<and> (\<forall>x \<in> set (sc_log cfg). cron_parse E x = None)) \<and>
        (sd_has_self_backup s \<longrightarrow> cron_parse E self_backup_cron = None)) \<and>
        (sd_has_retention s \<longrightarrow> cron_parse E retention_cron = None))"
    by (intro added_then A1 A2 A3) (simp_all add: flags_def)
  moreover have "((((\<forall>x \<in> set (sc_full cfg). cron_parse E x = None) \<and> (\<forall>x \<in> set (sc_log cfg). cron_parse E x = None)) \<and>
        (sd_has_self_backup s \<longrightarrow> cron_parse E self_backup_cron = None)) \<and>
        (sd_has_retention s \<longrightarrow> cron_parse E retention_cron = None)) =
      (\<forall>x \<in> set (jobs_of s cfg). cron_parse E (fst x) = None)"
    unfolding jobs_of_def set_append ball_Un by auto
  ultimately have A: "added ?r ?c (jobs_of s cfg) (flags s) (\<forall>x \<in> set (jobs_of s cfg). cron_parse E (fst x) = None)"
    unfolding jobs_of_def append_assoc by simp
  have E: "(e, s') = and_then ?r (\<lambda>u. (None, start_cron u))"
    using r True by (simp add: scheduler_start_def cfg Let_def)
  obtain o1 u where R: "?r = (o1, u)" by fastforce
  show ?thesis
    using A E True unfolding R
    by (cases o1) (auto simp: added_def and_then_def start_cron_def numbered_def cron_new_def)
qed

section \<open>What a job may change\<close>

definition keeps_config :: "('d, 's, 'm) env \<Rightarrow> ('d, 's, 'm) sys \<Rightarrow> ('d, 's, 'm) sys \<Rightarrow> bool" where
  "keeps_config E w w' \<longleftrightarrow>
     (\<forall>b. b \<noteq> bucketBackupRecords \<longrightarrow> bolt_get E (db w') b = bolt_get E (db w) b)"

lemma keeps_config_refl [simp]: "keeps_config E w w"
  by (simp add: keeps_config_def)

lemma keeps_config_trans [trans]: "keeps_config E w w1 \<Longrightarrow> keeps_config E w1 w2 \<Longrightarrow> keeps_config E w w2"
  by (simp add: keeps_config_def)

lemma keeps_config_db: "db w' = db w \<Longrightarrow> keeps_config E w w'"
  by (simp add: keeps_config_def)

lemma keeps_records:
  assumes "bolt_ok E"
  shows "keeps_config E w (snd (br_save E r w))" "keeps_config E w (snd (br_update_status E rid st msg w))"
proof -
  have p: "keeps_config E w (snd (store_put E bucketBackupRecords k x w1))" if "db w1 = db w" for k x w1
    using store_put_other_bucket [OF surjective_pairing assms] that by (simp add: keeps_config_def)
  then show "keeps_config E w (snd (br_save E r w))" by (simp add: br_save_def)
  from p show "keeps_config E w (snd (br_update_status E rid st msg w))"
    by (auto simp: br_update_status_def now_db split: sum.splits prod.splits)
qed

lemma emit_db [simp]: "db (emit ev w) = db w"
  by (simp add: emit_def)

lemma count_verified_db: "count_verified E a c del fs w = (n, w') \<Longrightarrow> db w' = db w"
proof (induction fs arbitrary: w n w')
  case (Cons f fs)
  have "exists_in_s3 E a k w = (b, w1) \<Longrightarrow> db w1 = db w" for k b w1
    by (auto simp: exists_in_s3_def split: if_splits prod.splits sum.splits dest!: s3_ops_frame(1))
  with Cons show ?case by (fastforce split: if_splits prod.splits)
qed simp

lemma self_backup_db: "db (snd (self_backup_run E host w)) = db w"
proof -
  have p: "db (snd (prune_old E a p w)) = db w" for a p w
    by (auto simp: prune_old_def Let_def prune_objects_frame split: prod.splits sum.splits
        dest!: now_db s3_ops_frame(1))
  show ?thesis
    by (auto simp: self_backup_run_def p split: sum.splits prod.splits
        dest!: now_db s3_new_frame(1) s3_ops_frame(5))
qed

text \<open>
  A relation between databases that every write of a backup record keeps, and everything that leaves the database
  alone: then every job keeps it.
\<close>

locale record_writes =
  fixes E :: "('d, 's, 'm) env" and P :: "('d, 's, 'm) sys \<Rightarrow> ('d, 's, 'm) sys \<Rightarrow> bool"
  assumes same_db: "db w' = db w \<Longrightarrow> P w w'"
    and P_trans: "P w w1 \<Longrightarrow> P w1 w2 \<Longrightarrow> P w w2"
    and save_law: "P w (snd (br_save E r w))"
    and status_law: "P w (snd (br_update_status E rid st msg w))"
begin

lemma keeps_after: "P w1 w2 \<Longrightarrow> db w1 = db w \<Longrightarrow> P w w2"
  using same_db P_trans by metis

lemma keeps_then: "P w w1 \<Longrightarrow> db w2 = db w1 \<Longrightarrow> P w w2"
  using same_db P_trans by metis

lemma keeps_closing: "P w w' \<Longrightarrow> P w (snd (closing E ad (x, w')))"
  by (rule keeps_then) simp_all

lemma keeps_closed: "closing E ad (x, w1) = (y, w') \<Longrightarrow> P w w1 \<Longrightarrow> P w w'"
  using keeps_closing [of w w1 ad x] by simp

lemma P_refl [simp]: "P w w"
  by (rule same_db) simp

lemma update_law: "P w (snd (br_update E r w))"
  using save_law by (simp add: br_update_def br_save_def)

lemma keeps_mark_failed: "P w (mark_failed E rid e w)"
  by (simp add: mark_failed_def status_law)

lemma keeps_finish: "P w (snd (finish_backup E i a r rd key w))"
proof -
  obtain ru n w1 where u: "s3_upload E a key (reader_stream rd) w = ((ru, n), w1)" by (metis prod.exhaust)
  obtain ce w2 where c: "reader_close E rd w1 = (ce, w2)" by fastforce
  obtain de w3 where d: "s3_delete E a key w2 = (de, w3)" by fastforce
  obtain te w4 where t: "s3_tag E a key (b_expires r) w2 = (te, w4)" by fastforce
  obtain tm w5 where n: "now E w4 = (tm, w5)" by fastforce
  have db: "db w2 = db w" "db w3 = db w" "db w5 = db w"
    using s3_ops_frame(5) [OF u] s3_ops_frame(3) [OF d] s3_ops_frame(4) [OF t] now_db [OF n]
      reader_close_same [OF c] by (simp_all add: same_stores_def)
  have k: "P w (mark_failed E i e w2)" "P w (mark_failed E i e w3)"
    "br_update E q w5 = (x, w6) \<Longrightarrow> P w (emit ev w6) \<and> P w w6" for i e q x w6 ev
    using keeps_after [OF keeps_mark_failed db(1)] keeps_after [OF keeps_mark_failed db(2)]
      keeps_after [OF update_law db(3), of q] keeps_then [of w w6 "emit ev w6"] by auto
  show ?thesis
    using k by (cases ru; cases ce) (auto simp: finish_backup_def u c d t n split: prod.splits option.splits)
qed

lemma keeps_backup:
  assumes "quiet_dump f"
  shows "P w (snd (backup_database E i d bt par f a days w))"
proof -
  obtain rid w1 where n: "new_id E w = (rid, w1)" by fastforce
  obtain t1 w2 where t1: "now E w1 = (t1, w2)" by fastforce
  obtain t2 w3 where t2: "now E w2 = (t2, w3)" by fastforce
  let ?r = "initial_record i d bt par days rid t1 t2"
  obtain se w4 where s: "br_save E ?r w3 = (se, w4)" by fastforce
  let ?w = "emit (NotifyStarted (i_name i) d) w4"
  obtain dr w5 where dmp: "f d ?w = (dr, w5)" by fastforce
  have "db w3 = db w" using new_id_db [OF n] now_db [OF t1] now_db [OF t2] by simp
  then have k4: "P w w4" using keeps_after [OF save_law, of w3 w ?r] s by simp
  have "db w5 = db w4" using assms dmp by (metis emit_db quiet_dump_def same_stores_def snd_conv)
  then have k5: "P w w5" by (rule keeps_then [OF k4])
  show ?thesis
    using k4 P_trans [OF k5 keeps_mark_failed]
      P_trans [OF k5 keeps_finish]
    by (cases se; cases dr) (auto simp: backup_database_def Let_def n t1 t2 s dmp split: prod.splits)
qed

lemma keeps_backup_all: "P w (backup_all E i ad a days bt ds w)"
proof (induction ds arbitrary: w)
  case (Cons d ds)
  have lf: "P w (log_failure i d e w1)" if "P w w1" for e w1
    using keeps_then [OF that] by (simp add: log_failure_def)
  have k: "P w w1"
    if "backup_database E i d bt par f a days w = (e, w1)" "quiet_dump f" for bt par f e w1
    using keeps_backup [OF that(2), of w i d bt par a days] that(1) by simp
  note full = k [OF _ quiet_dumps(1)] and log = k [OF _ quiet_dumps(2)]
  show ?case
    using Cons.IH
    by (auto split: prod.splits option.splits sum.splits dest!: full log
        intro: P_trans lf)
qed simp

lemma keeps_run: "P w (snd (run_for_instance E iid bt w))"
    "P w (snd (run_for_all E bt w))"
proof -
  have k: "P w (snd (run_for_instance E iid bt w))" for iid w
    using keeps_closing [OF keeps_after [OF keeps_backup_all]]
    by (auto simp: run_for_instance_def Let_def same_stores_def split: sum.splits prod.splits option.splits
        dest!: s3_new_frame(1) new_adapter_same list_databases_same intro: same_db keeps_closing)
  then show "P w (snd (run_for_instance E iid bt w))" .
  have "P w (run_each E bt is w)" for "is"
    by (induction "is" arbitrary: w) (auto intro: P_trans [OF k])
  then show "P w (snd (run_for_all E bt w))"
    by (auto simp: run_for_all_def split: sum.splits)
qed

lemma keeps_delete_one: "P w (snd (delete_one E r w))"
  using keeps_after [OF status_law] status_law
  by (auto simp: delete_one_def mark_deleted_def split: sum.splits prod.splits option.splits
      dest!: s3_new_frame(1) s3_ops_frame(3) intro: same_db)

lemma keeps_delete_children: "P w (snd (delete_children E rid cs w))"
proof (induction cs arbitrary: w)
  case (Cons c cs)
  have "P w w1" if "delete_one E c w = (e, w1)" for e w1
    using keeps_delete_one [of w c] that by simp
  with Cons.IH show ?case by (auto split: prod.splits option.splits intro: P_trans)
qed simp

lemma keeps_delete_backup: "P w (snd (delete_backup E rid w))"
proof -
  have "P w w1" if "delete_children E rid cs w = (e, w1)" for cs e w1
    using keeps_delete_children [of w rid cs] that by simp
  then show ?thesis
    using keeps_delete_one P_trans [OF _ keeps_delete_one]
    by (auto simp: delete_backup_def split: sum.splits prod.splits option.splits)
qed

lemma keeps_sweep_group: "P w (snd (sweep_group E a ct fulls cs del n w))"
proof (induction cs arbitrary: del n w)
  case (Cons c cs)
  obtain v w1 where v: "count_verified E a (b_id c) del fulls w = (v, w1)" by fastforce
  obtain e w2 where d: "delete_backup E (b_id c) w1 = (e, w2)" by fastforce
  have "P w w2"
    using keeps_after [OF keeps_delete_backup count_verified_db [OF v], of "b_id c"] by (simp add: d)
  then show ?case
    using P_trans [OF _ Cons.IH] same_db [OF count_verified_db [OF v]]
    by (auto simp: v d split: option.splits)
qed simp

lemma keeps_sweep_groups: "P w (snd (sweep_groups E a rs ks n err w))"
proof (induction ks arbitrary: n err w)
  case (Cons k ks)
  let ?fs = "sort_slice E b_started (group_of rs k)"
  obtain t w1 where t: "now E w = (t, w1)" by fastforce
  obtain m e w2 where s: "sweep_group E a (add_days t (- retain_days_for E (fst k) w)) ?fs ?fs [] 0 w1 = ((m, e), w2)"
    by (metis prod.exhaust)
  have "P w w2"
    using keeps_after [OF keeps_sweep_group now_db [OF t], of a _ ?fs ?fs "[]" 0] by (metis s snd_conv)
  from P_trans [OF this Cons.IH] show ?case by (simp add: Let_def t s)
qed simp

lemma keeps_expire: "P w (snd (expire_all E rs n w))"
proof (induction rs arbitrary: n w)
  case (Cons r rs)
  show ?case
    using P_trans [OF keeps_delete_backup [of w "b_id r"] Cons.IH] Cons.IH
    by (auto split: prod.splits)
qed simp

lemma keeps_retention: "P w (snd (apply_retention E w))"
proof -
  have s: "P w (snd (apply_sqlserver_retention E w))" for w
    using keeps_after [OF keeps_sweep_groups]
    by (auto simp: apply_sqlserver_retention_def split: sum.splits prod.splits
        dest!: s3_new_frame(1) intro: same_db)
  obtain r w1 where x: "br_find_expired E w = (r, w1)" by fastforce
  have d: "db w1 = db w"
    using x by (auto simp: br_find_expired_def split: prod.splits sum.splits dest: now_db)
  show ?thesis
  proof (cases r)
    case (Inl e)
    then show ?thesis by (simp add: apply_retention_def x same_db [OF d])
  next
    case (Inr rs)
    obtain n w2 where e: "expire_all E rs 0 w1 = (n, w2)" by fastforce
    have "P w w2" using keeps_after [OF keeps_expire d, of rs 0] by (simp add: e)
    from P_trans [OF this s] show ?thesis
      by (auto simp: apply_retention_def x e Inr split: prod.splits)
  qed
qed

lemma keeps_job: "P w (run_job E host j w)"
  by (cases j) (simp_all add: run_job_def keeps_run keeps_retention self_backup_db same_db)

end

interpretation config_kept: record_writes E "\<lambda>w w'. bolt_ok E \<longrightarrow> keeps_config E w w'" for E :: "('d, 's, 'm) env"
  by unfold_locales (auto intro: keeps_config_db keeps_config_trans keeps_records)

lemma job_keeps_config: "bolt_ok E \<Longrightarrow> keeps_config E w (run_job E host j w)"
  using config_kept.keeps_job by blast

lemma retention_keeps_config: "bolt_ok E \<Longrightarrow> keeps_config E w (snd (apply_retention E w))"
  using config_kept.keeps_retention by blast

section \<open>Running\<close>

text \<open>
  The running scheduler: an entry of a started cron fires its job, the world outside moves on, or the
  schedule is saved in the scheduler tab, which reloads the scheduler.
\<close>

inductive run_step :: "('d, 's, 'm) env \<Rightarrow> string \<Rightarrow> scheduler \<times> ('d, 's, 'm) sys \<Rightarrow>
    scheduler \<times> ('d, 's, 'm) sys \<Rightarrow> bool" for E host where
  fire: "sd_cron s = Some c \<Longrightarrow> cr_running c \<Longrightarrow> (x, j) \<in> set (cr_entries c) \<Longrightarrow>
    run_step E host (s, w) (s, run_job E host j w)"
| outside: "run_step E host (s, w) (s, w\<lparr>s3 := m, os := k\<rparr>)"
| reload: "scheduler_reload E w s = (e, s') \<Longrightarrow> run_step E host (s, w) (s', w)"

inductive_cases run_stepE: "run_step E host (s, w) y"

lemma run_step_keeps: "bolt_ok E \<Longrightarrow> run_step E host x y \<Longrightarrow> keeps_config E (snd x) (snd y)"
  by (cases x) (auto elim!: run_stepE simp: job_keeps_config intro: keeps_config_db)

lemma run_steps_keep:
  assumes "(run_step E host)\<^sup>*\<^sup>* x y" "bolt_ok E"
  shows "keeps_config E (snd x) (snd y)"
  using assms(1) by induction (auto intro: keeps_config_trans run_step_keeps [OF assms(2)])

lemma stop_none [simp]: "numbered s \<Longrightarrow> sd_cron (scheduler_stop s) = None \<and> numbered (scheduler_stop s)"
  by (simp add: scheduler_stop_def numbered_def)

lemma stop_jobs [simp]: "jobs_of (scheduler_stop s) cfg = jobs_of s cfg"
  by (simp add: scheduler_stop_def jobs_of_def)

lemma reload_registers:
  assumes "numbered s" "scheduler_reload E w s = (e, s')" "cfg = stored_schedule E w"
  shows "numbered s' \<and>
     (if \<not> sc_enabled cfg then e = None \<and> sd_cron s' = None
      else if \<forall>x \<in> set (jobs_of s cfg). cron_parse E (fst x) = None
      then e = None \<and> sd_cron s' = Some \<lparr>cr_zone = zone_of E (sc_timezone cfg), cr_entries = jobs_of s cfg, cr_running = True\<rparr>
      else e \<noteq> None \<and> (\<exists>c. sd_cron s' = Some c \<and> \<not> cr_running c))"
  using start_registers [of "scheduler_stop s" E w e s' cfg] stop_none [OF assms(1)] assms(2,3)
  by (auto simp: scheduler_reload_def split: if_splits)

lemma next_run_times_stopped:
  "sd_cron s = None \<Longrightarrow> next_run_times E m s = []"
  "sd_cron s = Some c \<Longrightarrow> \<not> cr_running c \<Longrightarrow> next_run_times E m s = map (\<lambda>_. zero_time) (cr_entries c)"
  by (simp_all add: next_run_times_def)

section \<open>Properties\<close>

text \<open>
  C20. Reloading drops every earlier job and registers those of the schedule now stored (the default one when
  none is stored): the full and log expressions in their order, then the self-backup and the retention job,
  in the schedule's time zone, with the cron started. A disabled schedule leaves no cron. If any expression
  does not parse, the reload reports an error and leaves a cron that was never started: no job fires, and the
  times shown are all the zero time.
\<close>

theorem reload_registers_schedule:
  assumes "numbered s" "scheduler_reload E w s = (e, s')"
  shows "numbered s' \<and> (let cfg = stored_schedule E w in
     if \<not> sc_enabled cfg then e = None \<and> sd_cron s' = None \<and> next_run_times E m s' = []
     else if \<forall>x \<in> set (jobs_of s cfg). cron_parse E (fst x) = None
     then e = None \<and> sd_cron s' =
       Some \<lparr>cr_zone = zone_of E (sc_timezone cfg), cr_entries = jobs_of s cfg, cr_running = True\<rparr>
     else e \<noteq> None \<and> (\<exists>c. sd_cron s' = Some c \<and> \<not> cr_running c \<and>
       next_run_times E m s' = map (\<lambda>_. zero_time) (cr_entries c)))"
  using reload_registers [OF assms refl] next_run_times_stopped [where s = s' and E = E and m = m]
  by (auto simp: Let_def split: if_splits)

definition ex_scheduler :: scheduler where
  "ex_scheduler = \<lparr>sd_cron = None, sd_has_retention = True, sd_has_self_backup = False, sd_entry_ids = []\<rparr>"

lemma ex_stored: "stored_schedule ref_env (ex_sys ins rs t) = default_scheduler_config"
  by (simp add: stored_schedule_def sched_get_def store_get_def ex_sys_def ref_env_sel bucket_defs)

lemma ref_cron: "cron_parse ref_env x = (if x = '''' then Some (Err ''empty spec string'') else None)"
    "load_location ref_env z = None"
  by (simp_all add: ref_env_def)

lemma ex_reload:
  "scheduler_reload ref_env (ex_sys ins rs t) ex_scheduler =
     (None, ex_scheduler\<lparr>sd_cron := Some \<lparr>cr_zone = ''UTC'', cr_entries = [(''0 0 0 * * *'', JobFull),
        (''0 0 * * * *'', JobLog), (retention_cron, JobRetention)], cr_running = True\<rparr>, sd_entry_ids := [1, 2, 3]\<rparr>)"
  by (simp add: scheduler_reload_def scheduler_stop_def scheduler_start_def ex_stored ex_scheduler_def
      default_scheduler_config_def cron_new_def add_fixed_def add_entry_def and_then_def start_cron_def
      zone_of_def ref_cron retention_cron_def Let_def)

theorem reload_registers_schedule_witness:
  "jobs_of ex_scheduler default_scheduler_config =
     [(''0 0 0 * * *'', JobFull), (''0 0 * * * *'', JobLog), (retention_cron, JobRetention)]"
proof -
  have n: "numbered ex_scheduler" by (simp add: numbered_def ex_scheduler_def)
  show ?thesis
    using reload_registers_schedule [OF n ex_reload, of "[]" "[]" 0]
    by (simp add: ex_stored Let_def default_scheduler_config_def jobs_of_def ex_scheduler_def)
qed

text \<open>
  C19. No sequence of steps of the running scheduler (jobs of any kind fire, in any order and however they
  fail; schedules are reloaded; the storage and the machine change from outside) changes an instance, the S3
  configuration, a retention policy, the schedule or the restore history: the jobs write backup records only.
\<close>

theorem jobs_change_only_backup_records:
  assumes "bolt_ok E" "(run_step E host)\<^sup>*\<^sup>* (s, w) (s', w')" "b \<noteq> bucketBackupRecords"
  shows "bolt_get E (db w') b k = bolt_get E (db w) b k"
  using run_steps_keep [OF assms(2,1)] assms(3) by (simp add: keeps_config_def)

theorem jobs_change_only_backup_records_witness:
  "bolt_get ref_env (db (run_job ref_env ''h'' JobRetention (ex_sys [] ex_chain 5))) bucketS3Config keyS3Config =
     Some (Json (ES3Config ex_cfg))"
proof -
  let ?w = "ex_sys [] ex_chain 5"
  let ?s = "snd (scheduler_reload ref_env ?w ex_scheduler)"
  have "run_step ref_env ''h'' (ex_scheduler, ?w) (?s, ?w)" by (rule run_step.reload [OF prod.collapse [symmetric]])
  moreover have "run_step ref_env ''h'' (?s, ?w) (?s, run_job ref_env ''h'' JobRetention ?w)"
    by (rule run_step.fire) (auto simp: ex_reload)
  ultimately have r: "(run_step ref_env ''h'')\<^sup>*\<^sup>* (ex_scheduler, ?w) (?s, run_job ref_env ''h'' JobRetention ?w)"
    by (meson converse_rtranclp_into_rtranclp r_into_rtranclp)
  have "bucketS3Config \<noteq> bucketBackupRecords" by (simp add: bucket_defs)
  from jobs_change_only_backup_records [OF bolt_ok_ref_env r this] show ?thesis
    by (simp add: ex_sys_def ref_env_sel bucket_defs)
qed

end
