(* ===== verification/Keys.thy ===== *)
theory Keys
  imports Prelude
begin

text \<open>
  The table of the global key bindings (\<open>tui/keys.go\<close>). The root's \<open>Update\<close> matches three of them;
  the views compare the keys themselves.
\<close>

record key_binding =
  kb_keys :: "string list"
  kb_help :: "string \<times> string"

record key_map =
  km_tab_next :: key_binding
  km_tab_prev :: key_binding
  km_new :: key_binding
  km_edit :: key_binding
  km_delete :: key_binding
  km_confirm :: key_binding
  km_cancel :: key_binding
  km_refresh :: key_binding
  km_backup :: key_binding
  km_up :: key_binding
  km_down :: key_binding
  km_quit :: key_binding

text \<open>\<open>key.NewBinding\<close> with \<open>WithKeys\<close> and \<open>WithHelp\<close>.\<close>

definition new_binding :: "string list \<Rightarrow> string \<Rightarrow> string \<Rightarrow> key_binding" where
  "new_binding ks h d = \<lparr>kb_keys = ks, kb_help = (h, d)\<rparr>"

definition GlobalKeys :: key_map where
  "GlobalKeys =
     \<lparr>km_tab_next = new_binding [''pgdown''] ''pgdown'' (''siguiente pesta'' @ [CHR 0xC3, CHR 0xB1] @ ''a''),
      km_tab_prev = new_binding [''pgup''] ''pgup'' (''pesta'' @ [CHR 0xC3, CHR 0xB1] @ ''a anterior''),
      km_new = new_binding [''n''] ''n'' ''nuevo'',
      km_edit = new_binding [''e''] ''e'' ''editar'',
      km_delete = new_binding [''d'', ''delete''] ''d'' ''eliminar'',
      km_confirm = new_binding [''enter''] ''enter'' ''confirmar'',
      km_cancel = new_binding [''esc''] ''esc'' ''cancelar'',
      km_refresh = new_binding [''r'', ''f5''] ''r'' ''refrescar'',
      km_backup = new_binding [''b''] ''b'' ''respaldar ahora'',
      km_up = new_binding [''up'', ''k''] ([CHR 0xE2, CHR 0x86, CHR 0x91] @ ''/k'') ''subir'',
      km_down = new_binding [''down'', ''j''] ([CHR 0xE2, CHR 0x86, CHR 0x93] @ ''/j'') ''bajar'',
      km_quit = new_binding [''ctrl+c''] ''ctrl+c'' ''salir''\<rparr>"

text \<open>\<open>key.Matches\<close> on an enabled binding: the key is one of its own.\<close>

definition key_matches :: "string \<Rightarrow> key_binding \<Rightarrow> bool" where
  "key_matches k b \<longleftrightarrow> k \<in> set (kb_keys b)"

lemma global_keys [simp]:
  "key_matches k (km_quit GlobalKeys) \<longleftrightarrow> k = ''ctrl+c''"
  "key_matches k (km_tab_next GlobalKeys) \<longleftrightarrow> k = ''pgdown''"
  "key_matches k (km_tab_prev GlobalKeys) \<longleftrightarrow> k = ''pgup''"
  by (auto simp: key_matches_def GlobalKeys_def new_binding_def)

definition all_bindings :: "key_map \<Rightarrow> key_binding list" where
  "all_bindings m = [km_tab_next m, km_tab_prev m, km_new m, km_edit m, km_delete m, km_confirm m, km_cancel m,
     km_refresh m, km_backup m, km_up m, km_down m, km_quit m]"

text \<open>No key has two meanings in the table.\<close>

theorem global_keys_unambiguous: "distinct (concat (map kb_keys (all_bindings GlobalKeys)))"
  by code_simp

end
