(* ===== verification/Widgets.thy ===== *)
theory Widgets
  imports Adapters
begin

text \<open>
  What the views of the terminal interface (\<open>tui/\<close>) share. A view is a model with an \<open>Update\<close> function
  that takes a message and gives the next model and the commands to run; an index out of range is a panic,
  the value None. The text inputs and spinners of the Bubbles library are values of a type parameter with
  the record \<open>ui\<close> of the operations the views call on them.
\<close>

section \<open>Third-party widgets\<close>

text \<open>
  \<open>ti_key\<close> and \<open>sp_update\<close> are the widgets' own \<open>Update\<close> on a key and on a tick: the next widget,
  and whether a command of the widget comes with it. \<open>ti_new\<close> gets the placeholder and whether the echo mode
  is \<open>EchoPassword\<close>, which \<open>ti_masked\<close> reads. Ticks are numbered by \<open>sp_tick\<close>.
\<close>

record 'u ui =
  ti_new :: "string \<Rightarrow> bool \<Rightarrow> 'u"
  ti_value :: "'u \<Rightarrow> string"
  ti_masked :: "'u \<Rightarrow> bool"
  ti_set :: "string \<Rightarrow> 'u \<Rightarrow> 'u"
  ti_focus :: "'u \<Rightarrow> 'u"
  ti_blur :: "'u \<Rightarrow> 'u"
  ti_focused :: "'u \<Rightarrow> bool"
  ti_key :: "string \<Rightarrow> 'u \<Rightarrow> 'u \<times> bool"
  sp_new :: 'u
  sp_tick :: "'u \<Rightarrow> nat"
  sp_update :: "nat \<Rightarrow> 'u \<Rightarrow> 'u \<times> bool"

text \<open>
  Documented: a new input is empty and blurred; \<open>SetValue\<close> sets the text, which is kept as it is when it
  has printable ASCII characters only (tabs and newlines are replaced); focus and blur do not touch the
  text; an input without the focus ignores keys; the echo mode is the one the input was given.
\<close>

definition plain :: "string \<Rightarrow> bool" where
  "plain s = (\<forall>c \<in> set s. 32 \<le> (of_char c :: nat) \<and> (of_char c :: nat) < 127)"

definition ui_masks :: "'u ui \<Rightarrow> bool" where
  "ui_masks U \<longleftrightarrow>
     (\<forall>p b. ti_masked U (ti_new U p b) = b) \<and>
     (\<forall>s u. ti_masked U (ti_set U s u) = ti_masked U u) \<and>
     (\<forall>u. ti_masked U (ti_focus U u) = ti_masked U u \<and> ti_masked U (ti_blur U u) = ti_masked U u) \<and>
     (\<forall>k u. ti_masked U (fst (ti_key U k u)) = ti_masked U u)"

definition ui_ok :: "'u ui \<Rightarrow> bool" where
  "ui_ok U \<longleftrightarrow>
     (\<forall>p b. ti_value U (ti_new U p b) = '''' \<and> \<not> ti_focused U (ti_new U p b)) \<and>
     (\<forall>s u. plain s \<longrightarrow> ti_value U (ti_set U s u) = s) \<and>
     (\<forall>s u. ti_focused U (ti_set U s u) = ti_focused U u) \<and>
     (\<forall>u. ti_value U (ti_focus U u) = ti_value U u \<and> ti_focused U (ti_focus U u)) \<and>
     (\<forall>u. ti_value U (ti_blur U u) = ti_value U u \<and> \<not> ti_focused U (ti_blur U u)) \<and>
     (\<forall>k u. \<not> ti_focused U u \<longrightarrow> ti_key U k u = (u, False)) \<and>
     ui_masks U"

lemma ui_okD:
  assumes "ui_ok U"
  shows "ti_value U (ti_new U p b) = ''''" "\<not> ti_focused U (ti_new U p b)"
    "plain s \<Longrightarrow> ti_value U (ti_set U s u) = s" "ti_focused U (ti_set U s u) = ti_focused U u"
    "ti_value U (ti_focus U u) = ti_value U u" "ti_focused U (ti_focus U u)"
    "ti_value U (ti_blur U u) = ti_value U u" "\<not> ti_focused U (ti_blur U u)"
    "\<not> ti_focused U u \<Longrightarrow> ti_key U k u = (u, False)"
  using assms unfolding ui_ok_def by blast+

lemma ui_okM:
  assumes "ui_ok U"
  shows "ti_masked U (ti_new U p b) = b" "ti_masked U (ti_set U s u) = ti_masked U u"
    "ti_masked U (ti_focus U u) = ti_masked U u" "ti_masked U (ti_blur U u) = ti_masked U u"
    "ti_masked U (fst (ti_key U k u)) = ti_masked U u"
  using assms by (simp_all add: ui_ok_def ui_masks_def)

text \<open>
  Widgets on which the witnesses evaluate: the text, the focus and whether it is masked; a key of one
  character is typed.
\<close>

type_synonym ref_input = "string \<times> bool \<times> bool"

definition ref_ui :: "ref_input ui" where
  "ref_ui =
     \<lparr>ti_new = (\<lambda>p b. ('''', False, b)),
      ti_value = fst,
      ti_masked = (\<lambda>u. snd (snd u)),
      ti_set = (\<lambda>s u. (s, snd u)),
      ti_focus = (\<lambda>u. (fst u, True, snd (snd u))),
      ti_blur = (\<lambda>u. (fst u, False, snd (snd u))),
      ti_focused = (\<lambda>u. fst (snd u)),
      ti_key = (\<lambda>k u.
        if fst (snd u) \<and> length k = 1 then ((fst u @ k, snd u), True)
        else if fst (snd u) \<and> k = ''backspace'' then ((butlast (fst u), snd u), True) else (u, False)),
      sp_new = ('''', False, False),
      sp_tick = (\<lambda>u. 0),
      sp_update = (\<lambda>n u. (u, True))\<rparr>"

lemma ui_ok_ref_ui [simp, intro]: "ui_ok ref_ui"
  by (simp add: ui_ok_def ui_masks_def ref_ui_def)

section \<open>Indexing, keys and commands\<close>

text \<open>\<open>xs[i]\<close>, a panic out of range.\<close>

definition slice_at :: "'a list \<Rightarrow> int \<Rightarrow> 'a option" where
  "slice_at xs i = (if 0 \<le> i \<and> i < int (length xs) then Some (xs ! nat i) else None)"

lemma slice_at_in [simp]: "0 \<le> i \<Longrightarrow> i < int (length xs) \<Longrightarrow> slice_at xs i = Some (xs ! nat i)"
  by (simp add: slice_at_def)

lemma slice_at_Nil [simp]: "slice_at [] i = None"
  by (simp add: slice_at_def)

lemma slice_at_set: "slice_at xs i = Some x \<Longrightarrow> x \<in> set xs"
  by (auto simp: slice_at_def split: if_splits)

text \<open>\<open>fields[i].SetValue (v)\<close> on the fields of a form.\<close>

definition set_field :: "'u ui \<Rightarrow> int \<Rightarrow> string \<Rightarrow> 'u list \<Rightarrow> 'u list" where
  "set_field U i v fs = fs[nat i := ti_set U v (fs ! nat i)]"

lemma set_field_length [simp]: "length (set_field U i v fs) = length fs"
  by (simp add: set_field_def)

lemma set_field_nth:
  "0 \<le> i \<Longrightarrow> nat i < length fs \<Longrightarrow> set_field U i v fs ! j = (if j = nat i then ti_set U v (fs ! j) else fs ! j)"
  by (simp add: set_field_def nth_list_update)

lemma map_at: "f y = f (xs ! n) \<Longrightarrow> map f (xs[n := y]) = map f xs"
  by (cases "n < length xs") (simp_all add: map_update list_update_same_conv list_update_beyond)

lemma set_field_masks: "ui_ok U \<Longrightarrow> map (ti_masked U) (set_field U i v fs) = map (ti_masked U) fs"
  by (simp add: set_field_def map_at ui_okM)

text \<open>A command of a widget, when there is one.\<close>

definition widget_cmd :: "'c \<Rightarrow> bool \<Rightarrow> 'c list" where
  "widget_cmd c b = (if b then [c] else [])"

text \<open>The text a confirmation has to match, as the views compare it.\<close>

definition confirms :: "string \<Rightarrow> string \<Rightarrow> bool" where
  "confirms phrase s = equal_fold (trim_space s) phrase"

text \<open>Keys that type a word.\<close>

definition type_word :: "string \<Rightarrow> string list" where
  "type_word w = map (\<lambda>c. [c]) w"

lemma confirms_itself: "confirms ''confirmar'' ''confirmar''"
  by (simp add: confirms_def trim_space_def is_space_def equal_fold_def)

section \<open>Runs of a view\<close>

text \<open>
  A run of an update function over a list of messages: the last model and all commands, or a panic.
\<close>

fun run_view :: "('m \<Rightarrow> 'e \<Rightarrow> ('m \<times> 'c list) option) \<Rightarrow> 'm \<Rightarrow> 'e list \<Rightarrow> ('m \<times> 'c list) option" where
  "run_view f s [] = Some (s, [])"
| "run_view f s (e # es) =
     (case f s e of
        None \<Rightarrow> None
      | Some (s1, cs) \<Rightarrow> (case run_view f s1 es of None \<Rightarrow> None | Some (s2, ds) \<Rightarrow> Some (s2, cs @ ds)))"

lemma run_view_append:
  "run_view f s (es @ fs) =
     (case run_view f s es of
        None \<Rightarrow> None
      | Some (s1, cs) \<Rightarrow> (case run_view f s1 fs of None \<Rightarrow> None | Some (s2, ds) \<Rightarrow> Some (s2, cs @ ds)))"
  by (induction es arbitrary: s) (auto split: option.splits)

text \<open>What holds after a step, unless it panics.\<close>

definition after :: "('m \<Rightarrow> 'c list \<Rightarrow> bool) \<Rightarrow> ('m \<times> 'c list) option \<Rightarrow> bool" where
  "after P r = (case r of None \<Rightarrow> True | Some (s, cs) \<Rightarrow> P s cs)"

lemma after_simps [simp]:
  "after P None" "after P (Some (s, cs)) = P s cs" "after P (Some r) = P (fst r) (snd r)"
  "after P (if b then x else y) = (if b then after P x else after P y)"
  by (simp_all add: after_def split: prod.splits)

text \<open>A step that has a result, with P.\<close>

definition gives :: "('m \<Rightarrow> bool) \<Rightarrow> ('m \<times> 'c list) option \<Rightarrow> bool" where
  "gives P r \<longleftrightarrow> (\<exists>s cs. r = Some (s, cs) \<and> P s)"

lemma gives_simps [simp]:
  "\<not> gives P None" "gives P (Some (s, cs)) = P s" "gives P (Some r) = P (fst r)"
  "gives P (if b then x else y) = (if b then gives P x else gives P y)"
  by (auto simp: gives_def prod_eq_iff)

lemma givesD: "gives P r \<Longrightarrow> r \<noteq> None" "gives P r \<Longrightarrow> r = Some (s, cs) \<Longrightarrow> P s"
  by (auto simp: gives_def)

lemma after_map: "after P (map_option f x) = (\<forall>y. x = Some y \<longrightarrow> P (fst (f y)) (snd (f y)))"
  by (cases x) simp_all

lemma after_bind: "after P (Option.bind x f) = (\<forall>y. x = Some y \<longrightarrow> after P (f y))"
  by (cases x) simp_all

lemma afterD: "after P r \<Longrightarrow> r = Some (s, cs) \<Longrightarrow> P s cs"
  by simp

text \<open>An invariant of a view, and a view that in its invariant never panics.\<close>

locale tab_view =
  fixes step :: "'m \<Rightarrow> 'e \<Rightarrow> ('m \<times> 'c list) option" and inv :: "'m \<Rightarrow> bool"
  assumes step_inv: "inv s \<Longrightarrow> step s e = Some (s', cs) \<Longrightarrow> inv s'"
begin

lemma run_inv: "inv s \<Longrightarrow> run_view step s es = Some (s', cs) \<Longrightarrow> inv s'"
  by (induction es arbitrary: s cs) (auto split: option.splits, metis step_inv)

end

locale safe_tab = tab_view +
  assumes no_panic: "inv s \<Longrightarrow> step s e \<noteq> None"
begin

lemma run_safe:
  assumes "inv s"
  shows "\<exists>s' cs. run_view step s es = Some (s', cs) \<and> inv s'"
  using assms
proof (induction es arbitrary: s)
  case (Cons e es)
  from no_panic [OF Cons.prems, of e] obtain s1 cs where s: "step s e = Some (s1, cs)" by auto
  from Cons.IH [OF step_inv [OF Cons.prems s]] s show ?case by auto
qed simp

end

lemma safe_tabI:
  assumes "\<And>s e. P s \<Longrightarrow> gives P (step s e)"
  shows "safe_tab step P"
proof unfold_locales
  show "P s \<Longrightarrow> step s e = Some (s', cs) \<Longrightarrow> P s'" for s e s' cs using givesD(2) [OF assms] .
  show "P s \<Longrightarrow> step s e \<noteq> None" for s e using givesD(1) [OF assms] .
qed

text \<open>
  What was armed by a message and is still armed: A s v holds after a run only if some message armed v in
  a state where St allows it, and every later message was one that keeps it. F is a part of the model that
  arming sets to G, and that each later message changes as H says.
\<close>

locale armed_view =
  fixes step :: "'m \<Rightarrow> 'e \<Rightarrow> ('m \<times> 'c list) option" and s0 :: 'm
    and A :: "'m \<Rightarrow> 'v \<Rightarrow> bool" and St :: "'m \<Rightarrow> 'e \<Rightarrow> 'v \<Rightarrow> bool" and K :: "'e \<Rightarrow> bool"
    and F :: "'m \<Rightarrow> 'f" and G :: "'m \<Rightarrow> 'f" and H :: "'f \<Rightarrow> 'e \<Rightarrow> 'f"
  assumes not_armed: "\<not> A s0 v"
    and arming: "step s e = Some (s', cs) \<Longrightarrow> A s' v \<Longrightarrow>
      A s v \<and> K e \<and> F s' = H (F s) e \<or> St s e v \<and> F s' = G s"
begin

lemma since:
  assumes "run_view step s0 es = Some (s, cs)" "A s v"
  shows "\<exists>pre e post s1 ds. es = pre @ e # post \<and> run_view step s0 pre = Some (s1, ds) \<and> St s1 e v \<and>
    (\<forall>x \<in> set post. K x) \<and> F s = foldl H (G s1) post"
  using assms
proof (induction es arbitrary: s cs rule: rev_induct)
  case Nil
  then show ?case using not_armed by simp
next
  case (snoc e es)
  obtain s1 cs1 ds where r: "run_view step s0 es = Some (s1, cs1)" "step s1 e = Some (s, ds)"
    using snoc.prems(1) by (auto simp: run_view_append split: option.splits)
  from arming [OF r(2) snoc.prems(2)] show ?case
  proof
    assume a: "A s1 v \<and> K e \<and> F s = H (F s1) e"
    then obtain pre x post s2 es2 where "es = pre @ x # post" "run_view step s0 pre = Some (s2, es2)"
        "St s2 x v" "\<forall>x \<in> set post. K x" "F s1 = foldl H (G s2) post"
      using snoc.IH [OF r(1)] by blast
    with a show ?thesis
      by (intro exI [of _ pre] exI [of _ x] exI [of _ "post @ [e]"] exI [of _ s2] exI [of _ es2]) auto
  next
    assume "St s1 e v \<and> F s = G s1"
    with r(1) show ?thesis
      by (intro exI [of _ es] exI [of _ e] exI [of _ "[]"] exI [of _ s1] exI [of _ cs1]) simp
  qed
qed

end

section \<open>A view at work\<close>

text \<open>
  The Bubble Tea runtime around a view: keys arrive from the user, commands run concurrently, each ending
  with a message, and messages are delivered one at a time, in any order. A script picks what comes next.
\<close>

datatype act = Press string | Exec nat | Deliver nat

record ('m, 'c, 'e, 'w) ui_state =
  u_view :: 'm
  u_pending :: "'c list"
  u_inbox :: "'e list"
  u_world :: 'w

definition drop_nth :: "nat \<Rightarrow> 'a list \<Rightarrow> 'a list" where
  "drop_nth n xs = take n xs @ drop (Suc n) xs"

definition handle :: "('m \<Rightarrow> 'e \<Rightarrow> ('m \<times> 'c list) option) \<Rightarrow> 'e \<Rightarrow> ('m, 'c, 'e, 'w) ui_state \<Rightarrow>
    ('m, 'c, 'e, 'w) ui_state option" where
  "handle upd e u =
     map_option (\<lambda>(s, cs). u\<lparr>u_view := s, u_pending := u_pending u @ cs\<rparr>) (upd (u_view u) e)"

fun play_act :: "('m \<Rightarrow> 'e \<Rightarrow> ('m \<times> 'c list) option) \<Rightarrow> ('c \<Rightarrow> 'w \<Rightarrow> 'e \<times> 'w) \<Rightarrow> (string \<Rightarrow> 'e) \<Rightarrow>
    act \<Rightarrow> ('m, 'c, 'e, 'w) ui_state \<Rightarrow> ('m, 'c, 'e, 'w) ui_state option" where
  "play_act upd ex key (Press k) u = handle upd (key k) u"
| "play_act upd ex key (Exec n) u =
     (if n < length (u_pending u)
      then (case ex (u_pending u ! n) (u_world u) of
              (e, w) \<Rightarrow> Some (u\<lparr>u_pending := drop_nth n (u_pending u), u_inbox := u_inbox u @ [e], u_world := w\<rparr>))
      else Some u)"
| "play_act upd ex key (Deliver n) u =
     (if n < length (u_inbox u)
      then handle upd (u_inbox u ! n) (u\<lparr>u_inbox := drop_nth n (u_inbox u)\<rparr>)
      else Some u)"

fun play :: "('m \<Rightarrow> 'e \<Rightarrow> ('m \<times> 'c list) option) \<Rightarrow> ('c \<Rightarrow> 'w \<Rightarrow> 'e \<times> 'w) \<Rightarrow> (string \<Rightarrow> 'e) \<Rightarrow>
    act list \<Rightarrow> ('m, 'c, 'e, 'w) ui_state \<Rightarrow> ('m, 'c, 'e, 'w) ui_state option" where
  "play upd ex key [] u = Some u"
| "play upd ex key (a # as) u =
     (case play_act upd ex key a u of None \<Rightarrow> None | Some v \<Rightarrow> play upd ex key as v)"

text \<open>Whatever the script, the view has seen a list of messages.\<close>

lemma play_act_run:
  assumes "play_act upd ex key a u = Some v"
  shows "\<exists>es cs. run_view upd (u_view u) es = Some (u_view v, cs)"
proof (cases a)
  case (Press k)
  with assms obtain s cs where "upd (u_view u) (key k) = Some (s, cs)" "u_view v = s"
    by (auto simp: handle_def)
  then show ?thesis by (intro exI [of _ "[key k]"]) simp
next
  case (Exec n)
  with assms show ?thesis by (intro exI [of _ "[]"]) (auto split: if_splits prod.splits)
next
  case (Deliver n)
  show ?thesis
  proof (cases "n < length (u_inbox u)")
    case True
    with assms Deliver obtain s cs where "upd (u_view u) (u_inbox u ! n) = Some (s, cs)" "u_view v = s"
      by (auto simp: handle_def)
    then show ?thesis by (intro exI [of _ "[u_inbox u ! n]"]) simp
  next
    case False
    with assms Deliver show ?thesis by (intro exI [of _ "[]"]) simp
  qed
qed

lemma play_run:
  "play upd ex key as u = Some v \<Longrightarrow> \<exists>es cs. run_view upd (u_view u) es = Some (u_view v, cs)"
proof (induction "as" arbitrary: u)
  case (Cons a as)
  from Cons.prems obtain u1 where a: "play_act upd ex key a u = Some u1" "play upd ex key as u1 = Some v"
    by (auto split: option.splits)
  from play_act_run [OF a(1)] obtain es cs where e: "run_view upd (u_view u) es = Some (u_view u1, cs)" by blast
  from Cons.IH [OF a(2)] obtain fs ds where "run_view upd (u_view u1) fs = Some (u_view v, ds)" by blast
  with e have "run_view upd (u_view u) (es @ fs) = Some (u_view v, cs @ ds)" by (simp add: run_view_append)
  then show ?case by blast
qed (metis run_view.simps(1) play.simps(1) option.inject)

section \<open>Numbers typed into a form\<close>

text \<open>
  \<open>fmt.Sscanf (s, "%d", &n)\<close>: blanks, a sign and decimal digits; None, and n keeps its value, without
  digits or when the number does not fit into 64 bits. What follows the digits is ignored.
\<close>

definition scan_int :: "string \<Rightarrow> int option" where
  "scan_int s =
     (let t = dropWhile (\<lambda>c. is_space c \<and> c \<noteq> CHR 0x0A) s;
          neg = (t \<noteq> [] \<and> hd t = CHR ''-'');
          u = (if t \<noteq> [] \<and> (hd t = CHR ''-'' \<or> hd t = CHR ''+'') then tl t else t);
          ds = takeWhile is_digit u;
          n = (if neg then - int (digits_value ds) else int (digits_value ds))
      in if ds = [] \<or> n < - (2 ^ 63) \<or> 2 ^ 63 \<le> n then None else Some n)"

lemma digit_char_code: "d < 10 \<Longrightarrow> (of_char (digit_char d) :: nat) = 48 + d"
  by (simp add: digit_char_def)

lemma show_nat_digits: "\<forall>c \<in> set (show_nat n). is_digit c"
proof (induction n rule: show_nat.induct)
  case (1 n)
  then show ?case
    by (subst show_nat.simps) (auto simp: is_digit_def digit_char_code)
qed

lemma take_digits [simp]: "takeWhile is_digit (show_nat n) = show_nat n"
  unfolding takeWhile_eq_all_conv by (rule show_nat_digits)

lemma digits_value_snoc: "digits_value (s @ [c]) = 10 * digits_value s + (of_char c - 48)"
  by (simp add: digits_value_def)

lemma digits_value_show_nat [simp]: "digits_value (show_nat n) = n"
proof (induction n rule: show_nat.induct)
  case (1 n)
  show ?case
  proof (cases "n < 10")
    case True
    then show ?thesis by (subst show_nat.simps) (simp add: digits_value_def digit_char_code)
  next
    case False
    then have "digits_value (show_nat n) = 10 * (n div 10) + n mod 10"
      using 1 by (subst show_nat.simps) (simp add: digits_value_snoc digit_char_code)
    also have "\<dots> = n" by simp
    finally show ?thesis .
  qed
qed

lemma digit_not: "is_digit c \<Longrightarrow> \<not> is_space c \<and> c \<noteq> CHR ''-'' \<and> c \<noteq> CHR ''+''"
  by (auto simp: is_digit_def is_space_def)

theorem scan_show_int:
  assumes "- (2 ^ 63) \<le> n" "n < 2 ^ 63"
  shows "scan_int (show_int n) = Some n"
proof -
  let ?m = "show_nat (nat \<bar>n\<bar>)"
  have h: "is_digit (hd ?m)" using show_nat_digits hd_in_set [OF show_nat_nonempty] by blast
  have d: "dropWhile (\<lambda>c. is_space c \<and> c \<noteq> CHR 0x0A) ?m = ?m"
    using digit_not [OF h] show_nat_nonempty [of "nat \<bar>n\<bar>"] by (cases ?m) simp_all
  have sp: "\<not> is_space (CHR ''-'')" by (simp add: is_space_def)
  show ?thesis
  proof (cases "n < 0")
    case True
    then have "show_int n = CHR ''-'' # ?m" "- int (nat \<bar>n\<bar>) = n" by (simp_all add: show_int_def)
    then show ?thesis using assms sp by (simp add: scan_int_def Let_def)
  next
    case False
    then have "show_int n = ?m" "int (nat \<bar>n\<bar>) = n" by (simp_all add: show_int_def)
    then show ?thesis using d digit_not [OF h] assms by (simp add: scan_int_def Let_def)
  qed
qed

lemma plain_show_int [simp]: "plain (show_int n)"
  using show_nat_digits by (fastforce simp: plain_def show_int_def is_digit_def)

end
