(* ===== verification/Tab_Backups.thy ===== *)
theory Tab_Backups
  imports Widgets Restore Example_System
begin

text \<open>
  The backups tab (\<open>tui/views/backups/model.go\<close>): the list of backups, deleting one, restoring one,
  restoring all of them and the restore history. Which screen is shown, and of which
  record, is here; drawing it is in \<open>View_Backups\<close>. The tab is given a restore use case, as \<open>cmd/main.go\<close> always does.
\<close>

section \<open>State, messages and commands\<close>

datatype bk_mode =
    BkModeList | BkModeDetail | BkModeConfirmDelete | BkModeRestore | BkModeRestoring
  | BkModeRestoreAll | BkModeRestoringAll | BkModeHistory

record 'u bk_model =
  bk_mode :: bk_mode
  bk_records :: "backup_record list"
  bk_selected :: int
  bk_err :: string
  bk_message :: string
  bk_loading :: bool
  bk_spinner :: 'u
  bk_delete_id :: string
  bk_confirm :: 'u
  bk_restore_id :: string
  bk_inst_input :: 'u
  bk_db_input :: 'u
  bk_restore_confirm :: 'u
  bk_focused :: int
  bk_instances :: "inst_rec list"
  bk_rows :: "restore_point list"
  bk_history :: "restore_record list"

datatype bk_msg =
    BkLoaded "backup_record list" "inst_rec list" "gerr option"
  | BkDeleted "gerr option"
  | BkRestoreDone "gerr option"
  | BkPreview "restore_point list" "gerr option"
  | BkAllDone "gerr option"
  | BkHistoryLoaded "restore_record list" "gerr option"
  | BkTick nat
  | BkKey string
  | BkOther

datatype bk_cmd =
    BkSpin nat
  | BkInputCmd
  | BkLoadCmd
  | BkHistoryCmd
  | BkDeleteCmd string
  | BkPreviewCmd
  | BkRestoreCmd string string string
  | BkRestoreAllCmd string

definition bk_new :: "'u ui \<Rightarrow> 'u bk_model" where
  "bk_new U =
     \<lparr>bk_mode = BkModeList, bk_records = [], bk_selected = 0, bk_err = '''', bk_message = '''',
      bk_loading = False, bk_spinner = sp_new U, bk_delete_id = '''', bk_confirm = ti_new U ConfirmPhrase False,
      bk_restore_id = '''', bk_inst_input = ti_new U ''nombre de la instancia destino'' False,
      bk_db_input = ti_new U ''nombre de la base de datos destino'' False,
      bk_restore_confirm = ti_new U ConfirmPhrase False, bk_focused = 0, bk_instances = [], bk_rows = [],
      bk_history = []\<rparr>"

section \<open>Starting the dialogues\<close>

definition bk_spin :: "'u ui \<Rightarrow> 'u bk_model \<Rightarrow> bk_cmd" where
  "bk_spin U s = BkSpin (sp_tick U (bk_spinner s))"

definition bk_refresh :: "'u ui \<Rightarrow> 'u bk_model \<Rightarrow> 'u bk_model \<times> bk_cmd list" where
  "bk_refresh U s = (s\<lparr>bk_loading := True\<rparr>, [bk_spin U s, BkLoadCmd])"

definition bk_start_delete :: "'u ui \<Rightarrow> string \<Rightarrow> 'u bk_model \<Rightarrow> 'u bk_model" where
  "bk_start_delete U i s =
     s\<lparr>bk_delete_id := i, bk_confirm := ti_focus U (ti_set U '''' (bk_confirm s)), bk_err := '''',
       bk_mode := BkModeConfirmDelete\<rparr>"

definition bk_focus_field :: "'u ui \<Rightarrow> 'u bk_model \<Rightarrow> 'u bk_model" where
  "bk_focus_field U s =
     (let t = s\<lparr>bk_inst_input := ti_blur U (bk_inst_input s), bk_db_input := ti_blur U (bk_db_input s),
                bk_restore_confirm := ti_blur U (bk_restore_confirm s)\<rparr>
      in if bk_focused s = 0 then t\<lparr>bk_inst_input := ti_focus U (bk_inst_input t)\<rparr>
         else if bk_focused s = 1 then t\<lparr>bk_db_input := ti_focus U (bk_db_input t)\<rparr>
         else if bk_focused s = 2 then t\<lparr>bk_restore_confirm := ti_focus U (bk_restore_confirm t)\<rparr>
         else t)"

definition bk_start_restore :: "'u ui \<Rightarrow> backup_record \<Rightarrow> 'u bk_model \<Rightarrow> 'u bk_model" where
  "bk_start_restore U r s =
     bk_focus_field U (s\<lparr>bk_restore_id := b_id r, bk_inst_input := ti_set U (b_instance_name r) (bk_inst_input s),
       bk_db_input := ti_set U (b_database r) (bk_db_input s),
       bk_restore_confirm := ti_set U '''' (bk_restore_confirm s), bk_focused := 0, bk_err := '''',
       bk_mode := BkModeRestore\<rparr>)"

definition bk_start_restore_all :: "'u ui \<Rightarrow> 'u bk_model \<Rightarrow> 'u bk_model \<times> bk_cmd list" where
  "bk_start_restore_all U s =
     (s\<lparr>bk_mode := BkModeRestoreAll, bk_err := '''', bk_message := '''', bk_rows := [], bk_loading := True\<rparr>,
      [bk_spin U s, BkPreviewCmd])"

definition must_confirm :: string where
  "must_confirm = ''Debes escribir '' @ go_quote ConfirmPhrase @ '' para confirmar''"

section \<open>Keys\<close>

text \<open>What a key does to the selected record, when there are records.\<close>

definition bk_on_selected :: "'u bk_model \<Rightarrow> (backup_record \<Rightarrow> 'u bk_model) \<Rightarrow>
    ('u bk_model \<times> bk_cmd list) option" where
  "bk_on_selected s f =
     (if bk_records s = [] then Some (s, [])
      else map_option (\<lambda>r. (f r, [])) (slice_at (bk_records s) (bk_selected s)))"

definition bk_load_history :: "'u ui \<Rightarrow> 'u bk_model \<Rightarrow> 'u bk_model \<times> bk_cmd list" where
  "bk_load_history U s = (s\<lparr>bk_loading := True\<rparr>, [bk_spin U s, BkHistoryCmd])"

definition bk_update_list :: "'u ui \<Rightarrow> string \<Rightarrow> 'u bk_model \<Rightarrow> ('u bk_model \<times> bk_cmd list) option" where
  "bk_update_list U k s =
     (if k \<in> {''up'', ''k''}
      then Some (if 0 < bk_selected s then s\<lparr>bk_selected := bk_selected s - 1\<rparr> else s, [])
      else if k \<in> {''down'', ''j''}
      then Some (if bk_selected s < int (length (bk_records s)) - 1
                 then s\<lparr>bk_selected := bk_selected s + 1\<rparr> else s, [])
      else if k \<in> {''enter'', ''v''}
      then Some (if bk_records s \<noteq> [] then s\<lparr>bk_mode := BkModeDetail\<rparr> else s, [])
      else if k \<in> {''d'', ''delete''} then bk_on_selected s (\<lambda>r. bk_start_delete U (b_id r) s)
      else if k = ''R'' then bk_on_selected s (\<lambda>r. bk_start_restore U r s)
      else if k = ''A'' then Some (bk_start_restore_all U s)
      else if k = ''H'' then Some (bk_load_history U (s\<lparr>bk_mode := BkModeHistory\<rparr>))
      else if k \<in> {''r'', ''f5''} then Some (bk_refresh U s)
      else Some (s, []))"

definition bk_update_detail :: "'u ui \<Rightarrow> string \<Rightarrow> 'u bk_model \<Rightarrow> ('u bk_model \<times> bk_cmd list) option" where
  "bk_update_detail U k s =
     (if k \<in> {''esc'', ''q'', ''v''} then Some (s\<lparr>bk_mode := BkModeList\<rparr>, [])
      else if k \<in> {''d'', ''delete''} then bk_on_selected s (\<lambda>r. bk_start_delete U (b_id r) s)
      else if k = ''R'' then bk_on_selected s (\<lambda>r. bk_start_restore U r s)
      else Some (s, []))"

definition bk_update_history :: "'u ui \<Rightarrow> string \<Rightarrow> 'u bk_model \<Rightarrow> 'u bk_model \<times> bk_cmd list" where
  "bk_update_history U k s =
     (if k \<in> {''esc'', ''q'', ''H''} then (s\<lparr>bk_mode := BkModeList\<rparr>, [])
      else if k \<in> {''r'', ''f5''} then bk_load_history U s
      else (s, []))"

text \<open>A key for the input that has the focus.\<close>

definition bk_type_restore :: "'u ui \<Rightarrow> string \<Rightarrow> 'u bk_model \<Rightarrow> 'u bk_model \<times> bk_cmd list" where
  "bk_type_restore U k s =
     (if bk_focused s = 0
      then (case ti_key U k (bk_inst_input s) of (t, b) \<Rightarrow> (s\<lparr>bk_inst_input := t\<rparr>, widget_cmd BkInputCmd b))
      else if bk_focused s = 1
      then (case ti_key U k (bk_db_input s) of (t, b) \<Rightarrow> (s\<lparr>bk_db_input := t\<rparr>, widget_cmd BkInputCmd b))
      else if bk_focused s = 2
      then (case ti_key U k (bk_restore_confirm s) of
              (t, b) \<Rightarrow> (s\<lparr>bk_restore_confirm := t\<rparr>, widget_cmd BkInputCmd b))
      else (s, []))"

definition bk_update_restore :: "'u ui \<Rightarrow> string \<Rightarrow> 'u bk_model \<Rightarrow> 'u bk_model \<times> bk_cmd list" where
  "bk_update_restore U k s =
     (if k = ''esc'' then (s\<lparr>bk_mode := BkModeList\<rparr>, [])
      else if k \<in> {''tab'', ''down''}
      then (bk_focus_field U (s\<lparr>bk_focused := (bk_focused s + 1) mod 3\<rparr>), [])
      else if k \<in> {''shift+tab'', ''up''}
      then (bk_focus_field U (s\<lparr>bk_focused := (bk_focused s + 2) mod 3\<rparr>), [])
      else if k = ''enter''
      then (if bk_focused s < 2 then (bk_focus_field U (s\<lparr>bk_focused := bk_focused s + 1\<rparr>), [])
            else let n = trim_space (ti_value U (bk_inst_input s));
                     d = trim_space (ti_value U (bk_db_input s))
                 in if n = '''' \<or> d = ''''
                    then (s\<lparr>bk_err := ''Instancia y nombre de BD son requeridos''\<rparr>, [])
                    else if \<not> confirms ConfirmPhrase (ti_value U (bk_restore_confirm s))
                    then (s\<lparr>bk_err := must_confirm\<rparr>, [])
                    else (s\<lparr>bk_loading := True, bk_mode := BkModeRestoring\<rparr>,
                          [bk_spin U s, BkRestoreCmd (bk_restore_id s) n d]))
      else bk_type_restore U k s)"

definition bk_type_confirm :: "'u ui \<Rightarrow> string \<Rightarrow> 'u bk_model \<Rightarrow> 'u bk_model \<times> bk_cmd list" where
  "bk_type_confirm U k s =
     (case ti_key U k (bk_confirm s) of (t, b) \<Rightarrow> (s\<lparr>bk_confirm := t\<rparr>, widget_cmd BkInputCmd b))"

definition bk_update_confirm_delete :: "'u ui \<Rightarrow> string \<Rightarrow> 'u bk_model \<Rightarrow> 'u bk_model \<times> bk_cmd list" where
  "bk_update_confirm_delete U k s =
     (if k = ''esc'' then (s\<lparr>bk_mode := BkModeList, bk_delete_id := ''''\<rparr>, [])
      else if k = ''enter''
      then (if \<not> confirms ConfirmPhrase (ti_value U (bk_confirm s)) then (s\<lparr>bk_err := must_confirm\<rparr>, [])
            else (s\<lparr>bk_loading := True, bk_err := ''''\<rparr>, [bk_spin U s, BkDeleteCmd (bk_delete_id s)]))
      else bk_type_confirm U k s)"

definition bk_update_restore_all :: "'u ui \<Rightarrow> string \<Rightarrow> 'u bk_model \<Rightarrow> 'u bk_model \<times> bk_cmd list" where
  "bk_update_restore_all U k s =
     (if k = ''esc'' then (s\<lparr>bk_mode := BkModeList\<rparr>, [])
      else if k = ''enter''
      then (if bk_loading s then (s, [])
            else if \<not> confirms ConfirmPhrase (ti_value U (bk_confirm s)) then (s\<lparr>bk_err := must_confirm\<rparr>, [])
            else (s\<lparr>bk_loading := True, bk_mode := BkModeRestoringAll\<rparr>,
                  [bk_spin U s, BkRestoreAllCmd (ti_value U (bk_confirm s))]))
      else if bk_loading s then (s, [])
      else bk_type_confirm U k s)"

section \<open>Messages\<close>

definition bk_update_key :: "'u ui \<Rightarrow> string \<Rightarrow> 'u bk_model \<Rightarrow> ('u bk_model \<times> bk_cmd list) option" where
  "bk_update_key U k s =
     (case bk_mode s of
        BkModeList \<Rightarrow> bk_update_list U k s
      | BkModeDetail \<Rightarrow> bk_update_detail U k s
      | BkModeConfirmDelete \<Rightarrow> Some (bk_update_confirm_delete U k s)
      | BkModeRestore \<Rightarrow> Some (bk_update_restore U k s)
      | BkModeRestoreAll \<Rightarrow> Some (bk_update_restore_all U k s)
      | BkModeHistory \<Rightarrow> Some (bk_update_history U k s)
      | _ \<Rightarrow> Some (s, []))"

definition bk_loaded :: "backup_record list \<Rightarrow> inst_rec list \<Rightarrow> 'u bk_model \<Rightarrow> 'u bk_model" where
  "bk_loaded rs is s =
     s\<lparr>bk_records := rs, bk_instances := is,
       bk_selected := (if int (length rs) \<le> bk_selected s \<and> 0 < length rs then int (length rs) - 1
                       else bk_selected s)\<rparr>"

fun bk_update :: "'u ui \<Rightarrow> 'u bk_model \<Rightarrow> bk_msg \<Rightarrow> ('u bk_model \<times> bk_cmd list) option" where
  "bk_update U s (BkLoaded rs is e) =
     (let t = s\<lparr>bk_loading := False, bk_err := ''''\<rparr>
      in Some (case e of Some x \<Rightarrow> t\<lparr>bk_err := err_text x\<rparr> | None \<Rightarrow> bk_loaded rs is t, []))"
| "bk_update U s (BkDeleted e) =
     (let t = s\<lparr>bk_loading := False\<rparr>
      in Some (bk_refresh U (case e of Some x \<Rightarrow> t\<lparr>bk_err := err_text x\<rparr>
           | None \<Rightarrow> t\<lparr>bk_message := ''Respaldo eliminado correctamente.'', bk_mode := BkModeList\<rparr>)))"
| "bk_update U s (BkRestoreDone e) =
     (let t = s\<lparr>bk_loading := False, bk_mode := BkModeList\<rparr>
      in Some (case e of Some x \<Rightarrow> t\<lparr>bk_err := ''Error al restaurar: '' @ err_text x\<rparr>
           | None \<Rightarrow> t\<lparr>bk_message := ''Restauraci'' @ u_o @ ''n completada correctamente.''\<rparr>, []))"
| "bk_update U s (BkPreview rows e) =
     (let t = s\<lparr>bk_loading := False\<rparr>
      in Some (case e of Some x \<Rightarrow> t\<lparr>bk_err := err_text x, bk_mode := BkModeList\<rparr>
           | None \<Rightarrow> t\<lparr>bk_rows := rows, bk_confirm := ti_focus U (ti_set U '''' (bk_confirm t))\<rparr>, []))"
| "bk_update U s (BkAllDone e) =
     (let t = s\<lparr>bk_loading := False, bk_mode := BkModeList\<rparr>
      in Some (bk_refresh U (case e of Some x \<Rightarrow> t\<lparr>bk_err := ''Error al restaurar todas las BD: '' @ err_text x\<rparr>
           | None \<Rightarrow> t\<lparr>bk_message := ''Restauraci'' @ u_o @ ''n de todas las bases de datos completada.''\<rparr>)))"
| "bk_update U s (BkHistoryLoaded rs e) =
     (let t = s\<lparr>bk_loading := False\<rparr>
      in Some (case e of Some x \<Rightarrow> t\<lparr>bk_err := err_text x\<rparr> | None \<Rightarrow> t\<lparr>bk_history := rs\<rparr>, []))"
| "bk_update U s (BkTick n) =
     Some (if bk_loading s
           then (case sp_update U n (bk_spinner s) of
                   (p, b) \<Rightarrow> (s\<lparr>bk_spinner := p\<rparr>, widget_cmd (BkSpin (sp_tick U p)) b))
           else (s, []))"
| "bk_update U s (BkKey k) = bk_update_key U k s"
| "bk_update U s BkOther = Some (s, [])"

section \<open>Commands\<close>

definition bk_load :: "('d, 's, 'm) env \<Rightarrow> ('d, 's, 'm) sys \<Rightarrow> bk_msg" where
  "bk_load E w =
     (case br_find_all E w of
        Inl e \<Rightarrow> BkLoaded [] [] (Some e)
      | Inr rs \<Rightarrow> BkLoaded (rev rs) (case restore_find_all E w of Inl e \<Rightarrow> [] | Inr is \<Rightarrow> is) None)"

fun bk_exec :: "('d, 's, 'm) env \<Rightarrow> bk_cmd \<Rightarrow> ('d, 's, 'm) sys \<Rightarrow> bk_msg \<times> ('d, 's, 'm) sys" where
  "bk_exec E (BkSpin n) w = (BkTick n, w)"
| "bk_exec E BkInputCmd w = (BkOther, w)"
| "bk_exec E BkLoadCmd w = (bk_load E w, w)"
| "bk_exec E BkHistoryCmd w =
     (case find_history E w of Inl e \<Rightarrow> BkHistoryLoaded [] (Some e) | Inr rs \<Rightarrow> BkHistoryLoaded rs None, w)"
| "bk_exec E (BkDeleteCmd i) w = (case delete_backup E i w of (e, w1) \<Rightarrow> (BkDeleted e, w1))"
| "bk_exec E BkPreviewCmd w =
     (case preview_restore_all E w of Inl e \<Rightarrow> BkPreview [] (Some e) | Inr rows \<Rightarrow> BkPreview rows None, w)"
| "bk_exec E (BkRestoreCmd i n d) w = (case restore_backup E i n d w of (e, w1) \<Rightarrow> (BkRestoreDone e, w1))"
| "bk_exec E (BkRestoreAllCmd c) w = (case restore_all E c w of (e, w1) \<Rightarrow> (BkAllDone e, w1))"

section \<open>The screen\<close>

datatype bk_screen =
    BkShowList | BkShowDetail backup_record | BkShowConfirmDelete | BkShowRestore backup_record
  | BkShowRestoring | BkShowRestoreAll | BkShowHistory

definition bk_view :: "'u bk_model \<Rightarrow> bk_screen option" where
  "bk_view s =
     (case bk_mode s of
        BkModeDetail \<Rightarrow> if bk_records s \<noteq> []
          then map_option BkShowDetail (slice_at (bk_records s) (bk_selected s)) else Some BkShowList
      | BkModeConfirmDelete \<Rightarrow> Some (if bk_delete_id s = '''' then BkShowList else BkShowConfirmDelete)
      | BkModeRestore \<Rightarrow> if bk_records s \<noteq> []
          then map_option BkShowRestore (slice_at (bk_records s) (bk_selected s)) else Some BkShowList
      | BkModeRestoring \<Rightarrow> Some BkShowRestoring
      | BkModeRestoreAll \<Rightarrow> Some BkShowRestoreAll
      | BkModeRestoringAll \<Rightarrow> Some BkShowRestoring
      | BkModeHistory \<Rightarrow> Some BkShowHistory
      | BkModeList \<Rightarrow> Some BkShowList)"

section \<open>The selection stays in range\<close>

definition bk_inv :: "'u bk_model \<Rightarrow> bool" where
  "bk_inv s \<longleftrightarrow> 0 \<le> bk_selected s \<and> (bk_records s = [] \<or> bk_selected s < int (length (bk_records s))) \<and>
     0 \<le> bk_focused s \<and> bk_focused s \<le> 2"

lemma bk_focus_field_sel [simp]:
  "bk_mode (bk_focus_field U s) = bk_mode s" "bk_records (bk_focus_field U s) = bk_records s"
  "bk_selected (bk_focus_field U s) = bk_selected s" "bk_focused (bk_focus_field U s) = bk_focused s"
  "bk_restore_id (bk_focus_field U s) = bk_restore_id s" "bk_delete_id (bk_focus_field U s) = bk_delete_id s"
  by (simp_all add: bk_focus_field_def Let_def)

lemmas bk_start_defs = bk_start_delete_def bk_start_restore_def bk_start_restore_all_def bk_refresh_def
  bk_load_history_def bk_loaded_def

lemma bk_new_inv [simp]: "bk_inv (bk_new U)"
  by (simp add: bk_inv_def bk_new_def)

lemma bk_selected_slice:
  "bk_inv s \<Longrightarrow> bk_records s \<noteq> [] \<Longrightarrow> slice_at (bk_records s) (bk_selected s) = Some (bk_records s ! nat (bk_selected s))"
  by (simp add: bk_inv_def)

lemma bk_inv_upd [simp]:
  "bk_inv (s\<lparr>bk_mode := a\<rparr>) = bk_inv s" "bk_inv (s\<lparr>bk_err := b\<rparr>) = bk_inv s"
  "bk_inv (s\<lparr>bk_message := b\<rparr>) = bk_inv s" "bk_inv (s\<lparr>bk_loading := c\<rparr>) = bk_inv s"
  "bk_inv (s\<lparr>bk_spinner := u\<rparr>) = bk_inv s" "bk_inv (s\<lparr>bk_delete_id := b\<rparr>) = bk_inv s"
  "bk_inv (s\<lparr>bk_confirm := u\<rparr>) = bk_inv s" "bk_inv (s\<lparr>bk_restore_id := b\<rparr>) = bk_inv s"
  "bk_inv (s\<lparr>bk_inst_input := u\<rparr>) = bk_inv s" "bk_inv (s\<lparr>bk_db_input := u\<rparr>) = bk_inv s"
  "bk_inv (s\<lparr>bk_restore_confirm := u\<rparr>) = bk_inv s" "bk_inv (s\<lparr>bk_rows := ps\<rparr>) = bk_inv s"
  "bk_inv (s\<lparr>bk_history := h\<rparr>) = bk_inv s" "bk_inv (bk_focus_field U s) = bk_inv s"
  by (simp_all add: bk_inv_def)

lemma bk_inv_focus: "bk_inv s \<Longrightarrow> 0 \<le> f \<Longrightarrow> f \<le> 2 \<Longrightarrow> bk_inv (s\<lparr>bk_focused := f\<rparr>)"
  by (simp add: bk_inv_def)

lemma bk_inv_selected:
  "bk_inv s \<Longrightarrow> 0 < bk_selected s \<Longrightarrow> bk_inv (s\<lparr>bk_selected := bk_selected s - 1\<rparr>)"
  "bk_inv s \<Longrightarrow> bk_selected s < int (length (bk_records s)) - 1 \<Longrightarrow> bk_inv (s\<lparr>bk_selected := bk_selected s + 1\<rparr>)"
  by (auto simp: bk_inv_def)

lemma bk_on_selected_after: "(\<And>r. P (f r) []) \<Longrightarrow> P s [] \<Longrightarrow> after P (bk_on_selected s f)"
  by (auto simp: bk_on_selected_def slice_at_def)

lemma bk_on_selected_total: "bk_inv s \<Longrightarrow> \<exists>t cs. bk_on_selected s f = Some (t, cs)"
  by (simp add: bk_on_selected_def bk_selected_slice)

lemma bk_start_inv [simp]:
  "bk_inv s \<Longrightarrow> bk_inv (bk_start_delete U i s)" "bk_inv s \<Longrightarrow> bk_inv (bk_start_restore U r s)"
  "bk_inv s \<Longrightarrow> bk_inv (fst (bk_start_restore_all U s))" "bk_inv s \<Longrightarrow> bk_inv (fst (bk_refresh U s))"
  "bk_inv s \<Longrightarrow> bk_inv (fst (bk_load_history U s))"
  by (simp_all add: bk_start_defs bk_inv_focus)

lemma bk_type_inv [simp]:
  "bk_inv s \<Longrightarrow> bk_inv (fst (bk_type_restore U k s))" "bk_inv s \<Longrightarrow> bk_inv (fst (bk_type_confirm U k s))"
  by (simp_all add: bk_type_restore_def bk_type_confirm_def split: prod.split)

lemma bk_key_inv:
  assumes "bk_inv s"
  shows "after (\<lambda>t cs. bk_inv t) (bk_update_key U k s)"
proof -
  have f: "0 \<le> bk_focused s" "bk_focused s \<le> 2" using assms by (simp_all add: bk_inv_def)
  have "after (\<lambda>t cs. bk_inv t) (bk_update_list U k s)"
    using assms by (simp add: bk_update_list_def bk_inv_selected bk_on_selected_after)
  moreover have "after (\<lambda>t cs. bk_inv t) (bk_update_detail U k s)"
    using assms by (simp add: bk_update_detail_def bk_on_selected_after)
  moreover have "bk_inv (fst (bk_update_restore U k s))"
    using assms f by (simp add: bk_update_restore_def Let_def bk_inv_focus)
  moreover have "bk_inv (fst (bk_update_confirm_delete U k s))" "bk_inv (fst (bk_update_restore_all U k s))"
      "bk_inv (fst (bk_update_history U k s))"
    using assms by (simp_all add: bk_update_confirm_delete_def bk_update_restore_all_def bk_update_history_def)
  ultimately show ?thesis
    using assms by (cases "bk_mode s") (simp_all add: bk_update_key_def)
qed

lemma bk_update_inv: "bk_inv s \<Longrightarrow> bk_update U s m = Some (s', cs) \<Longrightarrow> bk_inv s'"
proof (cases m)
  case (BkKey k)
  then show "bk_inv s \<Longrightarrow> bk_update U s m = Some (s', cs) \<Longrightarrow> bk_inv s'"
    using bk_key_inv [of s U k] by simp
next
  case (BkLoaded rs "is" e)
  then show "bk_inv s \<Longrightarrow> bk_update U s m = Some (s', cs) \<Longrightarrow> bk_inv s'"
    by (auto simp: Let_def bk_loaded_def bk_inv_def split: option.splits if_splits)
qed (auto simp: bk_refresh_def Let_def split: if_splits option.splits prod.splits)

lemma bk_key_total: "bk_inv s \<Longrightarrow> bk_update_key U k s \<noteq> None"
  by (cases "bk_mode s")
    (simp_all add: bk_update_key_def bk_update_list_def bk_update_detail_def bk_on_selected_total)

lemma bk_update_total: "bk_inv s \<Longrightarrow> bk_update U s m \<noteq> None"
  by (cases m) (simp_all add: bk_key_total Let_def)

interpretation bk: safe_tab "bk_update U" bk_inv for U
  by unfold_locales (rule bk_update_inv bk_update_total; assumption)+

lemma bk_view_total: "bk_inv s \<Longrightarrow> bk_view s \<noteq> None"
  by (cases "bk_mode s") (auto simp: bk_view_def bk_selected_slice)

section \<open>Who asks for a destructive command\<close>

text \<open>The three dialogues that end in one, with the backup they are about.\<close>

definition bk_restoring :: "'u bk_model \<Rightarrow> string \<Rightarrow> bool" where
  "bk_restoring s i \<longleftrightarrow> bk_mode s = BkModeRestore \<and> bk_restore_id s = i"

definition bk_deleting :: "'u bk_model \<Rightarrow> string \<Rightarrow> bool" where
  "bk_deleting s i \<longleftrightarrow> bk_mode s = BkModeConfirmDelete \<and> bk_delete_id s = i"

text \<open>A key pressed on the selected backup, in the list or on its page.\<close>

definition bk_chosen :: "string set \<Rightarrow> 'u bk_model \<Rightarrow> bk_msg \<Rightarrow> string \<Rightarrow> bool" where
  "bk_chosen ks s m i \<longleftrightarrow> (\<exists>k \<in> ks. m = BkKey k) \<and> bk_mode s \<in> {BkModeList, BkModeDetail} \<and>
     (\<exists>r. slice_at (bk_records s) (bk_selected s) = Some r \<and> b_id r = i)"

lemma bk_on_selected_chosen:
  assumes "\<And>r. slice_at (bk_records s) (bk_selected s) = Some r \<Longrightarrow> P (f r) []" "bk_records s = [] \<Longrightarrow> P s []"
  shows "after P (bk_on_selected s f)"
  using assms by (auto simp: bk_on_selected_def slice_at_def)

lemma bk_type_mode [simp]:
  "bk_mode (fst (bk_type_restore U k s)) = bk_mode s" "bk_mode (fst (bk_type_confirm U k s)) = bk_mode s"
  "bk_restore_id (fst (bk_type_restore U k s)) = bk_restore_id s"
  "bk_delete_id (fst (bk_type_confirm U k s)) = bk_delete_id s"
  by (simp_all add: bk_type_restore_def bk_type_confirm_def split: prod.split)

lemma bk_start_mode [simp]:
  "bk_mode (bk_start_delete U i s) = BkModeConfirmDelete" "bk_delete_id (bk_start_delete U i s) = i"
  "bk_mode (bk_start_restore U r s) = BkModeRestore" "bk_restore_id (bk_start_restore U r s) = b_id r"
  "bk_mode (fst (bk_start_restore_all U s)) = BkModeRestoreAll" "bk_mode (fst (bk_refresh U s)) = bk_mode s"
  "bk_mode (fst (bk_load_history U s)) = bk_mode s"
  "bk_restore_id (fst (bk_refresh U s)) = bk_restore_id s" "bk_delete_id (fst (bk_refresh U s)) = bk_delete_id s"
  by (simp_all add: bk_start_defs)

text \<open>
  The confirmation field of an open dialogue: emptied and given its focus when the dialogue is opened, and
  what each message makes of it. In the form for restoring the word goes to the third input, once
  it has the focus; in the dialogue for deleting the field is shared with the one for restoring all,
  whose preview empties it.
\<close>

definition bk_focus_word :: "'u ui \<Rightarrow> int \<Rightarrow> 'u \<Rightarrow> int \<times> 'u" where
  "bk_focus_word U n u = (n, if n = 2 then ti_focus U (ti_blur U u) else ti_blur U u)"

definition bk_restore_word :: "'u ui \<Rightarrow> int \<times> 'u \<Rightarrow> bk_msg \<Rightarrow> int \<times> 'u" where
  "bk_restore_word U x m =
     (case (x, m) of
        ((n, u), BkKey k) \<Rightarrow>
          if k \<in> {''tab'', ''down''} then bk_focus_word U ((n + 1) mod 3) u
          else if k \<in> {''shift+tab'', ''up''} then bk_focus_word U ((n + 2) mod 3) u
          else if k = ''enter'' then (if n < 2 then bk_focus_word U (n + 1) u else (n, u))
          else if n = 2 then (n, fst (ti_key U k u)) else (n, u)
      | _ \<Rightarrow> x)"

definition bk_empty_word :: "'u ui \<Rightarrow> 'u \<Rightarrow> 'u" where
  "bk_empty_word U u = ti_focus U (ti_set U '''' u)"

definition bk_delete_word :: "'u ui \<Rightarrow> 'u \<Rightarrow> bk_msg \<Rightarrow> 'u" where
  "bk_delete_word U u m =
     (case m of
        BkKey k \<Rightarrow> if k = ''enter'' then u else fst (ti_key U k u)
      | BkPreview rows None \<Rightarrow> bk_empty_word U u
      | _ \<Rightarrow> u)"

lemma bk_empty_word_value: "ui_ok U \<Longrightarrow> ti_value U (bk_empty_word U u) = ''''"
  by (simp add: bk_empty_word_def ui_okD plain_def)

abbreviation bk_restore_field :: "'u bk_model \<Rightarrow> int \<times> 'u" where
  "bk_restore_field s \<equiv> (bk_focused s, bk_restore_confirm s)"

abbreviation bk_restore_empty :: "'u ui \<Rightarrow> 'u bk_model \<Rightarrow> int \<times> 'u" where
  "bk_restore_empty U s \<equiv> bk_focus_word U 0 (ti_set U '''' (bk_restore_confirm s))"

abbreviation bk_delete_empty :: "'u ui \<Rightarrow> 'u bk_model \<Rightarrow> 'u" where
  "bk_delete_empty U s \<equiv> bk_empty_word U (bk_confirm s)"

lemma bk_focus_word_field:
  "bk_restore_field (bk_focus_field U s) = bk_focus_word U (bk_focused s) (bk_restore_confirm s)"
  by (simp add: bk_focus_field_def bk_focus_word_def Let_def)

lemma bk_restore_key_word:
  "k \<noteq> ''esc'' \<Longrightarrow> bk_restore_field (fst (bk_update_restore U k s)) = bk_restore_word U (bk_restore_field s) (BkKey k)"
  by (simp add: bk_update_restore_def bk_restore_word_def bk_focus_word_field bk_type_restore_def Let_def
      split: prod.split del: bk_focus_field_sel)

lemma bk_delete_key_word:
  "k \<noteq> ''esc'' \<Longrightarrow> bk_confirm (fst (bk_update_confirm_delete U k s)) = bk_delete_word U (bk_confirm s) (BkKey k)"
  by (simp add: bk_update_confirm_delete_def bk_delete_word_def bk_type_confirm_def split: prod.split)

lemma bk_start_word:
  "bk_restore_field (bk_start_restore U r s) = bk_restore_empty U s"
  "bk_confirm (bk_start_delete U i s) = bk_delete_empty U s"
  by (simp_all add: bk_start_restore_def bk_start_delete_def bk_focus_word_field bk_empty_word_def del: bk_focus_field_sel)

text \<open>What a message leaves of an open dialogue.\<close>

definition bk_restore_arms :: "'u ui \<Rightarrow> 'u bk_model \<Rightarrow> bk_msg \<Rightarrow> 'u bk_model \<Rightarrow> string \<Rightarrow> bool" where
  "bk_restore_arms U s m t i \<longleftrightarrow>
     bk_restoring s i \<and> m \<noteq> BkKey ''esc'' \<and> bk_restore_field t = bk_restore_word U (bk_restore_field s) m \<or>
     bk_chosen {''R''} s m i \<and> bk_restore_field t = bk_restore_empty U s"

definition bk_delete_arms :: "'u ui \<Rightarrow> 'u bk_model \<Rightarrow> bk_msg \<Rightarrow> 'u bk_model \<Rightarrow> string \<Rightarrow> bool" where
  "bk_delete_arms U s m t i \<longleftrightarrow>
     bk_deleting s i \<and> m \<noteq> BkKey ''esc'' \<and> bk_confirm t = bk_delete_word U (bk_confirm s) m \<or>
     bk_chosen {''d'', ''delete''} s m i \<and> bk_confirm t = bk_delete_empty U s"

definition bk_arms :: "'u ui \<Rightarrow> 'u bk_model \<Rightarrow> bk_msg \<Rightarrow> 'u bk_model \<Rightarrow> bool" where
  "bk_arms U s m t \<longleftrightarrow> (\<forall>i. (bk_restoring t i \<longrightarrow> bk_restore_arms U s m t i) \<and> (bk_deleting t i \<longrightarrow> bk_delete_arms U s m t i))"

lemma bk_arms_other: "bk_mode t \<noteq> BkModeRestore \<Longrightarrow> bk_mode t \<noteq> BkModeConfirmDelete \<Longrightarrow> bk_arms U s m t"
  by (simp add: bk_arms_def bk_restoring_def bk_deleting_def)

lemma bk_arms_chosen:
  assumes "bk_mode s \<in> {BkModeList, BkModeDetail}" "slice_at (bk_records s) (bk_selected s) = Some r"
  shows "k \<in> {''d'', ''delete''} \<Longrightarrow> bk_arms U s (BkKey k) (bk_start_delete U (b_id r) s)"
    "bk_arms U s (BkKey ''R'') (bk_start_restore U r s)"
  using assms bk_start_word(1) [of U r s] bk_start_word(2) [of U "b_id r" s]
  by (auto simp: bk_arms_def bk_restoring_def bk_deleting_def bk_chosen_def bk_restore_arms_def bk_delete_arms_def)

lemma bk_arms_start:
  assumes "bk_mode s \<in> {BkModeList, BkModeDetail}"
  shows "k \<in> {''d'', ''delete''} \<Longrightarrow>
      after (\<lambda>t cs. bk_arms U s (BkKey k) t) (bk_on_selected s (\<lambda>r. bk_start_delete U (b_id r) s))"
    "after (\<lambda>t cs. bk_arms U s (BkKey ''R'') t) (bk_on_selected s (\<lambda>r. bk_start_restore U r s))"
  using assms bk_arms_chosen [OF assms, where U = U] bk_arms_other [of s U s]
  by (auto intro!: bk_on_selected_chosen)

lemma bk_key_arms: "after (\<lambda>t cs. bk_arms U s (BkKey k) t) (bk_update_key U k s)"
proof -
  let ?A = "bk_arms U s (BkKey k)"
  have "after (\<lambda>t cs. ?A t) (bk_update_list U k s)" if "bk_mode s = BkModeList"
    using that bk_arms_start [where s = s and U = U] by (simp add: bk_update_list_def bk_arms_other)
  moreover have "after (\<lambda>t cs. ?A t) (bk_update_detail U k s)" if "bk_mode s = BkModeDetail"
    using that bk_arms_start [where s = s and U = U] by (simp add: bk_update_detail_def bk_arms_other)
  moreover have "?A (fst (bk_update_restore U k s))" if "bk_mode s = BkModeRestore"
  proof (cases "k = ''esc''")
    case True
    then show ?thesis by (simp add: bk_update_restore_def bk_arms_other)
  next
    case False
    have "bk_restore_id (fst (bk_update_restore U k s)) = bk_restore_id s \<and>
        bk_mode (fst (bk_update_restore U k s)) \<noteq> BkModeConfirmDelete"
      using that by (simp add: bk_update_restore_def Let_def)
    with bk_restore_key_word [OF False, of U s] that False show ?thesis
      by (auto simp: bk_arms_def bk_restoring_def bk_deleting_def bk_restore_arms_def)
  qed
  moreover have "?A (fst (bk_update_confirm_delete U k s))" if "bk_mode s = BkModeConfirmDelete"
  proof (cases "k = ''esc''")
    case True
    then show ?thesis by (simp add: bk_update_confirm_delete_def bk_arms_other)
  next
    case False
    have "bk_delete_id (fst (bk_update_confirm_delete U k s)) = bk_delete_id s \<and>
        bk_mode (fst (bk_update_confirm_delete U k s)) \<noteq> BkModeRestore"
      using that False by (simp add: bk_update_confirm_delete_def)
    with bk_delete_key_word [OF False, of U s] that False show ?thesis
      by (auto simp: bk_arms_def bk_restoring_def bk_deleting_def bk_delete_arms_def)
  qed
  moreover have "?A (fst (bk_update_restore_all U k s))" if "bk_mode s = BkModeRestoreAll"
    using that by (simp add: bk_update_restore_all_def bk_arms_other)
  moreover have "?A (fst (bk_update_history U k s))" if "bk_mode s = BkModeHistory"
    using that by (simp add: bk_update_history_def bk_arms_other)
  ultimately show ?thesis
    by (cases "bk_mode s") (simp_all add: bk_update_key_def bk_arms_other)
qed

lemma bk_msg_arms:
  assumes "bk_update U s m = Some (t, cs)"
  shows "bk_restoring t i \<Longrightarrow> bk_restore_arms U s m t i" "bk_deleting t i \<Longrightarrow> bk_delete_arms U s m t i"
proof -
  have "(bk_restoring t i \<longrightarrow> bk_restore_arms U s m t i) \<and> (bk_deleting t i \<longrightarrow> bk_delete_arms U s m t i)"
  proof (cases m)
    case (BkKey k)
    with assms bk_key_arms [of U s k] show ?thesis by (simp add: bk_arms_def)
  qed (use assms in \<open>auto simp: Let_def bk_restoring_def bk_deleting_def bk_refresh_def bk_loaded_def
        bk_restore_arms_def bk_delete_arms_def bk_restore_word_def bk_delete_word_def bk_empty_word_def
        split: option.splits if_splits prod.splits\<close>)
  then show "bk_restoring t i \<Longrightarrow> bk_restore_arms U s m t i" "bk_deleting t i \<Longrightarrow> bk_delete_arms U s m t i"
    by blast+
qed

interpretation bk_restore: armed_view "bk_update U" "bk_new U" bk_restoring "bk_chosen {''R''}" "\<lambda>m. m \<noteq> BkKey ''esc''"
    bk_restore_field "bk_restore_empty U" "bk_restore_word U" for U
  by unfold_locales (simp add: bk_restoring_def bk_new_def, drule (1) bk_msg_arms(1), simp only: bk_restore_arms_def)

interpretation bk_delete: armed_view "bk_update U" "bk_new U" bk_deleting "bk_chosen {''d'', ''delete''}"
    "\<lambda>m. m \<noteq> BkKey ''esc''" bk_confirm "bk_delete_empty U" "bk_delete_word U" for U
  by unfold_locales (simp add: bk_deleting_def bk_new_def, drule (1) bk_msg_arms(2), simp only: bk_delete_arms_def)

lemma bk_start_cmds [simp]:
  "snd (bk_start_restore_all U s) = [bk_spin U s, BkPreviewCmd]" "snd (bk_refresh U s) = [bk_spin U s, BkLoadCmd]"
  "snd (bk_load_history U s) = [bk_spin U s, BkHistoryCmd]"
  by (simp_all add: bk_start_defs)

definition bk_safe_cmd :: "bk_cmd \<Rightarrow> bool" where
  "bk_safe_cmd c = (case c of BkRestoreCmd i n d \<Rightarrow> False | BkDeleteCmd i \<Rightarrow> False | BkRestoreAllCmd x \<Rightarrow> False | _ \<Rightarrow> True)"

lemma bk_safe_cmd_simps [simp]:
  "bk_safe_cmd (bk_spin U s)" "bk_safe_cmd BkLoadCmd" "bk_safe_cmd BkPreviewCmd" "bk_safe_cmd BkHistoryCmd"
  "bk_safe_cmd BkInputCmd" "bk_safe_cmd (BkSpin n)" "\<not> bk_safe_cmd (BkRestoreCmd i n' d)"
  "\<not> bk_safe_cmd (BkDeleteCmd i)" "\<not> bk_safe_cmd (BkRestoreAllCmd x)"
  by (simp_all add: bk_safe_cmd_def bk_spin_def)

lemma bk_type_cmds [simp]:
  "Ball (set (snd (bk_type_restore U k s))) bk_safe_cmd" "Ball (set (snd (bk_type_confirm U k s))) bk_safe_cmd"
  by (auto simp: bk_type_restore_def bk_type_confirm_def widget_cmd_def split: prod.splits)

text \<open>What a command that destroys data needs of the state in which the last key is pressed.\<close>

definition bk_allowed :: "'u ui \<Rightarrow> 'u bk_model \<Rightarrow> bk_msg \<Rightarrow> bk_cmd \<Rightarrow> bool" where
  "bk_allowed U s m c =
     (case c of
        BkRestoreCmd i n d \<Rightarrow> m = BkKey ''enter'' \<and> bk_restoring s i \<and>
          confirms ConfirmPhrase (ti_value U (bk_restore_confirm s)) \<and> n \<noteq> '''' \<and> d \<noteq> '''' \<and>
          n = trim_space (ti_value U (bk_inst_input s)) \<and> d = trim_space (ti_value U (bk_db_input s))
      | BkDeleteCmd i \<Rightarrow> m = BkKey ''enter'' \<and> bk_deleting s i \<and> confirms ConfirmPhrase (ti_value U (bk_confirm s))
      | BkRestoreAllCmd x \<Rightarrow> m = BkKey ''enter'' \<and> bk_mode s = BkModeRestoreAll \<and> x = ti_value U (bk_confirm s) \<and>
          confirms ConfirmPhrase x
      | _ \<Rightarrow> True)"

lemma bk_safe_allowed: "bk_safe_cmd c \<Longrightarrow> bk_allowed U s m c"
  by (cases c) (simp_all add: bk_allowed_def)

lemma bk_safe_all: "Ball (set cs) bk_safe_cmd \<Longrightarrow> Ball (set cs) (bk_allowed U s m)"
  by (blast intro: bk_safe_allowed)

lemma bk_key_cmds: "after (\<lambda>t cs. Ball (set cs) (bk_allowed U s (BkKey k))) (bk_update_key U k s)"
proof -
  have sel: "after (\<lambda>t cs. Ball (set cs) (bk_allowed U s (BkKey j))) (bk_on_selected s f)" for f j
    by (simp add: bk_on_selected_after)
  have "after (\<lambda>t cs. Ball (set cs) (bk_allowed U s (BkKey k))) (bk_update_list U k s)"
    by (simp add: bk_update_list_def sel bk_safe_allowed)
  moreover have "after (\<lambda>t cs. Ball (set cs) (bk_allowed U s (BkKey k))) (bk_update_detail U k s)"
    by (simp add: bk_update_detail_def sel)
  moreover have "Ball (set (snd (bk_update_restore U k s))) (bk_allowed U s (BkKey k))" if "bk_mode s = BkModeRestore"
    using that
    by (simp add: bk_update_restore_def Let_def bk_safe_allowed bk_safe_all)
      (simp add: bk_allowed_def bk_restoring_def)
  moreover have "Ball (set (snd (bk_update_confirm_delete U k s))) (bk_allowed U s (BkKey k))"
    if "bk_mode s = BkModeConfirmDelete"
    using that
    by (simp add: bk_update_confirm_delete_def bk_safe_allowed bk_safe_all)
      (simp add: bk_allowed_def bk_deleting_def)
  moreover have "Ball (set (snd (bk_update_restore_all U k s))) (bk_allowed U s (BkKey k))"
    if "bk_mode s = BkModeRestoreAll"
    using that
    by (simp add: bk_update_restore_all_def bk_safe_allowed bk_safe_all) (simp add: bk_allowed_def)
  moreover have "Ball (set (snd (bk_update_history U k s))) (bk_allowed U s (BkKey k))"
    by (simp add: bk_update_history_def bk_safe_allowed)
  ultimately show ?thesis by (cases "bk_mode s") (simp_all add: bk_update_key_def)
qed

lemma bk_cmds:
  assumes "bk_update U s m = Some (t, cs)" "c \<in> set cs"
  shows "bk_allowed U s m c"
proof (cases m)
  case (BkKey k)
  with assms bk_key_cmds [of U s k] show ?thesis by simp
qed (use assms in \<open>auto simp: Let_def bk_refresh_def widget_cmd_def intro!: bk_safe_allowed split: option.splits if_splits prod.splits\<close>)

section \<open>Properties\<close>

text \<open>
  The dialogue about backup i was opened, with one of the given keys, on the selected backup, and not left
  by esc since; Q holds of the state it was opened in and of the messages since.
\<close>

definition bk_opened :: "'u ui \<Rightarrow> bk_msg list \<Rightarrow> string set \<Rightarrow> string \<Rightarrow> ('u bk_model \<Rightarrow> bk_msg list \<Rightarrow> bool) \<Rightarrow> bool" where
  "bk_opened U ms ks i Q \<longleftrightarrow> (\<exists>pre k post s1 cs1 r. ms = pre @ BkKey k # post \<and> k \<in> ks \<and>
     run_view (bk_update U) (bk_new U) pre = Some (s1, cs1) \<and> bk_mode s1 \<in> {BkModeList, BkModeDetail} \<and>
     slice_at (bk_records s1) (bk_selected s1) = Some r \<and> b_id r = i \<and> BkKey ''esc'' \<notin> set post \<and> Q s1 post)"

text \<open>
  C37. The backups tab never panics, whatever keys are pressed and whatever replies arrive in whatever order:
  the selected index stays within the records, so every step has a result and every screen can be drawn.
\<close>

theorem backups_tab_never_panics:
  "\<exists>s cs. run_view (bk_update U) (bk_new U) ms = Some (s, cs) \<and> bk_view s \<noteq> None \<and>
     (bk_records s = [] \<or> 0 \<le> bk_selected s \<and> bk_selected s < int (length (bk_records s)))"
proof -
  obtain s cs where "run_view (bk_update U) (bk_new U) ms = Some (s, cs)" "bk_inv s"
    using bk.run_safe [OF bk_new_inv] by blast
  then show ?thesis using bk_view_total [of s] by (auto simp: bk_inv_def)
qed


lemma confirms_word: "confirms ConfirmPhrase ''confirmar''"
  by (simp add: ConfirmPhrase_def confirms_itself)

definition ex_restore_keys :: "bk_msg list" where
  "ex_restore_keys = BkLoaded ex_chain [] None #
     map BkKey ([''j'', ''R'', ''enter'', ''enter''] @ type_word ''confirmar'')"

lemmas bk_eval = bk_new_def ref_ui_def Let_def bk_update_key_def bk_update_list_def
  bk_update_restore_def bk_update_confirm_delete_def bk_update_restore_all_def bk_on_selected_def
  bk_start_defs slice_at_def bk_focus_field_def bk_type_restore_def bk_type_confirm_def bk_spin_def
  widget_cmd_def type_word_def


text \<open>The tab when it has just been opened, and a script of keys and replies.\<close>

definition bk_start :: "'u ui \<Rightarrow> 'w \<Rightarrow> ('u bk_model, bk_cmd, bk_msg, 'w) ui_state" where
  "bk_start U w =
     (case bk_refresh U (bk_new U) of
        (s, cs) \<Rightarrow> \<lparr>u_view = s, u_pending = cs, u_inbox = [], u_world = w\<rparr>)"

definition ex_unconfirmed :: "act list" where
  "ex_unconfirmed = [Exec 1, Deliver 0, Press ''d''] @ map Press (type_word ''confirmar'') @
     [Press ''esc'', Press ''r'', Press ''A'', Exec 11, Deliver 0, Press ''enter'']"

lemma ex_bk_load: "bk_load ref_env (ex_sys [] [r] t) = BkLoaded [r] [] None"
  by (simp add: bk_load_def br_find_all_def restore_find_all_def inst_find_all_def store_all_def ref_env_sel
      ref_each_def ex_sys_def bucket_defs decode_backup_def)

text \<open>
  C23. All databases can be restored in place without a word being typed for it. The confirmation field is
  shared with the dialogue for deleting, keeps its text when that is left, and is cleared only when the
  preview arrives; the reply of an earlier refresh, arriving before the preview, makes the dialogue take
  keys. Here the word was typed to delete a backup, the deletion was called off with esc, the list refreshed
  and the dialogue opened: the next enter restores everything, with the preview still to come.
\<close>

theorem restore_all_runs_unconfirmed:
  assumes "bk_load E w = BkLoaded (r # rs) is None"
  shows "\<exists>u. play (bk_update ref_ui) (bk_exec E) BkKey ex_unconfirmed (bk_start ref_ui w) = Some u \<and>
    u_world u = w \<and> BkPreviewCmd \<in> set (u_pending u) \<and> BkRestoreAllCmd ''confirmar'' \<in> set (u_pending u)"
  using confirms_word assms
  by (simp add: bk_eval handle_def drop_nth_def ex_unconfirmed_def bk_start_def)

theorem restore_all_runs_unconfirmed_witness:
  "\<exists>u. play (bk_update ref_ui) (bk_exec ref_env) BkKey ex_unconfirmed
      (bk_start ref_ui (ex_sys [] [ex_record ''a'' ''a.bak'' BackupTypeFull '''' 1] 5)) = Some u \<and>
    BkRestoreAllCmd ''confirmar'' \<in> set (u_pending u)"
  using restore_all_runs_unconfirmed [OF ex_bk_load, of "ex_record ''a'' ''a.bak'' BackupTypeFull '''' 1" 5] by blast

text \<open>
  While a restore is being prepared, a reply that puts a newer backup on top of the list changes the
  backup shown as the origin: the form shows the new one and still restores the old one.
\<close>

theorem restore_form_shows_another_backup:
  "\<exists>s cs. run_view (bk_update U) (bk_new U) [BkLoaded [old] [] None, BkKey ''R'', BkLoaded [new, old] [] None] =
      Some (s, cs) \<and> bk_view s = Some (BkShowRestore new) \<and> bk_restoring s (b_id old)"
  by (simp add: bk_eval bk_view_def bk_restoring_def)

end
