(* ===== verification/Tab_Instances.thy ===== *)
theory Tab_Instances
  imports Widgets UseCases Restore
begin

text \<open>
  The instances tab (\<open>tui/views/instances/model.go\<close>): the list of registered servers, the form to create
  and edit one, deleting, testing the connection, and a manual backup. The ten-second limit of a
  connection test is left out; drawing is in \<open>View_Instances\<close>.
\<close>

section \<open>State, messages and commands\<close>

datatype in_mode =
    InModeList | InModeCreate | InModeEdit | InModeConfirmDelete | InModeConfirmBackup | InModeTesting

record 'u in_model =
  in_mode :: in_mode
  in_instances :: "inst_rec list"
  in_selected :: int
  in_err :: string
  in_message :: string
  in_loading :: bool
  in_spinner :: 'u
  in_fields :: "'u list"
  in_focused :: int
  in_editing :: string
  in_confirm :: 'u
  in_test_result :: string
  in_test_err :: string

datatype in_msg =
    InLoaded "inst_rec list" "gerr option"
  | InTested int "gerr option"
  | InBackupDone "gerr option"
  | InTick nat
  | InKey string
  | InOther

datatype in_cmd =
    InSpin nat
  | InInputCmd
  | InLoadCmd
  | InTestCmd inst_rec
  | InBackupCmd string
  | InDeleteCmd string
  | InSubmitCmd string inst_rec

definition fName :: int where "fName = 0"
definition fEngine :: int where "fEngine = 1"
definition fHost :: int where "fHost = 2"
definition fPort :: int where "fPort = 3"
definition fUsername :: int where "fUsername = 4"
definition fPassword :: int where "fPassword = 5"
definition fDatabase :: int where "fDatabase = 6"
definition fExclude :: int where "fExclude = 7"
definition fCount :: int where "fCount = 8"

lemmas form_consts = fName_def fEngine_def fHost_def fPort_def fUsername_def fPassword_def fDatabase_def
  fExclude_def fCount_def

definition formLabels :: "string list" where
  "formLabels = [''Nombre        '', ''Motor         '', ''Host          '', ''Puerto        '',
     ''Usuario       '', ''Contrase'' @ [CHR 0xC3, CHR 0xB1] @ ''a    '', ''BD default    '', ''Excluir BDs   '']"

definition in_new :: "'u ui \<Rightarrow> 'u in_model" where
  "in_new U =
     \<lparr>in_mode = InModeList, in_instances = [], in_selected = 0, in_err = '''', in_message = '''',
      in_loading = False, in_spinner = sp_new U, in_fields = [], in_focused = 0, in_editing = '''',
      in_confirm = ti_new U ConfirmPhrase False, in_test_result = '''', in_test_err = ''''\<rparr>"

section \<open>The form\<close>

definition build_form_fields :: "'u ui \<Rightarrow> 'u list" where
  "build_form_fields U = map (\<lambda>i. ti_new U (formLabels ! i) (int i = fPassword)) [0..<nat fCount]"

definition in_start_form :: "'u ui \<Rightarrow> inst_rec option \<Rightarrow> 'u in_model \<Rightarrow> 'u in_model" where
  "in_start_form U io s =
     (let fs = build_form_fields U;
          fs = fs[0 := ti_focus U (fs ! 0)];
          t = s\<lparr>in_focused := 0, in_err := '''', in_message := ''''\<rparr>
      in case io of
           None \<Rightarrow> t\<lparr>in_fields := fs, in_mode := InModeCreate, in_editing := ''''\<rparr>
         | Some i \<Rightarrow> t\<lparr>in_mode := InModeEdit, in_editing := i_id i, in_fields :=
             set_field U fExclude (join (i_excluded i) '', '')
             (set_field U fDatabase (i_database i) (set_field U fPassword (i_password i)
             (set_field U fUsername (i_username i) (set_field U fPort (show_int (i_port i))
             (set_field U fHost (i_host i) (set_field U fEngine (engine_str (i_engine i))
             (set_field U fName (i_name i) fs)))))))\<rparr>)"

text \<open>\<open>blurFocus\<close> and \<open>focusCurrent\<close>: the focused field, when there is one.\<close>

definition in_at_focus :: "('u \<Rightarrow> 'u) \<Rightarrow> 'u in_model \<Rightarrow> 'u in_model option" where
  "in_at_focus f s =
     (if in_focused s < int (length (in_fields s))
      then map_option (\<lambda>u. s\<lparr>in_fields := (in_fields s)[nat (in_focused s) := f u]\<rparr>)
             (slice_at (in_fields s) (in_focused s))
      else Some s)"

definition in_move_focus :: "'u ui \<Rightarrow> int \<Rightarrow> 'u in_model \<Rightarrow> ('u in_model \<times> in_cmd list) option" where
  "in_move_focus U d s =
     Option.bind (in_at_focus (ti_blur U) s) (\<lambda>t.
       map_option (\<lambda>v. (v, [])) (in_at_focus (ti_focus U)
         (t\<lparr>in_focused := (in_focused t + d) mod fCount\<rparr>)))"

definition excluded_of :: "string \<Rightarrow> string list" where
  "excluded_of v = filter (\<lambda>x. x \<noteq> '''') (map trim_space (split_on (CHR '','') v))"

definition field_value :: "'u ui \<Rightarrow> 'u in_model \<Rightarrow> int \<Rightarrow> string option" where
  "field_value U s i = map_option (ti_value U) (slice_at (in_fields s) i)"

definition in_parse_form :: "'u ui \<Rightarrow> 'u in_model \<Rightarrow> inst_rec res option" where
  "in_parse_form U s =
     (case field_value U s fEngine of
        None \<Rightarrow> None
      | Some x \<Rightarrow> (case parse_engine x of
          Inl e \<Rightarrow> Some (Inl e)
        | Inr eng \<Rightarrow>
            (case those (map (field_value U s) [fName, fHost, fPort, fUsername, fPassword, fDatabase, fExclude]) of
               Some [n, h, p, u, pw, d, ex] \<Rightarrow>
                 let port = (case scan_int p of Some n \<Rightarrow> n | None \<Rightarrow> 0) in
                 Some (Inr \<lparr>i_id = '''', i_name = n, i_engine = eng, i_host = h,
                   i_port = (if port = 0 then default_port eng else port), i_username = u, i_password = pw,
                   i_database = d, i_extra = [], i_enabled = True, i_excluded = excluded_of ex,
                   i_created = zero_time, i_updated = zero_time\<rparr>)
             | _ \<Rightarrow> None)))"

definition in_submit_form :: "'u ui \<Rightarrow> 'u in_model \<Rightarrow> ('u in_model \<times> in_cmd list) option" where
  "in_submit_form U s =
     map_option (\<lambda>r. case r of
         Inl e \<Rightarrow> (s\<lparr>in_err := err_text e\<rparr>, [])
       | Inr i \<Rightarrow> (s\<lparr>in_mode := InModeList, in_err := ''''\<rparr>, [InSubmitCmd (in_editing s) i]))
       (in_parse_form U s)"

text \<open>Enter on the engine fills in its port, when it is known and no port stands there.\<close>

definition in_fill_port :: "'u ui \<Rightarrow> 'u in_model \<Rightarrow> 'u in_model option" where
  "in_fill_port U s =
     (if in_focused s = fEngine
      then (case field_value U s fEngine of
              None \<Rightarrow> None
            | Some x \<Rightarrow> (case parse_engine x of
                Inl e \<Rightarrow> Some s
              | Inr eng \<Rightarrow> (case field_value U s fPort of
                  None \<Rightarrow> None
                | Some p \<Rightarrow>
                    Some (if p = '''' then s\<lparr>in_fields := set_field U fPort (show_int (default_port eng)) (in_fields s)\<rparr>
                          else s))))
      else Some s)"

definition in_update_form :: "'u ui \<Rightarrow> string \<Rightarrow> 'u in_model \<Rightarrow> ('u in_model \<times> in_cmd list) option" where
  "in_update_form U k s =
     (if k = ''esc'' then Some (s\<lparr>in_mode := InModeList\<rparr>, [])
      else if k \<in> {''tab'', ''down''} then in_move_focus U 1 s
      else if k \<in> {''shift+tab'', ''up''} then in_move_focus U (fCount - 1) s
      else if k = ''enter''
      then Option.bind (in_fill_port U s)
             (\<lambda>t. if in_focused t = fCount - 1 then in_submit_form U t else in_move_focus U 1 t)
      else map_option (\<lambda>u. case ti_key U k u of
               (v, b) \<Rightarrow> (s\<lparr>in_fields := (in_fields s)[nat (in_focused s) := v]\<rparr>, widget_cmd InInputCmd b))
             (slice_at (in_fields s) (in_focused s)))"

section \<open>Keys\<close>

definition in_spin :: "'u ui \<Rightarrow> 'u in_model \<Rightarrow> in_cmd" where
  "in_spin U s = InSpin (sp_tick U (in_spinner s))"

definition in_refresh :: "'u ui \<Rightarrow> 'u in_model \<Rightarrow> 'u in_model \<times> in_cmd list" where
  "in_refresh U s = (s\<lparr>in_loading := True\<rparr>, [in_spin U s, InLoadCmd])"

definition in_on_selected :: "'u in_model \<Rightarrow> (inst_rec \<Rightarrow> 'u in_model \<times> in_cmd list) \<Rightarrow>
    ('u in_model \<times> in_cmd list) option" where
  "in_on_selected s f =
     (if in_instances s = [] then Some (s, [])
      else map_option f (slice_at (in_instances s) (in_selected s)))"

definition in_update_list :: "'u ui \<Rightarrow> string \<Rightarrow> 'u in_model \<Rightarrow> ('u in_model \<times> in_cmd list) option" where
  "in_update_list U k s =
     (if k \<in> {''up'', ''k''}
      then Some (if 0 < in_selected s then s\<lparr>in_selected := in_selected s - 1\<rparr> else s, [])
      else if k \<in> {''down'', ''j''}
      then Some (if in_selected s < int (length (in_instances s)) - 1
                 then s\<lparr>in_selected := in_selected s + 1\<rparr> else s, [])
      else if k = ''n'' then Some (in_start_form U None s, [])
      else if k = ''e'' then in_on_selected s (\<lambda>i. (in_start_form U (Some i) s, []))
      else if k \<in> {''d'', ''delete''}
      then Some (if in_instances s \<noteq> []
                 then s\<lparr>in_mode := InModeConfirmDelete, in_err := '''', in_message := ''''\<rparr> else s, [])
      else if k = ''t''
      then in_on_selected s (\<lambda>i. (s\<lparr>in_mode := InModeTesting, in_test_result := '''', in_test_err := ''''\<rparr>,
             [in_spin U s, InTestCmd i]))
      else if k = ''b''
      then Some (if in_instances s \<noteq> []
                 then s\<lparr>in_mode := InModeConfirmBackup, in_err := '''', in_message := '''',
                        in_confirm := ti_focus U (ti_set U '''' (in_confirm s))\<rparr> else s, [])
      else if k \<in> {''r'', ''f5''} then Some (in_refresh U s)
      else Some (s, []))"

definition in_update_confirm :: "string \<Rightarrow> 'u in_model \<Rightarrow> ('u in_model \<times> in_cmd list) option" where
  "in_update_confirm k s =
     (if k \<in> {''y'', ''Y'', ''s'', ''S''}
      then (if in_instances s = [] then Some (s\<lparr>in_mode := InModeList\<rparr>, [])
            else map_option (\<lambda>i. (s\<lparr>in_mode := InModeList\<rparr>, [InDeleteCmd (i_id i)]))
                   (slice_at (in_instances s) (in_selected s)))
      else Some (s\<lparr>in_mode := InModeList\<rparr>, []))"

definition in_update_confirm_backup :: "'u ui \<Rightarrow> string \<Rightarrow> 'u in_model \<Rightarrow> ('u in_model \<times> in_cmd list) option" where
  "in_update_confirm_backup U k s =
     (if k = ''esc'' then Some (s\<lparr>in_mode := InModeList\<rparr>, [])
      else if k = ''enter''
      then (if \<not> confirms ConfirmPhrase (ti_value U (in_confirm s))
            then Some (s\<lparr>in_err := ''Debes escribir '' @ go_quote ConfirmPhrase @ '' para confirmar''\<rparr>, [])
            else map_option (\<lambda>i. (s\<lparr>in_mode := InModeList, in_err := '''', in_message := ''''\<rparr>, [InBackupCmd (i_id i)]))
                   (slice_at (in_instances s) (in_selected s)))
      else Some (case ti_key U k (in_confirm s) of (t, b) \<Rightarrow> (s\<lparr>in_confirm := t\<rparr>, widget_cmd InInputCmd b)))"

section \<open>Messages\<close>

definition in_update_key :: "'u ui \<Rightarrow> string \<Rightarrow> 'u in_model \<Rightarrow> ('u in_model \<times> in_cmd list) option" where
  "in_update_key U k s =
     (case in_mode s of
        InModeList \<Rightarrow> in_update_list U k s
      | InModeCreate \<Rightarrow> in_update_form U k s
      | InModeEdit \<Rightarrow> in_update_form U k s
      | InModeConfirmDelete \<Rightarrow> in_update_confirm k s
      | InModeConfirmBackup \<Rightarrow> in_update_confirm_backup U k s
      | InModeTesting \<Rightarrow> Some (s, []))"

definition in_loaded :: "inst_rec list \<Rightarrow> 'u in_model \<Rightarrow> 'u in_model" where
  "in_loaded is s =
     s\<lparr>in_instances := is,
       in_selected := (if int (length is) \<le> in_selected s \<and> 0 < length is then int (length is) - 1
                       else in_selected s)\<rparr>"

fun in_update :: "'u ui \<Rightarrow> 'u in_model \<Rightarrow> in_msg \<Rightarrow> ('u in_model \<times> in_cmd list) option" where
  "in_update U s (InLoaded is e) =
     (let t = s\<lparr>in_loading := False, in_err := '''', in_message := ''''\<rparr>
      in Some (case e of Some x \<Rightarrow> t\<lparr>in_err := err_text x\<rparr> | None \<Rightarrow> in_loaded is t, []))"
| "in_update U s (InTested d e) =
     (let t = s\<lparr>in_mode := InModeList\<rparr>
      in Some (case e of Some x \<Rightarrow> t\<lparr>in_test_err := err_text x, in_test_result := ''''\<rparr>
           | None \<Rightarrow> t\<lparr>in_test_result := ''OK '' @ [CHR 0xE2, CHR 0x80, CHR 0x94] @ '' '' @ show_int (millis d) @ ''ms'',
                        in_test_err := ''''\<rparr>, []))"
| "in_update U s (InBackupDone e) =
     Some (case e of Some x \<Rightarrow> s\<lparr>in_err := ''Error durante el respaldo: '' @ err_text x\<rparr>
           | None \<Rightarrow> s\<lparr>in_message := ''Ciclo de respaldo finalizado correctamente.''\<rparr>, [])"
| "in_update U s (InTick n) =
     Some (if in_loading s \<or> in_mode s = InModeTesting
           then (case sp_update U n (in_spinner s) of
                   (p, b) \<Rightarrow> (s\<lparr>in_spinner := p\<rparr>, widget_cmd (InSpin (sp_tick U p)) b))
           else (s, []))"
| "in_update U s (InKey k) = in_update_key U k s"
| "in_update U s InOther = Some (s, [])"

section \<open>Commands\<close>

definition in_load :: "('d, 's, 'm) env \<Rightarrow> ('d, 's, 'm) sys \<Rightarrow> in_msg" where
  "in_load E w = (case instance_find_all E w of Inl e \<Rightarrow> InLoaded [] (Some e) | Inr is \<Rightarrow> InLoaded is None)"

fun in_exec :: "('d, 's, 'm) env \<Rightarrow> in_cmd \<Rightarrow> ('d, 's, 'm) sys \<Rightarrow> in_msg \<times> ('d, 's, 'm) sys" where
  "in_exec E (InSpin n) w = (InTick n, w)"
| "in_exec E InInputCmd w = (InOther, w)"
| "in_exec E InLoadCmd w = (in_load E w, w)"
| "in_exec E (InTestCmd i) w =
     (case instance_test_connection E i w of ((d, e), w1) \<Rightarrow> (InTested d e, w1))"
| "in_exec E (InBackupCmd i) w =
     (case run_for_instance E i BackupTypeFull w of (e, w1) \<Rightarrow> (InBackupDone e, w1))"
| "in_exec E (InDeleteCmd i) w = (case instance_delete E i w of (e, w1) \<Rightarrow> (in_load E w1, w1))"
| "in_exec E (InSubmitCmd ed i) w =
     (case (if ed = '''' then instance_create E i w else instance_update E (i\<lparr>i_id := ed\<rparr>) w) of
        ((Some e, i'), w1) \<Rightarrow> (InLoaded [] (Some e), w1)
      | ((None, i'), w1) \<Rightarrow> (in_load E w1, w1))"

section \<open>The invariant\<close>

definition in_form_ok :: "'u in_model \<Rightarrow> bool" where
  "in_form_ok s \<longleftrightarrow> 0 \<le> in_focused s \<and> in_focused s < fCount \<and>
     (in_mode s \<in> {InModeCreate, InModeEdit} \<longrightarrow> int (length (in_fields s)) = fCount)"

definition in_select_ok :: "'u in_model \<Rightarrow> bool" where
  "in_select_ok s \<longleftrightarrow> 0 \<le> in_selected s \<and>
     (in_instances s = [] \<or> in_selected s < int (length (in_instances s)))"

definition in_inv :: "'u in_model \<Rightarrow> bool" where
  "in_inv s \<longleftrightarrow> in_form_ok s \<and> in_select_ok s"

lemma in_new_inv [simp]: "in_inv (in_new U)"
  by (simp add: in_inv_def in_form_ok_def in_select_ok_def in_new_def form_consts)

lemma build_length [simp]: "length (build_form_fields U) = 8"
  by (simp add: build_form_fields_def form_consts)

lemma in_start_form_inv [simp]: "in_inv s \<Longrightarrow> in_inv (in_start_form U io s)"
  by (cases io) (auto simp: in_start_form_def in_inv_def in_form_ok_def in_select_ok_def Let_def form_consts)

lemma in_selected_slice:
  "in_inv s \<Longrightarrow> in_instances s \<noteq> [] \<Longrightarrow>
    slice_at (in_instances s) (in_selected s) = Some (in_instances s ! nat (in_selected s))"
  by (simp add: in_inv_def in_select_ok_def)

text \<open>An open form: its focus is on a field.\<close>

definition in_open :: "'u in_model \<Rightarrow> bool" where
  "in_open s \<longleftrightarrow> 0 \<le> in_focused s \<and> in_focused s < fCount \<and> int (length (in_fields s)) = fCount"

lemma in_open_inv: "in_inv s \<Longrightarrow> in_mode s \<in> {InModeCreate, InModeEdit} \<Longrightarrow> in_open s"
  by (auto simp: in_inv_def in_form_ok_def in_open_def)

lemma field_value_open [simp]: "in_open s \<Longrightarrow> 0 \<le> i \<Longrightarrow> i < fCount \<Longrightarrow> field_value U s i = Some (ti_value U (in_fields s ! nat i))"
  by (simp add: field_value_def in_open_def)

text \<open>What a key does to an open form: it stays one, or the list is shown again.\<close>

definition form_step :: "'u in_model \<Rightarrow> 'u in_model \<Rightarrow> bool" where
  "form_step s t \<longleftrightarrow> in_open t \<and> in_instances t = in_instances s \<and> in_selected t = in_selected s"

lemma form_step_refl: "in_open s \<Longrightarrow> form_step s s"
  by (simp add: form_step_def)

lemma in_at_focus_open: "in_open s \<Longrightarrow> \<exists>t. in_at_focus f s = Some t \<and> form_step s t"
  by (simp add: in_at_focus_def in_open_def form_step_def)

lemma in_move_focus_open: "in_open s \<Longrightarrow> \<exists>t. in_move_focus U d s = Some (t, []) \<and> form_step s t"
proof -
  assume o: "in_open s"
  obtain t where t: "in_at_focus (ti_blur U) s = Some t" "form_step s t" using in_at_focus_open [OF o] by blast
  let ?v = "t\<lparr>in_focused := (in_focused t + d) mod fCount\<rparr>"
  have "in_open ?v" using t(2) by (simp add: form_step_def in_open_def fCount_def)
  from in_at_focus_open [OF this] obtain v where "in_at_focus (ti_focus U) ?v = Some v" "form_step ?v v" by blast
  then show ?thesis using t by (simp add: in_move_focus_def form_step_def)
qed

lemma in_fill_port_open: "in_open s \<Longrightarrow> \<exists>t. in_fill_port U s = Some t \<and> form_step s t"
  by (auto simp: in_fill_port_def form_consts form_step_def in_open_def field_value_def split: sum.split)

lemma in_parse_form_open: "in_open s \<Longrightarrow> \<exists>r. in_parse_form U s = Some r"
  by (auto simp: in_parse_form_def form_consts Let_def split: sum.split)

lemma in_submit_open: "in_open s \<Longrightarrow> \<exists>t cs. in_submit_form U s = Some (t, cs) \<and> form_step s t"
proof -
  assume o: "in_open s"
  obtain r where r: "in_parse_form U s = Some r" using in_parse_form_open [OF o] by blast
  show ?thesis
    using o by (cases r) (simp_all add: r in_submit_form_def form_step_def in_open_def)
qed

lemma in_form_key:
  assumes "in_open s"
  shows "\<exists>t cs. in_update_form U k s = Some (t, cs) \<and> form_step s t"
proof -
  have e: "\<exists>t cs. Option.bind (in_fill_port U s)
      (\<lambda>t. if in_focused t = fCount - 1 then in_submit_form U t else in_move_focus U 1 t) = Some (t, cs) \<and> form_step s t"
  proof -
    obtain t where t: "in_fill_port U s = Some t" "form_step s t" using in_fill_port_open [OF assms] by blast
    then have "in_open t" by (simp add: form_step_def)
    from in_submit_open [OF this, of U] in_move_focus_open [OF this, of U 1] t show ?thesis
      by (auto simp: form_step_def)
  qed
  have "\<exists>t cs. map_option (\<lambda>u. case ti_key U k u of
               (v, b) \<Rightarrow> (s\<lparr>in_fields := (in_fields s)[nat (in_focused s) := v]\<rparr>, widget_cmd InInputCmd b))
             (slice_at (in_fields s) (in_focused s)) = Some (t, cs) \<and> form_step s t"
    using assms by (auto simp: in_open_def form_step_def split: prod.split)
  moreover have "form_step s (s\<lparr>in_mode := InModeList\<rparr>)"
    using assms by (simp add: form_step_def in_open_def)
  ultimately show ?thesis
    using e in_move_focus_open [OF assms, of U 1] in_move_focus_open [OF assms, of U "fCount - 1"]
    unfolding in_update_form_def by (simp del: map_option_case) blast
qed

lemma in_inv_list: "in_inv s \<Longrightarrow> m \<notin> {InModeCreate, InModeEdit} \<Longrightarrow> in_inv (s\<lparr>in_mode := m\<rparr>)"
  by (auto simp: in_inv_def in_form_ok_def in_select_ok_def)

lemma in_inv_upds [simp]:
  "in_inv (s\<lparr>in_err := a\<rparr>) = in_inv s" "in_inv (s\<lparr>in_message := a\<rparr>) = in_inv s"
  "in_inv (s\<lparr>in_loading := b\<rparr>) = in_inv s" "in_inv (s\<lparr>in_spinner := u\<rparr>) = in_inv s"
  "in_inv (s\<lparr>in_confirm := u\<rparr>) = in_inv s" "in_inv (s\<lparr>in_test_result := a\<rparr>) = in_inv s"
  "in_inv (s\<lparr>in_test_err := a\<rparr>) = in_inv s"
  by (simp_all add: in_inv_def in_form_ok_def in_select_ok_def)

lemma in_inv_selected:
  "in_inv s \<Longrightarrow> 0 < in_selected s \<Longrightarrow> in_inv (s\<lparr>in_selected := in_selected s - 1\<rparr>)"
  "in_inv s \<Longrightarrow> in_selected s < int (length (in_instances s)) - 1 \<Longrightarrow> in_inv (s\<lparr>in_selected := in_selected s + 1\<rparr>)"
  by (auto simp: in_inv_def in_form_ok_def in_select_ok_def)

lemma in_inv_form: "in_inv s \<Longrightarrow> form_step s t \<Longrightarrow> in_inv t"
  by (auto simp: in_inv_def form_step_def in_open_def in_form_ok_def in_select_ok_def)

lemma in_inv_loaded: "in_inv s \<Longrightarrow> in_inv (in_loaded is s)"
  by (auto simp: in_inv_def in_form_ok_def in_select_ok_def in_loaded_def)

lemma in_on_selected_gives:
  "in_inv s \<Longrightarrow> (\<And>i. in_inv (fst (f i))) \<Longrightarrow> gives in_inv (in_on_selected s f)"
  by (simp add: in_on_selected_def in_selected_slice)

lemma in_list_key: "in_inv s \<Longrightarrow> gives in_inv (in_update_list U k s)"
  unfolding in_update_list_def
  by (simp add: in_inv_selected in_inv_list in_on_selected_gives in_refresh_def)

text \<open>The one step that panics.\<close>

definition in_panics :: "'u ui \<Rightarrow> 'u in_model \<Rightarrow> in_msg \<Rightarrow> bool" where
  "in_panics U s m \<longleftrightarrow> m = InKey ''enter'' \<and> in_mode s = InModeConfirmBackup \<and> in_instances s = [] \<and>
     confirms ConfirmPhrase (ti_value U (in_confirm s))"

lemma in_key_step:
  assumes "in_inv s"
  shows "if in_panics U s (InKey k) then in_update_key U k s = None else gives in_inv (in_update_key U k s)"
proof (cases "in_mode s")
  case InModeConfirmBackup
  have "slice_at (in_instances s) (in_selected s) =
      (if in_instances s = [] then None else Some (in_instances s ! nat (in_selected s)))"
    using in_selected_slice [OF assms] by (auto simp: slice_at_def)
  then show ?thesis
    using assms InModeConfirmBackup
    by (simp add: in_update_key_def in_panics_def in_update_confirm_backup_def in_inv_list split: prod.split)
next
  case InModeConfirmDelete
  then show ?thesis
    using assms by (simp add: in_update_key_def in_panics_def in_update_confirm_def in_inv_list in_selected_slice)
next
  case InModeList
  then show ?thesis
    using in_list_key [OF assms] by (simp add: in_update_key_def in_panics_def)
next
  case InModeCreate
  with in_form_key [OF in_open_inv [OF assms], of U k] in_inv_form [OF assms] show ?thesis
    by (auto simp: in_update_key_def in_panics_def gives_def)
next
  case InModeEdit
  with in_form_key [OF in_open_inv [OF assms], of U k] in_inv_form [OF assms] show ?thesis
    by (auto simp: in_update_key_def in_panics_def gives_def)
qed (use assms in \<open>simp add: in_update_key_def in_panics_def\<close>)

lemma in_step:
  assumes "in_inv s"
  shows "if in_panics U s m then in_update U s m = None else gives in_inv (in_update U s m)"
proof (cases m)
  case (InKey k)
  with in_key_step [OF assms, of U k] show ?thesis by simp
qed (use assms in \<open>auto simp: in_panics_def Let_def in_inv_list in_inv_loaded split: option.split prod.split\<close>)

lemma in_update_inv: "in_inv s \<Longrightarrow> in_update U s m = Some (t, cs) \<Longrightarrow> in_inv t"
  using in_step [of s U m] givesD(2) [of in_inv] by (auto split: if_splits)

interpretation inst: tab_view "in_update U" in_inv for U
  by unfold_locales (rule in_update_inv)

section \<open>Names of databases in one field\<close>

text \<open>A name that can stand in the field of excluded databases.\<close>

definition listable :: "string \<Rightarrow> bool" where
  "listable x \<longleftrightarrow> x \<noteq> '''' \<and> trim_space x = x \<and> CHR '','' \<notin> set x"

lemma split_on_skip: "c \<notin> set x \<Longrightarrow> split_on c (x @ c # y) = x # split_on c y"
  by (induction x) auto

lemma split_on_none: "c \<notin> set x \<Longrightarrow> split_on c x = [x]"
  by (induction x) auto

lemma split_join:
  assumes "\<forall>x \<in> set (x # xs). CHR '','' \<notin> set x"
  shows "split_on (CHR '','') (join (x # xs) '', '') = x # map ((#) (CHR '' '')) xs"
  using assms
proof (induction xs arbitrary: x)
  case (Cons y ys)
  have "split_on (CHR '','') (CHR '' '' # join (y # ys) '', '') = (CHR '' '' # y) # map ((#) (CHR '' '')) ys"
    using Cons.IH [of y] Cons.prems by simp
  then show ?case using Cons.prems by (simp add: split_on_skip)
qed (simp add: split_on_none)

lemma trim_blank: "trim_space (CHR '' '' # x) = trim_space x"
  by (simp add: trim_space_def is_space_def)

lemma excluded_join:
  assumes "\<forall>x \<in> set xs. listable x"
  shows "excluded_of (join xs '', '') = xs"
proof (cases xs)
  case Nil
  then show ?thesis by (simp add: excluded_of_def trim_space_def)
next
  case (Cons x ys)
  have "map trim_space (split_on (CHR '','') (join xs '', '')) = xs"
    using assms split_join [of x ys] unfolding Cons
    by (auto simp: listable_def trim_blank intro: map_idI)
  then show ?thesis using assms by (auto simp: excluded_of_def listable_def filter_id_conv)
qed

section \<open>The form shows an instance\<close>

lemma build_nth: "i < 8 \<Longrightarrow> ti_value U (build_form_fields U ! i) = ti_value U (ti_new U (formLabels ! i) (int i = fPassword))"
  by (simp add: build_form_fields_def form_consts)

text \<open>The texts of an instance's fields are printable.\<close>

definition plain_instance :: "inst_rec \<Rightarrow> bool" where
  "plain_instance i \<longleftrightarrow> plain (i_name i) \<and> plain (i_host i) \<and> plain (i_username i) \<and> plain (i_password i) \<and>
     plain (i_database i) \<and> plain (join (i_excluded i) '', '')"

lemma plain_engine: "engine_valid e \<Longrightarrow> plain (engine_str e)"
  by (cases e) (simp_all add: plain_def)

lemma in_start_form_values:
  assumes U: "ui_ok U" and p: "plain_instance i" "engine_valid (i_engine i)"
  shows "map (field_value U (in_start_form U (Some i) s)) [fName, fEngine, fHost, fPort, fUsername, fPassword, fDatabase, fExclude] =
    map Some [i_name i, engine_str (i_engine i), i_host i, show_int (i_port i), i_username i, i_password i,
      i_database i, join (i_excluded i) '', '']"
  using p plain_engine [OF p(2)] plain_show_int [of "i_port i"]
  by (simp add: in_start_form_def Let_def field_value_def form_consts set_field_nth nth_list_update
      ui_okD(3) [OF U] plain_instance_def)

lemma parse_engine_str: "engine_valid e \<Longrightarrow> parse_engine (engine_str e) = Inr e"
  by (cases e) (simp_all add: parse_engine_def engine_of_string_def)

lemma in_parse_start_form:
  assumes U: "ui_ok U" and p: "plain_instance i" "engine_valid (i_engine i)"
    and x: "\<forall>x \<in> set (i_excluded i). listable x"
    and port: "i_port i \<noteq> 0" "- (2 ^ 63) \<le> i_port i" "i_port i < 2 ^ 63"
  shows "in_parse_form U (in_start_form U (Some i) s) =
    Some (Inr (i\<lparr>i_id := '''', i_extra := [], i_enabled := True, i_created := zero_time, i_updated := zero_time\<rparr>))"
  using in_start_form_values [OF U p, of s] scan_show_int [OF port(2,3)] port(1) excluded_join [OF x] p(2)
  by (simp add: in_parse_form_def parse_engine_str)

text \<open>Moving through the form leaves its texts alone.\<close>

definition in_texts :: "'u ui \<Rightarrow> 'u in_model \<Rightarrow> string list" where
  "in_texts U s = map (ti_value U) (in_fields s)"

lemma field_value_texts: "field_value U s i = slice_at (in_texts U s) i"
  by (auto simp: field_value_def in_texts_def slice_at_def)

lemma in_parse_form_texts: "in_texts U t = in_texts U s \<Longrightarrow> in_parse_form U t = in_parse_form U s"
proof -
  assume "in_texts U t = in_texts U s"
  then have v: "field_value U t = field_value U s" by (simp add: field_value_texts fun_eq_iff)
  show ?thesis unfolding in_parse_form_def v by (rule refl)
qed

lemma in_at_focus_texts:
  assumes "in_at_focus f s = Some t" "\<And>u. ti_value U (f u) = ti_value U u"
  shows "in_texts U t = in_texts U s \<and> in_mode t = in_mode s \<and> in_editing t = in_editing s \<and> in_focused t = in_focused s"
  using assms by (auto simp: in_at_focus_def in_texts_def slice_at_def map_at split: if_splits)

definition nav_keys :: "string set" where
  "nav_keys = {''tab'', ''down'', ''shift+tab'', ''up''}"

definition nav_step :: "string \<Rightarrow> int" where
  "nav_step k = (if k \<in> {''tab'', ''down''} then 1 else fCount - 1)"

lemma in_nav:
  assumes "ui_ok U" "in_open s" "in_mode s = InModeEdit" "k \<in> nav_keys"
  shows "\<exists>t. in_update U s (InKey k) = Some (t, []) \<and> in_open t \<and> in_mode t = InModeEdit \<and> in_editing t = in_editing s \<and>
    in_focused t = (in_focused s + nav_step k) mod fCount \<and> in_texts U t = in_texts U s"
proof -
  have "in_update U s (InKey k) = in_move_focus U (nav_step k) s"
    using assms(3,4) by (auto simp: in_update_key_def in_update_form_def nav_keys_def nav_step_def)
  moreover obtain t where t: "in_move_focus U (nav_step k) s = Some (t, [])" "form_step s t"
    using in_move_focus_open [OF assms(2)] by blast
  moreover from t(1) obtain v where v: "in_at_focus (ti_blur U) s = Some v"
    "in_at_focus (ti_focus U) (v\<lparr>in_focused := (in_focused v + nav_step k) mod fCount\<rparr>) = Some t"
    by (auto simp: in_move_focus_def bind_eq_Some_conv)
  moreover note in_at_focus_texts [OF v(1) ui_okD(7) [OF assms(1)]] in_at_focus_texts [OF v(2) ui_okD(5) [OF assms(1)]]
  ultimately show ?thesis using assms(3) by (auto simp: form_step_def in_texts_def)
qed

lemma in_navs:
  assumes "ui_ok U" "in_open s" "in_mode s = InModeEdit" "set ks \<subseteq> nav_keys"
  shows "\<exists>t. run_view (in_update U) s (map InKey ks) = Some (t, []) \<and> in_mode t = InModeEdit \<and> in_editing t = in_editing s \<and>
    in_focused t = (in_focused s + sum_list (map nav_step ks)) mod fCount \<and> in_texts U t = in_texts U s"
  using assms(2-4)
proof (induction ks arbitrary: s)
  case Nil
  then show ?case by (simp add: in_open_def)
next
  case (Cons k ks)
  obtain u where u: "in_update U s (InKey k) = Some (u, [])" "in_open u" "in_mode u = InModeEdit"
    "in_editing u = in_editing s" "in_focused u = (in_focused s + nav_step k) mod fCount" "in_texts U u = in_texts U s"
    using in_nav [OF assms(1) Cons.prems(1,2), of k] Cons.prems(3) by auto
  from Cons.IH [OF u(2,3)] Cons.prems(3) obtain t where
    t: "run_view (in_update U) u (map InKey ks) = Some (t, [])" "in_mode t = InModeEdit" "in_editing t = in_editing u"
    "in_focused t = (in_focused u + sum_list (map nav_step ks)) mod fCount" "in_texts U t = in_texts U u"
    by auto
  have "in_focused t = (in_focused s + sum_list (map nav_step (k # ks))) mod fCount"
    unfolding t(4) u(5) by (simp add: mod_simps algebra_simps)
  then show ?case using t u by simp
qed

section \<open>A dialogue that asks for a word\<close>

text \<open>
  The confirmation field of the dialogue for a manual backup: emptied when it is opened, and what each
  message makes of it.
\<close>

definition in_word :: "'u ui \<Rightarrow> 'u \<Rightarrow> in_msg \<Rightarrow> 'u" where
  "in_word U u m = (case m of InKey k \<Rightarrow> if k = ''enter'' then u else fst (ti_key U k u) | _ \<Rightarrow> u)"

abbreviation in_empty_word :: "'u ui \<Rightarrow> 'u in_model \<Rightarrow> 'u" where
  "in_empty_word U s \<equiv> ti_focus U (ti_set U '''' (in_confirm s))"

definition in_asking :: "'u in_model \<Rightarrow> unit \<Rightarrow> bool" where
  "in_asking s x \<longleftrightarrow> in_mode s = InModeConfirmBackup"

definition in_asks :: "'u in_model \<Rightarrow> in_msg \<Rightarrow> unit \<Rightarrow> bool" where
  "in_asks s m x \<longleftrightarrow> in_mode s = InModeList \<and> m = InKey ''b''"

definition in_arms :: "'u ui \<Rightarrow> 'u in_model \<Rightarrow> in_msg \<Rightarrow> 'u in_model \<Rightarrow> bool" where
  "in_arms U s m t \<longleftrightarrow> (in_asking t () \<longrightarrow>
     in_asking s () \<and> m \<noteq> InKey ''esc'' \<and> in_confirm t = in_word U (in_confirm s) m \<or>
     in_asks s m () \<and> in_confirm t = in_empty_word U s)"

lemma in_arms_other: "in_mode t \<noteq> InModeConfirmBackup \<Longrightarrow> in_arms U s m t"
  by (simp add: in_arms_def in_asking_def)

lemma in_start_form_mode [simp]: "in_mode (in_start_form U io s) \<noteq> InModeConfirmBackup"
  by (cases io) (simp_all add: in_start_form_def Let_def)

lemma in_form_mode:
  assumes "in_mode s \<in> {InModeCreate, InModeEdit}"
  shows "after (\<lambda>t cs. in_mode t \<noteq> InModeConfirmBackup) (in_update_form U k s)"
proof -
  have at: "in_mode t \<noteq> InModeConfirmBackup" if "in_at_focus f v = Some t" "in_mode v \<noteq> InModeConfirmBackup" for f t and v :: "'a in_model"
    using that by (auto simp: in_at_focus_def split: if_splits)
  have move: "after (\<lambda>t cs. in_mode t \<noteq> InModeConfirmBackup) (in_move_focus U d v)" if "in_mode v \<noteq> InModeConfirmBackup" for d v
    using at that unfolding in_move_focus_def by (fastforce simp: after_bind after_map)
  have fill: "in_mode v \<noteq> InModeConfirmBackup" if "in_fill_port U s = Some v" for v
    using that assms by (auto simp: in_fill_port_def split: if_splits option.splits sum.splits)
  have "after (\<lambda>t cs. in_mode t \<noteq> InModeConfirmBackup) (in_submit_form U v)" if "in_mode v \<noteq> InModeConfirmBackup" for v
    using that by (auto simp: in_submit_form_def after_map split: sum.split)
  with move fill have enter: "after (\<lambda>t cs. in_mode t \<noteq> InModeConfirmBackup)
      (Option.bind (in_fill_port U s) (\<lambda>t. if in_focused t = fCount - 1 then in_submit_form U t else in_move_focus U 1 t))"
    by (simp add: after_bind)
  have s: "in_mode s \<noteq> InModeConfirmBackup" using assms by auto
  then have type: "after (\<lambda>t cs. in_mode t \<noteq> InModeConfirmBackup)
      (map_option (\<lambda>u. case ti_key U k u of
               (v, b) \<Rightarrow> (s\<lparr>in_fields := (in_fields s)[nat (in_focused s) := v]\<rparr>, widget_cmd InInputCmd b))
             (slice_at (in_fields s) (in_focused s)))"
    by (simp add: after_map split: prod.split)
  show ?thesis
    unfolding in_update_form_def by (simp only: after_simps move [OF s] enter type if_cancel simp_thms) simp
qed

lemma in_key_arms: "after (\<lambda>t cs. in_arms U s (InKey k) t) (in_update_key U k s)"
proof (cases "in_mode s")
  case InModeList
  have "in_arms U s (InKey k) t" if "t \<in> {s, s\<lparr>in_selected := n\<rparr>, fst (in_refresh U s)}" for t n
    using that InModeList by (auto simp: in_refresh_def intro!: in_arms_other)
  then show ?thesis
    using InModeList
    by (simp add: in_update_key_def in_update_list_def in_on_selected_def in_arms_other after_map)
      (simp add: in_arms_def in_asks_def)
next
  case InModeConfirmBackup
  then show ?thesis
    by (auto simp: in_update_key_def in_update_confirm_backup_def after_map in_arms_def in_asking_def in_word_def
        split: prod.split)
next
  case InModeConfirmDelete
  then show ?thesis
    by (simp add: in_update_key_def in_update_confirm_def in_arms_other after_map)
qed (use in_form_mode [of s U k] in \<open>auto simp: in_update_key_def in_arms_other after_def split: option.splits\<close>)

lemma in_msg_arms:
  assumes "in_update U s m = Some (t, cs)"
  shows "in_arms U s m t"
proof (cases m)
  case (InKey k)
  with assms in_key_arms [of U s k] show ?thesis by simp
qed (use assms in \<open>auto simp: in_arms_def in_asking_def in_word_def in_loaded_def Let_def
      split: option.splits if_splits prod.splits\<close>)

interpretation in_backup: armed_view "in_update U" "in_new U" in_asking in_asks "\<lambda>m. m \<noteq> InKey ''esc''"
    in_confirm "in_empty_word U" "in_word U" for U
proof unfold_locales
  show "\<not> in_asking (in_new U) x" for x by (simp add: in_asking_def in_new_def)
  show "in_asking s x \<and> e \<noteq> InKey ''esc'' \<and> in_confirm s' = in_word U (in_confirm s) e \<or> in_asks s e x \<and> in_confirm s' = in_empty_word U s"
    if "in_update U s e = Some (s', cs)" "in_asking s' x" for s e s' cs x
    using in_msg_arms [OF that(1)] that(2) by (simp add: in_arms_def)
qed

section \<open>The field of the password is masked\<close>

definition in_masks :: "'u ui \<Rightarrow> 'u in_model \<Rightarrow> bool list" where
  "in_masks U s = map (ti_masked U) (in_fields s)"

definition formMasks :: "bool list" where
  "formMasks = map (\<lambda>i. int i = fPassword) [0..<nat fCount]"

definition in_masked :: "'u ui \<Rightarrow> 'u in_model \<Rightarrow> bool" where
  "in_masked U s \<longleftrightarrow> in_masks U s \<in> {[], formMasks}"

lemma in_masked_password: "in_masked U s \<Longrightarrow> slice_at (in_fields s) fPassword = Some u \<Longrightarrow> ti_masked U u"
proof -
  assume m: "in_masked U s" and u: "slice_at (in_fields s) fPassword = Some u"
  then have i: "5 < length (in_fields s)" "u = in_fields s ! 5" by (auto simp: slice_at_def form_consts split: if_splits)
  then have "in_masks U s = formMasks" "ti_masked U u = in_masks U s ! 5" using m by (auto simp: in_masked_def in_masks_def)
  then show "ti_masked U u" by (simp add: formMasks_def form_consts)
qed

lemma in_start_form_masked [simp]: "ui_ok U \<Longrightarrow> in_masked U (in_start_form U io s)"
proof -
  assume U: "ui_ok U"
  have "map (ti_masked U) (build_form_fields U) = formMasks"
    by (simp add: build_form_fields_def formMasks_def ui_okM(1) [OF U])
  then show ?thesis
    using ui_okM(3) [OF U]
    by (cases io) (simp_all add: in_masked_def in_masks_def in_start_form_def Let_def set_field_masks [OF U] map_at)
qed

lemma in_form_masks:
  assumes "ui_ok U"
  shows "after (\<lambda>t cs. in_masks U t = in_masks U s) (in_update_form U k s)"
proof -
  have at: "in_masks U t = in_masks U v" if "in_at_focus f v = Some t" "\<And>u. ti_masked U (f u) = ti_masked U u" for f t v
    using that by (auto simp: in_at_focus_def in_masks_def slice_at_def map_at split: if_splits)
  have move: "after (\<lambda>t cs. in_masks U t = in_masks U v) (in_move_focus U d v)" for d v
    using at ui_okM(3,4) [OF assms] unfolding in_move_focus_def by (fastforce simp: after_bind after_map in_masks_def)
  have fill: "in_masks U v = in_masks U s" if "in_fill_port U s = Some v" for v
    using that set_field_masks [OF assms]
    by (auto simp: in_fill_port_def in_masks_def split: if_splits option.splits sum.splits)
  have submit: "after (\<lambda>t cs. in_masks U t = in_masks U v) (in_submit_form U v)" for v
    by (auto simp: in_submit_form_def after_map in_masks_def split: sum.split)
  have type: "after (\<lambda>t cs. in_masks U t = in_masks U s)
      (map_option (\<lambda>u. case ti_key U k u of
               (v, b) \<Rightarrow> (s\<lparr>in_fields := (in_fields s)[nat (in_focused s) := v]\<rparr>, widget_cmd InInputCmd b))
             (slice_at (in_fields s) (in_focused s)))"
  proof -
    have "in_masks U (s\<lparr>in_fields := (in_fields s)[n := fst (ti_key U k (in_fields s ! n))]\<rparr>) = in_masks U s" for n
      by (simp add: in_masks_def map_at ui_okM(5) [OF assms])
    then show ?thesis by (auto simp: after_map slice_at_def case_prod_beta)
  qed
  have esc: "in_masks U (s\<lparr>in_mode := InModeList\<rparr>) = in_masks U s" by (simp add: in_masks_def)
  have enter: "after (\<lambda>t cs. in_masks U t = in_masks U s)
      (Option.bind (in_fill_port U s) (\<lambda>t. if in_focused t = fCount - 1 then in_submit_form U t else in_move_focus U 1 t))"
  proof -
    have "after (\<lambda>t cs. in_masks U t = in_masks U s)
        (if in_focused y = fCount - 1 then in_submit_form U y else in_move_focus U 1 y)" if "in_fill_port U s = Some y" for y
      using submit [of y] move [of y 1] fill [OF that] by simp
    then show ?thesis by (simp add: after_bind)
  qed
  show ?thesis
    unfolding in_update_form_def by (simp only: after_simps move enter type if_cancel) (simp add: esc)
qed

lemma in_update_masked:
  assumes "ui_ok U" "in_masked U s" "in_update U s m = Some (t, cs)"
  shows "in_masked U t"
proof (cases m)
  case (InKey k)
  have "after (\<lambda>t cs. in_masked U t) (in_update_key U k s)"
  proof (cases "in_mode s \<in> {InModeCreate, InModeEdit}")
    case True
    then show ?thesis
      using in_form_masks [OF assms(1), of s k] assms(2)
      by (auto simp: in_update_key_def in_masked_def after_def split: option.splits)
  next
    case False
    then show ?thesis
      using assms(2) in_start_form_masked [OF assms(1)]
      by (cases "in_mode s")
        (simp_all add: in_update_key_def in_update_list_def in_on_selected_def in_update_confirm_def
          in_update_confirm_backup_def in_refresh_def after_map in_masked_def in_masks_def split: prod.split)
  qed
  with InKey assms(3) show ?thesis by simp
qed (use assms in \<open>auto simp: in_masked_def in_masks_def in_loaded_def Let_def split: option.splits if_splits prod.splits\<close>)

section \<open>Properties\<close>

text \<open>
  C35. Opening the edit form on the selected instance, going to its last field with any of the keys for moving
  and saving submits, for that instance, every field the form shows exactly as it was: name, engine,
  host, port, user, password, default database and the excluded databases. This holds of an instance whose
  engine is a known one, whose texts are printable ASCII, whose port is not 0 and fits into 64 bits, and whose excluded
  names have no comma and no blank at either end. What the form does not show is not kept: the extra connection
  options and the creation time are submitted empty, and the instance is enabled, whatever it was before.
\<close>

theorem edit_form_roundtrip:
  assumes "ui_ok U" "plain_instance i" "engine_valid (i_engine i)" "\<forall>x \<in> set (i_excluded i). listable x"
    "i_port i \<noteq> 0" "- (2 ^ 63) \<le> i_port i" "i_port i < 2 ^ 63"
    "in_mode s = InModeList" "slice_at (in_instances s) (in_selected s) = Some i"
    "set ks \<subseteq> nav_keys" "sum_list (map nav_step ks) mod fCount = fCount - 1"
  shows "map_option snd (run_view (in_update U) s (InKey ''e'' # map InKey ks @ [InKey ''enter''])) =
    Some [InSubmitCmd (i_id i)
      (i\<lparr>i_id := '''', i_extra := [], i_enabled := True, i_created := zero_time, i_updated := zero_time\<rparr>)]"
proof -
  let ?f = "in_start_form U (Some i) s"
  have m: "in_mode ?f = InModeEdit" "in_editing ?f = i_id i" "in_focused ?f = 0" "in_open ?f"
    by (simp_all add: in_start_form_def in_open_def Let_def form_consts)
  have e: "in_update U s (InKey ''e'') = Some (?f, [])"
    using assms(8,9) by (auto simp: in_update_key_def in_update_list_def in_on_selected_def)
  obtain t where t: "run_view (in_update U) ?f (map InKey ks) = Some (t, [])" "in_mode t = InModeEdit"
    "in_editing t = i_id i" "in_focused t = fCount - 1" "in_texts U t = in_texts U ?f"
    using in_navs [OF assms(1) m(4,1) assms(10)] m(2,3) assms(11) by auto
  have f: "fCount - 1 \<noteq> fEngine" by (simp add: form_consts)
  have "map_option snd (in_update U t (InKey ''enter'')) =
    Some [InSubmitCmd (i_id i)
      (i\<lparr>i_id := '''', i_extra := [], i_enabled := True, i_created := zero_time, i_updated := zero_time\<rparr>)]"
    using in_parse_start_form [OF assms(1-7), of s] in_parse_form_texts [OF t(5)] t(2-4) f
    by (simp add: in_update_key_def in_update_form_def in_fill_port_def in_submit_form_def)
  then obtain v where "in_update U t (InKey ''enter'') = Some (v, [InSubmitCmd (i_id i)
      (i\<lparr>i_id := '''', i_extra := [], i_enabled := True, i_created := zero_time, i_updated := zero_time\<rparr>)])"
    by auto
  then show ?thesis using e t(1) by (simp add: run_view_append)
qed

theorem edit_form_roundtrip_witness:
  "map_option snd (run_view (in_update ref_ui) ((in_new ref_ui)\<lparr>in_instances :=
      [ex_instance ''srv'' EngineSQLServer\<lparr>i_excluded := [''a'', ''b''], i_enabled := False\<rparr>]\<rparr>)
      (map InKey [''e'', ''down'', ''tab'', ''up'', ''shift+tab'', ''shift+tab'', ''enter''])) =
    Some [InSubmitCmd ''i1'' (ex_instance ''srv'' EngineSQLServer\<lparr>i_excluded := [''a'', ''b''], i_id := ''''\<rparr>)]"
proof -
  let ?i = "ex_instance ''srv'' EngineSQLServer\<lparr>i_excluded := [''a'', ''b''], i_enabled := False\<rparr>"
  let ?s = "(in_new ref_ui)\<lparr>in_instances := [?i]\<rparr>"
  have "plain_instance ?i" "\<forall>x \<in> set (i_excluded ?i). listable x"
    by (simp_all add: plain_instance_def plain_def ex_instance_def listable_def trim_space_def is_space_def)
  note edit_form_roundtrip [OF ui_ok_ref_ui this(1) _ this(2), of ?s "[''down'', ''tab'', ''up'', ''shift+tab'', ''shift+tab'']"]
  then show ?thesis by (simp add: ex_instance_def zero_time_def in_new_def nav_keys_def nav_step_def fCount_def)
qed

text \<open>
  C36. In every run of the instances tab exactly one kind of step panics: enter in the dialogue of a manual
  backup, with the confirmation word typed, when the list has become empty since the dialogue was opened.
  Every other step, in every other state that can be reached, has a result.
\<close>

theorem instances_tab_panics_exactly:
  assumes "run_view (in_update U) (in_new U) ms = Some (s, cs)"
  shows "in_update U s m = None \<longleftrightarrow>
     m = InKey ''enter'' \<and> in_mode s = InModeConfirmBackup \<and> in_instances s = [] \<and>
     confirms ConfirmPhrase (ti_value U (in_confirm s))"
  using in_step [OF inst.run_inv [OF in_new_inv assms], of U m] givesD(1) [of in_inv "in_update U s m"]
  by (auto simp: in_panics_def split: if_splits)

definition ex_emptied :: "in_msg list" where
  "ex_emptied = [InLoaded [ex_instance ''srv'' EngineMySQL] None, InKey ''b''] @
     map InKey (type_word ''confirmar'') @ [InLoaded [] None]"

theorem instances_tab_panics_exactly_witness:
  "\<exists>s cs. run_view (in_update ref_ui) (in_new ref_ui) ex_emptied = Some (s, cs) \<and>
     in_update ref_ui s (InKey ''enter'') = None \<and> in_update ref_ui s (InKey ''esc'') \<noteq> None"
proof -
  obtain s cs where r: "run_view (in_update ref_ui) (in_new ref_ui) ex_emptied = Some (s, cs)"
    and s: "in_mode s = InModeConfirmBackup" "in_instances s = []" "ti_value ref_ui (in_confirm s) = ''confirmar''"
    by (simp add: ex_emptied_def in_new_def ref_ui_def in_update_key_def in_update_list_def
        in_update_confirm_backup_def in_loaded_def widget_cmd_def type_word_def Let_def)
  have "in_update ref_ui s (InKey ''enter'') = None"
    using instances_tab_panics_exactly [OF r, of "InKey ''enter''"] s confirms_itself by (simp add: ConfirmPhrase_def)
  moreover have "in_update ref_ui s (InKey ''esc'') \<noteq> None"
    using instances_tab_panics_exactly [OF r, of "InKey ''esc''"] by simp
  ultimately show ?thesis using r by blast
qed

definition in_start :: "'u ui \<Rightarrow> 'w \<Rightarrow> ('u in_model, in_cmd, in_msg, 'w) ui_state" where
  "in_start U w =
     (case in_refresh U (in_new U) of
        (s, cs) \<Rightarrow> \<lparr>u_view = s, u_pending = cs, u_inbox = [], u_world = w\<rparr>)"

definition ex_panic :: "act list" where
  "ex_panic = [Exec 1, Deliver 0, Press ''d'', Press ''s'', Press ''b''] @
     map Press (type_word ''confirmar'') @ [Exec 1, Deliver 0, Press ''enter'']"

text \<open>
  That step can be reached: with one instance registered, delete it, ask for a backup before the deletion
  is reported and type the word; once the empty list has arrived, enter panics.
\<close>

theorem instances_tab_can_panic:
  assumes "in_load E w = InLoaded [i] None" "instance_delete E (i_id i) w = (e, w1)" "in_load E w1 = InLoaded [] None"
  shows "play (in_update ref_ui) (in_exec E) InKey ex_panic (in_start ref_ui w) = None"
  using assms
  by (simp add: ex_panic_def in_start_def in_refresh_def in_new_def ref_ui_def handle_def drop_nth_def
      in_update_key_def in_update_list_def in_update_confirm_def in_update_confirm_backup_def in_loaded_def
      in_spin_def widget_cmd_def confirms_itself ConfirmPhrase_def type_word_def Let_def)

theorem instances_tab_can_panic_witness:
  "play (in_update ref_ui) (in_exec ref_env) InKey ex_panic (in_start ref_ui (ex_sys [ex_instance ''srv'' EngineMySQL] [] 5)) = None"
proof -
  let ?i = "ex_instance ''srv'' EngineMySQL" and ?w = "ex_sys [ex_instance ''srv'' EngineMySQL] [] 5"
  have i: "i_id ?i = ''i1''" by (simp add: ex_instance_def)
  obtain e w1 where d: "instance_delete ref_env (i_id ?i) ?w = (e, w1)" by fastforce
  have a: "in_load ref_env ?w = InLoaded [?i] None" and b: "in_load ref_env w1 = InLoaded [] None"
    using d
    by (auto simp: in_load_def instance_find_all_def inst_find_all_def store_all_def ref_env_sel ref_each_def
        ex_sys_def bucket_defs decode_instance_def instance_delete_def inst_delete_def store_delete_def i)
  show ?thesis by (rule instances_tab_can_panic [OF a d b])
qed

end
