(* ===== verification/Tab_S3Config.thy ===== *)
theory Tab_S3Config
  imports Widgets UseCases
begin

text \<open>
  The tab of the S3 configuration (\<open>tui/views/s3config/model.go\<close>): a form of six fields and two
  buttons, which save the configuration and test the connection. The time limit of a test is
  left out.
\<close>

section \<open>State, messages and commands\<close>

datatype test_state = TestIdle | TestRunning | TestOK | TestFail

record 'u sf_model =
  sf_fields :: "'u list"
  sf_focused :: int
  sf_force_style :: bool
  sf_err :: string
  sf_message :: string
  sf_test :: test_state
  sf_test_msg :: string
  sf_spinner :: 'u

datatype sf_msg =
    SfLoaded "s3_config option" "gerr option"
  | SfSaved "gerr option"
  | SfTested "gerr option"
  | SfTick nat
  | SfKey string
  | SfOther

datatype sf_cmd = SfSpin nat | SfInputCmd | SfLoadCmd | SfSaveCmd s3_config | SfTestCmd s3_config

definition sfBucket :: int where "sfBucket = 0"
definition sfRegion :: int where "sfRegion = 1"
definition sfEndpoint :: int where "sfEndpoint = 2"
definition sfAccessKey :: int where "sfAccessKey = 3"
definition sfSecretKey :: int where "sfSecretKey = 4"
definition sfPrefix :: int where "sfPrefix = 5"
definition sfCount :: int where "sfCount = 6"

lemmas sf_consts = sfBucket_def sfRegion_def sfEndpoint_def sfAccessKey_def sfSecretKey_def sfPrefix_def sfCount_def

definition sfLabels :: "string list" where
  "sfLabels = [''Bucket         '', ''Regi'' @ u_o @ ''n         '', ''Endpoint       '', ''Access Key ID  '',
     ''Secret Key     '', ''Prefijo S3     '']"

definition sf_new :: "'u ui \<Rightarrow> 'u sf_model" where
  "sf_new U =
     \<lparr>sf_fields = map (\<lambda>i. ti_new U (sfLabels ! i) (int i = sfSecretKey)) [0..<nat sfCount], sf_focused = 0,
      sf_force_style = False, sf_err = '''', sf_message = '''', sf_test = TestIdle, sf_test_msg = '''',
      sf_spinner = sp_new U\<rparr>"

section \<open>Keys and messages\<close>

definition sf_at_focus :: "('u \<Rightarrow> 'u) \<Rightarrow> 'u sf_model \<Rightarrow> 'u sf_model option" where
  "sf_at_focus f s =
     (if sf_focused s < sfCount
      then map_option (\<lambda>u. s\<lparr>sf_fields := (sf_fields s)[nat (sf_focused s) := f u]\<rparr>)
             (slice_at (sf_fields s) (sf_focused s))
      else Some s)"

definition sf_move_to :: "'u ui \<Rightarrow> (int \<Rightarrow> int) \<Rightarrow> 'u sf_model \<Rightarrow> ('u sf_model \<times> sf_cmd list) option" where
  "sf_move_to U g s =
     Option.bind (sf_at_focus (ti_blur U) s) (\<lambda>t.
       map_option (\<lambda>v. (v, [])) (sf_at_focus (ti_focus U) (t\<lparr>sf_focused := g (sf_focused t)\<rparr>)))"

definition sf_build_config :: "'u ui \<Rightarrow> 'u sf_model \<Rightarrow> s3_config option" where
  "sf_build_config U s =
     (case those (map (\<lambda>i. map_option (ti_value U) (slice_at (sf_fields s) i))
             [sfBucket, sfRegion, sfEndpoint, sfAccessKey, sfSecretKey, sfPrefix]) of
        Some [b, r, e, a, k, p] \<Rightarrow>
          Some \<lparr>c_bucket = b, c_region = r, c_endpoint = e, c_access_key = a, c_secret_key = k, c_prefix = p,
                c_path_style = (e \<noteq> '''')\<rparr>
      | _ \<Rightarrow> None)"

definition sf_save_cmd :: "'u ui \<Rightarrow> 'u sf_model \<Rightarrow> ('u sf_model \<times> sf_cmd list) option" where
  "sf_save_cmd U s = map_option (\<lambda>c. (s, [SfSaveCmd c])) (sf_build_config U s)"

definition sf_test_cmd :: "'u ui \<Rightarrow> 'u sf_model \<Rightarrow> ('u sf_model \<times> sf_cmd list) option" where
  "sf_test_cmd U s =
     map_option (\<lambda>c. (s\<lparr>sf_test := TestRunning, sf_test_msg := ''''\<rparr>, [SfSpin (sp_tick U (sf_spinner s)), SfTestCmd c]))
       (sf_build_config U s)"

definition sf_type :: "'u ui \<Rightarrow> string \<Rightarrow> 'u sf_model \<Rightarrow> ('u sf_model \<times> sf_cmd list) option" where
  "sf_type U k s =
     (if sf_focused s < sfCount
      then map_option (\<lambda>u. case ti_key U k u of
               (v, b) \<Rightarrow> (s\<lparr>sf_fields := (sf_fields s)[nat (sf_focused s) := v]\<rparr>, widget_cmd SfInputCmd b))
             (slice_at (sf_fields s) (sf_focused s))
      else Some (s, []))"

definition sf_update_key :: "'u ui \<Rightarrow> string \<Rightarrow> 'u sf_model \<Rightarrow> ('u sf_model \<times> sf_cmd list) option" where
  "sf_update_key U k s =
     (if k \<in> {''tab'', ''down''} then sf_move_to U (\<lambda>f. (f + 1) mod (sfCount + 2)) s
      else if k \<in> {''shift+tab'', ''up''}
      then sf_move_to U (\<lambda>f. (f - 1 + sfCount + 2) mod (sfCount + 2)) s
      else if k = ''enter''
      then (if sf_focused s = sfCount then sf_save_cmd U s
            else if sf_focused s = sfCount + 1 then sf_test_cmd U s
            else sf_move_to U (\<lambda>f. (f + 1) mod (sfCount + 2)) s)
      else if k \<in> {''left'', ''right''} \<and> sfCount \<le> sf_focused s
      then sf_move_to U (\<lambda>f. if f = sfCount then sfCount + 1 else sfCount) s
      else sf_type U k s)"

definition sf_loaded :: "'u ui \<Rightarrow> s3_config \<Rightarrow> 'u sf_model \<Rightarrow> 'u sf_model" where
  "sf_loaded U c s =
     s\<lparr>sf_fields := set_field U sfPrefix (c_prefix c) (set_field U sfSecretKey (c_secret_key c)
        (set_field U sfAccessKey (c_access_key c) (set_field U sfEndpoint (c_endpoint c)
        (set_field U sfRegion (c_region c) (set_field U sfBucket (c_bucket c) (sf_fields s))))))\<rparr>"

fun sf_update :: "'u ui \<Rightarrow> 'u sf_model \<Rightarrow> sf_msg \<Rightarrow> ('u sf_model \<times> sf_cmd list) option" where
  "sf_update U s (SfLoaded co e) =
     Some (case (e, co) of (None, Some c) \<Rightarrow> sf_loaded U c s | _ \<Rightarrow> s, [])"
| "sf_update U s (SfSaved e) =
     Some (case e of Some x \<Rightarrow> s\<lparr>sf_err := err_text x, sf_message := ''''\<rparr>
           | None \<Rightarrow> s\<lparr>sf_message := ''Configuraci'' @ u_o @ ''n S3 guardada'', sf_err := ''''\<rparr>, [])"
| "sf_update U s (SfTested e) =
     Some (case e of None \<Rightarrow> s\<lparr>sf_test := TestOK, sf_test_msg := ''Conexi'' @ u_o @ ''n S3 exitosa''\<rparr>
           | Some x \<Rightarrow> s\<lparr>sf_test := TestFail, sf_test_msg := err_text x\<rparr>, [])"
| "sf_update U s (SfTick n) =
     Some (if sf_test s = TestRunning
           then (case sp_update U n (sf_spinner s) of
                   (p, b) \<Rightarrow> (s\<lparr>sf_spinner := p\<rparr>, widget_cmd (SfSpin (sp_tick U p)) b))
           else (s, []))"
| "sf_update U s (SfKey k) = sf_update_key U k s"
| "sf_update U s SfOther = Some (s, [])"

definition sf_refresh :: "'u sf_model \<Rightarrow> 'u sf_model \<times> sf_cmd list" where
  "sf_refresh s = (s, [SfLoadCmd])"

section \<open>Commands\<close>

fun sf_exec :: "('d, 's, 'm) env \<Rightarrow> sf_cmd \<Rightarrow> ('d, 's, 'm) sys \<Rightarrow> sf_msg \<times> ('d, 's, 'm) sys" where
  "sf_exec E (SfSpin n) w = (SfTick n, w)"
| "sf_exec E SfInputCmd w = (SfOther, w)"
| "sf_exec E SfLoadCmd w =
     (case s3config_get E w of Inl e \<Rightarrow> SfLoaded None (Some e) | Inr c \<Rightarrow> SfLoaded (Some c) None, w)"
| "sf_exec E (SfSaveCmd c) w = (case s3config_save E c w of (e, w1) \<Rightarrow> (SfSaved e, w1))"
| "sf_exec E (SfTestCmd c) w = (case s3config_test_connection E c w of (e, w1) \<Rightarrow> (SfTested e, w1))"

section \<open>The invariant\<close>

definition sf_inv :: "'u sf_model \<Rightarrow> bool" where
  "sf_inv s \<longleftrightarrow> length (sf_fields s) = 6 \<and> 0 \<le> sf_focused s \<and> sf_focused s < sfCount + 2"

lemma sf_new_inv [simp]: "sf_inv (sf_new U)"
  by (simp add: sf_inv_def sf_new_def sf_consts)

lemma sf_at_focus_ok: "sf_inv s \<Longrightarrow> \<exists>t. sf_at_focus f s = Some t \<and> sf_inv t \<and> sf_focused t = sf_focused s"
  by (simp add: sf_at_focus_def sf_inv_def sf_consts)

lemma sf_move_ok:
  assumes "sf_inv s" "\<And>f. 0 \<le> g f \<and> g f < sfCount + 2"
  shows "gives sf_inv (sf_move_to U g s)" "after (\<lambda>t cs. cs = []) (sf_move_to U g s)"
proof -
  obtain t where t: "sf_at_focus (ti_blur U) s = Some t" "sf_inv t" using sf_at_focus_ok [OF assms(1)] by blast
  have "sf_inv (t\<lparr>sf_focused := g (sf_focused t)\<rparr>)" using t(2) assms(2) by (simp add: sf_inv_def)
  from sf_at_focus_ok [OF this, of "ti_focus U"] t
  show "gives sf_inv (sf_move_to U g s)" "after (\<lambda>t cs. cs = []) (sf_move_to U g s)"
    by (auto simp: sf_move_to_def)
qed

lemma sf_build_ok: "sf_inv s \<Longrightarrow> \<exists>c. sf_build_config U s = Some c"
  by (simp add: sf_build_config_def sf_inv_def sf_consts)

lemma sf_wrap: "0 \<le> (f :: int) mod (sfCount + 2) \<and> f mod (sfCount + 2) < sfCount + 2"
  by (simp add: sf_consts)

lemma sf_key_ok: "sf_inv s \<Longrightarrow> gives sf_inv (sf_update_key U k s)"
proof -
  assume i: "sf_inv s"
  have "gives sf_inv (sf_save_cmd U s)" "gives sf_inv (sf_test_cmd U s)"
    using sf_build_ok [OF i, of U] i by (auto simp: sf_save_cmd_def sf_test_cmd_def sf_inv_def)
  moreover have "gives sf_inv (sf_type U k s)" for k
    using i by (simp add: sf_type_def sf_inv_def sf_consts split: prod.split)
  moreover have "0 \<le> (if f = sfCount then sfCount + 1 else sfCount) \<and>
      (if f = sfCount then sfCount + 1 else sfCount) < sfCount + 2" for f
    by (simp add: sf_consts)
  note sf_move_ok(1) [OF i this, of U]
  ultimately show ?thesis
    using sf_move_ok(1) [OF i sf_wrap] by (simp add: sf_update_key_def)
qed

lemma sf_ok: "sf_inv s \<Longrightarrow> gives sf_inv (sf_update U s m)"
proof (cases m)
  case (SfKey k)
  then show "sf_inv s \<Longrightarrow> gives sf_inv (sf_update U s m)" using sf_key_ok by simp
qed (auto simp: sf_inv_def sf_loaded_def split: option.split prod.split)

interpretation sf: safe_tab "sf_update U" sf_inv for U
  by (rule safe_tabI) (rule sf_ok)

section \<open>The field of the secret key is masked\<close>

definition sf_masks :: "'u ui \<Rightarrow> 'u sf_model \<Rightarrow> bool list" where
  "sf_masks U s = map (ti_masked U) (sf_fields s)"

definition sf_masked :: "'u ui \<Rightarrow> 'u sf_model \<Rightarrow> bool" where
  "sf_masked U s \<longleftrightarrow> sf_masks U s = map (\<lambda>i. int i = sfSecretKey) [0..<nat sfCount]"

lemma sf_new_masked [simp]: "ui_ok U \<Longrightarrow> sf_masked U (sf_new U)"
  by (simp add: sf_masked_def sf_masks_def sf_new_def ui_okM)

lemma sf_masked_secret: "sf_masked U s \<Longrightarrow> slice_at (sf_fields s) sfSecretKey = Some u \<Longrightarrow> ti_masked U u"
proof -
  assume m: "sf_masked U s" and u: "slice_at (sf_fields s) sfSecretKey = Some u"
  then have "4 < length (sf_fields s)" "u = sf_fields s ! 4" by (auto simp: slice_at_def sf_consts split: if_splits)
  then have "ti_masked U u = sf_masks U s ! 4" by (simp add: sf_masks_def)
  then show "ti_masked U u" using m by (simp add: sf_masked_def sf_consts)
qed

lemma sf_key_masks:
  assumes U: "ui_ok U"
  shows "after (\<lambda>t cs. sf_masks U t = sf_masks U s) (sf_update_key U k s)"
proof -
  have at: "sf_masks U t = sf_masks U v" if "sf_at_focus f v = Some t" "\<And>u. ti_masked U (f u) = ti_masked U u" for f t v
    using that by (auto simp: sf_at_focus_def sf_masks_def slice_at_def map_at split: if_splits)
  have move: "after (\<lambda>t cs. sf_masks U t = sf_masks U s) (sf_move_to U g s)" for g
  proof -
    have "sf_masks U v = sf_masks U s"
      if "sf_at_focus (ti_blur U) s = Some t" "sf_at_focus (ti_focus U) (t\<lparr>sf_focused := g (sf_focused t)\<rparr>) = Some v" for t v
      using at [OF that(1)] at [OF that(2)] ui_okM(3,4) [OF U] by (simp add: sf_masks_def)
    then show ?thesis by (simp add: sf_move_to_def after_bind after_map)
  qed
  have "sf_masks U (s\<lparr>sf_fields := (sf_fields s)[n := fst (ti_key U k (sf_fields s ! n))]\<rparr>) = sf_masks U s" for n k
    by (simp add: sf_masks_def map_at ui_okM(5) [OF U])
  then have type: "after (\<lambda>t cs. sf_masks U t = sf_masks U s) (sf_type U k s)" for k
    by (auto simp: sf_type_def after_map slice_at_def case_prod_beta)
  have send: "after (\<lambda>t cs. sf_masks U t = sf_masks U s) (sf_save_cmd U s)"
      "after (\<lambda>t cs. sf_masks U t = sf_masks U s) (sf_test_cmd U s)"
    by (simp_all add: sf_save_cmd_def sf_test_cmd_def after_map sf_masks_def)
  show ?thesis unfolding sf_update_key_def by (simp only: after_simps move type send if_cancel)
qed

lemma sf_update_masked:
  assumes "ui_ok U" "sf_masked U s" "sf_update U s m = Some (t, cs)"
  shows "sf_masked U t"
proof (cases m)
  case (SfKey k)
  with assms sf_key_masks [OF assms(1), of s k] show ?thesis by (simp add: sf_masked_def)
next
  case (SfLoaded co e)
  with assms show ?thesis
    by (auto simp: sf_masked_def sf_masks_def sf_loaded_def set_field_masks split: option.splits prod.splits)
qed (use assms in \<open>auto simp: sf_masked_def sf_masks_def split: option.splits if_splits prod.splits\<close>)

section \<open>What the buttons send\<close>

definition sf_sends :: "'u ui \<Rightarrow> 'u sf_model \<Rightarrow> sf_msg \<Rightarrow> sf_cmd \<Rightarrow> bool" where
  "sf_sends U s m c =
     (case c of
        SfSaveCmd cfg \<Rightarrow> m = SfKey ''enter'' \<and> sf_focused s = sfCount \<and> sf_build_config U s = Some cfg
      | SfTestCmd cfg \<Rightarrow> m = SfKey ''enter'' \<and> sf_focused s = sfCount + 1 \<and> sf_build_config U s = Some cfg
      | _ \<Rightarrow> True)"

lemma sf_move_cmds: "after (\<lambda>t cs. cs = []) (sf_move_to U g s)"
  by (auto simp: sf_move_to_def after_bind after_map)

lemma sf_key_cmds: "after (\<lambda>t cs. Ball (set cs) (sf_sends U s (SfKey k))) (sf_update_key U k s)"
proof -
  have m: "after (\<lambda>t cs. Ball (set cs) (sf_sends U s (SfKey k))) (sf_move_to U g s)" for g k
    using sf_move_cmds [of U g s] by (auto simp: after_def split: option.splits)
  moreover have "after (\<lambda>t cs. Ball (set cs) (sf_sends U s (SfKey k))) (sf_type U k s)" for k
    by (simp add: sf_type_def after_map widget_cmd_def sf_sends_def split: prod.split)
  moreover have "sf_focused s = sfCount \<Longrightarrow> after (\<lambda>t cs. Ball (set cs) (sf_sends U s (SfKey ''enter''))) (sf_save_cmd U s)"
    by (simp add: sf_save_cmd_def after_map sf_sends_def)
  moreover have "sf_focused s = sfCount + 1 \<Longrightarrow>
      after (\<lambda>t cs. Ball (set cs) (sf_sends U s (SfKey ''enter''))) (sf_test_cmd U s)"
    by (simp add: sf_test_cmd_def after_map sf_sends_def)
  ultimately show ?thesis by (simp add: sf_update_key_def)
qed

lemma sf_cmds: "sf_update U s m = Some (t, cs) \<Longrightarrow> c \<in> set cs \<Longrightarrow> sf_sends U s m c"
proof (cases m)
  case (SfKey k)
  then show "sf_update U s m = Some (t, cs) \<Longrightarrow> c \<in> set cs \<Longrightarrow> sf_sends U s m c"
    using sf_key_cmds [of U s k] by simp
qed (auto simp: sf_sends_def widget_cmd_def split: prod.splits if_splits)

text \<open>A configuration whose fields are printable, read into the form and back.\<close>

definition plain_config :: "s3_config \<Rightarrow> bool" where
  "plain_config c \<longleftrightarrow> plain (c_bucket c) \<and> plain (c_region c) \<and> plain (c_endpoint c) \<and> plain (c_access_key c) \<and>
     plain (c_secret_key c) \<and> plain (c_prefix c)"

lemma sf_build_loaded:
  assumes "ui_ok U" "plain_config c" "sf_inv s"
  shows "sf_build_config U (sf_loaded U c s) = Some (c\<lparr>c_path_style := c_endpoint c \<noteq> ''''\<rparr>)"
  using assms(2,3)
  by (simp add: sf_build_config_def sf_loaded_def sf_consts set_field_nth plain_config_def sf_inv_def
      ui_okD(3) [OF assms(1)])

section \<open>Properties\<close>

text \<open>
  The S3 tab never panics and its focus stays on one of the six fields and two buttons, whatever keys
  and replies arrive; a configuration is saved or tested only on enter on the button for it, and it is the one
  standing in the form at that moment.
\<close>

theorem s3_tab_sends_the_form:
  "\<exists>s ds. run_view (sf_update U) (sf_new U) ms = Some (s, ds) \<and> 0 \<le> sf_focused s \<and> sf_focused s < sfCount + 2 \<and>
     (\<exists>t cs. sf_update U s m = Some (t, cs) \<and> (\<forall>c.
       (SfSaveCmd c \<in> set cs \<longrightarrow> m = SfKey ''enter'' \<and> sf_focused s = sfCount \<and> sf_build_config U s = Some c) \<and>
       (SfTestCmd c \<in> set cs \<longrightarrow> m = SfKey ''enter'' \<and> sf_focused s = sfCount + 1 \<and> sf_build_config U s = Some c)))"
proof -
  obtain s ds where s: "run_view (sf_update U) (sf_new U) ms = Some (s, ds)" "sf_inv s"
    using sf.run_safe [OF sf_new_inv] by blast
  obtain t cs where t: "sf_update U s m = Some (t, cs)" using sf_ok [OF s(2), of U m] by (auto simp: gives_def)
  show ?thesis
    using s t sf_cmds [OF t, of "SfSaveCmd c" for c] sf_cmds [OF t, of "SfTestCmd c" for c]
    by (auto simp: sf_inv_def sf_sends_def)
qed

text \<open>The tab with the save button in focus.\<close>

definition ex_s3_keys :: "sf_msg list" where
  "ex_s3_keys = replicate 6 (SfKey ''tab'')"

text \<open>
  Loading the stored configuration into the form and pressing save sends that configuration back with
  every field as it was, except that path-style addressing is switched on when there is an endpoint and off
  when there is none, whatever was stored.
\<close>

theorem s3_form_roundtrip:
  assumes "ui_ok U" "plain_config c"
    and "run_view (sf_update U) (sf_new U) ms = Some (s, ds)" "sf_focused s = sfCount"
  shows "\<exists>t. run_view (sf_update U) s [SfLoaded (Some c) None, SfKey ''enter''] =
    Some (t, [SfSaveCmd (c\<lparr>c_path_style := c_endpoint c \<noteq> ''''\<rparr>)])"
proof -
  have f: "sf_focused (sf_loaded U c s) = sfCount" using assms(4) by (simp add: sf_loaded_def)
  show ?thesis
    using sf_build_loaded [OF assms(1,2) sf.run_inv [OF sf_new_inv assms(3)]] f
    by (simp add: sf_update_key_def sf_save_cmd_def)
qed

theorem s3_form_roundtrip_witness:
  "\<exists>s t. sf_focused s = sfCount \<and> run_view (sf_update ref_ui) s [SfLoaded (Some ex_cfg) None, SfKey ''enter''] =
    Some (t, [SfSaveCmd ex_cfg])"
proof -
  obtain s ds where s: "run_view (sf_update ref_ui) (sf_new ref_ui) ex_s3_keys = Some (s, ds)"
    and f: "sf_focused s = sfCount"
    by (simp add: ex_s3_keys_def numeral_eq_Suc sf_new_def sf_consts upt_rec ref_ui_def sf_update_key_def
        sf_move_to_def sf_at_focus_def)
  have "plain_config ex_cfg" by (simp add: plain_config_def ex_cfg_def plain_def)
  from s3_form_roundtrip [OF ui_ok_ref_ui this s f] f show ?thesis by (auto simp: ex_cfg_def)
qed

end
