(* ===== verification/Tab_Retention.thy ===== *)
theory Tab_Retention
  imports Widgets UseCases Lifecycle Scheduler
begin

text \<open>
  The tab of retention, schedule and expiry rules (\<open>tui/views/retention/model.go\<close>): three sections with
  two forms and the list of the bucket's rules. The commands run on the system and the
  scheduler, which saving a schedule reloads. The tab is given a lifecycle use case, as \<open>cmd/main.go\<close>
  always does.
\<close>

section \<open>State, messages and commands\<close>

datatype sub_tab = SubRetention | SubScheduler | SubLifecycle

record 'u rt_model =
  rt_tab :: sub_tab
  rt_days :: 'u
  rt_ret_focus :: int
  rt_policies :: "retention_policy list"
  rt_cron0 :: 'u
  rt_cron1 :: 'u
  rt_timezone :: 'u
  rt_cfg :: "scheduler_config option"
  rt_sched_focus :: int
  rt_rules :: "lifecycle_rule list"
  rt_selected :: int
  rt_loading :: bool
  rt_confirm :: bool
  rt_spinner :: 'u
  rt_err :: string
  rt_message :: string

datatype rt_msg =
    RtLoaded "retention_policy list" "scheduler_config option" "gerr option"
  | RtSaved "gerr option"
  | RtRules "lifecycle_rule list" "gerr option"
  | RtSynced "gerr option"
  | RtRuleDeleted "gerr option"
  | RtTick nat
  | RtKey string
  | RtOther

datatype rt_cmd =
    RtSpin nat
  | RtInputCmd
  | RtLoadCmd
  | RtSavePolicyCmd retention_policy
  | RtSaveScheduleCmd scheduler_config
  | RtRulesCmd
  | RtSyncCmd
  | RtDeleteRuleCmd string

definition rt_new :: "'u ui \<Rightarrow> 'u rt_model" where
  "rt_new U =
     \<lparr>rt_tab = SubRetention, rt_days = ti_set U ''3'' (ti_new U ''3'' False), rt_ret_focus = 0, rt_policies = [],
      rt_cron0 = ti_set U ''0 0 0 * * *'' (ti_new U ''0 0 0 * * *'' False),
      rt_cron1 = ti_set U ''0 0 * * * *'' (ti_new U ''0 0 * * * *'' False),
      rt_timezone = ti_set U ''UTC'' (ti_new U ''UTC'' False), rt_cfg = None, rt_sched_focus = 0, rt_rules = [],
      rt_selected = 0, rt_loading = False, rt_confirm = False, rt_spinner = sp_new U, rt_err = '''', rt_message = ''''\<rparr>"

section \<open>Keys\<close>

definition rt_clear :: "'u rt_model \<Rightarrow> 'u rt_model" where
  "rt_clear s = s\<lparr>rt_err := '''', rt_message := ''''\<rparr>"

definition rt_spin :: "'u ui \<Rightarrow> 'u rt_model \<Rightarrow> rt_cmd" where
  "rt_spin U s = RtSpin (sp_tick U (rt_spinner s))"

definition rt_update_lifecycle :: "'u ui \<Rightarrow> string \<Rightarrow> 'u rt_model \<Rightarrow> ('u rt_model \<times> rt_cmd list) option" where
  "rt_update_lifecycle U k s =
     (if rt_confirm s
      then (if k \<in> {''y'', ''Y'', ''s'', ''S''}
            then (if rt_rules s \<noteq> []
                  then map_option (\<lambda>r. (s\<lparr>rt_loading := True\<rparr>, [rt_spin U s, RtDeleteRuleCmd (l_id r)]))
                         (slice_at (rt_rules s) (rt_selected s))
                  else Some (s, []))
            else Some (s\<lparr>rt_confirm := False\<rparr>, []))
      else if k \<in> {''up'', ''k''}
      then Some (if 0 < rt_selected s then s\<lparr>rt_selected := rt_selected s - 1\<rparr> else s, [])
      else if k \<in> {''down'', ''j''}
      then Some (if rt_selected s < int (length (rt_rules s)) - 1
                 then s\<lparr>rt_selected := rt_selected s + 1\<rparr> else s, [])
      else if k = ''s'' then Some ((rt_clear s)\<lparr>rt_loading := True\<rparr>, [rt_spin U s, RtSyncCmd])
      else if k \<in> {''d'', ''delete''}
      then Some (if rt_rules s \<noteq> [] then s\<lparr>rt_confirm := True\<rparr> else s, [])
      else if k \<in> {''r'', ''f5''} then Some (s\<lparr>rt_loading := True\<rparr>, [rt_spin U s, RtRulesCmd])
      else Some (s, []))"

definition rt_focus_retention :: "'u ui \<Rightarrow> 'u rt_model \<Rightarrow> 'u rt_model" where
  "rt_focus_retention U s = (if rt_ret_focus s = 0 then s\<lparr>rt_days := ti_focus U (rt_days s)\<rparr> else s)"

definition rt_blur_retention :: "'u ui \<Rightarrow> 'u rt_model \<Rightarrow> 'u rt_model" where
  "rt_blur_retention U s = s\<lparr>rt_days := ti_blur U (rt_days s)\<rparr>"

definition rt_focus_scheduler :: "'u ui \<Rightarrow> 'u rt_model \<Rightarrow> 'u rt_model" where
  "rt_focus_scheduler U s =
     (if rt_sched_focus s = 0 then s\<lparr>rt_cron0 := ti_focus U (rt_cron0 s)\<rparr>
      else if rt_sched_focus s = 1 then s\<lparr>rt_cron1 := ti_focus U (rt_cron1 s)\<rparr>
      else if rt_sched_focus s = 2 then s\<lparr>rt_timezone := ti_focus U (rt_timezone s)\<rparr>
      else s)"

definition rt_blur_scheduler :: "'u ui \<Rightarrow> 'u rt_model \<Rightarrow> 'u rt_model" where
  "rt_blur_scheduler U s =
     s\<lparr>rt_cron0 := ti_blur U (rt_cron0 s), rt_cron1 := ti_blur U (rt_cron1 s),
       rt_timezone := ti_blur U (rt_timezone s)\<rparr>"

definition rt_next_focus :: "'u ui \<Rightarrow> 'u rt_model \<Rightarrow> 'u rt_model" where
  "rt_next_focus U s =
     (case rt_tab s of
        SubRetention \<Rightarrow> rt_focus_retention U (rt_blur_retention U (s\<lparr>rt_ret_focus := (rt_ret_focus s + 1) mod 2\<rparr>))
      | SubScheduler \<Rightarrow> rt_focus_scheduler U (rt_blur_scheduler U (s\<lparr>rt_sched_focus := (rt_sched_focus s + 1) mod 4\<rparr>))
      | SubLifecycle \<Rightarrow> s)"

definition rt_prev_focus :: "'u ui \<Rightarrow> 'u rt_model \<Rightarrow> 'u rt_model" where
  "rt_prev_focus U s =
     (case rt_tab s of
        SubRetention \<Rightarrow> rt_focus_retention U (rt_blur_retention U (s\<lparr>rt_ret_focus := (rt_ret_focus s - 1 + 2) mod 2\<rparr>))
      | SubScheduler \<Rightarrow>
          rt_focus_scheduler U (rt_blur_scheduler U (s\<lparr>rt_sched_focus := (rt_sched_focus s - 1 + 4) mod 4\<rparr>))
      | SubLifecycle \<Rightarrow> s)"

definition rt_update_field :: "'u ui \<Rightarrow> string \<Rightarrow> 'u rt_model \<Rightarrow> 'u rt_model \<times> rt_cmd list" where
  "rt_update_field U k s =
     (case rt_tab s of
        SubRetention \<Rightarrow>
          if rt_ret_focus s = 0
          then (case ti_key U k (rt_days s) of (t, b) \<Rightarrow> (s\<lparr>rt_days := t\<rparr>, widget_cmd RtInputCmd b)) else (s, [])
      | SubScheduler \<Rightarrow>
          if rt_sched_focus s = 0
          then (case ti_key U k (rt_cron0 s) of (t, b) \<Rightarrow> (s\<lparr>rt_cron0 := t\<rparr>, widget_cmd RtInputCmd b))
          else if rt_sched_focus s = 1
          then (case ti_key U k (rt_cron1 s) of (t, b) \<Rightarrow> (s\<lparr>rt_cron1 := t\<rparr>, widget_cmd RtInputCmd b))
          else if rt_sched_focus s = 2
          then (case ti_key U k (rt_timezone s) of (t, b) \<Rightarrow> (s\<lparr>rt_timezone := t\<rparr>, widget_cmd RtInputCmd b))
          else (s, [])
      | SubLifecycle \<Rightarrow> (s, []))"

definition form_days :: "string \<Rightarrow> int" where
  "form_days v = (let d = (case scan_int v of Some n \<Rightarrow> n | None \<Rightarrow> 0) in if d < 1 then 7 else d)"

definition form_schedule :: "string \<Rightarrow> string \<Rightarrow> string \<Rightarrow> scheduler_config" where
  "form_schedule full log tz =
     \<lparr>sc_enabled = True, sc_full = (if full \<noteq> '''' then [full] else []), sc_log = (if log \<noteq> '''' then [log] else []),
      sc_timezone = (if tz = '''' then ''UTC'' else tz)\<rparr>"

definition rt_save_cmd :: "'u ui \<Rightarrow> 'u rt_model \<Rightarrow> rt_cmd list" where
  "rt_save_cmd U s =
     (case rt_tab s of
        SubRetention \<Rightarrow> [RtSavePolicyCmd \<lparr>p_id = '''', p_instance_id = '''',
          p_retain_days = form_days (ti_value U (rt_days s)), p_created = zero_time, p_updated = zero_time\<rparr>]
      | SubScheduler \<Rightarrow>
          [RtSaveScheduleCmd (form_schedule (ti_value U (rt_cron0 s)) (ti_value U (rt_cron1 s)) (ti_value U (rt_timezone s)))]
      | SubLifecycle \<Rightarrow> [])"

text \<open>The keys 1, 2 and 3 choose the section and are then handled like any other key there.\<close>

definition rt_choose_tab :: "string \<Rightarrow> 'u rt_model \<Rightarrow> 'u rt_model" where
  "rt_choose_tab k s =
     (if k = ''1'' then rt_clear (s\<lparr>rt_tab := SubRetention\<rparr>)
      else if k = ''2'' then rt_clear (s\<lparr>rt_tab := SubScheduler\<rparr>)
      else if k = ''3'' then rt_clear (s\<lparr>rt_tab := SubLifecycle\<rparr>)
      else s)"

definition rt_update_key :: "'u ui \<Rightarrow> string \<Rightarrow> 'u rt_model \<Rightarrow> ('u rt_model \<times> rt_cmd list) option" where
  "rt_update_key U k s =
     (let t = rt_choose_tab k s in
      if k = ''3'' \<and> rt_rules t = [] \<and> \<not> rt_loading t
      then Some (t\<lparr>rt_loading := True\<rparr>, [rt_spin U t, RtRulesCmd])
      else if rt_tab t = SubLifecycle then rt_update_lifecycle U k t
      else if k \<in> {''tab'', ''down''} then Some (rt_next_focus U t, [])
      else if k \<in> {''shift+tab'', ''up''} then Some (rt_prev_focus U t, [])
      else if k = ''enter'' then Some (t, rt_save_cmd U t)
      else if k = ''r'' then Some (t, [RtLoadCmd])
      else Some (rt_update_field U k t))"

section \<open>Messages\<close>

text \<open>\<open>lifecycleErrHint\<close>: what an error of the lifecycle API may mean.\<close>

definition u_arrow :: string where "u_arrow = [CHR 0xE2, CHR 0x86, CHR 0x92]"

definition lifecycle_err_hint :: "gerr \<Rightarrow> string" where
  "lifecycle_err_hint e =
     (let msg = err_text e; lower = to_lower msg in
      if \<exists>t \<in> {''not implemented'', ''notimplemented'', ''methodnotallowed'', ''403'', ''access denied''}. str_contains lower t
      then msg @ [CHR 0x0A] @ ''  '' @ u_arrow @ '' El bucket puede haber sido creado sin lifecycle policies.'' @
           [CHR 0x0A] @ ''  '' @ u_arrow @ '' En Hetzner: elimina y vuelve a crear el bucket activando la opci'' @ u_o @
           ''n de lifecycle.''
      else msg)"

definition rt_loaded :: "'u ui \<Rightarrow> scheduler_config \<Rightarrow> 'u rt_model \<Rightarrow> 'u rt_model" where
  "rt_loaded U c s =
     s\<lparr>rt_cfg := Some c,
       rt_cron0 := (case sc_full c of [] \<Rightarrow> rt_cron0 s | x # xs \<Rightarrow> ti_set U x (rt_cron0 s)),
       rt_cron1 := (case sc_log c of [] \<Rightarrow> rt_cron1 s | x # xs \<Rightarrow> ti_set U x (rt_cron1 s)),
       rt_timezone := ti_set U (sc_timezone c) (rt_timezone s)\<rparr>"

definition rt_got_rules :: "lifecycle_rule list \<Rightarrow> 'u rt_model \<Rightarrow> 'u rt_model" where
  "rt_got_rules rs s =
     s\<lparr>rt_rules := rs,
       rt_selected := (if int (length rs) \<le> rt_selected s \<and> 0 < length rs then int (length rs) - 1
                       else rt_selected s)\<rparr>"

fun rt_update :: "'u ui \<Rightarrow> 'u rt_model \<Rightarrow> rt_msg \<Rightarrow> ('u rt_model \<times> rt_cmd list) option" where
  "rt_update U s (RtLoaded ps co e) =
     (let t = (if e = None then s\<lparr>rt_policies := ps\<rparr> else s)
      in Some (case co of None \<Rightarrow> t | Some c \<Rightarrow> rt_loaded U c t, []))"
| "rt_update U s (RtSaved e) =
     Some (case e of Some x \<Rightarrow> s\<lparr>rt_err := err_text x, rt_message := ''''\<rparr>
           | None \<Rightarrow> s\<lparr>rt_message := ''Guardado exitosamente'', rt_err := ''''\<rparr>, [])"
| "rt_update U s (RtRules rs e) =
     (let t = s\<lparr>rt_loading := False\<rparr>
      in Some (case e of Some x \<Rightarrow> t\<lparr>rt_err := lifecycle_err_hint x\<rparr> | None \<Rightarrow> rt_got_rules rs t, []))"
| "rt_update U s (RtSynced e) =
     (let t = s\<lparr>rt_loading := False\<rparr>
      in Some (case e of Some x \<Rightarrow> t\<lparr>rt_err := lifecycle_err_hint x, rt_message := ''''\<rparr>
           | None \<Rightarrow> t\<lparr>rt_message := ''Reglas S3 sincronizadas correctamente'', rt_err := ''''\<rparr>, [RtRulesCmd]))"
| "rt_update U s (RtRuleDeleted e) =
     (let t = s\<lparr>rt_loading := False, rt_confirm := False\<rparr>
      in Some (case e of Some x \<Rightarrow> t\<lparr>rt_err := err_text x, rt_message := ''''\<rparr>
           | None \<Rightarrow> t\<lparr>rt_message := ''Regla eliminada'', rt_err := ''''\<rparr>, [RtRulesCmd]))"
| "rt_update U s (RtTick n) =
     Some (if rt_loading s
           then (case sp_update U n (rt_spinner s) of
                   (p, b) \<Rightarrow> (s\<lparr>rt_spinner := p\<rparr>, widget_cmd (RtSpin (sp_tick U p)) b))
           else (s, []))"
| "rt_update U s (RtKey k) = rt_update_key U k s"
| "rt_update U s RtOther = Some (s, [])"

definition rt_refresh :: "'u rt_model \<Rightarrow> 'u rt_model \<times> rt_cmd list" where
  "rt_refresh s = (s, [RtLoadCmd])"

section \<open>Commands\<close>

fun rt_exec :: "('d, 's, 'm) env \<Rightarrow> rt_cmd \<Rightarrow> scheduler \<times> ('d, 's, 'm) sys \<Rightarrow>
    rt_msg \<times> (scheduler \<times> ('d, 's, 'm) sys)" where
  "rt_exec E (RtSpin n) w = (RtTick n, w)"
| "rt_exec E RtInputCmd w = (RtOther, w)"
| "rt_exec E RtLoadCmd w =
     (case retention_find_all E (snd w) of
        Inl e \<Rightarrow> RtLoaded [] (Some (scheduler_uc_get E (snd w))) (Some e)
      | Inr ps \<Rightarrow> RtLoaded ps (Some (scheduler_uc_get E (snd w))) None, w)"
| "rt_exec E (RtSavePolicyCmd p) w =
     (case retention_save E p (snd w) of (e, w1) \<Rightarrow> (RtSaved e, (fst w, w1)))"
| "rt_exec E (RtSaveScheduleCmd c) w =
     (case scheduler_uc_save E c (snd w) of
        (Some e, w1) \<Rightarrow> (RtSaved (Some e), (fst w, w1))
      | (None, w1) \<Rightarrow> (case scheduler_reload E w1 (fst w) of (e, d) \<Rightarrow> (RtSaved e, (d, w1))))"
| "rt_exec E RtRulesCmd w =
     (case get_rules E (snd w) of
        (Inl e, w1) \<Rightarrow> (RtRules [] (Some e), (fst w, w1))
      | (Inr rs, w1) \<Rightarrow> (RtRules rs None, (fst w, w1)))"
| "rt_exec E RtSyncCmd w = (case sync_with_retention E (snd w) of (e, w1) \<Rightarrow> (RtSynced e, (fst w, w1)))"
| "rt_exec E (RtDeleteRuleCmd i) w = (case delete_rule E i (snd w) of (e, w1) \<Rightarrow> (RtRuleDeleted e, (fst w, w1)))"

section \<open>The invariant\<close>

definition rt_inv :: "'u rt_model \<Rightarrow> bool" where
  "rt_inv s \<longleftrightarrow> 0 \<le> rt_selected s \<and> (rt_rules s = [] \<or> rt_selected s < int (length (rt_rules s))) \<and>
     0 \<le> rt_ret_focus s \<and> rt_ret_focus s < 2 \<and> 0 \<le> rt_sched_focus s \<and> rt_sched_focus s < 4"

lemma rt_new_inv [simp]: "rt_inv (rt_new U)"
  by (simp add: rt_inv_def rt_new_def)

lemma rt_inv_upd [simp]:
  "rt_inv (s\<lparr>rt_tab := a\<rparr>) = rt_inv s" "rt_inv (s\<lparr>rt_days := u\<rparr>) = rt_inv s"
  "rt_inv (s\<lparr>rt_policies := ps\<rparr>) = rt_inv s" "rt_inv (s\<lparr>rt_cron0 := u\<rparr>) = rt_inv s"
  "rt_inv (s\<lparr>rt_cron1 := u\<rparr>) = rt_inv s" "rt_inv (s\<lparr>rt_timezone := u\<rparr>) = rt_inv s"
  "rt_inv (s\<lparr>rt_cfg := c\<rparr>) = rt_inv s" "rt_inv (s\<lparr>rt_loading := b\<rparr>) = rt_inv s"
  "rt_inv (s\<lparr>rt_confirm := b\<rparr>) = rt_inv s" "rt_inv (s\<lparr>rt_spinner := u\<rparr>) = rt_inv s"
  "rt_inv (s\<lparr>rt_err := e\<rparr>) = rt_inv s" "rt_inv (s\<lparr>rt_message := e\<rparr>) = rt_inv s"
  by (simp_all add: rt_inv_def)

lemma rt_helpers_inv [simp]:
  "rt_inv (rt_clear s) = rt_inv s" "rt_inv (rt_focus_retention U s) = rt_inv s"
  "rt_inv (rt_blur_retention U s) = rt_inv s" "rt_inv (rt_focus_scheduler U s) = rt_inv s"
  "rt_inv (rt_blur_scheduler U s) = rt_inv s" "rt_inv (rt_choose_tab k s) = rt_inv s"
  "rt_inv (rt_loaded U c s) = rt_inv s"
  by (simp_all add: rt_clear_def rt_focus_retention_def rt_blur_retention_def rt_focus_scheduler_def
      rt_blur_scheduler_def rt_choose_tab_def rt_loaded_def)

lemma rt_inv_focus:
  "rt_inv s \<Longrightarrow> rt_inv (s\<lparr>rt_ret_focus := f mod 2\<rparr>)" "rt_inv s \<Longrightarrow> rt_inv (s\<lparr>rt_sched_focus := f mod 4\<rparr>)"
  by (simp_all add: rt_inv_def)

lemma rt_move_inv: "rt_inv s \<Longrightarrow> rt_inv (rt_next_focus U s)" "rt_inv s \<Longrightarrow> rt_inv (rt_prev_focus U s)"
  by (simp_all add: rt_next_focus_def rt_prev_focus_def rt_inv_focus del: diff_add_eq split: sub_tab.split)

lemma rt_field_inv: "rt_inv s \<Longrightarrow> rt_inv (fst (rt_update_field U k s))"
  by (simp add: rt_update_field_def split: sub_tab.split prod.split)

lemma rt_rule_slice:
  "rt_inv s \<Longrightarrow> rt_rules s \<noteq> [] \<Longrightarrow> slice_at (rt_rules s) (rt_selected s) = Some (rt_rules s ! nat (rt_selected s))"
  by (simp add: rt_inv_def)

lemma rt_inv_selected:
  "rt_inv s \<Longrightarrow> 0 < rt_selected s \<Longrightarrow> rt_inv (s\<lparr>rt_selected := rt_selected s - 1\<rparr>)"
  "rt_inv s \<Longrightarrow> rt_selected s < int (length (rt_rules s)) - 1 \<Longrightarrow> rt_inv (s\<lparr>rt_selected := rt_selected s + 1\<rparr>)"
  by (auto simp: rt_inv_def)

lemma rt_rules_inv: "rt_inv s \<Longrightarrow> rt_inv (rt_got_rules rs s)"
  by (auto simp: rt_inv_def rt_got_rules_def)

lemma rt_lifecycle_ok: "rt_inv s \<Longrightarrow> gives rt_inv (rt_update_lifecycle U k s)"
  by (simp add: rt_update_lifecycle_def rt_inv_selected rt_rule_slice)

lemma rt_key_ok: "rt_inv s \<Longrightarrow> gives rt_inv (rt_update_key U k s)"
  by (simp add: rt_update_key_def Let_def rt_lifecycle_ok rt_move_inv rt_field_inv)

lemma rt_ok: "rt_inv s \<Longrightarrow> gives rt_inv (rt_update U s m)"
proof (cases m)
  case (RtKey k)
  then show "rt_inv s \<Longrightarrow> gives rt_inv (rt_update U s m)" using rt_key_ok by simp
qed (auto simp: Let_def rt_rules_inv split: option.split prod.split)

interpretation rt: safe_tab "rt_update U" rt_inv for U
  by (rule safe_tabI) (rule rt_ok)

text \<open>The rule a deletion names.\<close>

definition rt_deletes :: "'u rt_model \<Rightarrow> string \<Rightarrow> rt_cmd \<Rightarrow> bool" where
  "rt_deletes s k c \<longleftrightarrow> (\<forall>i. c = RtDeleteRuleCmd i \<longrightarrow> rt_confirm s \<and> k \<in> {''y'', ''Y'', ''s'', ''S''} \<and>
     (\<exists>r \<in> set (rt_rules s). l_id r = i))"

lemma rt_deletes_simps [simp]:
  "rt_deletes s k (rt_spin U s')" "rt_deletes s k (RtSpin n)" "rt_deletes s k RtInputCmd" "rt_deletes s k RtLoadCmd"
  "rt_deletes s k (RtSavePolicyCmd p)" "rt_deletes s k (RtSaveScheduleCmd c)" "rt_deletes s k RtRulesCmd"
  "rt_deletes s k RtSyncCmd"
  by (simp_all add: rt_deletes_def rt_spin_def)

lemma rt_lifecycle_deletes: "after (\<lambda>t cs. Ball (set cs) (rt_deletes s k)) (rt_update_lifecycle U k s)"
proof -
  have "rt_deletes s j (RtDeleteRuleCmd (l_id r))"
    if "rt_confirm s" "j \<in> {''y'', ''Y'', ''s'', ''S''}" "slice_at (rt_rules s) (rt_selected s) = Some r" for r j
    using that slice_at_set [OF that(3)] by (auto simp: rt_deletes_def)
  then show ?thesis by (simp add: rt_update_lifecycle_def after_map)
qed

lemma rt_field_deletes: "Ball (set (snd (rt_update_field U k s))) (rt_deletes s' j)"
  by (simp add: rt_update_field_def widget_cmd_def split: sub_tab.split prod.split)

lemma rt_save_deletes: "Ball (set (rt_save_cmd U s)) (rt_deletes s' j)"
  by (simp add: rt_save_cmd_def split: sub_tab.split)

lemma rt_choose_rules [simp]:
  "rt_rules (rt_choose_tab k s) = rt_rules s" "rt_confirm (rt_choose_tab k s) = rt_confirm s"
  by (simp_all add: rt_choose_tab_def rt_clear_def)

lemma rt_deletes_choose [simp]: "rt_deletes (rt_choose_tab j s) k c = rt_deletes s k c"
  by (simp add: rt_deletes_def)

lemma rt_key_deletes: "after (\<lambda>t cs. Ball (set cs) (rt_deletes s k)) (rt_update_key U k s)"
proof -
  have l: "after (\<lambda>t cs. Ball (set cs) (rt_deletes s j)) (rt_update_lifecycle U j (rt_choose_tab j s))" for j
    using rt_lifecycle_deletes [of "rt_choose_tab j s" j U] by simp
  show ?thesis
    by (simp add: rt_update_key_def Let_def l rt_field_deletes rt_save_deletes)
qed

lemma rt_cmds: "rt_update U s m = Some (t, cs) \<Longrightarrow> RtDeleteRuleCmd i \<in> set cs \<Longrightarrow>
  \<exists>k. m = RtKey k \<and> rt_deletes s k (RtDeleteRuleCmd i)"
proof (cases m)
  case (RtKey k)
  then show "rt_update U s m = Some (t, cs) \<Longrightarrow> RtDeleteRuleCmd i \<in> set cs \<Longrightarrow>
      \<exists>k. m = RtKey k \<and> rt_deletes s k (RtDeleteRuleCmd i)"
    using rt_key_deletes [of s k U] by auto
qed (auto simp: widget_cmd_def Let_def split: prod.splits if_splits)

section \<open>The forms\<close>

lemma rt_replies_keep_days:
  assumes "run_view (rt_update U) s ms = Some (t, cs)" "\<forall>k. RtKey k \<notin> set ms"
  shows "rt_days t = rt_days s \<and> rt_tab t = rt_tab s"
  using assms
proof (induction ms arbitrary: s cs)
  case (Cons m ms)
  from Cons.prems(1) obtain s1 ds cs1 where
    m: "rt_update U s m = Some (s1, ds)" and r: "run_view (rt_update U) s1 ms = Some (t, cs1)"
    by (auto split: option.splits)
  have "rt_days s1 = rt_days s \<and> rt_tab s1 = rt_tab s"
    using m Cons.prems(2)
    by (cases m) (auto simp: Let_def rt_loaded_def rt_got_rules_def split: if_splits option.splits prod.splits)
  with Cons.IH [OF r] Cons.prems(2) show ?case by simp
qed simp

lemma form_days_3: "form_days ''3'' = 3"
  by (simp add: form_days_def scan_int_def digits_value_def is_digit_def is_space_def Let_def)

section \<open>Properties\<close>

text \<open>
  The tab of retention, schedule and rules never panics, whatever keys and replies arrive: the selected
  rule stays within the list and each form's focus on one of its fields. A bucket rule is deleted only on a
  yes in its dialogue, and it is one of the rules listed.
\<close>

theorem retention_tab_never_panics:
  "\<exists>s ds. run_view (rt_update U) (rt_new U) ms = Some (s, ds) \<and> 0 \<le> rt_ret_focus s \<and> rt_ret_focus s < 2 \<and>
     0 \<le> rt_sched_focus s \<and> rt_sched_focus s < 4 \<and>
     (\<exists>t cs. rt_update U s m = Some (t, cs) \<and> (\<forall>i. RtDeleteRuleCmd i \<in> set cs \<longrightarrow>
        rt_confirm s \<and> m \<in> RtKey ` {''y'', ''Y'', ''s'', ''S''} \<and> i \<in> l_id ` set (rt_rules s)))"
proof -
  obtain s ds where s: "run_view (rt_update U) (rt_new U) ms = Some (s, ds)" "rt_inv s"
    using rt.run_safe [OF rt_new_inv] by blast
  obtain t cs where t: "rt_update U s m = Some (t, cs)" using rt_ok [OF s(2), of U m] by (auto simp: gives_def)
  show ?thesis
    using s t rt_cmds [OF t] by (fastforce simp: rt_inv_def rt_deletes_def)
qed

definition ex_rule_keys :: "rt_msg list" where
  "ex_rule_keys = [RtKey ''3'', RtRules [\<lparr>l_id = ''x'', l_status = ''Enabled'', l_prefix = '''', l_days = 3,
     l_managed_by = ''''\<rparr>] None, RtKey ''d'']"

theorem retention_tab_never_panics_witness:
  "\<exists>s ds. run_view (rt_update ref_ui) (rt_new ref_ui) ex_rule_keys = Some (s, ds) \<and>
     (\<exists>t cs. rt_update ref_ui s (RtKey ''s'') = Some (t, cs) \<and> RtDeleteRuleCmd ''x'' \<in> set cs \<and> rt_confirm s)"
proof -
  obtain s ds where r: "run_view (rt_update ref_ui) (rt_new ref_ui) ex_rule_keys = Some (s, ds)"
    and s: "rt_tab s = SubLifecycle" "rt_confirm s" "map l_id (rt_rules s) = [''x'']" "rt_selected s = 0"
    by (simp add: ex_rule_keys_def rt_new_def ref_ui_def rt_update_key_def rt_choose_tab_def rt_clear_def
        rt_update_lifecycle_def rt_got_rules_def rt_spin_def Let_def)
  obtain t cs where t: "rt_update ref_ui s (RtKey ''s'') = Some (t, cs)" and c: "RtDeleteRuleCmd ''x'' \<in> set cs"
    using s by (auto simp: rt_update_key_def rt_choose_tab_def rt_update_lifecycle_def slice_at_def Let_def)
  show ?thesis
    using retention_tab_never_panics [of ref_ui ex_rule_keys "RtKey ''s''"] r t c by auto
qed

text \<open>
  The days of the retention form are not those of the stored policy: whatever policies and schedules are
  loaded, the field keeps its initial 3, so opening the tab and pressing enter saves a policy of three days
  for every instance without one of its own.
\<close>

theorem retention_form_ignores_policy:
  assumes "ui_ok U" "run_view (rt_update U) (rt_new U) ms = Some (s, cs)" "\<forall>k. RtKey k \<notin> set ms"
  shows "\<exists>p. rt_update U s (RtKey ''enter'') = Some (s, [RtSavePolicyCmd p]) \<and> p_retain_days p = 3 \<and> p_instance_id p = ''''"
proof -
  have d: "rt_days s = rt_days (rt_new U)" "rt_tab s = SubRetention"
    using rt_replies_keep_days [OF assms(2,3)] by (simp_all add: rt_new_def)
  have "ti_value U (rt_days s) = ''3''"
    using d ui_okD(3) [OF assms(1)] by (simp add: rt_new_def plain_def)
  then show ?thesis
    using d by (simp add: rt_update_key_def rt_choose_tab_def rt_save_cmd_def form_days_3)
qed

theorem retention_form_ignores_policy_witness:
  "\<exists>s p. rt_policies s = [\<lparr>p_id = '''', p_instance_id = '''', p_retain_days = 90, p_created = 1, p_updated = 1\<rparr>] \<and>
     rt_update ref_ui s (RtKey ''enter'') = Some (s, [RtSavePolicyCmd p]) \<and> p_retain_days p = 3"
proof -
  let ?ms = "[RtLoaded [\<lparr>p_id = '''', p_instance_id = '''', p_retain_days = 90, p_created = 1, p_updated = 1\<rparr>] None None]"
  obtain s cs where s: "run_view (rt_update ref_ui) (rt_new ref_ui) ?ms = Some (s, cs)" by simp
  moreover from this have "rt_policies s = [\<lparr>p_id = '''', p_instance_id = '''', p_retain_days = 90, p_created = 1, p_updated = 1\<rparr>]"
    by auto
  ultimately show ?thesis using retention_form_ignores_policy [OF ui_ok_ref_ui s] by force
qed

text \<open>
  Loading the stored schedule into its form and pressing enter saves it as it was when it is enabled and
  has one full and one log expression. Of a schedule with more, all but the first of each are dropped, and a
  disabled one is enabled.
\<close>

theorem schedule_form_roundtrip:
  assumes "ui_ok U" "rt_tab s = SubScheduler" "sc_full c = x # xs" "sc_log c = y # ys"
    "plain x" "plain y" "plain (sc_timezone c)" "x \<noteq> ''''" "y \<noteq> ''''" "sc_timezone c \<noteq> ''''"
  shows "map_option snd (run_view (rt_update U) s [RtLoaded ps (Some c) None, RtKey ''enter'']) =
    Some [RtSaveScheduleCmd (c\<lparr>sc_enabled := True, sc_full := [x], sc_log := [y]\<rparr>)]"
  using assms(2-) ui_okD(3) [OF assms(1)]
  by (simp add: rt_loaded_def rt_update_key_def rt_choose_tab_def rt_save_cmd_def form_schedule_def)

theorem schedule_form_roundtrip_witness:
  "map_option snd (run_view (rt_update ref_ui) ((rt_new ref_ui)\<lparr>rt_tab := SubScheduler\<rparr>)
      [RtLoaded [] (Some default_scheduler_config) None, RtKey ''enter'']) = Some [RtSaveScheduleCmd default_scheduler_config]"
  using schedule_form_roundtrip [OF ui_ok_ref_ui, of "(rt_new ref_ui)\<lparr>rt_tab := SubScheduler\<rparr>" default_scheduler_config
      "''0 0 0 * * *''" "[]" "''0 0 * * * *''" "[]" "[]"]
  by (simp add: default_scheduler_config_def plain_def)

text \<open>
  The keys that choose a section are also typed into the field in focus there. With the first cron
  expression in focus, going to the first section and back leaves a seventh field in the expression, which
  enter saves.
\<close>

theorem section_keys_are_typed:
  "map_option snd (run_view (rt_update ref_ui) (rt_new ref_ui)
      (map RtKey [''2'', ''tab'', ''tab'', ''tab'', ''tab'', ''1'', ''2'', ''enter''])) =
    Some [RtInputCmd, RtSaveScheduleCmd (default_scheduler_config\<lparr>sc_full := [''0 0 0 * * *2'']\<rparr>)]"
  by (simp add: rt_update_key_def rt_choose_tab_def rt_clear_def rt_next_focus_def rt_focus_scheduler_def
      rt_blur_scheduler_def rt_update_field_def rt_new_def ref_ui_def widget_cmd_def rt_save_cmd_def form_schedule_def
      default_scheduler_config_def Let_def)

text \<open>
  The question before a rule is deleted does not name the rule, and a list that arrives while it is open moves the
  selection to another one: the rule that was selected when the question opened stays, the new one goes.
\<close>

definition ex_rule :: "string \<Rightarrow> lifecycle_rule" where
  "ex_rule i = \<lparr>l_id = i, l_status = ''Enabled'', l_prefix = i, l_days = 3, l_managed_by = ''''\<rparr>"

theorem rule_question_deletes_another_rule:
  "map_option snd (run_view (rt_update ref_ui) (rt_new ref_ui)
      [RtRules [ex_rule ''old''] None, RtKey ''3'', RtKey ''r'', RtKey ''d'',
       RtRules [ex_rule ''new'', ex_rule ''old''] None, RtKey ''y'']) =
    Some [RtSpin (sp_tick ref_ui (sp_new ref_ui)), RtRulesCmd, RtSpin (sp_tick ref_ui (sp_new ref_ui)), RtDeleteRuleCmd ''new'']"
  by (simp add: rt_update_key_def rt_choose_tab_def rt_clear_def rt_update_lifecycle_def rt_spin_def rt_new_def ref_ui_def
      rt_got_rules_def slice_at_def ex_rule_def Let_def)

end
