(* ===== verification/App.thy ===== *)
theory App
  imports Keys Tab_Backups Tab_Instances Tab_S3Config Tab_Retention
begin

text \<open>
  The root of the terminal interface (\<open>tui/app.go\<close>, \<open>tui/messages.go\<close>, \<open>tui/keys.go\<close>): the tabs, the
  panel's data, notifications and running jobs, and the routing of messages to the tab shown. The screens are
  in the \<open>View\<close> theories. One call of \<open>Update\<close> reads the clock at most once, so the time is an argument.
\<close>

section \<open>State, messages and commands\<close>

definition TabDashboard :: int where "TabDashboard = 0"
definition TabInstances :: int where "TabInstances = 1"
definition TabBackups :: int where "TabBackups = 2"
definition TabS3Config :: int where "TabS3Config = 3"
definition TabRetention :: int where "TabRetention = 4"
definition tabCount :: int where "tabCount = 5"

lemmas tab_consts = TabDashboard_def TabInstances_def TabBackups_def TabS3Config_def TabRetention_def tabCount_def

record notification =
  n_text :: string
  n_is_error :: bool
  n_expires :: time

record 'u app =
  ap_tab :: int
  ap_prev :: int
  ap_width :: int
  ap_height :: int
  ap_ticks :: int
  ap_inst :: "'u in_model"
  ap_bk :: "'u bk_model"
  ap_s3 :: "'u sf_model"
  ap_rt :: "'u rt_model"
  ap_dash_instances :: "inst_rec list"
  ap_dash_backups :: "backup_record list"
  ap_spinner :: 'u
  ap_dash_loading :: bool
  ap_s3_configured :: bool
  ap_notes :: "notification list"
  ap_jobs :: "string list"

datatype ap_msg =
    ApSize int int
  | ApTicked
  | ApTick nat
  | ApDash "inst_rec list" "backup_record list" bool
  | ApKey string
  | ApNavigate int
  | ApNote string bool
  | ApStarted string string
  | ApProgress string string int
  | ApCompleted string string string
  | ApFailed string string gerr
  | ApInst in_msg
  | ApBk bk_msg
  | ApS3 sf_msg
  | ApRt rt_msg
  | ApOther

datatype ap_cmd =
    ApTickCmd
  | ApSpin nat
  | ApDashCmd
  | ApQuit
  | ApInstCmd in_cmd
  | ApBkCmd bk_cmd
  | ApS3Cmd sf_cmd
  | ApRtCmd rt_cmd

definition ap_new :: "'u ui \<Rightarrow> 'u app" where
  "ap_new U =
     \<lparr>ap_tab = TabDashboard, ap_prev = 0, ap_width = 0, ap_height = 0, ap_ticks = 0, ap_inst = in_new U,
      ap_bk = bk_new U, ap_s3 = sf_new U, ap_rt = rt_new U, ap_dash_instances = [], ap_dash_backups = [],
      ap_spinner = sp_new U, ap_dash_loading = False, ap_s3_configured = False, ap_notes = [], ap_jobs = []\<rparr>"

definition ap_init :: "'u ui \<Rightarrow> 'u app \<Rightarrow> 'u app \<times> ap_cmd list" where
  "ap_init U s =
     (case in_refresh U (ap_inst s) of (a, ca) \<Rightarrow> (case bk_refresh U (ap_bk s) of (b, cb) \<Rightarrow>
      (case sf_refresh (ap_s3 s) of (c, cc) \<Rightarrow> (case rt_refresh (ap_rt s) of (d, cd) \<Rightarrow>
        (s\<lparr>ap_dash_loading := True, ap_inst := a, ap_bk := b, ap_s3 := c, ap_rt := d\<rparr>,
         [ApTickCmd, ApSpin (sp_tick U (ap_spinner s)), ApDashCmd] @ map ApInstCmd ca @ map ApBkCmd cb @
         map ApS3Cmd cc @ map ApRtCmd cd)))))"

section \<open>Helpers\<close>

definition ns_per_second :: int where "ns_per_second = 1000000000"

definition ap_push :: "time \<Rightarrow> string \<Rightarrow> bool \<Rightarrow> int \<Rightarrow> 'u app \<Rightarrow> 'u app" where
  "ap_push clk text is_error secs s =
     s\<lparr>ap_notes := [\<lparr>n_text = text, n_is_error = is_error, n_expires = clk + secs * ns_per_second\<rparr>]\<rparr>"

definition job_name :: "string \<Rightarrow> string \<Rightarrow> string" where
  "job_name d i = d @ '' @ '' @ i"

definition remove_job :: "string \<Rightarrow> string \<Rightarrow> 'u app \<Rightarrow> 'u app" where
  "remove_job d i s = s\<lparr>ap_jobs := filter (\<lambda>j. j \<noteq> job_name d i) (ap_jobs s)\<rparr>"

definition append_unique :: "string list \<Rightarrow> string \<Rightarrow> string list" where
  "append_unique xs x = (if x \<in> set xs then xs else xs @ [x])"

definition on_tab_activated :: "'u ui \<Rightarrow> 'u app \<Rightarrow> 'u app \<times> ap_cmd list" where
  "on_tab_activated U s =
     (if ap_tab s = TabDashboard
      then (s\<lparr>ap_dash_loading := True\<rparr>, [ApSpin (sp_tick U (ap_spinner s)), ApDashCmd])
      else if ap_tab s = TabInstances
      then (case in_refresh U (ap_inst s) of (a, c) \<Rightarrow> (s\<lparr>ap_inst := a\<rparr>, map ApInstCmd c))
      else if ap_tab s = TabBackups
      then (case bk_refresh U (ap_bk s) of (a, c) \<Rightarrow> (s\<lparr>ap_bk := a\<rparr>, map ApBkCmd c))
      else if ap_tab s = TabS3Config
      then (case sf_refresh (ap_s3 s) of (a, c) \<Rightarrow> (s\<lparr>ap_s3 := a\<rparr>, map ApS3Cmd c))
      else if ap_tab s = TabRetention
      then (case rt_refresh (ap_rt s) of (a, c) \<Rightarrow> (s\<lparr>ap_rt := a\<rparr>, map ApRtCmd c))
      else (s, []))"

definition go_to_tab :: "'u ui \<Rightarrow> int \<Rightarrow> 'u app \<Rightarrow> 'u app" where
  "go_to_tab U t s = s\<lparr>ap_prev := ap_tab s, ap_tab := t\<rparr>"

definition configure_s3 :: string where
  "configure_s3 = ''Por favor, configura S3 antes de continuar.''"

text \<open>Go's remainder, with the sign of the dividend.\<close>

definition go_rem :: "int \<Rightarrow> int \<Rightarrow> int" where
  "go_rem a b = a - b * quot_trunc a b"

definition turn_tab :: "'u ui \<Rightarrow> time \<Rightarrow> int \<Rightarrow> 'u app \<Rightarrow> 'u app \<times> ap_cmd list" where
  "turn_tab U clk d s =
     (if \<not> ap_s3_configured s then (ap_push clk configure_s3 True 3 s, [])
      else let t = go_to_tab U (go_rem (ap_tab s + d) tabCount) s
           in if ap_tab t \<noteq> ap_prev t then on_tab_activated U t else (t, []))"

section \<open>Routing\<close>

text \<open>What a view makes of a message: its own messages, keys and ticks; it ignores every other.\<close>

fun to_inst :: "ap_msg \<Rightarrow> in_msg" where
  "to_inst (ApInst m) = m" | "to_inst (ApKey k) = InKey k" | "to_inst (ApTick n) = InTick n" | "to_inst _ = InOther"

fun to_bk :: "ap_msg \<Rightarrow> bk_msg" where
  "to_bk (ApBk m) = m" | "to_bk (ApKey k) = BkKey k" | "to_bk (ApTick n) = BkTick n" | "to_bk _ = BkOther"

fun to_s3 :: "ap_msg \<Rightarrow> sf_msg" where
  "to_s3 (ApS3 m) = m" | "to_s3 (ApKey k) = SfKey k" | "to_s3 (ApTick n) = SfTick n" | "to_s3 _ = SfOther"

fun to_rt :: "ap_msg \<Rightarrow> rt_msg" where
  "to_rt (ApRt m) = m" | "to_rt (ApKey k) = RtKey k" | "to_rt (ApTick n) = RtTick n" | "to_rt _ = RtOther"

definition route :: "'u ui \<Rightarrow> ap_msg \<Rightarrow> 'u app \<times> ap_cmd list \<Rightarrow> ('u app \<times> ap_cmd list) option" where
  "route U m r =
     (case r of (s, cs) \<Rightarrow>
      if ap_tab s = TabInstances
      then map_option (\<lambda>(a, c). (s\<lparr>ap_inst := a\<rparr>, cs @ map ApInstCmd c)) (in_update U (ap_inst s) (to_inst m))
      else if ap_tab s = TabBackups
      then map_option (\<lambda>(a, c). (s\<lparr>ap_bk := a\<rparr>, cs @ map ApBkCmd c)) (bk_update U (ap_bk s) (to_bk m))
      else if ap_tab s = TabS3Config
      then map_option (\<lambda>(a, c). (s\<lparr>ap_s3 := a\<rparr>, cs @ map ApS3Cmd c)) (sf_update U (ap_s3 s) (to_s3 m))
      else if ap_tab s = TabRetention
      then map_option (\<lambda>(a, c). (s\<lparr>ap_rt := a\<rparr>, cs @ map ApRtCmd c)) (rt_update U (ap_rt s) (to_rt m))
      else Some (s, cs))"

section \<open>Messages\<close>

text \<open>What the root does with a message first, and whether the message then goes to the tab shown.\<close>

fun ap_first :: "'u ui \<Rightarrow> time \<Rightarrow> 'u app \<Rightarrow> ap_msg \<Rightarrow> bool \<times> 'u app \<times> ap_cmd list" where
  "ap_first U clk s (ApSize w h) = (False, s\<lparr>ap_width := w, ap_height := h\<rparr>, [])"
| "ap_first U clk s ApTicked =
     (let t = s\<lparr>ap_ticks := ap_ticks s + 1, ap_notes := filter (\<lambda>n. clk < n_expires n) (ap_notes s)\<rparr>
      in (False, t, ApTickCmd # (if go_rem (ap_ticks t) 10 = 0 \<and> ap_tab t = TabDashboard then [ApDashCmd] else [])))"
| "ap_first U clk s (ApTick n) =
     (True, if ap_dash_loading s
            then (case sp_update U n (ap_spinner s) of
                    (p, b) \<Rightarrow> (s\<lparr>ap_spinner := p\<rparr>, widget_cmd (ApSpin (sp_tick U p)) b))
            else (s, []))"
| "ap_first U clk s (ApDash is bs ok) =
     (let t = s\<lparr>ap_dash_instances := is, ap_dash_backups := bs, ap_s3_configured := ok, ap_dash_loading := False\<rparr>
      in (True, if \<not> ok \<and> ap_tab t \<noteq> TabS3Config
                then on_tab_activated U (ap_push clk configure_s3 True 5 (go_to_tab U TabS3Config t))
                else (t, [])))"
| "ap_first U clk s (ApKey k) =
     (if key_matches k (km_quit GlobalKeys) then (False, s, [ApQuit])
      else if key_matches k (km_tab_next GlobalKeys) then (False, turn_tab U clk 1 s)
      else if key_matches k (km_tab_prev GlobalKeys) then (False, turn_tab U clk (tabCount - 1) s)
      else (True, s, []))"
| "ap_first U clk s (ApNavigate t) =
     (False, if \<not> ap_s3_configured s \<and> t \<noteq> TabS3Config then (ap_push clk configure_s3 True 3 s, [])
             else on_tab_activated U (go_to_tab U t s))"
| "ap_first U clk s (ApNote x e) = (True, ap_push clk x e 4 s, [])"
| "ap_first U clk s (ApStarted i d) =
     (True, ap_push clk (''Iniciando respaldo: '' @ d @ '' en '' @ i) False 3
              (s\<lparr>ap_jobs := append_unique (ap_jobs s) (job_name d i)\<rparr>), [])"
| "ap_first U clk s (ApCompleted i d b) =
     (True, ap_push clk (''Respaldo completado: '' @ i @ '' '' @ [CHR 0xE2, CHR 0x80, CHR 0x94] @ '' '' @ d) False 5
              (remove_job d i s), [ApDashCmd])"
| "ap_first U clk s (ApFailed i d e) =
     (True, ap_push clk (''Error en respaldo de '' @ d @ '' ('' @ i @ ''): '' @ err_text e) True 8 (remove_job d i s),
      [ApDashCmd])"
| "ap_first U clk s (ApS3 (SfSaved e)) = (True, if e = None then s\<lparr>ap_s3_configured := True\<rparr> else s, [])"
| "ap_first U clk s m = (True, s, [])"

definition ap_update :: "'u ui \<Rightarrow> 'u app \<Rightarrow> time \<times> ap_msg \<Rightarrow> ('u app \<times> ap_cmd list) option" where
  "ap_update U s e =
     (case ap_first U (fst e) s (snd e) of
        (routed, r) \<Rightarrow> if routed then route U (snd e) r else Some r)"

section \<open>Commands\<close>

definition load_dash :: "('d, 's, 'm) env \<Rightarrow> ('d, 's, 'm) sys \<Rightarrow> ap_msg" where
  "load_dash E w =
     ApDash (case instance_find_all E w of Inl e \<Rightarrow> [] | Inr is \<Rightarrow> is)
            (case br_find_all E w of Inl e \<Rightarrow> [] | Inr bs \<Rightarrow> bs)
            (case s3config_get E w of Inl e \<Rightarrow> False | Inr c \<Rightarrow> c_bucket c \<noteq> '''')"

fun ap_exec :: "('d, 's, 'm) env \<Rightarrow> ap_cmd \<Rightarrow> scheduler \<times> ('d, 's, 'm) sys \<Rightarrow>
    ap_msg \<times> (scheduler \<times> ('d, 's, 'm) sys)" where
  "ap_exec E ApTickCmd w = (ApTicked, w)"
| "ap_exec E (ApSpin n) w = (ApTick n, w)"
| "ap_exec E ApDashCmd w = (load_dash E (snd w), w)"
| "ap_exec E ApQuit w = (ApOther, w)"
| "ap_exec E (ApInstCmd c) w = (case in_exec E c (snd w) of (m, w1) \<Rightarrow> (ApInst m, (fst w, w1)))"
| "ap_exec E (ApBkCmd c) w = (case bk_exec E c (snd w) of (m, w1) \<Rightarrow> (ApBk m, (fst w, w1)))"
| "ap_exec E (ApS3Cmd c) w = (case sf_exec E c (snd w) of (m, w1) \<Rightarrow> (ApS3 m, (fst w, w1)))"
| "ap_exec E (ApRtCmd c) w = (case rt_exec E c w of (m, w1) \<Rightarrow> (ApRt m, w1))"

text \<open>The notifier: the messages for the events of a backup.\<close>

fun notifier_msg :: "event \<Rightarrow> ap_msg option" where
  "notifier_msg (NotifyStarted i d) = Some (ApStarted i d)"
| "notifier_msg (NotifyCompleted i d b) = Some (ApCompleted i d b)"
| "notifier_msg (NotifyFailed i d e) = Some (ApFailed i d e)"
| "notifier_msg _ = None"

section \<open>What routing and activation leave alone\<close>

lemma route_frame:
  assumes "route U m (s, cs) = Some (t, ds)"
  shows "ap_tab t = ap_tab s \<and> ap_s3_configured t = ap_s3_configured s \<and> ap_jobs t = ap_jobs s"
  using assms by (auto simp: route_def split: if_splits)

lemma activated_frame [simp]:
  "ap_tab (fst (on_tab_activated U s)) = ap_tab s" "ap_jobs (fst (on_tab_activated U s)) = ap_jobs s"
  "ap_s3_configured (fst (on_tab_activated U s)) = ap_s3_configured s"
  by (simp_all add: on_tab_activated_def split: prod.split)

lemma ap_push_sel [simp]:
  "ap_tab (ap_push c x e n s) = ap_tab s" "ap_s3_configured (ap_push c x e n s) = ap_s3_configured s"
  "ap_jobs (ap_push c x e n s) = ap_jobs s" "ap_bk (ap_push c x e n s) = ap_bk s" "ap_inst (ap_push c x e n s) = ap_inst s"
  "ap_s3 (ap_push c x e n s) = ap_s3 s" "ap_rt (ap_push c x e n s) = ap_rt s"
  by (simp_all add: ap_push_def)

lemma go_to_tab_sel [simp]:
  "ap_tab (go_to_tab U t s) = t" "ap_prev (go_to_tab U t s) = ap_tab s" "ap_jobs (go_to_tab U t s) = ap_jobs s"
  "ap_s3_configured (go_to_tab U t s) = ap_s3_configured s" "ap_bk (go_to_tab U t s) = ap_bk s"
  by (simp_all add: go_to_tab_def)

lemma go_rem_range: "0 \<le> a \<Longrightarrow> 0 \<le> go_rem a tabCount \<and> go_rem a tabCount < tabCount"
  by (cases "a = 0") (auto simp: go_rem_def quot_trunc_def tabCount_def sgn_if minus_mult_div_eq_mod)

section \<open>The gate\<close>

definition ap_inv :: "'u app \<Rightarrow> bool" where
  "ap_inv s \<longleftrightarrow> 0 \<le> ap_tab s \<and> ap_tab s < tabCount \<and>
     (\<not> ap_s3_configured s \<longrightarrow> ap_tab s \<in> {TabDashboard, TabS3Config}) \<and> distinct (ap_jobs s)"

lemma ap_new_inv [simp]: "ap_inv (ap_new U)"
  by (simp add: ap_inv_def ap_new_def tab_consts)

lemma turn_tab_inv: "ap_inv s \<Longrightarrow> 0 \<le> d \<Longrightarrow> ap_inv (fst (turn_tab U c d s))"
  using go_rem_range [of "ap_tab s + d"] by (simp add: turn_tab_def ap_inv_def Let_def)

lemma jobs_distinct:
  "distinct xs \<Longrightarrow> distinct (append_unique xs x)" "distinct (ap_jobs s) \<Longrightarrow> distinct (ap_jobs (remove_job d i s))"
  by (simp_all add: append_unique_def remove_job_def)

lemma remove_job_sel [simp]:
  "ap_tab (remove_job d i s) = ap_tab s" "ap_s3_configured (remove_job d i s) = ap_s3_configured s"
  "ap_bk (remove_job d i s) = ap_bk s"
  by (simp_all add: remove_job_def)

lemma ap_first_inv:
  assumes "ap_inv s" "\<And>t. m = ApNavigate t \<Longrightarrow> 0 \<le> t \<and> t < tabCount" "ap_first U c s m = (b, t, cs)"
  shows "ap_inv t"
proof (cases m)
  case (ApKey k)
  then show ?thesis
    using assms(1,3) turn_tab_inv [of s 1 U c] turn_tab_inv [of s "tabCount - 1" U c]
    by (auto simp: tabCount_def split: if_splits)
next
  case (ApDash "is" bs ok)
  have "on_tab_activated U v = (t, cs) \<Longrightarrow> ap_tab t = ap_tab v \<and> ap_jobs t = ap_jobs v \<and> ap_s3_configured t = ap_s3_configured v" for v
    using activated_frame [of U v] by simp
  then show ?thesis
    using assms(1,3) ApDash by (auto simp: Let_def ap_inv_def tab_consts split: if_splits)
next
  case (ApNavigate n)
  show ?thesis
  proof (cases "\<not> ap_s3_configured s \<and> n \<noteq> TabS3Config")
    case True
    then show ?thesis using assms(1,3) ApNavigate by (auto simp: ap_inv_def)
  next
    case False
    then have "on_tab_activated U (go_to_tab U n s) = (t, cs)"
      using assms(3) ApNavigate by (auto split: if_splits)
    then have "ap_tab t = n \<and> ap_jobs t = ap_jobs s \<and> ap_s3_configured t = ap_s3_configured s"
      using activated_frame [of U "go_to_tab U n s"] unfolding go_to_tab_sel by (metis fst_conv)
    then show ?thesis using assms(1) assms(2) [OF ApNavigate] False by (auto simp: ap_inv_def)
  qed
next
  case (ApS3 x)
  with assms(1,3) show ?thesis by (cases x) (auto simp: ap_inv_def split: if_splits)
next
  case (ApTick n)
  with assms(1,3) show ?thesis by (auto simp: ap_inv_def split: if_splits prod.splits)
qed (use assms(1,3) jobs_distinct in \<open>auto simp: ap_inv_def Let_def\<close>)

lemma ap_update_inv:
  assumes "ap_inv s" "\<And>t. snd e = ApNavigate t \<Longrightarrow> 0 \<le> t \<and> t < tabCount" "ap_update U s e = Some (t, cs)"
  shows "ap_inv t"
proof -
  obtain b u ds where f: "ap_first U (fst e) s (snd e) = (b, u, ds)" by (metis prod.exhaust)
  note i = ap_first_inv [OF assms(1,2) f]
  show ?thesis
    using assms(3) i route_frame [of U "snd e" u ds t cs]
    by (auto simp: ap_update_def f ap_inv_def split: if_splits)
qed

lemma ap_run_inv:
  assumes "run_view (ap_update U) s ms = Some (t, cs)" "ap_inv s"
    "\<forall>x \<in> set ms. \<forall>n. snd x = ApNavigate n \<longrightarrow> 0 \<le> n \<and> n < tabCount"
  shows "ap_inv t"
  using assms
proof (induction ms arbitrary: s cs)
  case (Cons m ms)
  from Cons.prems(1) obtain s1 ds cs1 where
    m: "ap_update U s m = Some (s1, ds)" and r: "run_view (ap_update U) s1 ms = Some (t, cs1)"
    by (auto split: option.splits)
  have "ap_inv s1" using ap_update_inv [OF Cons.prems(2) _ m] Cons.prems(3) by simp
  with Cons.IH [OF r] Cons.prems(3) show ?case by simp
qed simp

text \<open>News that there is no configuration.\<close>

lemma ap_unconfigured:
  "\<exists>t ds. ap_update U s (clock, ApDash is bs False) = Some (t, ds) \<and> ap_tab t = TabS3Config \<and> \<not> ap_s3_configured t"
proof -
  let ?s = "s\<lparr>ap_dash_instances := is, ap_dash_backups := bs, ap_s3_configured := False, ap_dash_loading := False\<rparr>"
  obtain u cs where f: "ap_first U clock s (ApDash is bs False) = (True, u, cs)"
    "ap_tab u = TabS3Config" "\<not> ap_s3_configured u"
  proof (cases "ap_tab s = TabS3Config")
    case True
    then show ?thesis using that [of ?s "[]"] by simp
  next
    case False
    let ?r = "on_tab_activated U (ap_push clock configure_s3 True 5 (go_to_tab U TabS3Config ?s))"
    show ?thesis using that [of "fst ?r" "snd ?r"] False by (simp add: Let_def)
  qed
  then have "ap_update U s (clock, ApDash is bs False) = Some (u\<lparr>ap_s3 := ap_s3 u\<rparr>, cs)"
    by (simp add: ap_update_def route_def tab_consts)
  with f show ?thesis by simp
qed

section \<open>A restore whose reply is lost\<close>

text \<open>The replies that end a restore, and the commands they are replies to.\<close>

fun bk_frees :: "bk_msg \<Rightarrow> bool" where
  "bk_frees (BkDeleted e) = (e = None)"
| "bk_frees (BkRestoreDone e) = True"
| "bk_frees (BkPreview rows e) = (e \<noteq> None)"
| "bk_frees (BkAllDone e) = True"
| "bk_frees _ = False"

fun bk_freeing :: "bk_cmd \<Rightarrow> bool" where
  "bk_freeing (BkDeleteCmd i) = True"
| "bk_freeing BkPreviewCmd = True"
| "bk_freeing (BkRestoreCmd i n d) = True"
| "bk_freeing (BkRestoreAllCmd x) = True"
| "bk_freeing _ = False"

lemma freeing_replies: "bk_exec E c w = (m, w') \<Longrightarrow> bk_frees m \<Longrightarrow> bk_freeing c"
  by (cases c) (auto simp: bk_load_def split: prod.splits sum.splits)

definition ap_freeing :: "ap_cmd \<Rightarrow> bool" where
  "ap_freeing c \<longleftrightarrow> (\<exists>b. c = ApBkCmd b \<and> bk_freeing b)"

lemma ap_freeing_simps [simp]:
  "ap_freeing (ApBkCmd b) = bk_freeing b" "\<not> ap_freeing ApTickCmd" "\<not> ap_freeing (ApSpin n)" "\<not> ap_freeing ApDashCmd"
  "\<not> ap_freeing ApQuit" "\<not> ap_freeing (ApInstCmd i)" "\<not> ap_freeing (ApS3Cmd x)" "\<not> ap_freeing (ApRtCmd r)"
  by (simp_all add: ap_freeing_def)

lemma bk_restoring_stays:
  assumes "bk_mode s = BkModeRestoring" "\<not> bk_frees m" "bk_update U s m = Some (t, cs)"
  shows "bk_mode t = BkModeRestoring \<and> (\<forall>c \<in> set cs. \<not> bk_freeing c)"
  using assms
  by (cases m)
    (auto simp: Let_def bk_loaded_def bk_refresh_def bk_update_key_def bk_spin_def widget_cmd_def
      split: option.splits if_splits prod.splits)

definition ap_locked :: "'u app \<Rightarrow> bool" where
  "ap_locked s \<longleftrightarrow> bk_mode (ap_bk s) = BkModeRestoring"

lemma activated_locked:
  "ap_locked s \<Longrightarrow> ap_locked (fst (on_tab_activated U s)) \<and> (\<forall>c \<in> set (snd (on_tab_activated U s)). \<not> ap_freeing c)"
  by (auto simp: on_tab_activated_def ap_locked_def bk_refresh_def bk_spin_def split: prod.splits)

lemma ap_locked_upd [simp]:
  "ap_locked (ap_push c x e n s) = ap_locked s" "ap_locked (go_to_tab U t s) = ap_locked s"
  "ap_locked (remove_job d i s) = ap_locked s"
  by (simp_all add: ap_locked_def)

lemma ap_first_locked:
  assumes "ap_locked s"
  shows "case ap_first U c s m of (b, t, cs) \<Rightarrow> ap_locked t \<and> (\<forall>c \<in> set cs. \<not> ap_freeing c)"
proof (cases m)
  case (ApKey k)
  have t: "case turn_tab U c d s of (t, cs) \<Rightarrow> ap_locked t \<and> (\<forall>c \<in> set cs. \<not> ap_freeing c)" for d
    using assms activated_locked [of "go_to_tab U (go_rem (ap_tab s + d) tabCount) s" U]
    by (auto simp: turn_tab_def Let_def split: prod.splits)
  show ?thesis using ApKey assms t by (simp split: prod.splits)
next
  case (ApDash "is" bs ok)
  let ?t = "s\<lparr>ap_dash_instances := is, ap_dash_backups := bs, ap_s3_configured := ok, ap_dash_loading := False\<rparr>"
  have "ap_locked ?t" using assms by (simp add: ap_locked_def)
  then show ?thesis
    using ApDash activated_locked [of "ap_push c configure_s3 True 5 (go_to_tab U TabS3Config ?t)" U]
    by (auto simp: Let_def split: prod.splits)
next
  case (ApNavigate n)
  then show ?thesis using assms activated_locked [of "go_to_tab U n s" U] by (auto split: prod.splits)
next
  case (ApS3 x)
  with assms show ?thesis by (cases x) (auto simp: ap_locked_def)
next
  case (ApTick n)
  with assms show ?thesis by (auto simp: ap_locked_def widget_cmd_def split: prod.splits)
qed (use assms in \<open>auto simp: ap_locked_def Let_def ap_push_def\<close>)

lemma route_locked:
  assumes "ap_locked s" "\<forall>c \<in> set cs. \<not> ap_freeing c" "\<not> bk_frees (to_bk m)" "route U m (s, cs) = Some (t, ds)"
  shows "ap_locked t \<and> (\<forall>c \<in> set ds. \<not> ap_freeing c)"
  using assms bk_restoring_stays [of "ap_bk s" "to_bk m" U]
  by (auto simp: route_def ap_locked_def split: if_splits)

lemma ap_update_locked:
  assumes "ap_locked s" "\<And>m. snd e = ApBk m \<Longrightarrow> \<not> bk_frees m" "ap_update U s e = Some (t, cs)"
  shows "ap_locked t \<and> (\<forall>c \<in> set cs. \<not> ap_freeing c)"
proof -
  obtain b u ds where f: "ap_first U (fst e) s (snd e) = (b, u, ds)" by (metis prod.exhaust)
  have "\<not> bk_frees (to_bk (snd e))" using assms(2) by (cases "snd e") simp_all
  then show ?thesis
    using assms(3) ap_first_locked [OF assms(1), of U "fst e" "snd e"] route_locked [of u ds "snd e" U t cs]
    by (auto simp: ap_update_def f split: if_splits)
qed

lemma ap_run_locked:
  assumes "run_view (ap_update U) s ms = Some (t, cs)" "ap_locked s" "\<forall>x \<in> set ms. \<forall>m. snd x = ApBk m \<longrightarrow> \<not> bk_frees m"
  shows "ap_locked t \<and> (\<forall>c \<in> set cs. \<not> ap_freeing c)"
  using assms
proof (induction ms arbitrary: s cs)
  case (Cons m ms)
  from Cons.prems(1) obtain s1 ds cs1 where
    m: "ap_update U s m = Some (s1, ds)" and r: "run_view (ap_update U) s1 ms = Some (t, cs1)" and cs: "cs = ds @ cs1"
    by (auto split: option.splits)
  have "ap_locked s1 \<and> (\<forall>c \<in> set ds. \<not> ap_freeing c)"
    using ap_update_locked [OF Cons.prems(2) _ m] Cons.prems(3) by simp
  with Cons.IH [OF r] Cons.prems(3) cs show ?case by auto
qed simp

section \<open>Properties\<close>

text \<open>
  C27. Whatever happens, the tab shown is one of the five, and as long as S3 is not configured it is the panel
  or the S3 tab: neither the keys for turning tabs nor a request to go to one (of the five) leads anywhere else.
  In every state that can be reached, finding out that there is no configuration leads to the S3 tab, whichever
  tab is shown, and never panics. No running job is listed twice.
\<close>

theorem unconfigured_app_shows_s3:
  assumes "run_view (ap_update U) (ap_new U) ms = Some (s, cs)"
    "\<forall>x \<in> set ms. \<forall>n. snd x = ApNavigate n \<longrightarrow> 0 \<le> n \<and> n < tabCount"
  shows "0 \<le> ap_tab s \<and> ap_tab s < tabCount \<and> (\<not> ap_s3_configured s \<longrightarrow> ap_tab s \<in> {TabDashboard, TabS3Config}) \<and>
    distinct (ap_jobs s) \<and>
    (\<exists>t ds. ap_update U s (clock, ApDash is bs False) = Some (t, ds) \<and> ap_tab t = TabS3Config \<and> \<not> ap_s3_configured t)"
  using ap_run_inv [OF assms(1) ap_new_inv assms(2)] ap_unconfigured [of U s clock "is" bs] by (simp add: ap_inv_def)

text \<open>
  C31. A reply goes only to the tab shown. If the report that a restore has ended arrives while another tab is
  shown, it is dropped and the backups tab keeps saying that the restore is running for good: nothing that
  can happen from then on changes that, since only the report of another deletion or restore would, and the
  tab starts none in that state.
\<close>

theorem lost_reply_locks_backups_tab:
  assumes "bk_mode (ap_bk s) = BkModeRestoring" "ap_tab s \<noteq> TabBackups"
    "ap_update U s (c, ApBk (BkRestoreDone e)) = Some (s1, cs1)"
    "run_view (ap_update U) s1 ms = Some (s2, cs2)" "\<forall>x \<in> set ms. \<forall>m. snd x = ApBk m \<longrightarrow> \<not> bk_frees m"
  shows "bk_mode (ap_bk s2) = BkModeRestoring \<and> (\<forall>x \<in> set (cs1 @ cs2). \<not> ap_freeing x)"
proof -
  have "ap_bk s1 = ap_bk s" "\<forall>x \<in> set cs1. \<not> ap_freeing x"
    using assms(2,3) by (auto simp: ap_update_def route_def split: if_splits)
  then show ?thesis
    using ap_run_locked [OF assms(4) _ assms(5)] assms(1) by (auto simp: ap_locked_def)
qed

definition ex_app_keys :: "(time \<times> ap_msg) list" where
  "ex_app_keys = [(0, ApDash [] [] True), (0, ApKey ''pgdown''), (0, ApKey ''pgdown''),
     (0, ApBk (BkLoaded [ex_record ''a'' ''a.bak'' BackupTypeFull '''' 1] [] None)), (0, ApKey ''R''),
     (0, ApKey ''enter''), (0, ApKey ''enter'')] @ map (\<lambda>k. (0, ApKey k)) (type_word ''confirmar'') @
     [(0, ApKey ''enter''), (1, ApKey ''pgdown'')]"

lemmas app_eval = ap_new_def ap_update_def route_def on_tab_activated_def turn_tab_def go_to_tab_def
  go_rem_def quot_trunc_def tab_consts ap_push_def

theorem lost_reply_locks_backups_tab_witness:
  "\<exists>s (s2 :: ref_input app) cs. run_view (ap_update ref_ui) (ap_new ref_ui) ex_app_keys = Some (s, cs) \<and>
    bk_mode (ap_bk s) = BkModeRestoring \<and> ap_tab s2 = TabBackups \<and> bk_mode (ap_bk s2) = BkModeRestoring"
proof -
  obtain s ds where r: "run_view (ap_update ref_ui) (ap_new ref_ui) ex_app_keys = Some (s, ds)"
    and s: "bk_mode (ap_bk s) = BkModeRestoring" "ap_tab s = TabS3Config" "ap_s3_configured s"
    using confirms_word
    by (simp add: ex_app_keys_def app_eval bk_eval sf_refresh_def in_refresh_def in_new_def in_spin_def
        trim_space_def is_space_def ex_record_def)
  obtain s1 cs1 where l: "ap_update ref_ui s (2, ApBk (BkRestoreDone None)) = Some (s1, cs1)"
    and s1: "ap_tab s1 = TabS3Config" "ap_s3_configured s1" "bk_mode (ap_bk s1) = BkModeRestoring"
    using s by (simp add: ap_update_def route_def tab_consts)
  obtain s2 cs2 where k: "run_view (ap_update ref_ui) s1 [(3, ApKey ''pgup''), (4, ApKey ''esc'')] = Some (s2, cs2)"
    and t: "ap_tab s2 = TabBackups"
    using s1 by (simp add: app_eval bk_refresh_def bk_update_key_def Let_def)
  have "bk_mode (ap_bk s2) = BkModeRestoring"
    using lost_reply_locks_backups_tab [OF s(1) _ l k] s(2) by (simp add: tab_consts)
  with r s(1) t show ?thesis by blast
qed

theorem unconfigured_app_shows_s3_witness:
  "\<exists>s cs. run_view (ap_update ref_ui) (ap_new ref_ui)
      [(0, ApDash [] [] False), (1, ApKey ''pgup''), (2, ApKey ''pgup'')] = Some (s, cs) \<and> ap_tab s = TabS3Config \<and>
    0 \<le> ap_tab s \<and> ap_tab s < tabCount"
proof -
  obtain s cs where r: "run_view (ap_update ref_ui) (ap_new ref_ui)
      [(0, ApDash [] [] False), (1, ApKey ''pgup''), (2, ApKey ''pgup'')] = Some (s, cs)" "ap_tab s = TabS3Config"
    by (simp add: app_eval sf_refresh_def Let_def)
  with unconfigured_app_shows_s3 [OF r(1)] show ?thesis by simp
qed

end
