(* ===== verification/Program.thy ===== *)
theory Program
  imports App
begin

text \<open>
  The program as a whole (\<open>cmd/main.go\<close>): what start-up does, and a run of the interface, its commands and
  the scheduler together.
\<close>

section \<open>Start-up\<close>

text \<open>The scheduler gets both optional use cases; the default schedule is stored when there is none.\<close>

definition new_scheduler :: scheduler where
  "new_scheduler = \<lparr>sd_cron = None, sd_has_retention = True, sd_has_self_backup = True, sd_entry_ids = []\<rparr>"

definition ensure_schedule :: "('d, 's, 'm) env \<Rightarrow> ('d, 's, 'm) sys \<Rightarrow> ('d, 's, 'm) sys" where
  "ensure_schedule E w =
     (case sched_get E w of Inl e \<Rightarrow> snd (sched_save E default_scheduler_config w) | Inr c \<Rightarrow> w)"

text \<open>An error of the scheduler's start is logged; the program goes on with what it left.\<close>

definition start_up :: "('d, 's, 'm) env \<Rightarrow> ('d, 's, 'm) sys \<Rightarrow> scheduler \<times> ('d, 's, 'm) sys" where
  "start_up E w =
     (let w1 = ensure_schedule E w in (snd (scheduler_start E w1 new_scheduler), w1))"

text \<open>In both modes retention is applied once at the start.\<close>

definition start_retention :: "('d, 's, 'm) env \<Rightarrow> ('d, 's, 'm) sys \<Rightarrow> ('d, 's, 'm) sys" where
  "start_retention E w = snd (apply_retention E w)"

text \<open>Without the interface the notifications are dropped.\<close>

definition proxy_msg :: "bool \<Rightarrow> event \<Rightarrow> ap_msg option" where
  "proxy_msg tui e = (if tui then notifier_msg e else None)"

section \<open>Running\<close>

record ('u, 'd, 's, 'm) prog =
  pg_app :: "'u app"
  pg_pending :: "ap_cmd list"
  pg_inbox :: "ap_msg list"
  pg_sched :: scheduler
  pg_sys :: "('d, 's, 'm) sys"

text \<open>
  The interface with the commands it has started and the messages on their way to it. The user presses one of
  the keys of K; a command runs to its end; a message is delivered; the terminal is resized; a notification of
  a backup is sent; the scheduler or the world outside does a step; the retention of the start runs.
\<close>

inductive prog_step :: "'u ui \<Rightarrow> ('d, 's, 'm) env \<Rightarrow> string \<Rightarrow> string set \<Rightarrow> ('u, 'd, 's, 'm) prog \<Rightarrow>
    ('u, 'd, 's, 'm) prog \<Rightarrow> bool" for U E host K where
  press: "k \<in> K \<Longrightarrow> ap_update U (pg_app p) (c, ApKey k) = Some (s, cs) \<Longrightarrow>
    prog_step U E host K p (p\<lparr>pg_app := s, pg_pending := pg_pending p @ cs\<rparr>)"
| command: "pg_pending p = q1 @ x # q2 \<Longrightarrow> ap_exec E x (pg_sched p, pg_sys p) = (m, (d, w)) \<Longrightarrow>
    prog_step U E host K p (p\<lparr>pg_pending := q1 @ q2, pg_inbox := pg_inbox p @ [m], pg_sched := d, pg_sys := w\<rparr>)"
| deliver: "pg_inbox p = b1 @ m # b2 \<Longrightarrow> ap_update U (pg_app p) (c, m) = Some (s, cs) \<Longrightarrow>
    prog_step U E host K p (p\<lparr>pg_app := s, pg_inbox := b1 @ b2, pg_pending := pg_pending p @ cs\<rparr>)"
| resize: "prog_step U E host K p (p\<lparr>pg_inbox := pg_inbox p @ [ApSize a b]\<rparr>)"
| notify: "proxy_msg True e = Some m \<Longrightarrow> prog_step U E host K p (p\<lparr>pg_inbox := pg_inbox p @ [m]\<rparr>)"
| background: "run_step E host (pg_sched p, pg_sys p) (d, w) \<Longrightarrow>
    prog_step U E host K p (p\<lparr>pg_sched := d, pg_sys := w\<rparr>)"
| retain: "prog_step U E host K p (p\<lparr>pg_sys := start_retention E (pg_sys p)\<rparr>)"

definition prog_init :: "'u ui \<Rightarrow> ('d, 's, 'm) env \<Rightarrow> ('d, 's, 'm) sys \<Rightarrow> ('u, 'd, 's, 'm) prog" where
  "prog_init U E w =
     (case start_up E w of (d, w1) \<Rightarrow> (case ap_init U (ap_new U) of
        (s, cs) \<Rightarrow> \<lparr>pg_app = s, pg_pending = cs, pg_inbox = [], pg_sched = d, pg_sys = w1\<rparr>))"

section \<open>Commands that only look\<close>

text \<open>The keys on which the views start anything that writes.\<close>

definition acting_keys :: "string set" where
  "acting_keys = {''enter'', ''y'', ''Y'', ''s'', ''S''}"

fun in_looks :: "in_cmd \<Rightarrow> bool" where
  "in_looks (InBackupCmd i) = False" | "in_looks (InDeleteCmd i) = False" | "in_looks (InSubmitCmd e i) = False"
| "in_looks _ = True"

fun sf_looks :: "sf_cmd \<Rightarrow> bool" where
  "sf_looks (SfSaveCmd c) = False" | "sf_looks _ = True"

fun rt_looks :: "rt_cmd \<Rightarrow> bool" where
  "rt_looks (RtSavePolicyCmd p) = False" | "rt_looks (RtSaveScheduleCmd c) = False" | "rt_looks RtSyncCmd = False"
| "rt_looks (RtDeleteRuleCmd i) = False" | "rt_looks _ = True"

fun ap_looks :: "ap_cmd \<Rightarrow> bool" where
  "ap_looks (ApInstCmd c) = in_looks c" | "ap_looks (ApBkCmd c) = bk_safe_cmd c" | "ap_looks (ApS3Cmd c) = sf_looks c"
| "ap_looks (ApRtCmd c) = rt_looks c" | "ap_looks _ = True"

text \<open>Messages that carry no key.\<close>

definition keyless :: "ap_msg \<Rightarrow> bool" where
  "keyless m \<longleftrightarrow> (\<forall>k. m \<noteq> ApKey k \<and> to_inst m \<noteq> InKey k \<and> to_bk m \<noteq> BkKey k \<and> to_s3 m \<noteq> SfKey k \<and> to_rt m \<noteq> RtKey k)"

subsection \<open>The instances tab\<close>

lemma in_move_cmds: "after (\<lambda>t cs. cs = []) (in_move_focus U d s)"
  by (auto simp: in_move_focus_def after_bind after_map)

lemma in_key_looks:
  assumes "k \<notin> acting_keys"
  shows "after (\<lambda>t cs. Ball (set cs) in_looks) (in_update_key U k s)"
proof -
  have m: "after (\<lambda>t cs. Ball (set cs) in_looks) (in_move_focus U d s)" for d
    using in_move_cmds [of U d s] by (auto simp: after_def split: option.splits)
  have sel: "after (\<lambda>t cs. Ball (set cs) in_looks) (in_on_selected s f)" if "\<And>i. Ball (set (snd (f i))) in_looks" for f
    using that by (simp add: in_on_selected_def after_map)
  have k: "k \<noteq> ''enter''" "k \<notin> {''y'', ''Y'', ''s'', ''S''}" using assms by (auto simp: acting_keys_def)
  have "after (\<lambda>t cs. Ball (set cs) in_looks) (in_update_list U k s)"
    by (simp add: in_update_list_def sel in_spin_def in_refresh_def)
  moreover have "after (\<lambda>t cs. Ball (set cs) in_looks) (in_update_form U k s)"
    using k(1) m by (simp add: in_update_form_def after_map widget_cmd_def split: prod.split)
  moreover have "after (\<lambda>t cs. Ball (set cs) in_looks) (in_update_confirm k s)"
    using k(2) by (simp add: in_update_confirm_def)
  moreover have "after (\<lambda>t cs. Ball (set cs) in_looks) (in_update_confirm_backup U k s)"
    using k(1) by (simp add: in_update_confirm_backup_def widget_cmd_def split: prod.split)
  ultimately show ?thesis by (cases "in_mode s") (simp_all add: in_update_key_def)
qed

lemma in_msg_looks:
  assumes "in_update U s m = Some (t, cs)" "\<forall>k \<in> acting_keys. m \<noteq> InKey k"
  shows "Ball (set cs) in_looks"
proof (cases m)
  case (InKey k)
  with assms in_key_looks [of k U s] show ?thesis by auto
qed (use assms in \<open>auto simp: Let_def widget_cmd_def split: prod.splits if_splits\<close>)

subsection \<open>The other tabs\<close>

lemma bk_msg_looks:
  assumes "bk_update U s m = Some (t, cs)" "\<forall>k \<in> acting_keys. m \<noteq> BkKey k"
  shows "Ball (set cs) bk_safe_cmd"
proof
  fix c assume "c \<in> set cs"
  from bk_cmds [OF assms(1) this] assms(2) show "bk_safe_cmd c"
    by (cases c) (simp_all add: bk_allowed_def acting_keys_def)
qed

lemma sf_msg_looks:
  assumes "sf_update U s m = Some (t, cs)" "\<forall>k \<in> acting_keys. m \<noteq> SfKey k"
  shows "Ball (set cs) sf_looks"
proof
  fix c assume "c \<in> set cs"
  from sf_cmds [OF assms(1) this] assms(2) show "sf_looks c"
    by (cases c) (simp_all add: sf_sends_def acting_keys_def)
qed

lemma rt_key_looks:
  assumes "k \<notin> acting_keys"
  shows "after (\<lambda>t cs. Ball (set cs) rt_looks) (rt_update_key U k s)"
proof -
  have k: "k \<noteq> ''enter''" "k \<notin> {''y'', ''Y'', ''s'', ''S''}" "k \<noteq> ''s''" using assms by (auto simp: acting_keys_def)
  have "after (\<lambda>t cs. Ball (set cs) rt_looks) (rt_update_lifecycle U k t)" for t
    using k(2,3) by (simp add: rt_update_lifecycle_def rt_spin_def)
  moreover have "Ball (set (snd (rt_update_field U k t))) rt_looks" for t
    by (simp add: rt_update_field_def widget_cmd_def split: sub_tab.split prod.split)
  ultimately show ?thesis
    using k(1) by (simp add: rt_update_key_def Let_def rt_spin_def)
qed

lemma rt_msg_looks:
  assumes "rt_update U s m = Some (t, cs)" "\<forall>k \<in> acting_keys. m \<noteq> RtKey k"
  shows "Ball (set cs) rt_looks"
proof (cases m)
  case (RtKey k)
  with assms rt_key_looks [of k U s] show ?thesis by auto
qed (use assms in \<open>auto simp: Let_def widget_cmd_def split: prod.splits if_splits\<close>)


subsection \<open>The root\<close>

lemma to_view_keys:
  "to_inst m = InKey k \<Longrightarrow> \<not> keyless m" "to_bk m = BkKey k \<Longrightarrow> \<not> keyless m"
  "to_s3 m = SfKey k \<Longrightarrow> \<not> keyless m" "to_rt m = RtKey k \<Longrightarrow> \<not> keyless m"
  by (auto simp: keyless_def)

definition harmless :: "ap_msg \<Rightarrow> bool" where
  "harmless m \<longleftrightarrow> keyless m \<or> (\<exists>k. k \<notin> acting_keys \<and> m = ApKey k)"

lemma harmless_views:
  assumes "harmless m"
  shows "\<forall>k \<in> acting_keys. to_inst m \<noteq> InKey k" "\<forall>k \<in> acting_keys. to_bk m \<noteq> BkKey k"
    "\<forall>k \<in> acting_keys. to_s3 m \<noteq> SfKey k" "\<forall>k \<in> acting_keys. to_rt m \<noteq> RtKey k"
  using assms to_view_keys [of m] by (auto simp: harmless_def)

lemmas refresh_defs = in_refresh_def in_spin_def bk_refresh_def sf_refresh_def rt_refresh_def

lemma on_tab_looks [simp]: "Ball (set (snd (on_tab_activated U s))) ap_looks"
  by (auto simp: on_tab_activated_def refresh_defs)

lemma ap_init_looks: "Ball (set (snd (ap_init U s))) ap_looks"
  by (auto simp: ap_init_def refresh_defs)

lemma turn_tab_looks [simp]: "Ball (set (snd (turn_tab U c d s))) ap_looks"
  by (simp add: turn_tab_def Let_def)

lemma ap_first_looks [simp]: "Ball (set (snd (snd (ap_first U c s m)))) ap_looks"
proof (cases m)
  case (ApS3 x)
  then show ?thesis by (cases x) simp_all
next
  case (ApTick n)
  then show ?thesis by (simp add: widget_cmd_def split: prod.split)
next
  case (ApDash x y z)
  then show ?thesis by (simp add: Let_def)
qed (simp_all add: Let_def)

lemma route_looks:
  assumes "route U m (s, cs) = Some (t, ds)" "harmless m" "Ball (set cs) ap_looks"
  shows "Ball (set ds) ap_looks"
  using assms(1,3) in_msg_looks [OF _ harmless_views(1) [OF assms(2)]] bk_msg_looks [OF _ harmless_views(2) [OF assms(2)]]
    sf_msg_looks [OF _ harmless_views(3) [OF assms(2)]] rt_msg_looks [OF _ harmless_views(4) [OF assms(2)]]
  by (fastforce simp: route_def split: if_splits)

lemma ap_update_looks:
  assumes "ap_update U s (c, m) = Some (t, cs)" "harmless m"
  shows "Ball (set cs) ap_looks"
proof -
  obtain b u ds where f: "ap_first U c s m = (b, u, ds)" by (metis prod.exhaust)
  have "Ball (set ds) ap_looks" using ap_first_looks [of U c s m] by (simp add: f)
  with assms(1) route_looks [OF _ assms(2), of U u ds t cs] show ?thesis
    by (cases b) (simp_all add: ap_update_def f)
qed

section \<open>What looking does\<close>

lemma keyless_simps [simp]:
  "keyless ApTicked" "keyless (ApTick n)" "keyless (ApDash x y z)" "keyless ApOther" "keyless (ApSize a b)"
  "keyless (ApStarted i d)" "keyless (ApCompleted i d z2)" "keyless (ApFailed i d e)"
  "keyless (ApInst a') \<longleftrightarrow> (\<forall>k. a' \<noteq> InKey k)" "keyless (ApBk b') \<longleftrightarrow> (\<forall>k. b' \<noteq> BkKey k)"
  "keyless (ApS3 c') \<longleftrightarrow> (\<forall>k. c' \<noteq> SfKey k)" "keyless (ApRt d') \<longleftrightarrow> (\<forall>k. d' \<noteq> RtKey k)"
  by (simp_all add: keyless_def)

lemma notifier_keyless: "notifier_msg e = Some m \<Longrightarrow> keyless m"
  by (cases e) auto

lemma exec_keyless: "ap_exec E c x = (m, y) \<Longrightarrow> keyless m"
proof (cases c)
  case (ApInstCmd i)
  then show "ap_exec E c x = (m, y) \<Longrightarrow> keyless m"
    by (cases i) (auto simp: in_load_def split: prod.splits sum.splits option.splits if_splits)
next
  case (ApBkCmd i)
  then show "ap_exec E c x = (m, y) \<Longrightarrow> keyless m"
    by (cases i) (auto simp: bk_load_def split: prod.splits sum.splits)
next
  case (ApS3Cmd i)
  then show "ap_exec E c x = (m, y) \<Longrightarrow> keyless m"
    by (cases i) (auto split: prod.splits sum.splits)
next
  case (ApRtCmd i)
  then show "ap_exec E c x = (m, y) \<Longrightarrow> keyless m"
    by (cases i) (auto split: prod.splits sum.splits option.splits)
qed (auto simp: load_dash_def)

lemma ad_ping_same: "ad_ping E ad w = (r, w') \<Longrightarrow> same_stores w w'"
  by (auto simp: ad_ping_def split: db_adapter.splits prod.splits option.splits)

lemma get_rules_db: "get_rules E w = (r, w') \<Longrightarrow> db w' = db w"
  by (auto simp: get_rules_def get_lifecycle_rules_def lifecycle_manager_def split: prod.splits sum.splits
      dest!: s3_new_frame(1))

lemma same_stores_db: "same_stores w w' \<Longrightarrow> db w' = db w"
  by (simp add: same_stores_def)

lemma instance_test_db: "instance_test_connection E i w = (r, w') \<Longrightarrow> db w' = db w"
  by (auto simp: instance_test_connection_def split: prod.splits sum.splits option.splits
      dest!: new_adapter_same ad_ping_same closing_same now_db same_stores_db)

lemma s3config_test_db: "s3config_test_connection E c w = (r, w') \<Longrightarrow> db w' = db w"
  by (auto simp: s3config_test_connection_def split: prod.splits sum.splits
      dest!: s3_new_frame(1) s3_ops_frame(1))

lemma exec_looks:
  assumes "ap_looks c" "ap_exec E c x = (m, y)"
  shows "db (snd y) = db (snd x)"
proof (cases c)
  case (ApInstCmd i)
  then show ?thesis using assms by (cases i) (auto dest: instance_test_db split: prod.splits)
next
  case (ApBkCmd i)
  then show ?thesis using assms by (cases i) auto
next
  case (ApS3Cmd i)
  then show ?thesis using assms by (cases i) (auto dest: s3config_test_db split: prod.splits)
next
  case (ApRtCmd i)
  then show ?thesis using assms by (cases i) (auto dest: get_rules_db split: prod.splits sum.splits)
qed (use assms in auto)


section \<open>Runs\<close>

text \<open>A program that only looks: every command it has started looks, every message on its way is harmless.\<close>

definition idle :: "('u, 'd, 's, 'm) prog \<Rightarrow> bool" where
  "idle p \<longleftrightarrow> Ball (set (pg_pending p)) ap_looks \<and> Ball (set (pg_inbox p)) keyless"

lemma idle_step:
  assumes "prog_step U E host K p q" "idle p" "K \<inter> acting_keys = {}" "bolt_ok E"
  shows "idle q \<and> keeps_config E (pg_sys p) (pg_sys q)"
  using assms(1)
proof cases
  case (press k c s cs)
  then have "Ball (set cs) ap_looks"
    using ap_update_looks [OF press(3)] assms(3) by (auto simp: harmless_def)
  with press assms(2) show ?thesis by (auto simp: idle_def)
next
  case (command q1 x q2 m d w)
  have "ap_looks x" using assms(2) command(2) by (simp add: idle_def)
  from exec_looks [OF this command(3)] exec_keyless [OF command(3)] command assms(2) show ?thesis
    by (auto simp: idle_def intro: keeps_config_db)
next
  case (deliver b1 m b2 c s cs)
  then have "Ball (set cs) ap_looks"
    using ap_update_looks [OF deliver(3)] assms(2) by (auto simp: harmless_def idle_def)
  with deliver assms(2) show ?thesis by (auto simp: idle_def)
next
  case (resize a b)
  with assms(2) show ?thesis by (auto simp: idle_def)
next
  case (notify e m)
  with assms(2) notifier_keyless [of e m] show ?thesis by (auto simp: idle_def proxy_msg_def)
next
  case (background d w)
  with assms(2) run_step_keeps [OF assms(4) background(2)] show ?thesis by (auto simp: idle_def)
next
  case retain
  with assms(2) retention_keeps_config [OF assms(4)] show ?thesis by (auto simp: idle_def start_retention_def)
qed

lemma idle_run:
  assumes "(prog_step U E host K)\<^sup>*\<^sup>* p q" "idle p" "K \<inter> acting_keys = {}" "bolt_ok E"
  shows "idle q \<and> keeps_config E (pg_sys p) (pg_sys q)"
  using assms(1)
proof induction
  case (step q r)
  with idle_step [OF step(2) _ assms(3,4)] keeps_config_trans show ?case by blast
qed (use assms(2) in simp)

lemma idle_init [simp]: "idle (prog_init U E w)"
  using ap_init_looks [of U "ap_new U"] by (auto simp: idle_def prog_init_def split: prod.splits)

lemma prog_init_sys [simp]: "pg_sys (prog_init U E w) = snd (start_up E w)"
  by (simp add: prog_init_def split: prod.splits)

lemma ensure_schedule_result:
  assumes "bolt_ok E"
  shows "stored_schedule E (ensure_schedule E w) = stored_schedule E w"
    "b \<noteq> bucketSchedulerConfig \<Longrightarrow> bolt_get E (db (ensure_schedule E w)) b = bolt_get E (db w) b"
proof -
  obtain e w1 where s: "store_put E bucketSchedulerConfig keySchedulerConfig
      (encode [] (EScheduler default_scheduler_config)) w = (e, w1)" by fastforce
  show "b \<noteq> bucketSchedulerConfig \<Longrightarrow> bolt_get E (db (ensure_schedule E w)) b = bolt_get E (db w) b"
    using store_put_other_bucket [OF s assms] by (simp add: ensure_schedule_def sched_save_def s split: sum.split)
  show "stored_schedule E (ensure_schedule E w) = stored_schedule E w"
  proof (cases "sched_get E w")
    case (Inl x)
    have "stored_schedule E w1 = default_scheduler_config"
    proof (cases e)
      case None
      with store_put_get(1) [OF s assms] show ?thesis
        by (auto simp: stored_schedule_def sched_get_def store_get_def encode_def decode_scheduler_def split: if_splits)
    next
      case (Some y)
      with store_put_get(2) [OF s assms] Inl show ?thesis
        by (simp add: stored_schedule_def sched_get_def store_get_def)
    qed
    with Inl s show ?thesis by (simp add: ensure_schedule_def sched_save_def stored_schedule_def)
  qed (simp add: ensure_schedule_def)
qed

section \<open>Properties\<close>

text \<open>
  C22. Whatever the database holds, start-up leaves the schedule that counts (the stored one, or the default one
  where there is none that can be read) and runs its jobs: the full and log expressions, then the self-backup
  and the retention of every night, in the schedule's time zone. Only a schedule that is switched off leaves no
  cron, and only an expression that does not parse leaves one that never runs. Nothing else stored changes.
\<close>

theorem start_up_runs_schedule:
  assumes "bolt_ok E" "start_up E w = (s, w1)"
  shows "(\<forall>b k. b \<noteq> bucketSchedulerConfig \<longrightarrow> bolt_get E (db w1) b k = bolt_get E (db w) b k) \<and>
    (let cfg = (case sched_get E w of Inl e \<Rightarrow> default_scheduler_config | Inr c \<Rightarrow> c);
         jobs = map (\<lambda>x. (x, JobFull)) (sc_full cfg) @ map (\<lambda>x. (x, JobLog)) (sc_log cfg) @
                [(self_backup_cron, JobSelfBackup), (retention_cron, JobRetention)]
     in stored_schedule E w1 = cfg \<and>
       (if \<not> sc_enabled cfg then sd_cron s = None
        else if \<forall>x \<in> set jobs. cron_parse E (fst x) = None
        then sd_cron s = Some \<lparr>cr_zone = zone_of E (sc_timezone cfg), cr_entries = jobs, cr_running = True\<rparr>
        else \<exists>c. sd_cron s = Some c \<and> \<not> cr_running c))"
proof -
  let ?w = "ensure_schedule E w"
  have w1: "w1 = ?w" and s: "s = snd (scheduler_start E ?w new_scheduler)"
    using assms(2) by (auto simp: start_up_def Let_def)
  have n: "sd_cron new_scheduler = None" "numbered new_scheduler" by (simp_all add: new_scheduler_def numbered_def)
  have j: "jobs_of new_scheduler cfg = map (\<lambda>x. (x, JobFull)) (sc_full cfg) @ map (\<lambda>x. (x, JobLog)) (sc_log cfg) @
      [(self_backup_cron, JobSelfBackup), (retention_cron, JobRetention)]" for cfg
    by (simp add: jobs_of_def new_scheduler_def)
  have c: "(case sched_get E w of Inl e \<Rightarrow> default_scheduler_config | Inr c \<Rightarrow> c) = stored_schedule E w"
    by (simp add: stored_schedule_def)
  have k: "bolt_get E (db ?w) b k = bolt_get E (db w) b k" if "b \<noteq> bucketSchedulerConfig" for b k
    using ensure_schedule_result(2) [OF assms(1) that] by simp
  have "scheduler_start E ?w new_scheduler = (fst (scheduler_start E ?w new_scheduler), s)" by (simp add: s)
  note r = start_registers [OF n this refl,
      unfolded ensure_schedule_result(1) [OF assms(1)]]
  show ?thesis
  proof (intro conjI allI impI)
    show "let cfg = (case sched_get E w of Inl e \<Rightarrow> default_scheduler_config | Inr c \<Rightarrow> c);
         jobs = map (\<lambda>x. (x, JobFull)) (sc_full cfg) @ map (\<lambda>x. (x, JobLog)) (sc_log cfg) @
                [(self_backup_cron, JobSelfBackup), (retention_cron, JobRetention)]
     in stored_schedule E w1 = cfg \<and>
       (if \<not> sc_enabled cfg then sd_cron s = None
        else if \<forall>x \<in> set jobs. cron_parse E (fst x) = None
        then sd_cron s = Some \<lparr>cr_zone = zone_of E (sc_timezone cfg), cr_entries = jobs, cr_running = True\<rparr>
        else \<exists>c. sd_cron s = Some c \<and> \<not> cr_running c)"
      using r n(1) ensure_schedule_result(1) [OF assms(1), of w]
      unfolding c Let_def j [symmetric] by (simp add: w1 split: if_split_asm)
  qed (simp add: w1 k)
qed

text \<open>
  C8. A user who only looks around changes nothing that is configured: in any run of the program after its
  start in which none of the keys that confirm, save or send is pressed (every other key may be, in any tab and
  mode, and messages, commands, notifications, jobs and retention come in any order), the instances, the S3
  configuration, the retention policies, the schedule and the restore history stay what they were; only the
  jobs write, and only backup records.
\<close>

theorem looking_changes_no_configuration:
  assumes "bolt_ok E" "(prog_step U E host K)\<^sup>*\<^sup>* (prog_init U E w) p" "K \<inter> acting_keys = {}"
    "b \<noteq> bucketBackupRecords"
  shows "bolt_get E (db (pg_sys p)) b k = bolt_get E (db (snd (start_up E w))) b k"
  using idle_run [OF assms(2) idle_init assms(3,1)] assms(4) by (simp add: keeps_config_def)

theorem start_up_runs_schedule_witness:
  "\<exists>s w1 c. start_up ref_env (ex_sys [] [] 5) = (s, w1) \<and> sd_cron s = Some c \<and> cr_running c \<and>
    map snd (cr_entries c) = [JobFull, JobLog, JobSelfBackup, JobRetention]"
proof -
  obtain s w1 where s: "start_up ref_env (ex_sys [] [] 5) = (s, w1)" by fastforce
  have c: "(case sched_get ref_env (ex_sys [] [] 5) of Inl e \<Rightarrow> default_scheduler_config | Inr c \<Rightarrow> c) =
      default_scheduler_config"
    using ex_stored [of "[]" "[]" 5] by (simp add: stored_schedule_def)
  from start_up_runs_schedule [OF bolt_ok_ref_env s, unfolded c] s show ?thesis
    by (simp add: Let_def default_scheduler_config_def ref_cron self_backup_cron_def retention_cron_def)
qed

theorem looking_changes_no_configuration_witness:
  "\<exists>p. (prog_step ref_ui ref_env ''h'' {''pgdown'', ''r''})\<^sup>*\<^sup>* (prog_init ref_ui ref_env (ex_sys [] ex_chain 5)) p \<and>
    pg_inbox p \<noteq> [] \<and> ap_notes (pg_app p) \<noteq> [] \<and>
    bolt_get ref_env (db (pg_sys p)) bucketS3Config keyS3Config = Some (Json (ES3Config ex_cfg))"
proof -
  let ?step = "prog_step ref_ui ref_env ''h'' {''pgdown'', ''r''}"
  let ?p0 = "prog_init ref_ui ref_env (ex_sys [] ex_chain 5)"
  have "\<exists>q. pg_pending ?p0 = [] @ ApTickCmd # q" "\<not> ap_s3_configured (pg_app ?p0)"
    by (simp_all add: prog_init_def ap_init_def refresh_defs ap_new_def case_prod_beta)
  then obtain q where q: "pg_pending ?p0 = [] @ ApTickCmd # q" and c: "\<not> ap_s3_configured (pg_app ?p0)" by blast
  let ?p1 = "?p0\<lparr>pg_pending := [] @ q, pg_inbox := pg_inbox ?p0 @ [ApTicked], pg_sched := pg_sched ?p0, pg_sys := pg_sys ?p0\<rparr>"
  let ?p2 = "?p1\<lparr>pg_sys := start_retention ref_env (pg_sys ?p1)\<rparr>"
  let ?s = "ap_push 0 configure_s3 True 3 (pg_app ?p2)"
  let ?p3 = "?p2\<lparr>pg_app := ?s, pg_pending := pg_pending ?p2 @ []\<rparr>"
  have "?step ?p0 ?p1" by (rule prog_step.command [OF q]) simp
  moreover have "?step ?p1 ?p2" by (rule prog_step.retain)
  moreover have "?step ?p2 ?p3"
    by (rule prog_step.press [of "''pgdown''" _ _ _ 0]) (simp_all add: ap_update_def turn_tab_def c)
  ultimately have r: "?step\<^sup>*\<^sup>* ?p0 ?p3" by (meson rtranclp.rtrancl_refl rtranclp.rtrancl_into_rtrancl)
  have b: "bucketS3Config \<noteq> bucketBackupRecords" "bucketS3Config \<noteq> bucketSchedulerConfig" by (simp_all add: bucket_defs)
  have k: "{''pgdown'', ''r''} \<inter> acting_keys = {}" by (auto simp: acting_keys_def)
  have "bolt_get ref_env (db (pg_sys ?p3)) bucketS3Config keyS3Config =
      bolt_get ref_env (db (snd (start_up ref_env (ex_sys [] ex_chain 5)))) bucketS3Config keyS3Config"
    by (rule looking_changes_no_configuration [OF bolt_ok_ref_env r k b(1)])
  also have "\<dots> = Some (Json (ES3Config ex_cfg))"
    using ensure_schedule_result(2) [OF bolt_ok_ref_env b(2), of "ex_sys [] ex_chain 5"]
    by (simp add: start_up_def Let_def ex_sys_def ref_env_sel bucket_defs)
  finally show ?thesis using r by (intro exI [of _ ?p3]) (simp add: ap_push_def)
qed

end
