(* ===== verification/Format.thy ===== *)
theory Format
  imports Go_Time
begin

text \<open>
  Sizes, durations and ages as the views show them (\<open>internal/timeutil/format.go\<close>), with the
  64-bit integers and the binary floating point arithmetic the code computes them in.
\<close>

section \<open>Arithmetic of Go\<close>

text \<open>Overflow of an \<open>int64\<close>.\<close>

definition wrap64 :: "int \<Rightarrow> int" where
  "wrap64 i = (i + 2 ^ 63) mod 2 ^ 64 - 2 ^ 63"

text \<open>The nearest integer to a / b, the even one of two: the rounding of \<open>float64\<close> and of \<open>%.1f\<close>.\<close>

definition half_even :: "nat \<Rightarrow> nat \<Rightarrow> nat" where
  "half_even a b =
     (let q = a div b; r = a mod b
      in if 2 * r < b \<or> (2 * r = b \<and> even q) then q else q + 1)"

fun bits :: "nat \<Rightarrow> nat" where
  "bits n = (if n = 0 then 0 else Suc (bits (n div 2)))"

declare bits.simps [simp del]

text \<open>
  A \<open>float64\<close> keeps 53 significant bits. The value a / b, rounded to an integer of 53 significant bits: the
  conversion of an integer for b = 1, and a quotient in a unit so small that the integers have all its bits.
\<close>

definition float_quot :: "nat \<Rightarrow> nat \<Rightarrow> nat" where
  "float_quot a b = (let k = bits (a div b) - 53 in half_even a (b * 2 ^ k) * 2 ^ k)"

definition fmt1 :: "nat \<Rightarrow> nat \<Rightarrow> string" where
  "fmt1 a b = (let t = half_even (10 * a) b in show_nat (t div 10) @ ''.'' @ show_nat (t mod 10))"

section \<open>Sizes\<close>

function size_scale :: "int \<Rightarrow> int \<Rightarrow> nat \<Rightarrow> int \<times> nat" where
  "size_scale n d e =
     (if 1024 \<le> n then size_scale (n div 1024) (wrap64 (d * 1024)) (e + 1) else (d, e))"
  by pat_completeness auto
termination by (relation "measure (\<lambda>(n, d, e). nat n)") auto

declare size_scale.simps [simp del]

text \<open>
  The divisor is a power of two, so the division of the two floating point numbers is exact. Indexing the
  letters beyond the sixth panics.
\<close>

definition format_size :: "int \<Rightarrow> string option" where
  "format_size b =
     (if b < 1024 then Some (show_int b @ '' B'')
      else (case size_scale (b div 1024) 1024 0 of (d, e) \<Rightarrow>
        if e < 6 then Some (fmt1 (float_quot (nat b) 1) (nat d) @ '' '' @ [''KMGTPE'' ! e, CHR ''B'']) else None))"

section \<open>Durations and ages\<close>

text \<open>
  \<open>Duration.Seconds\<close>, \<open>Minutes\<close> and \<open>Hours\<close>: whole units plus the quotient of the rest, in floating point,
  here in units of 2 ^ -100 so that no bit of the quotients that occur is lost.
\<close>

definition fine :: nat where "fine = 2 ^ 100"

definition float_units :: "nat \<Rightarrow> nat \<Rightarrow> nat" where
  "float_units u d = float_quot (fine * (d div u) + float_quot (fine * (d mod u)) u) 1"

definition ns_second :: nat where "ns_second = 1000000000"
definition ns_minute :: nat where "ns_minute = 60000000000"
definition ns_hour :: nat where "ns_hour = 3600000000000"

definition whole :: "nat \<Rightarrow> nat" where
  "whole x = x div fine"

definition format_duration :: "int \<Rightarrow> string" where
  "format_duration ms =
     (let d = wrap64 (ms * 1000000)
      in if d < int ns_second then show_int ms @ ''ms''
         else if d < int ns_minute then fmt1 (float_units ns_second (nat d)) fine @ ''s''
         else show_nat (whole (float_units ns_minute (nat d))) @ ''m'' @
              show_nat (whole (float_units ns_second (nat d)) mod 60) @ ''s'')"

definition relative_age :: "time \<Rightarrow> time \<Rightarrow> string" where
  "relative_age clk t =
     (if is_zero_time t then ''-''
      else let d = time_sub clk t
      in if d < int ns_minute then ''ahora''
         else if d < int ns_hour then ''hace '' @ show_nat (whole (float_units ns_minute (nat d))) @ ''m''
         else if d < 24 * int ns_hour then ''hace '' @ show_nat (whole (float_units ns_hour (nat d))) @ ''h''
         else ''hace '' @ show_nat (whole (float_quot (float_units ns_hour (nat d)) 24)) @ ''d'')"

section \<open>Rounding\<close>

lemma half_even_cases:
  "(half_even a b = a div b \<and> 2 * (a mod b) \<le> b) \<or> (half_even a b = a div b + 1 \<and> b \<le> 2 * (a mod b))"
  by (auto simp: half_even_def Let_def)

lemma half_even_err:
  assumes "0 < b"
  shows "2 * (half_even a b * b) \<le> 2 * a + b \<and> 2 * a \<le> 2 * (half_even a b * b) + b"
proof -
  have a: "a = a div b * b + a mod b" and r: "a mod b < b" using assms by simp_all
  from half_even_cases [of a b] show ?thesis
  proof (elim disjE conjE)
    assume h: "half_even a b = a div b" and "2 * (a mod b) \<le> b"
    moreover have "half_even a b * b = a div b * b" by (simp add: h)
    ultimately show ?thesis using a r by linarith
  next
    assume h: "half_even a b = a div b + 1" and "b \<le> 2 * (a mod b)"
    moreover have "half_even a b * b = a div b * b + b" by (simp add: h)
    ultimately show ?thesis using a r by linarith
  qed
qed

lemma half_even_int:
  assumes "0 < b"
  shows "2 * \<bar>int (half_even a b * b) - int a\<bar> \<le> int b"
proof -
  have "2 * \<bar>int x - int a\<bar> \<le> int b" if "2 * x \<le> 2 * a + b" "2 * a \<le> 2 * x + b" for x
    using that by presburger
  with half_even_err [OF assms] show ?thesis by blast
qed

lemma half_even_multiple: "0 < b \<Longrightarrow> b dvd a \<Longrightarrow> half_even a b * b = a"
  by (simp add: half_even_def)

lemma bits_le: "bits n \<le> k \<longleftrightarrow> n < 2 ^ k"
proof (induction n arbitrary: k rule: bits.induct)
  case (1 n)
  show ?case
  proof (cases "n = 0 \<or> k = 0")
    case True
    then show ?thesis by (subst bits.simps) auto
  next
    case False
    then obtain j where k: "k = Suc j" and n: "n \<noteq> 0" by (cases k) auto
    have "bits n = Suc (bits (n div 2))" using n by (subst bits.simps) simp
    moreover have "n div 2 < 2 ^ j \<longleftrightarrow> n < 2 ^ Suc j" by auto
    ultimately show ?thesis using 1 [OF n, of j] k by simp
  qed
qed

lemma float_quot_err:
  assumes "0 < b" "b = 1 \<or> 2 ^ 52 * b \<le> a"
  shows "2 ^ 53 * (float_quot a b * b) \<le> 2 ^ 53 * a + a" "2 ^ 53 * a \<le> 2 ^ 53 * (float_quot a b * b) + a"
proof -
  define k where "k = bits (a div b) - 53"
  define c where "c = b * 2 ^ k"
  have c: "0 < c" using assms(1) by (simp add: c_def)
  have f: "float_quot a b * b = half_even a c * c"
    by (simp add: float_quot_def k_def c_def Let_def)
  have e: "(k = 0 \<and> b = 1) \<or> 2 ^ 52 * c \<le> a"
  proof (cases k)
    case 0
    with assms(2) show ?thesis by (auto simp: c_def)
  next
    case (Suc j)
    then have "\<not> bits (a div b) \<le> 52 + k" by (simp add: k_def)
    then have "2 ^ (52 + k) \<le> a div b" by (simp add: bits_le)
    then have "2 ^ (52 + k) * b \<le> a" using assms(1) by (metis div_times_less_eq_dividend mult_le_mono1 le_trans)
    then show ?thesis by (simp add: c_def power_add mult.commute mult.left_commute)
  qed
  have "2 * (half_even a c * c) \<le> 2 * a + c \<and> 2 * a \<le> 2 * (half_even a c * c) + c" by (rule half_even_err [OF c])
  moreover have "half_even a c * c = a" if "k = 0 \<and> b = 1" using that half_even_multiple [of 1 a] by (simp add: c_def)
  ultimately show "2 ^ 53 * (float_quot a b * b) \<le> 2 ^ 53 * a + a" "2 ^ 53 * a \<le> 2 ^ 53 * (float_quot a b * b) + a"
    unfolding f using e by auto
qed

text \<open>What has at most 53 significant bits is not rounded.\<close>

lemma float_quot_exact:
  assumes "n < 2 ^ 53"
  shows "float_quot (2 ^ s * n) 1 = 2 ^ s * n"
proof -
  let ?k = "bits (2 ^ s * n) - 53"
  have "(2 :: nat) ^ s * n < 2 ^ (s + 53)" using assms by (simp add: power_add)
  then have "?k \<le> s" using bits_le [of "2 ^ s * n" "s + 53"] by linarith
  then have "(2 :: nat) ^ ?k dvd 2 ^ s * n" by (simp add: dvd_mult2 le_imp_power_dvd)
  from half_even_multiple [OF _ this] show ?thesis by (simp add: float_quot_def Let_def)
qed

section \<open>The divisor of a size\<close>

lemma near_nearer:
  assumes "2 * \<bar>x - c * f\<bar> \<le> d" "\<bar>f - b\<bar> \<le> e" "0 \<le> (c :: int)"
  shows "2 * \<bar>x - c * b\<bar> \<le> d + 2 * (c * e)"
proof -
  have "x - c * b = (x - c * f) + c * (f - b)" by (simp add: algebra_simps)
  then have "\<bar>x - c * b\<bar> \<le> \<bar>x - c * f\<bar> + c * \<bar>f - b\<bar>"
    using abs_triangle_ineq [of "x - c * f" "c * (f - b)"] assms(3) by (simp add: abs_mult)
  moreover have "c * \<bar>f - b\<bar> \<le> c * e" using assms(2,3) by (rule mult_left_mono)
  moreover have "2 * A \<le> d + 2 * D" if "A \<le> B + C" "2 * B \<le> d" "C \<le> D" for A B C D :: int using that by linarith
  ultimately show ?thesis using assms(1) by blast
qed

lemma wrap64_id: "- (2 ^ 63) \<le> i \<Longrightarrow> i < 2 ^ 63 \<Longrightarrow> wrap64 i = i"
  by (simp add: wrap64_def)

lemma size_scale_result:
  assumes "n = b div d" "d = 1024 ^ (e + 1)" "d \<le> b" "b < 2 ^ 63"
  shows "\<exists>e'. size_scale n d e = (1024 ^ (e' + 1), e') \<and> 1024 ^ (e' + 1) \<le> b \<and> b < 1024 ^ (e' + 2)"
  using assms
proof (induction n d e rule: size_scale.induct)
  case (1 n d e)
  have d: "0 < d" using 1(3) by simp
  have "n * d \<le> b \<and> b < n * d + d"
    unfolding 1(2) using div_mult_mod_eq [of b d] pos_mod_bound [OF d, of b] pos_mod_sign [OF d, of b] by linarith
  then have n: "n * d \<le> b" "b < n * d + d" by simp_all
  show ?case
  proof (cases "1024 \<le> n")
    case True
    then have b: "d * 1024 \<le> b" using n(1) mult_right_mono [OF True, of d] d by linarith
    with d 1(5) have w: "wrap64 (d * 1024) = d * 1024" by (intro wrap64_id) auto
    have "n div 1024 = b div (d * 1024)" using 1(2) d by (simp add: zdiv_zmult2_eq)
    then have "n div 1024 = b div wrap64 (d * 1024)" unfolding w .
    from 1(1) [OF True this] b w 1(3,5) True show ?thesis
      by (subst size_scale.simps) (simp add: mult.commute)
  next
    case False
    then have "b < d * 1024" using n(2) mult_right_mono [of n 1023 d] d by linarith
    with False 1(3,4) show ?thesis by (subst size_scale.simps) (auto simp: mult.commute)
  qed
qed

lemma size_index:
  assumes "(1024 :: int) ^ (e + 1) \<le> b" "b < 2 ^ 63"
  shows "e < 6"
proof (rule ccontr)
  assume "\<not> e < 6"
  then have "(1024 :: int) ^ 7 \<le> 1024 ^ (e + 1)" by (intro power_increasing) auto
  with assms show False by simp
qed

lemma format_size_total:
  assumes "b < 2 ^ 63"
  shows "\<exists>x. format_size b = Some x"
proof (cases "b < 1024")
  case False
  then obtain e where e: "size_scale (b div 1024) 1024 0 = (1024 ^ (e + 1), e)" "1024 ^ (e + 1) \<le> b"
    using size_scale_result [of "b div 1024" b 1024 0] assms by auto
  with False size_index [OF e(2) assms] show ?thesis by (simp add: format_size_def)
qed (simp add: format_size_def)

text \<open>
  C33. A size of any 64-bit value is shown and never panics; the loop that picks the unit ends and its divisor
  does not overflow. Below 1024 the number itself is shown; from there on the tenths shown are the nearest ones
  of the number in the unit, the largest of KB to EB that is not above it (of a number so large that a
  \<open>float64\<close> does not hold it exactly, up to 1 KiB of error more).
\<close>

theorem size_is_shown_in_nearest_tenths:
  assumes "b < 2 ^ 63"
  shows "\<exists>s. format_size b = Some s \<and>
    (if b < 1024 then s = show_int b @ '' B''
     else \<exists>e t. e < 6 \<and> 1024 ^ (e + 1) \<le> b \<and> b < 1024 ^ (e + 2) \<and>
       s = show_nat (t div 10) @ ''.'' @ show_nat (t mod 10) @ '' '' @ [''KMGTPE'' ! e, CHR ''B''] \<and>
       2 * \<bar>int t * 1024 ^ (e + 1) - 10 * b\<bar> \<le> 1024 ^ (e + 1) + (if b < 2 ^ 53 then 0 else 20 * 1024))"
proof (cases "b < 1024")
  case False
  obtain e where e: "size_scale (b div 1024) 1024 0 = (1024 ^ (e + 1), e)" "1024 ^ (e + 1) \<le> b" "b < 1024 ^ (e + 2)"
    using size_scale_result [of "b div 1024" b 1024 0] assms False by auto
  have e6: "e < 6" by (rule size_index [OF e(2) assms])
  define D :: nat where "D = 1024 ^ (e + 1)"
  define F where "F = float_quot (nat b) 1"
  define t where "t = half_even (10 * F) D"
  have b: "int (nat b) = b" using False by simp
  have "2 ^ 53 * F \<le> 2 ^ 53 * nat b + nat b" "2 ^ 53 * nat b \<le> 2 ^ 53 * F + nat b"
    using float_quot_err [of 1 "nat b"] by (simp_all add: F_def)
  moreover have "F = nat b" if "b < 2 ^ 53"
    using float_quot_exact [of "nat b" 0] that False by (simp add: F_def)
  moreover have "0 \<le> b" using False by simp
  ultimately have F: "\<bar>int F - b\<bar> \<le> (if b < 2 ^ 53 then 0 else 1024)"
    using assms by (cases "b < 2 ^ 53") simp_all
  have "0 < D" by (simp add: D_def)
  from half_even_int [OF this, of "10 * F"] have "2 * \<bar>int (t * D) - 10 * int F\<bar> \<le> int D" by (simp add: t_def)
  then have n: "2 * \<bar>int t * int D - 10 * b\<bar> \<le> int D + (if b < 2 ^ 53 then 0 else 20 * 1024)"
    using F near_nearer [of "int t * int D" 10 "int F" "int D" b 1024] by (cases "b < 2 ^ 53") simp_all
  have D: "int D = 1024 ^ (e + 1)" "nat (1024 ^ (e + 1)) = D" by (simp_all only: D_def of_nat_power of_nat_numeral nat_power_eq) simp
  let ?s = "show_nat (t div 10) @ ''.'' @ show_nat (t mod 10) @ '' '' @ [''KMGTPE'' ! e, CHR ''B'']"
  have "format_size b = Some ?s"
    using False e6 e(1) D(2) by (simp only: format_size_def if_False prod.case if_True fmt1_def Let_def F_def [symmetric]
      t_def [symmetric] append_assoc)
  moreover have "if b < 1024 then ?s = show_int b @ '' B''
     else \<exists>e t. e < 6 \<and> 1024 ^ (e + 1) \<le> b \<and> b < 1024 ^ (e + 2) \<and>
       ?s = show_nat (t div 10) @ ''.'' @ show_nat (t mod 10) @ '' '' @ [''KMGTPE'' ! e, CHR ''B''] \<and>
       2 * \<bar>int t * 1024 ^ (e + 1) - 10 * b\<bar> \<le> 1024 ^ (e + 1) + (if b < 2 ^ 53 then 0 else 20 * 1024)"
    unfolding if_not_P [OF False] using n [unfolded D(1)] e(2,3) e6 by blast
  ultimately show ?thesis by blast
qed (simp add: format_size_def)

theorem size_is_shown_in_nearest_tenths_witness:
  "format_size 1048575 = Some ''1024.0 KB'' \<and> 
    (\<exists>e t. e < (6 :: nat) \<and> 2 * \<bar>int t * 1024 ^ (e + 1) - 10 * 1048575\<bar> \<le> 1024 ^ (e + 1))"
proof
  show s: "format_size 1048575 = Some ''1024.0 KB''" 
    by (simp add: format_size_def size_scale.simps wrap64_def fmt1_def float_quot_def bits.simps half_even_def
        Let_def show_nat.simps digit_char_def char_of_def bit_Suc_0_iff)
  show "\<exists>e t. e < (6 :: nat) \<and> 2 * \<bar>int t * 1024 ^ (e + 1) - 10 * 1048575\<bar> \<le> 1024 ^ (e + 1)"
    using size_is_shown_in_nearest_tenths [of 1048575] by auto
qed

section \<open>Durations\<close>

text \<open>Whole units in floating point: near enough for a count of milliseconds never to be rounded across one.\<close>

lemma two_roundings:
  fixes A B C Q R W K :: nat
  assumes "2 ^ 53 * A \<le> 2 ^ 53 * B + B" "2 ^ 53 * B \<le> 2 ^ 53 * A + B" "B = K + Q" "C = K + R"
    "2 ^ 53 * Q \<le> 2 ^ 53 * R + R" "2 ^ 53 * R \<le> 2 ^ 53 * Q + R" "R \<le> W"
  shows "2 ^ 53 * A \<le> 2 ^ 53 * C + (C + 2 * W) \<and> 2 ^ 53 * C \<le> 2 ^ 53 * A + (C + 2 * W)"
proof
  have Q: "Q \<le> 2 * W" using assms(5,7) by simp
  show "2 ^ 53 * A \<le> 2 ^ 53 * C + (C + 2 * W)" using assms(1,5) Q unfolding assms(3,4) by simp
  show "2 ^ 53 * C \<le> 2 ^ 53 * A + (C + 2 * W)" using assms(2,6) Q unfolding assms(3,4) by simp
qed

lemma float_units_err:
  assumes "u = ns_second \<or> u = ns_minute" "1000000 dvd d"
  shows "2 ^ 53 * (float_units u d * u) \<le> 2 ^ 53 * (fine * d) + fine * (d + 2 * u)"
    "2 ^ 53 * (fine * d) \<le> 2 ^ 53 * (float_units u d * u) + fine * (d + 2 * u)"
proof -
  define q where "q = float_quot (fine * (d mod u)) u"
  define S where "S = fine * (d div u) + q"
  define r where "r = d mod u"
  have u: "0 < u" "1000000 dvd u" using assms(1) by (auto simp: ns_second_def ns_minute_def)
  have q: "2 ^ 53 * (q * u) \<le> 2 ^ 53 * (fine * r) + fine * r \<and> 2 ^ 53 * (fine * r) \<le> 2 ^ 53 * (q * u) + fine * r"
  proof (cases "r = 0")
    case True
    have "float_quot 0 u = 0" using u(1) by (simp add: float_quot_def half_even_def bits.simps)
    with True show ?thesis by (simp add: q_def r_def)
  next
    case False
    have "1000000 dvd r" unfolding r_def using assms(2) u(2) by (rule dvd_mod)
    with False have "1000000 \<le> r" by (auto dest: dvd_imp_le)
    then have "fine * 1000000 \<le> fine * r" by simp
    moreover have "2 ^ 52 * u \<le> fine * 1000000" using assms(1) by (auto simp: fine_def ns_second_def ns_minute_def)
    ultimately have "2 ^ 52 * u \<le> fine * r" by linarith
    from float_quot_err [OF u(1) disjI2, OF this] show ?thesis by (simp add: q_def r_def)
  qed
  have f: "2 ^ 53 * float_units u d \<le> 2 ^ 53 * S + S \<and> 2 ^ 53 * S \<le> 2 ^ 53 * float_units u d + S"
    using float_quot_err [of 1 S] by (simp add: float_units_def S_def q_def)
  have "(2 ^ 53 * float_units u d) * u \<le> (2 ^ 53 * S + S) * u" "(2 ^ 53 * S) * u \<le> (2 ^ 53 * float_units u d + S) * u"
    using f mult_le_mono1 by blast+
  then have F: "2 ^ 53 * (float_units u d * u) \<le> 2 ^ 53 * (S * u) + S * u"
    "2 ^ 53 * (S * u) \<le> 2 ^ 53 * (float_units u d * u) + S * u" by (simp_all add: algebra_simps)
  have r: "r < u" using u(1) by (simp add: r_def)
  then have ru: "fine * r \<le> fine * u" by simp
  have "fine * d = fine * (d div u * u + r)" by (simp add: r_def)
  then have d: "fine * d = fine * (d div u) * u + fine * r" by (simp add: algebra_simps)
  have S: "S * u = fine * (d div u) * u + q * u" by (simp add: S_def algebra_simps)
  show "2 ^ 53 * (float_units u d * u) \<le> 2 ^ 53 * (fine * d) + fine * (d + 2 * u)"
    "2 ^ 53 * (fine * d) \<le> 2 ^ 53 * (float_units u d * u) + fine * (d + 2 * u)"
    using two_roundings [OF F S d conjunct1 [OF q] conjunct2 [OF q] ru]
    unfolding distrib_left mult.left_commute [of fine 2] by simp_all
qed

lemma float_units_floor:
  assumes "u = ns_second \<or> u = ns_minute" "1000000 dvd d" "d < 2 ^ 63"
  shows "whole (float_units u d) = d div u"
proof -
  have u: "0 < u" "1000000 dvd u" "u \<le> ns_minute" using assms(1) by (auto simp: ns_second_def ns_minute_def)
  have fine: "0 < fine" by (simp add: fine_def)
  define r where "r = d mod u"
  have d: "d = d div u * u + r" by (simp add: r_def)
  have rd: "1000000 dvd r" unfolding r_def using assms(2) u(2) by (rule dvd_mod)
  have ru: "r < u" using u(1) by (simp add: r_def)
  then have "1000000 dvd u - r" using rd u(2) by (simp add: dvd_diff_nat)
  then have gap: "r + 1000000 \<le> u" using ru by (auto dest: dvd_imp_le)
  have small: "d + 2 * u < 2 ^ 53 * 1000000" using assms(3) u(3) by (simp add: ns_minute_def)
  then have f: "fine * (d + 2 * u) < fine * (2 ^ 53 * 1000000)" using fine by simp
  note e = float_units_err [OF assms(1,2)]
  have "2 ^ 53 * (float_units u d * u) < 2 ^ 53 * (fine * (d div u + 1) * u)"
  proof -
    have "fine * d + fine * 1000000 \<le> fine * (d div u * u + u)"
      using gap d by (metis add.assoc add_mult_distrib2 add_left_mono mult_le_mono2)
    then have "2 ^ 53 * (fine * d) + fine * (2 ^ 53 * 1000000) \<le> 2 ^ 53 * (fine * (d div u * u + u))" by simp
    with e(1) f have "2 ^ 53 * (float_units u d * u) < 2 ^ 53 * (fine * (d div u * u + u))" by linarith
    then show ?thesis by (simp add: algebra_simps)
  qed
  then have hi: "float_units u d < fine * (d div u + 1)" using u(1) by simp
  have lo: "fine * (d div u) \<le> float_units u d"
  proof (cases "r = 0")
    case True
    have "d < 2 ^ 53 * u" using assms(1,3) by (auto simp: ns_second_def ns_minute_def)
    then have n: "d div u < 2 ^ 53" using u(1) by (simp add: div_less_iff_less_mult)
    have "float_quot (fine * (d mod u)) u = 0"
      using True u(1) by (simp add: r_def float_quot_def half_even_def bits.simps)
    then show ?thesis using float_quot_exact [OF n, of 100] by (simp add: float_units_def fine_def)
  next
    case False
    then have "1000000 \<le> r" using rd by (auto dest: dvd_imp_le)
    then have "d div u * u + 1000000 \<le> d" using d by linarith
    then have "fine * (d div u * u + 1000000) \<le> fine * d" by simp
    then have "2 ^ 53 * (fine * (d div u * u)) + fine * (2 ^ 53 * 1000000) \<le> 2 ^ 53 * (fine * d)"
      by (simp add: distrib_left)
    with e(2) f have "2 ^ 53 * (fine * (d div u * u)) \<le> 2 ^ 53 * (float_units u d * u)" by linarith
    then show ?thesis using u(1) by (simp add: mult.assoc [symmetric])
  qed
  show ?thesis using hi lo fine by (simp add: whole_def div_nat_eqI)
qed

lemma seconds_in_tenths:
  assumes "m < 60000" "t = half_even (10 * float_units ns_second (1000000 * m)) fine"
  shows "100 * t \<le> m + 50" "m \<le> 100 * t + 50"
proof -
  define X where "X = float_units ns_second (1000000 * m)"
  have fine: "0 < fine" by (simp add: fine_def)
  have u: "ns_second = 1000000000" by (simp add: ns_second_def)
  have t: "2 * (t * fine) \<le> 20 * X + fine" "20 * X \<le> 2 * (t * fine) + fine"
    using half_even_err [OF fine, of "10 * X"] by (simp_all add: assms(2) X_def)
  have e: "2 ^ 53 * (X * ns_second) \<le> fine * (2 ^ 53 * (1000000 * m) + (1000000 * m + 2 * ns_second))"
    "fine * (2 ^ 53 * (1000000 * m)) \<le> 2 ^ 53 * (X * ns_second) + fine * (1000000 * m + 2 * ns_second)"
    using float_units_err [of ns_second "1000000 * m"] unfolding X_def distrib_left mult.left_commute [of fine "2 ^ 53"] by auto
  have "fine * (2 ^ 53 * (2000000000 * t)) \<le>
      fine * (20 * (2 ^ 53 * (1000000 * m) + (1000000 * m + 2000000000)) + 2 ^ 53 * 1000000000)"
    using t(1) e(1) unfolding u by (simp add: algebra_simps)
  then have "2 ^ 53 * (2000000000 * t) \<le> 20 * (2 ^ 53 * (1000000 * m) + (1000000 * m + 2000000000)) + 2 ^ 53 * 1000000000"
    using fine by (simp only: mult_le_cancel1)
  then show "100 * t \<le> m + 50" using assms(1) by simp
  have "fine * (20 * (2 ^ 53 * (1000000 * m))) \<le>
      fine * (2 ^ 53 * (2000000000 * t) + 2 ^ 53 * 1000000000 + 20 * (1000000 * m + 2000000000))"
    using t(2) e(2) unfolding u by (simp add: algebra_simps)
  then have "20 * (2 ^ 53 * (1000000 * m)) \<le> 2 ^ 53 * (2000000000 * t) + 2 ^ 53 * 1000000000 + 20 * (1000000 * m + 2000000000)"
    using fine by (simp only: mult_le_cancel1)
  then show "m \<le> 100 * t + 50" using assms(1) by simp
qed

text \<open>
  C34. A duration that a \<open>Duration\<close> can hold is shown without a visible error of its floating point arithmetic:
  below a second the milliseconds themselves, below a minute the nearest tenth of a second, and from there
  on exactly the whole minutes and the whole seconds of the rest.
\<close>

theorem duration_equals_integer_division:
  assumes "- (2 ^ 63) \<le> ms * 1000000" "ms * 1000000 < 2 ^ 63"
  shows "if ms < 1000 then format_duration ms = show_int ms @ ''ms''
    else if ms < 60000
    then \<exists>t. format_duration ms = show_nat (t div 10) @ ''.'' @ show_nat (t mod 10) @ ''s'' \<and> \<bar>100 * int t - ms\<bar> \<le> 50
    else format_duration ms = show_int (ms div 60000) @ ''m'' @ show_int (ms div 1000 mod 60) @ ''s''"
proof -
  note w = wrap64_id [OF assms]
  define m where "m = nat ms"
  have d: "nat (ms * 1000000) = 1000000 * m" by (simp add: m_def nat_mult_distrib mult.commute)
  consider "ms < 1000" | "1000 \<le> ms" "ms < 60000" | "60000 \<le> ms" by linarith
  then show ?thesis
  proof cases
    case 1
    then show ?thesis by (simp add: format_duration_def w ns_second_def)
  next
    case 2
    define t where "t = half_even (10 * float_units ns_second (1000000 * m)) fine"
    have m: "int m = ms" "m < 60000" using 2 by (simp_all add: m_def)
    have "format_duration ms = show_nat (t div 10) @ ''.'' @ show_nat (t mod 10) @ ''s''"
      using 2 by (simp add: format_duration_def w d Let_def fmt1_def t_def) (simp add: ns_second_def ns_minute_def)
    moreover have "\<bar>100 * int t - ms\<bar> \<le> 50" using seconds_in_tenths [OF m(2) t_def] m(1) by linarith
    ultimately show ?thesis using 2 by auto
  next
    case 3
    have dm: "1000000 * m < 2 ^ 63" using assms(2) 3 by (simp add: m_def)
    have m: "int m = ms" using 3 by (simp add: m_def)
    have "whole (float_units ns_minute (1000000 * m)) = m div 60000"
      using float_units_floor [OF _ _ dm, of ns_minute] by (simp add: ns_minute_def)
    moreover have "whole (float_units ns_second (1000000 * m)) = m div 1000"
      using float_units_floor [OF _ _ dm, of ns_second] by (simp add: ns_second_def)
    ultimately have "format_duration ms = show_nat (m div 60000) @ ''m'' @ show_nat (m div 1000 mod 60) @ ''s''"
      using 3 by (simp add: format_duration_def w d Let_def) (simp add: ns_second_def ns_minute_def)
    then show ?thesis using 3 by (simp add: show_int_def m_def nat_div_distrib nat_mod_distrib not_less pos_imp_zdiv_nonneg_iff)
  qed
qed

theorem duration_equals_integer_division_witness:
  "format_duration 3725000 = ''62m5s'' \<and> format_duration 999 = ''999ms''"
  using duration_equals_integer_division [of 3725000] duration_equals_integer_division [of 999]
  by (simp add: show_int_def show_nat.simps digit_char_def char_of_def bit_Suc_0_iff)

end
