(* ===== verification/Draw.thy ===== *)
theory Draw
  imports App Format
begin

text \<open>
  What the \<open>View\<close> functions of \<open>tui/\<close> share: the styles and icons of \<open>tui/styles/styles.go\<close>, the
  formats of dates, padding and cutting of texts. A screen is the string a \<open>View\<close> gives, or None where it
  panics. What the library Lipgloss makes of a text in a style, the views of the Bubbles widgets and the local
  time zone are parameters, the record \<open>pen\<close>.
\<close>

section \<open>Symbols\<close>

definition nl :: string where "nl = [CHR 0x0A]"
definition g_check :: string where "g_check = [CHR 0xE2, CHR 0x9C, CHR 0x93]"
definition g_cross :: string where "g_cross = [CHR 0xE2, CHR 0x9C, CHR 0x97]"
definition g_wheel :: string where "g_wheel = [CHR 0xE2, CHR 0x9F, CHR 0xB3]"
definition g_disc :: string where "g_disc = [CHR 0xE2, CHR 0x97, CHR 0x8F]"
definition g_ring :: string where "g_ring = [CHR 0xE2, CHR 0x97, CHR 0x8B]"
definition g_dash :: string where "g_dash = [CHR 0xE2, CHR 0x80, CHR 0x94]"
definition g_dots :: string where "g_dots = [CHR 0xE2, CHR 0x80, CHR 0xA6]"
definition g_bullet :: string where "g_bullet = [CHR 0xE2, CHR 0x80, CHR 0xA2]"
definition g_warn :: string where "g_warn = [CHR 0xE2, CHR 0x9A, CHR 0xA0]"

section \<open>Styles\<close>

text \<open>A style of Lipgloss is the list of the settings it is built with, a later one overriding an earlier one.\<close>

datatype border = NormalBorder | RoundedBorder

datatype rule =
    Bold | Foreground string | Background string | Padding nat nat | PaddingTop nat | PaddingBottom nat
  | Width nat | BorderStyle border | BorderForeground string | BorderTop | BorderBottom

definition ColorPrimary :: string where "ColorPrimary = ''#7C3AED''"
definition ColorAccent :: string where "ColorAccent = ''#06B6D4''"
definition ColorSuccess :: string where "ColorSuccess = ''#10B981''"
definition ColorWarning :: string where "ColorWarning = ''#F59E0B''"
definition ColorDanger :: string where "ColorDanger = ''#EF4444''"
definition ColorMuted :: string where "ColorMuted = ''#6B7280''"
definition ColorBg :: string where "ColorBg = ''#1E1E2E''"
definition ColorSurface :: string where "ColorSurface = ''#2D2D3F''"
definition ColorText :: string where "ColorText = ''#E2E8F0''"
definition ColorSubtext :: string where "ColorSubtext = ''#94A3B8''"
definition ColorBorder :: string where "ColorBorder = ''#4B5563''"

type_synonym style = "rule list"

definition StyleTitle :: style where
  "StyleTitle = [Bold, Foreground ColorPrimary, PaddingBottom 1]"
definition StyleTabActive :: style where
  "StyleTabActive = [Bold, Foreground ColorBg, Background ColorPrimary, Padding 0 2]"
definition StyleTabInactive :: style where
  "StyleTabInactive = [Foreground ColorSubtext, Background ColorSurface, Padding 0 2]"
definition StyleCard :: style where
  "StyleCard = [BorderStyle RoundedBorder, BorderForeground ColorBorder, Padding 1 2, Background ColorSurface]"
definition StyleCardFocused :: style where
  "StyleCardFocused = [BorderStyle RoundedBorder, BorderForeground ColorPrimary, Padding 1 2, Background ColorSurface]"
definition StyleLabel :: style where
  "StyleLabel = [Foreground ColorSubtext, Width 20]"
definition StyleLabelFocused :: style where
  "StyleLabelFocused = [Foreground ColorPrimary, Width 20]"
definition StyleValue :: style where
  "StyleValue = [Foreground ColorText]"
definition StyleSuccess :: style where
  "StyleSuccess = [Foreground ColorSuccess, Bold]"
definition StyleWarning :: style where
  "StyleWarning = [Foreground ColorWarning, Bold]"
definition StyleDanger :: style where
  "StyleDanger = [Foreground ColorDanger, Bold]"
definition StyleMuted :: style where
  "StyleMuted = [Foreground ColorMuted]"
definition StyleAccent :: style where
  "StyleAccent = [Foreground ColorAccent]"
definition StyleHelp :: style where
  "StyleHelp = [Foreground ColorMuted, BorderStyle NormalBorder, BorderTop, BorderForeground ColorBorder, PaddingTop 1]"
definition StyleButton :: style where
  "StyleButton = [Foreground ColorBg, Background ColorPrimary, Padding 0 2, Bold]"
definition StyleButtonSecondary :: style where
  "StyleButtonSecondary =
     [Foreground ColorText, Background ColorSurface, Padding 0 2, BorderStyle NormalBorder, BorderForeground ColorBorder]"
definition StyleModalOverlay :: style where
  "StyleModalOverlay = [BorderStyle RoundedBorder, BorderForeground ColorPrimary, Padding 1 2, Background ColorSurface]"
definition StyleTableHeader :: style where
  "StyleTableHeader = [Bold, Foreground ColorAccent, BorderStyle NormalBorder, BorderBottom, BorderForeground ColorBorder]"
definition StyleTableRow :: style where
  "StyleTableRow = [Foreground ColorText]"
definition StyleTableRowSelected :: style where
  "StyleTableRowSelected = [Foreground ColorBg, Background ColorPrimary]"
definition StyleStatusPending :: style where
  "StyleStatusPending = [Foreground ColorWarning, Bold]"
definition StyleStatusRunning :: style where
  "StyleStatusRunning = [Foreground ColorAccent, Bold]"
definition StyleStatusCompleted :: style where
  "StyleStatusCompleted = [Foreground ColorSuccess, Bold]"
definition StyleStatusFailed :: style where
  "StyleStatusFailed = [Foreground ColorDanger, Bold]"
definition StyleStatusExpired :: style where
  "StyleStatusExpired = [Foreground ColorMuted, Bold]"

definition status_style :: "string \<Rightarrow> style" where
  "status_style s =
     (if s = ''Completado'' then StyleStatusCompleted else if s = ''Fallido'' then StyleStatusFailed
      else if s = ''Ejecutando'' then StyleStatusRunning else if s = ''Pendiente'' then StyleStatusPending
      else StyleStatusExpired)"

definition status_icon :: "string \<Rightarrow> string" where
  "status_icon s =
     (if s = ''Completado'' then g_check else if s = ''Fallido'' then g_cross
      else if s = ''Ejecutando'' then g_wheel else if s = ''Pendiente'' then g_ring else g_dash)"

text \<open>
  Rendering in a style, the horizontal joins along the top and the middle, a box of a width, the views of a
  text input and of a spinner, and a time in the layout given, in the location the value has (the model keeps
  the instant only).
\<close>

record 'u pen =
  pn_style :: "style \<Rightarrow> string \<Rightarrow> string"
  pn_top :: "string list \<Rightarrow> string"
  pn_middle :: "string list \<Rightarrow> string"
  pn_box :: "int \<Rightarrow> string \<Rightarrow> string"
  pn_input :: "'u \<Rightarrow> string"
  pn_spinner :: "'u \<Rightarrow> string"
  pn_time :: "string \<Rightarrow> time \<Rightarrow> string"

section \<open>Texts\<close>

function rune_count :: "string \<Rightarrow> nat" where
  "rune_count s =
     (case s of [] \<Rightarrow> 0 | c # cs \<Rightarrow> Suc (rune_count (drop (rune_length s - 1) cs)))"
  by auto
termination by (relation "measure length") auto

declare rune_count.simps [simp del]

text \<open>\<open>%-ns\<close> and \<open>%nd\<close> pad to n code points.\<close>

definition pad_right :: "nat \<Rightarrow> string \<Rightarrow> string" where
  "pad_right n s = s @ replicate (n - rune_count s) (CHR '' '')"

definition pad_left :: "nat \<Rightarrow> string \<Rightarrow> string" where
  "pad_left n s = replicate (n - rune_count s) (CHR '' '') @ s"

text \<open>The columns of a table, two spaces apart; the last one is not padded.\<close>

definition cols :: "(nat \<times> string) list \<Rightarrow> string \<Rightarrow> string" where
  "cols cs z = ''  '' @ concat (map (\<lambda>(n, s). pad_right n s @ ''  '') cs) @ z"

text \<open>\<open>trunc\<close> cuts bytes, not code points.\<close>

definition trunc :: "string \<Rightarrow> nat \<Rightarrow> string" where
  "trunc s n = (if length s \<le> n then s else take (n - 1) s @ g_dots)"

section \<open>Dates\<close>

definition month_name :: "int \<Rightarrow> string" where
  "month_name m = [''Jan'', ''Feb'', ''Mar'', ''Apr'', ''May'', ''Jun'', ''Jul'', ''Aug'', ''Sep'', ''Oct'',
     ''Nov'', ''Dec''] ! nat (m - 1)"

definition fmt_clock :: "time \<Rightarrow> string" where
  "fmt_clock t = (let s = second_of_day t in pad 2 (s div 3600) @ '':'' @ pad 2 ((s mod 3600) div 60))"

text \<open>The layouts \<open>02 Jan 15:04\<close>, \<open>02 Jan 2006 15:04 UTC\<close> and \<open>2006-01-02 15:04:05 UTC\<close> of a UTC time.\<close>

definition fmt_day_month :: "time \<Rightarrow> string" where
  "fmt_day_month t = (case civil (day_number t) of (y, m, d) \<Rightarrow> pad 2 d @ '' '' @ month_name m)"

definition fmt_short :: "time \<Rightarrow> string" where
  "fmt_short t = fmt_day_month t @ '' '' @ fmt_clock t"

definition fmt_point :: "time \<Rightarrow> string" where
  "fmt_point t =
     (case civil (day_number t) of (y, m, d) \<Rightarrow>
        fmt_day_month t @ '' '' @ pad 4 y @ '' '' @ fmt_clock t @ '' UTC'')"

definition fmt_stamp :: "time \<Rightarrow> string" where
  "fmt_stamp t = fmt_date t @ '' '' @ fmt_clock t @ '':'' @ pad 2 (second_of_day t mod 60) @ '' UTC''"

definition short_date :: "('u, 'e) pen_scheme \<Rightarrow> time \<Rightarrow> string" where
  "short_date D t = (if is_zero_time t then ''-'' else pn_time D ''02 Jan 15:04'' t)"

section \<open>Lines that several views have\<close>

definition bad :: "'u pen \<Rightarrow> string \<Rightarrow> string" where
  "bad D x = pn_style D StyleDanger ((g_cross @ '' '') @ x) @ nl @ nl"

definition good :: "'u pen \<Rightarrow> string \<Rightarrow> string" where
  "good D x = pn_style D StyleSuccess ((g_check @ '' '') @ x) @ nl @ nl"

definition busy :: "'u pen \<Rightarrow> 'u \<Rightarrow> string \<Rightarrow> string" where
  "busy D u x = pn_spinner D u @ ''  '' @ pn_style D StyleMuted x @ nl @ nl"

definition status_line :: "'u pen \<Rightarrow> 'u \<Rightarrow> bool \<Rightarrow> bool \<Rightarrow> string \<Rightarrow> string \<Rightarrow> string \<Rightarrow> string" where
  "status_line D u loading none first e m =
     (if loading \<and> none then busy D u first
      else if loading then busy D u ''Actualizando...''
      else if e \<noteq> '''' then bad D e
      else if m \<noteq> '''' then good D m else '''')"

text \<open>The rows of a list, the one under the cursor in its own style.\<close>

definition table_rows :: "'u pen \<Rightarrow> int \<Rightarrow> string list \<Rightarrow> string" where
  "table_rows D sel rows =
     concat (map (\<lambda>(i, r). pn_style D (if int i = sel then StyleTableRowSelected else StyleTableRow) r @ nl)
       (enumerate 0 rows))"

definition status_mark :: "'u pen \<Rightarrow> backup_status \<Rightarrow> string" where
  "status_mark D st = pn_style D (status_style (status_label st)) (status_icon (status_label st))"

definition type_word_line :: "'u pen \<Rightarrow> 'u \<Rightarrow> string" where
  "type_word_line D u = ''  Escribe '' @ go_quote ConfirmPhrase @ '' para confirmar:'' @ nl @ ''  '' @ pn_input D u @ nl @ nl"

end
