(* ===== verification/View_Backups.thy ===== *)
theory View_Backups
  imports Draw
begin

text \<open>
  The screens of the backups tab (\<open>View\<close> of \<open>tui/views/backups/model.go\<close>), over the choice of the
  screen \<open>bk_view\<close>.
\<close>

section \<open>The list\<close>

definition size_text :: "int \<Rightarrow> string option" where
  "size_text b = (if 0 < b then format_size b else Some ''-'')"

definition duration_text :: "int \<Rightarrow> string" where
  "duration_text ms = (if 0 < ms then format_duration ms else ''-'')"

definition bk_row :: "'u pen \<Rightarrow> nat \<times> backup_record \<Rightarrow> string option" where
  "bk_row D ir =
     (case ir of (i, r) \<Rightarrow> map_option (\<lambda>size.
        cols [(3, show_nat (i + 1)), (4, status_mark D (b_status r)), (5, backup_type_label (b_type r)),
              (16, trunc (b_instance_name r) 16), (14, trunc (b_database r) 14), (12, trunc (engine_label (b_engine r)) 12),
              (10, size), (17, fmt_short (b_started r))] (duration_text (b_duration_ms r)))
        (size_text (b_size r)))"

definition bk_header :: string where
  "bk_header = cols [(3, ''#''), (4, ''''), (5, ''Tipo''), (16, ''Instancia''), (14, ''BD''), (12, ''Motor''),
     (10, (''Tama'' @ [CHR 0xC3, CHR 0xB1] @ ''o'')), (17, ''Fecha'')] ''Dur.''"

definition bk_help :: string where
  "bk_help = (''enter/v detalles  R restaurar  A restaurar TODAS  H historial  d eliminar  r refrescar  '' @ [CHR 0xE2, CHR 0x86, CHR 0x91] @ ''/'' @ [CHR 0xE2, CHR 0x86, CHR 0x93] @ '' navegar'')"

definition bk_draw_list :: "'u pen \<Rightarrow> 'u bk_model \<Rightarrow> string option" where
  "bk_draw_list D s =
     (let none = (bk_records s = []);
          top = pn_style D StyleTitle ''Registro de Respaldos'' @ nl @ nl @
                status_line D (bk_spinner s) (bk_loading s) none ''Recuperando registros de respaldo...'' (bk_err s) (bk_message s);
          end_part = nl @ pn_style D StyleHelp bk_help
      in if none \<and> \<not> bk_loading s
         then Some (top @ pn_style D StyleMuted ''No se encontraron respaldos registrados.'' @ nl @
                pn_style D StyleMuted ''Configure instancias e inicie un respaldo con [b].'' @ nl @ end_part)
         else if none then Some (top @ end_part)
         else map_option (\<lambda>rows. top @ pn_style D StyleTableHeader bk_header @ nl @
                table_rows D (bk_selected s) rows @ end_part)
                (those (map (bk_row D) (enumerate 0 (bk_records s)))))"

section \<open>One backup\<close>

definition field_row :: "'u pen \<Rightarrow> string \<Rightarrow> string \<Rightarrow> string" where
  "field_row D l v = pn_style D StyleLabel l @ ''  '' @ pn_style D StyleValue v @ nl"

definition optional :: "bool \<Rightarrow> string \<Rightarrow> string" where
  "optional b s = (if b then s else '''')"

text \<open>The end of a backup may have been written in local time, which the layout then calls UTC.\<close>

definition bk_draw_detail :: "'u pen \<Rightarrow> backup_record \<Rightarrow> string option" where
  "bk_draw_detail D r =
     map_option (\<lambda>size. pn_style D StyleCard (
       pn_style D StyleTitle ''Detalle del Respaldo'' @ nl @ nl @
       field_row D ''ID:'' (b_id r) @
       field_row D ''Tipo:'' (backup_type_label (b_type r)) @
       field_row D ''Instancia:'' (b_instance_name r) @
       field_row D ''Base de datos:'' (b_database r) @
       field_row D ''Motor:'' (engine_label (b_engine r)) @
       field_row D ''Estado:'' (pn_style D (status_style (status_label (b_status r)))
         (status_icon (status_label (b_status r)) @ '' '' @ status_label (b_status r))) @
       field_row D ''Archivo S3:'' (b_file_name r) @
       field_row D (''Tama'' @ [CHR 0xC3, CHR 0xB1] @ ''o:'') size @
       field_row D ''SHA-256:'' (b_hash r) @
       field_row D ''Iniciado:'' (fmt_stamp (b_started r)) @
       (case b_completed r of None \<Rightarrow> '''' | Some t \<Rightarrow> field_row D ''Completado:'' (pn_time D ''2006-01-02 15:04:05 UTC'' t)) @
       field_row D (''Duraci'' @ u_o @ ''n:'') (format_duration (b_duration_ms r)) @
       field_row D ''Expira:'' (fmt_date (b_expires r)) @
       optional (0 < b_retain_days r) (field_row D (''Retenci'' @ u_o @ ''n:'') (show_int (b_retain_days r) @ ('' d'' @ u_i @ ''as''))) @
       optional (b_parent r \<noteq> '''') (field_row D ''Full padre:'' (b_parent r)) @
       optional (b_error r \<noteq> '''')
         (pn_style D StyleLabel ''Error:'' @ ''  '' @ pn_style D StyleDanger (b_error r) @ nl) @
       nl @ pn_style D StyleHelp ''esc/v volver  R restaurar  d eliminar este respaldo''))
     (format_size (b_size r))"

section \<open>The dialogues\<close>

definition bk_draw_confirm_delete :: "'u pen \<Rightarrow> 'u bk_model \<Rightarrow> string" where
  "bk_draw_confirm_delete D s = pn_style D StyleModalOverlay (
     pn_style D StyleDanger (''Confirmar eliminaci'' @ u_o @ ''n de respaldo'') @ nl @ nl @
     (''  Se eliminar'' @ u_a @ '' el objeto del bucket S3 y su registro de auditor'' @ u_i @ ''a.'' @ nl) @
     (''  Si es un respaldo Full, tambi'' @ u_e @ ''n se eliminar'' @ u_a @ ''n sus Logs encadenados.'' @ nl @ nl) @
     pn_style D StyleWarning (''  Esta operaci'' @ u_o @ ''n es irreversible.'') @ nl @ nl @
     optional (bk_err s \<noteq> '''') (pn_style D StyleDanger ((''  '' @ g_cross @ '' '') @ bk_err s) @ nl @ nl) @
     type_word_line D (bk_confirm s) @
     ''  [enter] Confirmar     [esc] Cancelar'')"

definition bk_label :: "'u pen \<Rightarrow> 'u bk_model \<Rightarrow> int \<Rightarrow> string \<Rightarrow> string" where
  "bk_label D s i l = pn_style D (if bk_focused s = i then StyleLabelFocused else StyleLabel) l"

definition bk_draw_restore :: "'u pen \<Rightarrow> 'u bk_model \<Rightarrow> backup_record \<Rightarrow> string" where
  "bk_draw_restore D s r = pn_style D StyleCard (
     pn_style D StyleTitle ''Restaurar Respaldo'' @ nl @ nl @
     optional (bk_err s \<noteq> '''') (bad D (bk_err s)) @
     pn_style D StyleLabel ''Origen:     '' @ ''  '' @ pn_style D StyleValue (b_instance_name r @ '' / '' @ b_database r) @ nl @
     pn_style D StyleLabel ''Tipo:       '' @ ''  '' @ pn_style D StyleMuted (backup_type_label (b_type r)) @ nl @
     pn_style D StyleLabel ''Motor:      '' @ ''  '' @ pn_style D StyleMuted (engine_label (b_engine r)) @ nl @
     pn_style D StyleLabel ''Fecha:      '' @ ''  '' @ pn_style D StyleMuted (fmt_point (b_started r)) @ nl @
     pn_style D StyleLabel ''Archivo S3: '' @ ''  '' @ pn_style D StyleMuted (trunc (b_file_name r) 60) @ nl @ nl @
     optional (\<not> is_full r)
       (pn_style D StyleMuted (''Se aplicar'' @ u_a @ '' el Full previo y todos los Logs hasta este punto en orden.'') @ nl @ nl) @
     bk_label D s 0 ''Instancia destino '' @ ''  '' @ pn_input D (bk_inst_input s) @ nl @
     bk_label D s 1 ''BD destino        '' @ ''  '' @ pn_input D (bk_db_input s) @ nl @
     bk_label D s 2 (''Escribe '' @ go_quote ConfirmPhrase @ ''     '') @ ''  '' @ pn_input D (bk_restore_confirm s) @ nl @ nl @
     optional (bk_instances s \<noteq> [])
       (pn_style D StyleMuted ''Instancias disponibles: '' @
        pn_style D StyleMuted (join (map i_name (bk_instances s)) (''  '' @ g_bullet @ ''  '')) @ nl @ nl) @
     pn_style D StyleWarning (g_warn @ ''  Si la BD destino existe, sus datos ser'' @ u_a @ ''n reemplazados.'') @ nl @ nl @
     pn_middle D [pn_style D StyleButton ''[ enter  Siguiente / Restaurar ]'', ''   '',
       pn_style D StyleButtonSecondary ''[ esc  Cancelar ]''] @ nl @ nl @
     pn_style D StyleHelp (''tab/'' @ [CHR 0xE2, CHR 0x86, CHR 0x93] @ '' siguiente campo   shift+tab/'' @ [CHR 0xE2, CHR 0x86, CHR 0x91] @ '' anterior   enter en confirmaci'' @ u_o @ ''n = ejecutar''))"

definition point_row :: "restore_point \<Rightarrow> string" where
  "point_row p = cols [(16, trunc (pt_instance p) 16), (18, trunc (pt_database p) 18),
     (6, if pt_is_log p then ''Log'' else ''Full'')] (fmt_point (pt_at p)) @ nl"

definition bk_draw_restore_all :: "'u pen \<Rightarrow> 'u bk_model \<Rightarrow> string" where
  "bk_draw_restore_all D s = pn_style D StyleModalOverlay (
     pn_style D StyleDanger ''Restaurar TODAS las bases de datos'' @ nl @ nl @
     (''  Se restaurar'' @ u_a @ '', en el mismo lugar, el '' @ [CHR 0xC3, CHR 0xBA] @ ''ltimo punto de recuperaci'' @ u_o @ ''n'' @ nl) @
     (''  disponible (Full + Logs encadenados) de cada base de datos.'' @ nl) @
     pn_style D StyleMuted (''  master queda excluida '' @ g_dash @ '' requiere un procedimiento manual (ver docs/operaciones.md).'') @ nl @ nl @
     (if bk_loading s \<and> bk_rows s = [] then busy D (bk_spinner s) (''Calculando puntos de recuperaci'' @ u_o @ ''n...'')
      else if bk_rows s = []
      then pn_style D StyleMuted ''No hay bases de datos con un respaldo Full completado.'' @ nl @ nl @
           pn_style D StyleHelp ''[esc] Volver''
      else pn_style D StyleTableHeader (cols [(16, ''Instancia''), (18, ''BD''), (6, ''Tipo'')] (''Punto de recuperaci'' @ u_o @ ''n'')) @ nl @
           concat (map point_row (bk_rows s)) @ nl @
           optional (bk_err s \<noteq> '''') (bad D (bk_err s)) @
           pn_style D StyleWarning ((g_warn @ ''  Esto reemplaza los datos actuales de '') @ show_nat (length (bk_rows s)) @
             '' base(s) de datos.'') @ nl @ nl @
           type_word_line D (bk_confirm s) @
           pn_style D StyleHelp ''[enter] Confirmar y restaurar todo   [esc] Cancelar''))"

definition history_row :: "'u pen \<Rightarrow> restore_record \<Rightarrow> string" where
  "history_row D r =
     cols [(4, status_mark D (rr_status r)), (16, trunc (rr_instance_name r) 16), (14, trunc (rr_database r) 14),
       (8, status_label (rr_status r)), (6, show_nat (length (rr_chain r)))] (fmt_short (rr_started r)) @ nl @
     optional (rr_error r \<noteq> '''') (''      '' @ pn_style D StyleDanger (trunc (rr_error r) 90) @ nl)"

definition bk_draw_history :: "'u pen \<Rightarrow> 'u bk_model \<Rightarrow> string" where
  "bk_draw_history D s =
     pn_style D StyleTitle ''Historial de Restauraciones'' @ nl @ nl @
     (if bk_loading s then busy D (bk_spinner s) ''Cargando historial...''
      else optional (bk_err s \<noteq> '''') (bad D (bk_err s))) @
     (if bk_history s = [] \<and> \<not> bk_loading s
      then pn_style D StyleMuted (''Todav'' @ u_i @ ''a no se ha ejecutado ninguna restauraci'' @ u_o @ ''n.'') @ nl
      else optional (bk_history s \<noteq> [])
        (pn_style D StyleTableHeader (cols [(4, ''''), (16, ''Instancia''), (14, ''BD''), (8, ''Estado''), (6, ''Pasos'')] ''Fecha'') @
         nl @ concat (map (history_row D) (bk_history s)))) @
     nl @ pn_style D StyleHelp ''esc/H volver   r refrescar''"

definition bk_draw_restoring :: "'u pen \<Rightarrow> 'u bk_model \<Rightarrow> string" where
  "bk_draw_restoring D s = pn_style D StyleCard (pn_spinner D (bk_spinner s) @ ''  '' @
     (if bk_mode s = BkModeRestoringAll then ''Restaurando todas las bases de datos...''
      else ''Restaurando base de datos...'') @ nl @ nl @
     pn_style D StyleMuted (''Este proceso puede tardar varios minutos dependiendo del tama'' @ [CHR 0xC3, CHR 0xB1] @ ''o del backup.''))"

section \<open>The screen\<close>

definition bk_draw :: "'u pen \<Rightarrow> 'u bk_model \<Rightarrow> string option" where
  "bk_draw D s =
     (case bk_view s of
        None \<Rightarrow> None
      | Some BkShowList \<Rightarrow> bk_draw_list D s
      | Some (BkShowDetail r) \<Rightarrow> bk_draw_detail D r
      | Some BkShowConfirmDelete \<Rightarrow> Some (bk_draw_confirm_delete D s)
      | Some (BkShowRestore r) \<Rightarrow> Some (bk_draw_restore D s r)
      | Some BkShowRestoring \<Rightarrow> Some (bk_draw_restoring D s)
      | Some BkShowRestoreAll \<Rightarrow> Some (bk_draw_restore_all D s)
      | Some BkShowHistory \<Rightarrow> Some (bk_draw_history D s))"

end
