(* ===== verification/View_Instances.thy ===== *)
theory View_Instances
  imports View_Backups
begin

text \<open>
  The screens of the instances tab (\<open>View\<close> of \<open>tui/views/instances/model.go\<close>). A form that lacks a field,
  or a selection beyond the list, panics.
\<close>

definition formHints :: "string list" where
  "formHints = ['''', ''sqlserver | mysql | mariadb | postgres | redis'', '''', ''auto-completado al cambiar motor'', '''', '''',
     ''esquema/instancia por defecto'', ''BDs que NO se respaldan, separadas por coma'']"

definition in_row :: "'u pen \<Rightarrow> nat \<times> inst_rec \<Rightarrow> string" where
  "in_row D ir =
     (case ir of (i, x) \<Rightarrow>
        cols [(3, show_nat (i + 1)), (20, trunc (i_name x) 20), (12, trunc (engine_label (i_engine x)) 12),
              (22, trunc (i_host x) 22), (6, show_int (i_port x)),
              (6, if i_enabled x then pn_style D StyleSuccess g_disc else pn_style D StyleMuted g_ring)]
             (pad_right 15 (trunc (i_database x) 15)))"

definition in_header :: string where
  "in_header = cols [(3, ''#''), (20, ''Nombre''), (12, ''Motor''), (22, ''Host''), (6, ''Puerto''), (6, ''Act.'')]
     (pad_right 15 ''BD Default'')"

definition in_help :: string where
  "in_help = (''n nuevo  e editar  d eliminar  t probar conexi'' @ u_o @ ''n  b respaldar ahora  r refrescar  '' @ [CHR 0xE2, CHR 0x86, CHR 0x91] @ ''/'' @ [CHR 0xE2, CHR 0x86, CHR 0x93] @ '' navegar'' @ nl) @
     (''  en editar: campo '' @ [CHR 0x27] @ ''Excluir BDs'' @ [CHR 0x27] @ '' = BDs separadas por coma que se omiten del respaldo'')"

definition in_draw_list :: "'u pen \<Rightarrow> 'u in_model \<Rightarrow> string" where
  "in_draw_list D s =
     (let none = (in_instances s = [])
      in pn_style D StyleTitle ''Instancias de Base de Datos'' @ nl @ nl @
         status_line D (in_spinner s) (in_loading s) none ''Recuperando instancias...'' (in_err s) (in_message s) @
         optional (in_test_result s \<noteq> '''')
           (pn_style D StyleSuccess ((g_check @ '' Verificaci'' @ u_o @ ''n de conexi'' @ u_o @ ''n: '') @ in_test_result s) @ nl @ nl) @
         optional (in_test_err s \<noteq> '''')
           (pn_style D StyleDanger ((g_cross @ '' Verificaci'' @ u_o @ ''n de conexi'' @ u_o @ ''n fallida: '') @ in_test_err s) @ nl @ nl) @
         (if none \<and> \<not> in_loading s
          then pn_style D StyleMuted ''No hay instancias registradas.'' @ nl @
               pn_style D StyleMuted ''Utilice [n] para crear una nueva instancia.'' @ nl
          else optional (\<not> none)
            (pn_style D StyleTableHeader in_header @ nl @
             table_rows D (in_selected s) (map (in_row D) (enumerate 0 (in_instances s))))) @
         nl @ pn_style D StyleHelp in_help)"

definition form_line :: "'u pen \<Rightarrow> bool \<Rightarrow> string \<Rightarrow> 'u \<Rightarrow> string \<Rightarrow> string" where
  "form_line D focused label u hint =
     pn_style D (if focused then StyleLabelFocused else StyleLabel) label @ ''  '' @ pn_input D u @
     optional (hint \<noteq> '''') (''  '' @ pn_style D StyleMuted (''// '' @ hint)) @ nl"

text \<open>The first n lines of a form, a panic when a field is missing.\<close>

definition form_lines :: "'u pen \<Rightarrow> int \<Rightarrow> nat \<Rightarrow> string list \<Rightarrow> string list \<Rightarrow> 'u list \<Rightarrow> string option" where
  "form_lines D focus n labels hints fs =
     map_option concat (those (map (\<lambda>i.
       map_option (\<lambda>u. form_line D (int i = focus) (labels ! i) u (hints ! i)) (slice_at fs (int i))) [0..<n]))"

definition in_draw_form :: "'u pen \<Rightarrow> string \<Rightarrow> 'u in_model \<Rightarrow> string option" where
  "in_draw_form D title s =
     map_option (\<lambda>ls. pn_style D StyleTitle title @ nl @ nl @ optional (in_err s \<noteq> '''') (bad D (in_err s)) @ ls @ nl @
         pn_middle D [pn_style D StyleButton ''[ Guardar (enter) ]'', ''   '',
           pn_style D StyleButtonSecondary ''[ Cancelar (esc) ]''] @ nl @ nl @
         pn_style D StyleHelp (''tab/'' @ [CHR 0xE2, CHR 0x86, CHR 0x93] @ '' siguiente   shift+tab/'' @ [CHR 0xE2, CHR 0x86, CHR 0x91] @ '' anterior   enter en '' @ [CHR 0xC3, CHR 0xBA] @ ''ltimo campo = guardar''))
       (form_lines D (in_focused s) (nat fCount) formLabels formHints (in_fields s))"

definition delete_dialog :: "'u pen \<Rightarrow> inst_rec \<Rightarrow> string" where
  "delete_dialog D x = pn_style D StyleModalOverlay (join
     [pn_style D StyleDanger (''Confirmar eliminaci'' @ u_o @ ''n de instancia''), '''',
      ''  '' @ pn_style D StyleValue (i_name x) @ (''  '' @ g_dash @ ''  '') @ pn_style D StyleMuted (engine_label (i_engine x)) @
        '' @ '' @ i_host x @ '':'' @ show_int (i_port x), '''',
      pn_style D StyleWarning (''  Esta operaci'' @ u_o @ ''n es irreversible.''), '''',
      ''  [S] Confirmar     [N / esc] Cancelar''] nl)"

definition in_draw_confirm :: "'u pen \<Rightarrow> 'u in_model \<Rightarrow> string option" where
  "in_draw_confirm D s =
     (if in_instances s = [] then Some ''''
      else map_option (delete_dialog D) (slice_at (in_instances s) (in_selected s)))"

definition backup_dialog :: "'u pen \<Rightarrow> 'u in_model \<Rightarrow> inst_rec \<Rightarrow> string" where
  "backup_dialog D s x = pn_style D StyleModalOverlay (
     pn_style D StyleTitle ''Confirmar Respaldo Manual'' @ nl @ nl @
     (''  Se iniciar'' @ u_a @ '' un respaldo para la instancia:'' @ nl @ ''  '') @ pn_style D StyleValue (i_name x) @ '' ('' @
       pn_style D StyleMuted (engine_label (i_engine x)) @ '')'' @ nl @ nl @
     optional (in_err s \<noteq> '''') (pn_style D StyleDanger ((''  '' @ g_cross @ '' '') @ in_err s) @ nl @ nl) @
     type_word_line D (in_confirm s) @ ''  [enter] Confirmar     [esc] Cancelar'')"

definition in_draw_confirm_backup :: "'u pen \<Rightarrow> 'u in_model \<Rightarrow> string option" where
  "in_draw_confirm_backup D s =
     (if in_instances s = [] then Some ''''
      else map_option (backup_dialog D s) (slice_at (in_instances s) (in_selected s)))"

definition in_draw_testing :: "'u pen \<Rightarrow> 'u in_model \<Rightarrow> string" where
  "in_draw_testing D s = pn_style D StyleCard (pn_spinner D (in_spinner s) @ (''  Verificando conexi'' @ u_o @ ''n...'' @ nl @ nl) @
     pn_style D StyleMuted (''Estableciendo comunicaci'' @ u_o @ ''n con el servidor (tiempo l'' @ u_i @ ''mite: 10 s).''))"

definition in_draw :: "'u pen \<Rightarrow> 'u in_model \<Rightarrow> string option" where
  "in_draw D s =
     (case in_mode s of
        InModeCreate \<Rightarrow> in_draw_form D ''Nueva Instancia'' s
      | InModeEdit \<Rightarrow> in_draw_form D ''Editar Instancia'' s
      | InModeConfirmDelete \<Rightarrow> in_draw_confirm D s
      | InModeConfirmBackup \<Rightarrow> in_draw_confirm_backup D s
      | InModeTesting \<Rightarrow> Some (in_draw_testing D s)
      | InModeList \<Rightarrow> Some (in_draw_list D s))"

end
