(* ===== verification/View_Settings.thy ===== *)
theory View_Settings
  imports View_Instances
begin

text \<open>
  The screens of the S3 tab and of the tab of retention, schedule and rules (\<open>View\<close> of
  \<open>tui/views/s3config/model.go\<close> and \<open>tui/views/retention/model.go\<close>).
\<close>

section \<open>The S3 configuration\<close>

definition sfHints :: "string list" where
  "sfHints = [''nombre del bucket S3'', ''us-east-1 | eu-west-1 | ...'', (''vac'' @ u_i @ ''o=AWS; set para MinIO/Ceph: http://minio:9000''), '''', '''',
     ''backups/ (opcional)'']"

definition sf_test_line :: "'u pen \<Rightarrow> 'u sf_model \<Rightarrow> string" where
  "sf_test_line D s =
     (case sf_test s of
        TestRunning \<Rightarrow> pn_spinner D (sf_spinner s) @ ''  Verificando acceso al bucket S3...'' @ nl
      | TestOK \<Rightarrow> pn_style D StyleSuccess ((g_check @ '' '') @ sf_test_msg s) @ nl
      | TestFail \<Rightarrow> pn_style D StyleDanger ((g_cross @ '' La verificaci'' @ u_o @ ''n fall'' @ u_o @ '': '') @ sf_test_msg s) @ nl
      | TestIdle \<Rightarrow> '''')"

definition sf_draw :: "'u pen \<Rightarrow> 'u sf_model \<Rightarrow> string option" where
  "sf_draw D s =
     map_option (\<lambda>ls. pn_style D StyleTitle (''Configuraci'' @ u_o @ ''n de Almacenamiento S3'') @ nl @
         pn_style D StyleMuted ''Compatible con AWS S3, MinIO y Ceph Object Storage'' @ nl @ nl @
         optional (sf_err s \<noteq> '''') (bad D (sf_err s)) @ optional (sf_message s \<noteq> '''') (good D (sf_message s)) @
         ls @ nl @
         pn_middle D
           [pn_style D (if sf_focused s = sfCount then StyleButton @ [Background ColorAccent] else StyleButton) ''[ Guardar ]'',
            ''   '',
            pn_style D (if sf_focused s = sfCount + 1 then StyleButton @ [Background ColorSuccess] else StyleButtonSecondary)
              (''[ Probar Conexi'' @ u_o @ ''n ]'')] @ nl @ nl @
         sf_test_line D s @ nl @
         pn_style D StyleHelp
           (''tab/'' @ [CHR 0xE2, CHR 0x86, CHR 0x93] @ '' siguiente   shift+tab/'' @ [CHR 0xE2, CHR 0x86, CHR 0x91] @ '' anterior   enter en bot'' @ u_o @ ''n = ejecutar   '' @ [CHR 0xE2, CHR 0x86, CHR 0x90] @ ''/'' @ [CHR 0xE2, CHR 0x86, CHR 0x92] @ '' cambiar de bot'' @ u_o @ ''n''))
       (form_lines D (sf_focused s) (nat sfCount) sfLabels sfHints (sf_fields s))"

section \<open>Retention, schedule and rules\<close>

definition policy_row :: "retention_policy \<Rightarrow> string" where
  "policy_row p = ''  '' @ pad_right 20 (if p_instance_id p \<noteq> '''' then p_instance_id p else ''Global'') @ ''  '' @
     show_int (p_retain_days p) @ ('' d'' @ u_i @ ''as'' @ nl)"

definition rt_draw_retention :: "'u pen \<Rightarrow> 'u rt_model \<Rightarrow> string" where
  "rt_draw_retention D s =
     pn_style D StyleLabel (''D'' @ u_i @ ''as de retenci'' @ u_o @ ''n global: '') @ pn_input D (rt_days s) @ nl @
     pn_style D StyleMuted (''  Los respaldos son marcados para expiraci'' @ u_o @ ''n en S3 transcurridos N d'' @ u_i @ ''as.'') @ nl @ nl @
     optional (rt_policies s \<noteq> [])
       (pn_style D StyleValue (''Pol'' @ u_i @ ''ticas configuradas:'') @ nl @ concat (map policy_row (rt_policies s)) @ nl) @
     pn_style D StyleButton ''[ Guardar (enter) ]'' @ nl @ nl @
     pn_style D StyleHelp (''tab navegar   enter guardar   1/2/3 secci'' @ u_o @ ''n'')"

text \<open>The times are those \<open>NextRunTimes\<close> gives when the screen is drawn.\<close>

definition rt_draw_scheduler :: "'u pen \<Rightarrow> time list \<Rightarrow> 'u rt_model \<Rightarrow> string" where
  "rt_draw_scheduler D ts s =
     pn_style D StyleMuted (''Formato cron con segundos: segundo minuto hora d'' @ u_i @ ''a_mes mes d'' @ u_i @ ''a_semana'') @ nl @ nl @
     pn_style D StyleLabel ''Full  (diario, ej. medianoche):     '' @ pn_input D (rt_cron0 s) @ nl @
     pn_style D StyleLabel ''Log   (horario, solo SQL Server):   '' @ pn_input D (rt_cron1 s) @ nl @
     pn_style D StyleLabel ''Zona horaria:       '' @ pn_input D (rt_timezone s) @ nl @ nl @
     optional (ts \<noteq> [])
       (pn_style D StyleAccent (''Pr'' @ u_o @ ''ximas ejecuciones:'') @ nl @
        concat (map (\<lambda>t. ''  '' @ pn_time D ''Mon 02 Jan 2006 15:04:05 MST'' t @ nl) ts) @ nl) @
     pn_style D StyleButton ''[ Guardar y Recargar Scheduler (enter) ]'' @ nl @ nl @
     pn_style D StyleHelp (''tab navegar   enter guardar   1/2/3 secci'' @ u_o @ ''n'')"

text \<open>A rule without a prefix shows a text that is styled before it is cut.\<close>

definition rule_row :: "'u pen \<Rightarrow> nat \<times> lifecycle_rule \<Rightarrow> string" where
  "rule_row D ir =
     (case ir of (i, r) \<Rightarrow>
        cols [(3, show_nat (i + 1)), (28, trunc (l_id r) 28),
              (35, trunc (if l_prefix r = '''' then pn_style D StyleMuted ''(todo el bucket)'' else l_prefix r) 35),
              (0, pad_left 6 (show_int (l_days r))), (8, l_status r)]
             (if l_managed_by r = ''backiie'' then pn_style D StyleSuccess ''BackiieTUI'' else pn_style D StyleMuted ''externo''))"

definition rt_draw_lifecycle :: "'u pen \<Rightarrow> 'u rt_model \<Rightarrow> string" where
  "rt_draw_lifecycle D s =
     (if rt_confirm s
      then pn_style D StyleModalOverlay (join
        [pn_style D StyleDanger (''Confirmar eliminaci'' @ u_o @ ''n de regla de ciclo de vida''), '''',
         (''  Esta acci'' @ u_o @ ''n elimina la regla del bucket S3.''), '''',
         pn_style D StyleWarning ''  [S] Confirmar     [N / esc] Cancelar''] nl)
      else
        pn_style D StyleMuted ''Reglas de ciclo de vida configuradas en el bucket S3.'' @ nl @
        pn_style D StyleMuted (''Las reglas backiie-* se crean y gestionan desde aqu'' @ u_i @ ''.'') @ nl @ nl @
        optional (rt_loading s) (busy D (rt_spinner s) ''Consultando bucket...'') @
        optional (rt_rules s = [] \<and> \<not> rt_loading s)
          (pn_style D StyleMuted ''No hay reglas configuradas en el bucket.'' @ nl @
           pn_style D StyleMuted (''Presiona [s] para sincronizar con las pol'' @ u_i @ ''ticas de retenci'' @ u_o @ ''n.'') @ nl @ nl) @
        optional (rt_rules s \<noteq> [])
          (pn_style D StyleTableHeader (cols [(3, ''''), (28, ''ID''), (35, ''Prefijo S3''), (0, pad_left 6 (''D'' @ u_i @ ''as'')), (8, ''Estado'')]
             ''Origen'') @ nl @
           table_rows D (rt_selected s) (map (rule_row D) (enumerate 0 (rt_rules s))) @ nl) @
        pn_style D StyleHelp
          (''s sincronizar con retenci'' @ u_o @ ''n   d eliminar seleccionada   r refrescar   '' @ [CHR 0xE2, CHR 0x86, CHR 0x91] @ ''/'' @ [CHR 0xE2, CHR 0x86, CHR 0x93] @ '' navegar   1/2/3 secci'' @ u_o @ ''n''))"

definition sub_tab_label :: "'u pen \<Rightarrow> 'u rt_model \<Rightarrow> sub_tab \<Rightarrow> string \<Rightarrow> string" where
  "sub_tab_label D s t l = pn_style D (if rt_tab s = t then StyleTabActive else StyleTabInactive) l"

definition rt_draw :: "'u pen \<Rightarrow> time list \<Rightarrow> 'u rt_model \<Rightarrow> string" where
  "rt_draw D ts s =
     pn_style D StyleTitle (''Retenci'' @ u_o @ ''n, Programaci'' @ u_o @ ''n y Ciclo de vida S3'') @ nl @ nl @
     pn_top D [sub_tab_label D s SubRetention ('' [1] Retenci'' @ u_o @ ''n ''), sub_tab_label D s SubScheduler '' [2] Programador '',
       sub_tab_label D s SubLifecycle '' [3] Lifecycle S3 ''] @ nl @ nl @
     optional (rt_err s \<noteq> '''') (bad D (rt_err s)) @ optional (rt_message s \<noteq> '''') (good D (rt_message s)) @
     (case rt_tab s of SubRetention \<Rightarrow> rt_draw_retention D s | SubScheduler \<Rightarrow> rt_draw_scheduler D ts s
      | SubLifecycle \<Rightarrow> rt_draw_lifecycle D s)"

end
