(* ===== verification/View_App.thy ===== *)
theory View_App
  imports View_Settings
begin

text \<open>
  The screen of the program (\<open>View\<close> of \<open>tui/app.go\<close>): the tab bar, the panel or the tab shown, the
  notifications and the help. What the program draws depends on its state and on the times of the next runs.
\<close>

section \<open>The frame\<close>

definition tabNames :: "string list" where
  "tabNames = [''  Panel  '', ''  Instancias  '', ''  Respaldos  '', ''  S3  '', (''  Retenci'' @ u_o @ ''n  '')]"

definition draw_tab_bar :: "'u pen \<Rightarrow> 'u app \<Rightarrow> string" where
  "draw_tab_bar D s =
     pn_top D (map (\<lambda>(i, name). pn_style D (if int i = ap_tab s then StyleTabActive else StyleTabInactive) name)
       (enumerate 0 tabNames)) @
     optional (ap_jobs s \<noteq> [])
       (pn_style D StyleWarning ((''  '' @ g_wheel @ '' '') @ show_nat (length (ap_jobs s)) @ '' en progreso''))"

definition draw_notifications :: "'u pen \<Rightarrow> 'u app \<Rightarrow> string" where
  "draw_notifications D s =
     join (map (\<lambda>n. pn_style D (if n_is_error n then StyleDanger else StyleSuccess) (n_text n)) (ap_notes s)) nl"

definition draw_help :: "'u pen \<Rightarrow> string" where
  "draw_help D = pn_style D StyleHelp (''PgDown / PgUp  cambiar pesta'' @ [CHR 0xC3, CHR 0xB1] @ ''a   ctrl+c  salir'')"

section \<open>The panel\<close>

definition engine_lines :: "'u pen \<Rightarrow> inst_rec list \<Rightarrow> string" where
  "engine_lines D is =
     concat (map (\<lambda>eng. let n = length (filter (\<lambda>i. engine_label (i_engine i) = eng) is)
         in optional (0 < n) (''  '' @ pn_style D StyleMuted (eng @ '':'') @ '' '' @ show_nat n @ nl))
       [''SQL Server'', ''MySQL'', ''MariaDB'', ''PostgreSQL'', ''Redis''])"

definition count_label :: "string \<Rightarrow> backup_record list \<Rightarrow> nat" where
  "count_label l bs = length (filter (\<lambda>b. status_label (b_status b) = l) bs)"

text \<open>The panel's texts while and after loading: the counts, the running jobs and the next runs.\<close>

definition panel_head :: "'u pen \<Rightarrow> string" where
  "panel_head D = pn_style D StyleTitle ''BackiieTUI'' @ nl @ pn_style D StyleMuted (''Sistema de Gesti'' @ u_o @ ''n de Respaldos'') @ nl @ nl"

definition panel_stats :: "'u pen \<Rightarrow> time list \<Rightarrow> 'u app \<Rightarrow> string" where
  "panel_stats D ts s =
     panel_head D @
     optional (ap_dash_loading s)
       (pn_spinner D (ap_spinner s) @ '' '' @ pn_style D StyleMuted ''Actualizando...'' @ nl @ nl) @
     pn_style D StyleLabel ''Instancias:'' @ '' '' @ pn_style D StyleValue (show_nat (length (ap_dash_instances s))) @ nl @
     engine_lines D (ap_dash_instances s) @
     pn_style D StyleLabel ''Respaldos:'' @ '' '' @ pn_style D StyleValue (show_nat (length (ap_dash_backups s))) @ nl @
     ''  '' @ pn_style D StyleMuted ''exitosos:'' @ '' '' @
       pn_style D StyleSuccess (show_nat (count_label ''Completado'' (ap_dash_backups s))) @ ''   '' @
       pn_style D StyleMuted ''fallidos:'' @ '' '' @
       pn_style D StyleDanger (show_nat (count_label ''Fallido'' (ap_dash_backups s))) @ nl @
     optional (ap_jobs s \<noteq> [])
       (nl @ pn_style D StyleWarning ((g_wheel @ '' '') @ show_nat (length (ap_jobs s)) @ '' activo(s)'') @ nl @
        concat (map (\<lambda>j. pn_style D StyleMuted ((''  '' @ g_bullet @ '' '') @ j) @ nl) (ap_jobs s))) @
     optional (ts \<noteq> [])
       (nl @ pn_style D StyleLabel (''Pr'' @ u_o @ ''ximos respaldos:'') @ nl @
        concat (map (\<lambda>t. ''  '' @ pn_style D StyleAccent (pn_time D ''Mon 02 Jan 15:04 MST'' t) @ nl) ts))"

definition recent :: "'a list \<Rightarrow> 'a list" where
  "recent bs = (if 10 < length bs then drop (length bs - 10) bs else bs)"

definition activity_row :: "'u pen \<Rightarrow> backup_record \<Rightarrow> string" where
  "activity_row D r = status_mark D (b_status r) @ ''  '' @ pad_right 16 (trunc (b_instance_name r) 16) @ ''  '' @
     pad_right 14 (trunc (b_database r) 14) @ ''  '' @ pn_style D StyleMuted (fmt_short (b_started r)) @ nl"

definition panel_activity :: "'u pen \<Rightarrow> backup_record list \<Rightarrow> string" where
  "panel_activity D bs =
     pn_style D StyleTitle ''Actividad Reciente'' @ nl @ nl @
     optional (recent bs = [])
       (pn_style D StyleMuted ''No se encontraron respaldos registrados.'' @ nl @
        pn_style D StyleMuted (''Configure instancias en la pesta'' @ [CHR 0xC3, CHR 0xB1] @ ''a correspondiente.'')) @
     concat (map (activity_row D) (rev (recent bs)))"

definition draw_panel :: "'u pen \<Rightarrow> time list \<Rightarrow> 'u app \<Rightarrow> string" where
  "draw_panel D ts s =
     (if ap_dash_loading s \<and> ap_dash_instances s = []
      then pn_style D StyleCard (panel_head D @ pn_spinner D (ap_spinner s) @ '' '' @ pn_style D StyleMuted ''Cargando...'')
      else let w = quot_trunc (ap_width s) 2 - 3; w = (if w < 30 then 30 else w)
        in pn_top D [pn_box D w (pn_style D StyleCard (panel_stats D ts s)), ''  '',
             pn_box D w (pn_style D StyleCard (panel_activity D (ap_dash_backups s)))])"

section \<open>The screen\<close>

definition draw_active :: "'u pen \<Rightarrow> time list \<Rightarrow> 'u app \<Rightarrow> string option" where
  "draw_active D ts s =
     (if ap_tab s = TabDashboard then Some (draw_panel D ts s)
      else if ap_tab s = TabInstances then in_draw D (ap_inst s)
      else if ap_tab s = TabBackups then bk_draw D (ap_bk s)
      else if ap_tab s = TabS3Config then sf_draw D (ap_s3 s)
      else if ap_tab s = TabRetention then Some (rt_draw D ts (ap_rt s))
      else Some '''')"

definition ap_view :: "'u pen \<Rightarrow> time list \<Rightarrow> 'u app \<Rightarrow> string option" where
  "ap_view D ts s =
     (if ap_width s = 0 then Some ''Cargando BackiieTUI...''
      else map_option (\<lambda>v. draw_tab_bar D s @ nl @ nl @ v @ nl @
             (if ap_notes s \<noteq> [] then nl @ draw_notifications D s else nl) @ nl @ draw_help D)
           (draw_active D ts s))"

end
