(* ===== verification/Screens.thy ===== *)
theory Screens
  imports View_App Program
begin

text \<open>
  What the screens promise: they can always be drawn, no stored password is on them, a dialogue names what
  it confirms, and which backups the panel lists.
\<close>

section \<open>Every tab keeps its invariant in the whole program\<close>

definition tabs_ok where
  "tabs_ok PI PB PS s \<longleftrightarrow> PI (ap_inst s) \<and> PB (ap_bk s) \<and> PS (ap_s3 s)"

lemma tabs_ok_upd [simp]:
  "tabs_ok PI PB PS (ap_push c x e n s) = tabs_ok PI PB PS s" "tabs_ok PI PB PS (remove_job d i s) = tabs_ok PI PB PS s"
  "tabs_ok PI PB PS (go_to_tab U t s) = tabs_ok PI PB PS s"
  by (simp_all add: tabs_ok_def ap_push_def remove_job_def go_to_tab_def)

text \<open>Predicates on three of the tabs that their steps keep, for messages that are allowed.\<close>

locale app_tabs =
  fixes U :: "'u ui" and PI :: "'u in_model \<Rightarrow> bool" and PB :: "'u bk_model \<Rightarrow> bool" and PS :: "'u sf_model \<Rightarrow> bool"
    and ok :: "ap_msg \<Rightarrow> bool"
  assumes in_law: "PI a \<Longrightarrow> in_update U a x = Some (a', ca) \<Longrightarrow> PI a'" and in_fresh: "PI a \<Longrightarrow> PI (fst (in_refresh U a))"
    and bk_law: "PB b \<Longrightarrow> ok m \<Longrightarrow> bk_update U b (to_bk m) = Some (b', cb) \<Longrightarrow> PB b'" and bk_fresh: "PB b \<Longrightarrow> PB (fst (bk_refresh U b))"
    and sf_law: "PS c \<Longrightarrow> sf_update U c y = Some (c', cc) \<Longrightarrow> PS c'" and sf_fresh: "PS c \<Longrightarrow> PS (fst (sf_refresh c))"
begin

lemma activated: "tabs_ok PI PB PS s \<Longrightarrow> tabs_ok PI PB PS (fst (on_tab_activated U s))"
  using in_fresh bk_fresh sf_fresh by (simp add: on_tab_activated_def tabs_ok_def case_prod_beta)

lemma turned: "tabs_ok PI PB PS s \<Longrightarrow> tabs_ok PI PB PS (fst (turn_tab U c d s))"
  using activated by (simp add: turn_tab_def Let_def)

lemma first: "tabs_ok PI PB PS s \<Longrightarrow> tabs_ok PI PB PS (fst (snd (ap_first U c s m)))"
proof (cases m)
  case (ApS3 x)
  then show "tabs_ok PI PB PS s \<Longrightarrow> ?thesis" by (cases x) (simp_all add: tabs_ok_def)
next
  case (ApTick n)
  then show "tabs_ok PI PB PS s \<Longrightarrow> ?thesis" by (simp add: tabs_ok_def split: prod.split)
next
  case (ApDash x y z)
  assume "tabs_ok PI PB PS s"
  then have "tabs_ok PI PB PS (s\<lparr>ap_dash_instances := x, ap_dash_backups := y, ap_s3_configured := z, ap_dash_loading := False\<rparr>)"
    by (simp add: tabs_ok_def)
  with ApDash show ?thesis using activated by (cases z) (simp_all add: Let_def)
next
  case (ApKey k)
  then show "tabs_ok PI PB PS s \<Longrightarrow> ?thesis" using turned by simp
next
  case (ApNavigate n)
  then show "tabs_ok PI PB PS s \<Longrightarrow> ?thesis" using activated by simp
qed (simp_all add: tabs_ok_def Let_def ap_push_def remove_job_def)

lemma routed:
  assumes "tabs_ok PI PB PS s" "ok m" "route U m (s, cs) = Some (t, ds)"
  shows "tabs_ok PI PB PS t"
  using assms in_law bk_law sf_law by (auto simp: route_def tabs_ok_def split: if_splits)

lemma step: "tabs_ok PI PB PS s \<Longrightarrow> ok (snd e) \<Longrightarrow> ap_update U s e = Some (t, cs) \<Longrightarrow> tabs_ok PI PB PS t"
  using first [of s "fst e" "snd e"] routed
  by (auto simp: ap_update_def split: prod.splits if_splits)

lemma run:
  assumes "tabs_ok PI PB PS s" "run_view (ap_update U) s ms = Some (t, cs)" "\<forall>e \<in> set ms. ok (snd e)"
  shows "tabs_ok PI PB PS t"
  using assms
proof (induction ms arbitrary: s cs)
  case (Cons e ms)
  from Cons.prems(2) obtain s1 ds cs1 where
    m: "ap_update U s e = Some (s1, ds)" and r: "run_view (ap_update U) s1 ms = Some (t, cs1)"
    by (auto split: option.splits)
  show ?case using Cons.IH [OF step [OF Cons.prems(1) _ m] r] Cons.prems(3) by simp
qed simp

end

text \<open>The backups tab shows the records it was last sent.\<close>

lemma bk_key_records: "after (\<lambda>t cs. bk_records t = bk_records s) (bk_update_key U k s)"
proof -
  have type: "bk_records (fst (bk_type_restore U k s)) = bk_records s" "bk_records (fst (bk_type_confirm U k s)) = bk_records s"
    by (simp_all add: bk_type_restore_def bk_type_confirm_def split: prod.split)
  have start: "bk_records (bk_start_delete U i s) = bk_records s" "bk_records (bk_start_restore U r s) = bk_records s" for i r
    by (simp_all add: bk_start_defs)
  have "after (\<lambda>t cs. bk_records t = bk_records s) (bk_update_list U k s)"
    using start by (simp add: bk_update_list_def bk_on_selected_after) (simp add: bk_start_defs)
  moreover have "after (\<lambda>t cs. bk_records t = bk_records s) (bk_update_detail U k s)"
    using start by (simp add: bk_update_detail_def bk_on_selected_after)
  moreover have "bk_records (fst (bk_update_restore U k s)) = bk_records s"
    using type by (simp add: bk_update_restore_def Let_def)
  moreover have "bk_records (fst (bk_update_confirm_delete U k s)) = bk_records s"
      "bk_records (fst (bk_update_restore_all U k s)) = bk_records s" "bk_records (fst (bk_update_history U k s)) = bk_records s"
    using type by (simp_all add: bk_update_confirm_delete_def bk_update_restore_all_def bk_update_history_def bk_start_defs)
  ultimately show ?thesis by (cases "bk_mode s") (simp_all add: bk_update_key_def)
qed

lemma bk_update_records:
  assumes "bk_update U s m = Some (t, cs)"
  shows "bk_records t = bk_records s \<or> (\<exists>is. m = BkLoaded (bk_records t) is None)"
proof (cases m)
  case (BkKey k)
  with assms bk_key_records [of s U k] show ?thesis by simp
qed (use assms in \<open>auto simp: bk_refresh_def bk_loaded_def Let_def split: if_splits option.splits prod.splits\<close>)

section \<open>Drawing never fails\<close>

definition sizes_ok :: "'u bk_model \<Rightarrow> bool" where
  "sizes_ok s \<longleftrightarrow> (\<forall>r \<in> set (bk_records s). b_size r < 2 ^ 63)"

text \<open>The size of a record is an \<open>int64\<close>.\<close>

definition int64_msg :: "ap_msg \<Rightarrow> bool" where
  "int64_msg m \<longleftrightarrow> (\<forall>rs is. m = ApBk (BkLoaded rs is None) \<longrightarrow> (\<forall>r \<in> set rs. b_size r < 2 ^ 63))"

lemma to_bk_loaded: "to_bk m = BkLoaded rs is e \<Longrightarrow> m = ApBk (BkLoaded rs is e)"
  by (cases m) simp_all

lemma sizes_kept:
  assumes "sizes_ok b" "int64_msg m" "bk_update U b (to_bk m) = Some (b', cb)"
  shows "sizes_ok b'"
  using assms(1,2) bk_update_records [OF assms(3)] to_bk_loaded [of m] by (auto simp: sizes_ok_def int64_msg_def)

interpretation screens: app_tabs U in_inv "\<lambda>b. bk_inv b \<and> sizes_ok b" sf_inv int64_msg for U
proof unfold_locales
  show "in_update U a x = Some (a', ca) \<Longrightarrow> in_inv a \<Longrightarrow> in_inv a'" for a x a' ca by (rule in_update_inv)
  show "in_inv a \<Longrightarrow> in_inv (fst (in_refresh U a))" for a by (simp add: in_refresh_def)
  show "bk_inv b' \<and> sizes_ok b'"
    if "bk_inv b \<and> sizes_ok b" "int64_msg m" "bk_update U b (to_bk m) = Some (b', cb)" for b m b' cb
    using that bk_update_inv sizes_kept by blast
  show "bk_inv b \<and> sizes_ok b \<Longrightarrow> bk_inv (fst (bk_refresh U b)) \<and> sizes_ok (fst (bk_refresh U b))" for b
    by (simp add: sizes_ok_def bk_refresh_def)
  show "sf_inv c \<Longrightarrow> sf_update U c y = Some (c', cc) \<Longrightarrow> sf_inv c'" for c y c' cc by (rule sf.step_inv)
  show "sf_inv c \<Longrightarrow> sf_inv (fst (sf_refresh c))" for c by (simp add: sf_refresh_def)
qed

lemma masks_tabs: "ui_ok U \<Longrightarrow> app_tabs U (in_masked U) (\<lambda>b. True) (sf_masked U) (\<lambda>m. True)"
proof unfold_locales
  assume U: "ui_ok U"
  show "in_masked U a \<Longrightarrow> in_update U a x = Some (a', ca) \<Longrightarrow> in_masked U a'" for a x a' ca
    by (rule in_update_masked [OF U])
  show "in_masked U a \<Longrightarrow> in_masked U (fst (in_refresh U a))" for a
    by (simp add: in_refresh_def in_masked_def in_masks_def)
  show "sf_masked U c \<Longrightarrow> sf_update U c y = Some (c', cc) \<Longrightarrow> sf_masked U c'" for c y c' cc
    by (rule sf_update_masked [OF U])
  show "sf_masked U c \<Longrightarrow> sf_masked U (fst (sf_refresh c))" for c by (simp add: sf_refresh_def)
qed simp_all

lemma those_Some: "(\<And>x. x \<in> set xs \<Longrightarrow> f x \<noteq> None) \<Longrightarrow> \<exists>ys. those (map f xs) = Some ys"
proof (induction xs)
  case (Cons x xs)
  obtain y where "f x = Some y" using Cons.prems [of x] by auto
  moreover obtain ys where "those (map f xs) = Some ys" using Cons by auto
  ultimately show ?case by simp
qed simp

lemma form_lines_total: "n \<le> length fs \<Longrightarrow> \<exists>ls. form_lines D f n labels hints fs = Some ls"
  using those_Some [of "[0..<n]" "\<lambda>i. map_option (\<lambda>u. form_line D (int i = f) (labels ! i) u (hints ! i)) (slice_at fs (int i))"]
  by (auto simp: form_lines_def)

lemma bk_draw_total:
  assumes "bk_inv s" "sizes_ok s"
  shows "\<exists>x. bk_draw D s = Some x"
proof -
  have f: "\<exists>x. format_size (b_size r) = Some x" if "r \<in> set (bk_records s)" for r
    using assms(2) that by (intro format_size_total) (simp add: sizes_ok_def)
  have "bk_row D x \<noteq> None" if "x \<in> set (enumerate 0 (bk_records s))" for x
    using f [of "snd x"] that by (auto simp: bk_row_def size_text_def enumerate_eq_zip dest: set_zip_rightD split: prod.split)
  from those_Some [of _ "bk_row D", OF this] have "\<exists>x. bk_draw_list D s = Some x"
    by (auto simp: bk_draw_list_def Let_def)
  moreover have "\<exists>x. bk_draw_detail D r = Some x" if "r \<in> set (bk_records s)" for r
    using f [OF that] by (auto simp: bk_draw_detail_def)
  moreover obtain v where v: "bk_view s = Some v" using bk_view_total [OF assms(1)] by blast
  moreover have "r \<in> set (bk_records s)" if "v = BkShowDetail r" for r
    using v that by (cases "bk_mode s") (auto simp: bk_view_def dest: slice_at_set split: if_splits)
  ultimately show ?thesis by (cases v) (simp_all add: bk_draw_def)
qed

lemma in_draw_total: "in_inv s \<Longrightarrow> \<exists>x. in_draw D s = Some x"
  using in_selected_slice [of s] form_lines_total [of "nat fCount" "in_fields s" D "in_focused s" formLabels formHints]
  by (cases "in_mode s") (auto simp: in_draw_def in_draw_form_def in_draw_confirm_def in_draw_confirm_backup_def
    in_inv_def in_form_ok_def)

lemma sf_draw_total: "sf_inv s \<Longrightarrow> \<exists>x. sf_draw D s = Some x"
  using form_lines_total [of "nat sfCount" "sf_fields s" D "sf_focused s" sfLabels sfHints]
  by (auto simp: sf_draw_def sf_inv_def sf_consts)

section \<open>Secrets\<close>

text \<open>The state without the passwords of the instances it lists. A form's fields are widgets, drawn by Bubbles.\<close>

definition no_password :: "inst_rec \<Rightarrow> inst_rec" where
  "no_password i = i\<lparr>i_password := ''''\<rparr>"

definition public_part :: "'u app \<Rightarrow> 'u app" where
  "public_part s = s\<lparr>ap_dash_instances := map no_password (ap_dash_instances s),
     ap_inst := (ap_inst s)\<lparr>in_instances := map no_password (in_instances (ap_inst s))\<rparr>,
     ap_bk := (ap_bk s)\<lparr>bk_instances := map no_password (bk_instances (ap_bk s))\<rparr>\<rparr>"

definition same_but_passwords :: "'u app \<Rightarrow> 'u app \<Rightarrow> bool" where
  "same_but_passwords s t \<longleftrightarrow> public_part s = public_part t"

lemma no_password_sel [simp]:
  "i_name (no_password i) = i_name i" "i_engine (no_password i) = i_engine i" "i_host (no_password i) = i_host i"
  "i_port (no_password i) = i_port i" "i_database (no_password i) = i_database i" "i_enabled (no_password i) = i_enabled i"
  by (simp_all add: no_password_def)

lemma public_part_sel [simp]:
  "ap_tab (public_part s) = ap_tab s" "ap_width (public_part s) = ap_width s" "ap_notes (public_part s) = ap_notes s"
  "ap_jobs (public_part s) = ap_jobs s" "ap_dash_loading (public_part s) = ap_dash_loading s"
  "ap_dash_backups (public_part s) = ap_dash_backups s" "ap_spinner (public_part s) = ap_spinner s"
  "ap_s3 (public_part s) = ap_s3 s" "ap_rt (public_part s) = ap_rt s"
  "ap_dash_instances (public_part s) = map no_password (ap_dash_instances s)"
  "ap_inst (public_part s) = (ap_inst s)\<lparr>in_instances := map no_password (in_instances (ap_inst s))\<rparr>"
  "ap_bk (public_part s) = (ap_bk s)\<lparr>bk_instances := map no_password (bk_instances (ap_bk s))\<rparr>"
  by (simp_all add: public_part_def)

lemma slice_at_map: "slice_at (map f xs) i = map_option f (slice_at xs i)"
  by (auto simp: slice_at_def)

lemma enumerate_map: "enumerate n (map f xs) = map (map_prod id f) (enumerate n xs)"
  by (induction xs arbitrary: n) simp_all

lemma in_draw_public: "in_draw D (s\<lparr>in_instances := map no_password (in_instances s)\<rparr>) = in_draw D s"
proof -
  have "in_row D (map_prod id no_password x) = in_row D x" for x by (cases x) (simp add: in_row_def)
  then have "in_draw_list D (s\<lparr>in_instances := map no_password (in_instances s)\<rparr>) = in_draw_list D s"
    by (simp add: in_draw_list_def Let_def enumerate_map comp_def)
  moreover have "delete_dialog D (no_password x) = delete_dialog D x" for x by (simp add: delete_dialog_def)
  then have "in_draw_confirm D (s\<lparr>in_instances := map no_password (in_instances s)\<rparr>) = in_draw_confirm D s"
    by (simp add: in_draw_confirm_def slice_at_map option.map_comp comp_def)
  moreover have "backup_dialog D (s\<lparr>in_instances := is\<rparr>) (no_password x) = backup_dialog D s x" for "is" x
    by (simp add: backup_dialog_def)
  then have "in_draw_confirm_backup D (s\<lparr>in_instances := map no_password (in_instances s)\<rparr>) = in_draw_confirm_backup D s"
    by (simp add: in_draw_confirm_backup_def slice_at_map option.map_comp comp_def)
  ultimately show ?thesis by (simp add: in_draw_def in_draw_form_def in_draw_testing_def split: in_mode.split)
qed

lemma bk_draw_public: "bk_draw D (s\<lparr>bk_instances := map no_password (bk_instances s)\<rparr>) = bk_draw D s"
proof -
  let ?t = "s\<lparr>bk_instances := map no_password (bk_instances s)\<rparr>"
  have "bk_view ?t = bk_view s" by (simp add: bk_view_def split: bk_mode.split)
  moreover have "bk_draw_restore D ?t r = bk_draw_restore D s r" for r
    by (simp add: bk_draw_restore_def bk_label_def comp_def)
  moreover have "bk_draw_list D ?t = bk_draw_list D s" by (simp add: bk_draw_list_def Let_def)
  moreover have "bk_draw_confirm_delete D ?t = bk_draw_confirm_delete D s" "bk_draw_restoring D ?t = bk_draw_restoring D s"
    "bk_draw_restore_all D ?t = bk_draw_restore_all D s" "bk_draw_history D ?t = bk_draw_history D s"
    by (simp_all add: bk_draw_confirm_delete_def bk_draw_restoring_def bk_draw_restore_all_def bk_draw_history_def)
  ultimately show ?thesis by (simp add: bk_draw_def split: option.split bk_screen.split)
qed

lemma panel_public: "draw_panel D ts (public_part s) = draw_panel D ts s"
proof -
  have "engine_lines D (map no_password is) = engine_lines D is" for "is"
    by (simp add: engine_lines_def filter_map comp_def)
  then have "panel_stats D ts (public_part s) = panel_stats D ts s" by (simp add: panel_stats_def)
  then show ?thesis by (simp add: draw_panel_def)
qed

lemma ap_view_public: "ap_view D ts (public_part s) = ap_view D ts s"
proof -
  have "draw_active D ts (public_part s) = draw_active D ts s"
    by (simp add: draw_active_def panel_public in_draw_public bk_draw_public)
  then show ?thesis by (simp add: ap_view_def draw_tab_bar_def draw_notifications_def)
qed

section \<open>The dialogues of the instances tab\<close>

text \<open>A command that needs a confirmation, on a key, on the instance the screen names.\<close>

definition named_on_screen :: "'u pen \<Rightarrow> 'u ui \<Rightarrow> 'u in_model \<Rightarrow> in_msg \<Rightarrow> in_cmd \<Rightarrow> bool" where
  "named_on_screen D U s m c \<longleftrightarrow>
     (case c of
        InDeleteCmd i \<Rightarrow> m \<in> InKey ` {''y'', ''Y'', ''s'', ''S''} \<and> (\<exists>x \<in> set (in_instances s). i_id x = i \<and> in_draw D s = Some (delete_dialog D x))
      | InBackupCmd i \<Rightarrow> m = InKey ''enter'' \<and> in_asking s () \<and> confirms ConfirmPhrase (ti_value U (in_confirm s)) \<and>
          (\<exists>x \<in> set (in_instances s). i_id x = i \<and> in_draw D s = Some (backup_dialog D s x))
      | _ \<Rightarrow> True)"

lemma named_simps [simp]:
  "named_on_screen D U s m (InSpin n)" "named_on_screen D U s m InInputCmd" "named_on_screen D U s m InLoadCmd"
  "named_on_screen D U s m (InTestCmd x)" "named_on_screen D U s m (InSubmitCmd e x)"
  by (simp_all add: named_on_screen_def)

lemma in_key_named: "after (\<lambda>t cs. Ball (set cs) (named_on_screen D U s (InKey k))) (in_update_key U k s)"
proof -
  let ?N = "\<lambda>t cs. Ball (set cs) (named_on_screen D U s (InKey k))"
  have move: "after (\<lambda>t cs. Ball (set cs) (named_on_screen D U s (InKey j))) (in_move_focus U d t)" for d t j
    using in_move_cmds [of U d t] by (auto simp: after_def split: option.splits)
  have submit: "after (\<lambda>t cs. Ball (set cs) (named_on_screen D U s (InKey j))) (in_submit_form U t)" for t j
    by (auto simp: in_submit_form_def after_map split: sum.split)
  have "after ?N (in_update_list U k s)"
    by (simp add: in_update_list_def in_on_selected_def after_map in_spin_def in_refresh_def)
  moreover have "after ?N (in_update_form U k s)"
    using move submit by (simp add: in_update_form_def after_map after_bind widget_cmd_def split: prod.split)
  moreover have "after ?N (in_update_confirm k s)" if "in_mode s = InModeConfirmDelete"
    using that by (auto simp: in_update_confirm_def after_map named_on_screen_def in_draw_def in_draw_confirm_def
        dest: slice_at_set)
  moreover have "after ?N (in_update_confirm_backup U k s)" if "in_mode s = InModeConfirmBackup"
    using that by (auto simp: in_update_confirm_backup_def after_map named_on_screen_def in_asking_def in_draw_def
        in_draw_confirm_backup_def widget_cmd_def dest: slice_at_set split: prod.split)
  ultimately show ?thesis by (cases "in_mode s") (simp_all add: in_update_key_def)
qed

lemma in_msg_named: "in_update U s m = Some (t, cs) \<Longrightarrow> c \<in> set cs \<Longrightarrow> named_on_screen D U s m c"
proof (cases m)
  case (InKey k)
  then show "in_update U s m = Some (t, cs) \<Longrightarrow> c \<in> set cs \<Longrightarrow> named_on_screen D U s m c"
    using in_key_named [of D U s k] by simp
qed (auto simp: Let_def widget_cmd_def split: prod.splits if_splits)

section \<open>The panel\<close>

lemma recent_suffix: "\<exists>old. bs = old @ recent bs \<and> length (recent bs) = min 10 (length bs)"
  by (rule exI [of _ "take (length bs - 10) bs"]) (simp add: recent_def)

section \<open>Properties\<close>

text \<open>
  C28. Drawing never makes the program panic: whatever keys and messages it has processed, every screen of every
  tab and mode can be drawn (sizes of records are 64-bit integers).
\<close>

theorem every_screen_is_drawn:
  assumes "run_view (ap_update U) (ap_new U) ms = Some (s, cs)"
    "\<forall>e \<in> set ms. \<forall>rs is. snd e = ApBk (BkLoaded rs is None) \<longrightarrow> (\<forall>r \<in> set rs. b_size r < 2 ^ 63)"
  shows "ap_view D ts s \<noteq> None"
proof -
  have "tabs_ok in_inv (\<lambda>b. bk_inv b \<and> sizes_ok b) sf_inv (ap_new U)"
    using bk_new_inv [of U] by (simp add: tabs_ok_def ap_new_def sizes_ok_def) (simp add: bk_new_def)
  from screens.run [OF this assms(1)] assms(2)
  have "in_inv (ap_inst s)" "bk_inv (ap_bk s)" "sizes_ok (ap_bk s)" "sf_inv (ap_s3 s)"
    by (auto simp: tabs_ok_def int64_msg_def)
  then show ?thesis
    using in_draw_total [of "ap_inst s" D] bk_draw_total [of "ap_bk s" D] sf_draw_total [of "ap_s3 s" D]
    by (auto simp: ap_view_def draw_active_def)
qed

text \<open>
  C29. No screen shows a stored password: two states that differ only in the passwords of the instances they list
  are drawn the same, in every tab and mode. What is left are the fields of the two forms in which secrets are
  edited, which the text input draws; and in every state the program can reach, the field of an instance's
  password and the one of the secret key of S3 are in the echo mode that masks what is typed.
\<close>

theorem screens_hide_passwords:
  assumes "ui_ok U" "run_view (ap_update U) (ap_new U) ms = Some (s, cs)"
  shows "(\<forall>a t. same_but_passwords a t \<longrightarrow> ap_view D ts a = ap_view D ts t) \<and>
    (\<forall>u. slice_at (in_fields (ap_inst s)) fPassword = Some u \<longrightarrow> ti_masked U u) \<and>
    (\<forall>u. slice_at (sf_fields (ap_s3 s)) sfSecretKey = Some u \<longrightarrow> ti_masked U u)"
proof -
  have "tabs_ok (in_masked U) (\<lambda>b. True) (sf_masked U) (ap_new U)"
    using assms(1) by (simp add: tabs_ok_def ap_new_def) (simp add: in_masked_def in_masks_def in_new_def)
  from app_tabs.run [OF masks_tabs [OF assms(1)] this assms(2)] have m: "in_masked U (ap_inst s)" "sf_masked U (ap_s3 s)"
    by (simp_all add: tabs_ok_def)
  show ?thesis
  proof (intro conjI allI impI)
    show "ap_view D ts a = ap_view D ts t" if "same_but_passwords a t" for a t
      using ap_view_public [of D ts a] ap_view_public [of D ts t] that by (simp add: same_but_passwords_def)
    show "ti_masked U u" if "slice_at (in_fields (ap_inst s)) fPassword = Some u" for u
      by (rule in_masked_password [OF m(1) that])
    show "ti_masked U u" if "slice_at (sf_fields (ap_s3 s)) sfSecretKey = Some u" for u
      by (rule sf_masked_secret [OF m(2) that])
  qed
qed

text \<open>
  C30. What is confirmed is what the dialogue on the screen names: an instance is deleted, or backed up by hand,
  only on a key pressed (y or s for the one, enter for the other) while the screen is the dialogue that shows
  this very instance, even when the list was reloaded under the dialogue. For a backup the word stands in the
  dialogue's field, and was typed there: the text is what the keys pressed since the dialogue was opened, and
  not left by esc, made of a field that opening it had emptied.
\<close>

theorem dialogue_names_what_it_confirms:
  assumes "run_view (in_update U) (in_new U) ms = Some (s, ds)" "in_update U s m = Some (t, cs)"
  shows "(InDeleteCmd i \<in> set cs \<longrightarrow> m \<in> InKey ` {''y'', ''Y'', ''s'', ''S''} \<and>
      (\<exists>x \<in> set (in_instances s). i_id x = i \<and> in_draw D s = Some (delete_dialog D x))) \<and>
    (InBackupCmd i \<in> set cs \<longrightarrow> m = InKey ''enter'' \<and> confirms ConfirmPhrase (ti_value U (in_confirm s)) \<and>
      (\<exists>x \<in> set (in_instances s). i_id x = i \<and> in_draw D s = Some (backup_dialog D s x)) \<and>
      (\<exists>pre post s1 cs1. ms = pre @ InKey ''b'' # post \<and> run_view (in_update U) (in_new U) pre = Some (s1, cs1) \<and>
        in_mode s1 = InModeList \<and> InKey ''esc'' \<notin> set post \<and>
        in_confirm s = foldl (in_word U) (ti_focus U (ti_set U '''' (in_confirm s1))) post))"
proof -
  have "\<exists>pre post s1 cs1. ms = pre @ InKey ''b'' # post \<and> run_view (in_update U) (in_new U) pre = Some (s1, cs1) \<and>
      in_mode s1 = InModeList \<and> InKey ''esc'' \<notin> set post \<and>
      in_confirm s = foldl (in_word U) (in_empty_word U s1) post" if "in_asking s ()"
    using in_backup.since [OF assms(1) that] by (auto simp: in_asks_def)
  then show ?thesis
    using in_msg_named [OF assms(2), of "InDeleteCmd i" D] in_msg_named [OF assms(2), of "InBackupCmd i" D]
    by (simp add: named_on_screen_def)
qed

text \<open>
  The panel's recent activity is not the recent one: it lists the ten backups with the greatest identifiers
  (or all, if there are fewer), in descending order of the identifiers, which are random; of the times the
  backups were made it takes no notice.
\<close>

theorem panel_lists_greatest_identifiers:
  assumes "backups_wf E w" "load_dash E w = ApDash is bs ok"
  shows "sorted_wrt (\<lambda>r q. b_id q < b_id r) (rev (recent bs)) \<and> length (recent bs) = min 10 (length bs) \<and>
    set (recent bs) \<subseteq> set bs \<and> (\<forall>r \<in> set bs - set (recent bs). \<forall>q \<in> set (recent bs). b_id r < b_id q)"
proof -
  from backups.all_Inr [OF assms(1)] obtain rs where rs: "br_find_all E w = Inr rs" ..
  have b: "bs = rs" using assms(2) rs by (simp add: load_dash_def)
  have "sorted_wrt (\<lambda>r q. b_id r < b_id q) bs"
    using backups.all_sorted [OF assms(1) rs] b by (simp add: sorted_wrt_map)
  moreover obtain old where old: "bs = old @ recent bs" "length (recent bs) = min 10 (length bs)" using recent_suffix by blast
  ultimately have "sorted_wrt (\<lambda>r q. b_id r < b_id q) (recent bs)"
    "\<forall>r \<in> set old. \<forall>q \<in> set (recent bs). b_id r < b_id q" by (metis sorted_wrt_append)+
  moreover have "set bs = set old \<union> set (recent bs)" using old(1) by (metis set_append)
  ultimately show ?thesis using old(2) by (auto simp: sorted_wrt_rev)
qed

section \<open>Witnesses\<close>

text \<open>A pen that shows texts as they are.\<close>

definition ref_pen :: "ref_input pen" where
  "ref_pen = \<lparr>pn_style = (\<lambda>st x. x), pn_top = concat, pn_middle = concat, pn_box = (\<lambda>n x. x),
     pn_input = (\<lambda>u. replicate (length (fst u)) (CHR ''*'')), pn_spinner = (\<lambda>u. ''''), pn_time = (\<lambda>l t. l)\<rparr>"

definition ex_screen_keys :: "(time \<times> ap_msg) list" where
  "ex_screen_keys = [(0, ApSize 80 24), (0, ApDash [] [] True), (0, ApKey ''pgdown''), (0, ApKey ''pgdown''),
     (0, ApBk (BkLoaded [ex_record ''a'' ''a.bak'' BackupTypeFull '''' 1] [] None)), (0, ApKey ''enter'')]"

theorem every_screen_is_drawn_witness:
  "\<exists>s cs. run_view (ap_update ref_ui) (ap_new ref_ui) ex_screen_keys = Some (s, cs) \<and> bk_mode (ap_bk s) = BkModeDetail \<and>
    bk_records (ap_bk s) \<noteq> [] \<and> ap_width s = 80 \<and> ap_view ref_pen [] s \<noteq> None"
proof -
  obtain s cs where r: "run_view (ap_update ref_ui) (ap_new ref_ui) ex_screen_keys = Some (s, cs)"
    "bk_mode (ap_bk s) = BkModeDetail" "bk_records (ap_bk s) \<noteq> []" "ap_width s = 80"
    by (simp add: ex_screen_keys_def app_eval bk_eval sf_refresh_def in_refresh_def in_new_def in_spin_def)
  have "\<forall>e \<in> set ex_screen_keys. \<forall>rs is. snd e = ApBk (BkLoaded rs is None) \<longrightarrow> (\<forall>r \<in> set rs. b_size r < 2 ^ 63)"
    by (simp add: ex_screen_keys_def ex_record_def)
  from every_screen_is_drawn [OF r(1) this] r show ?thesis by blast
qed

definition ex_server :: "string \<Rightarrow> inst_rec" where
  "ex_server p = (ex_instance ''srv'' EngineMySQL)\<lparr>i_password := p\<rparr>"

text \<open>The instances tab, once the list has come.\<close>

definition ex_listing_keys :: "string \<Rightarrow> (time \<times> ap_msg) list" where
  "ex_listing_keys p = [(0, ApSize 80 24), (0, ApDash [] [] True), (0, ApKey ''pgdown''),
     (0, ApInst (InLoaded [ex_server p] None)), (0, ApKey ''e'')]"

lemma ex_listing:
  "\<exists>s cs. run_view (ap_update ref_ui) (ap_new ref_ui) (ex_listing_keys p) = Some (s, cs) \<and>
    in_instances (ap_inst s) = [ex_server p] \<and> slice_at (in_fields (ap_inst s)) fPassword = Some (p, False, True)"
  by (simp add: ex_listing_keys_def app_eval in_refresh_def in_new_def in_spin_def in_loaded_def in_update_key_def
      in_update_list_def in_on_selected_def slice_at_def in_start_form_def build_form_fields_def set_field_def
      form_consts upt_rec ref_ui_def ex_server_def Let_def)

theorem screens_hide_passwords_witness:
  "\<exists>s t :: ref_input app. s \<noteq> t \<and> ap_view ref_pen [] s = ap_view ref_pen [] t \<and> ti_masked ref_ui (''one'', False, True)"
proof -
  obtain s cs where r: "run_view (ap_update ref_ui) (ap_new ref_ui) (ex_listing_keys ''one'') = Some (s, cs)"
    and s: "in_instances (ap_inst s) = [ex_server ''one'']" "slice_at (in_fields (ap_inst s)) fPassword = Some (''one'', False, True)"
    using ex_listing by blast
  let ?t = "s\<lparr>ap_inst := (ap_inst s)\<lparr>in_instances := [ex_server ''two'']\<rparr>\<rparr>"
  have "public_part s = public_part ?t" by (simp add: public_part_def s(1) no_password_def ex_server_def)
  then have same: "same_but_passwords s ?t" by (simp add: same_but_passwords_def)
  have "in_instances (ap_inst s) \<noteq> in_instances (ap_inst ?t)" by (simp add: s(1) ex_server_def ex_instance_def)
  then have "s \<noteq> ?t" by metis
  with screens_hide_passwords [OF ui_ok_ref_ui r, of ref_pen "[]"] same s(2) show ?thesis by blast
qed

definition ex_backup_keys :: "in_msg list" where
  "ex_backup_keys = [InLoaded [ex_server ''one''] None, InKey ''b''] @ map InKey (type_word ''confirmar'') @
     [InLoaded [ex_server ''two''] None]"

theorem dialogue_names_what_it_confirms_witness:
  "\<exists>s ds t. run_view (in_update ref_ui) (in_new ref_ui) ex_backup_keys = Some (s, ds) \<and>
    in_update ref_ui s (InKey ''enter'') = Some (t, [InBackupCmd ''i1'']) \<and>
    in_draw ref_pen s = Some (backup_dialog ref_pen s (ex_server ''two''))"
proof -
  obtain s ds where r: "run_view (in_update ref_ui) (in_new ref_ui) ex_backup_keys = Some (s, ds)"
    and s: "in_mode s = InModeConfirmBackup" "in_instances s = [ex_server ''two'']" "in_selected s = 0"
      "ti_value ref_ui (in_confirm s) = ''confirmar''"
    by (simp add: ex_backup_keys_def in_new_def ref_ui_def in_update_key_def in_update_list_def
        in_update_confirm_backup_def in_loaded_def widget_cmd_def type_word_def Let_def)
  have i: "i_id (ex_server ''two'') = ''i1''" by (simp add: ex_server_def ex_instance_def)
  obtain t where u: "in_update ref_ui s (InKey ''enter'') = Some (t, [InBackupCmd ''i1''])"
    using s i confirms_word by (simp add: in_update_key_def in_update_confirm_backup_def slice_at_def)
  from dialogue_names_what_it_confirms [OF r u, of "''i1''" ref_pen] r s(2) u show ?thesis by simp
qed

text \<open>Eleven backups; the newest has the smallest identifier, and the panel leaves it out.\<close>

definition ex_eleven :: "backup_record list" where
  "ex_eleven = ex_record ''a'' ''a.bak'' BackupTypeFull '''' 1000 #
     map (\<lambda>c. ex_record [c] [c] BackupTypeFull '''' 1) ''bcdefghijk''"

theorem panel_lists_greatest_identifiers_witness:
  "\<exists>is ok. load_dash ref_env (ex_sys [] ex_eleven 2000) = ApDash is ex_eleven ok \<and> hd ex_eleven \<notin> set (recent ex_eleven) \<and>
    (\<forall>r \<in> set (recent ex_eleven). b_started r < b_started (hd ex_eleven)) \<and> length (recent ex_eleven) = 10"
proof -
  have "br_find_all ref_env (ex_sys [] ex_eleven 2000) = Inr ex_eleven" by code_simp
  then obtain "is" ok where l: "load_dash ref_env (ex_sys [] ex_eleven 2000) = ApDash is ex_eleven ok"
    by (simp add: load_dash_def)
  from panel_lists_greatest_identifiers [OF ex_backups_wf l] have "length (recent ex_eleven) = 10" by (simp add: ex_eleven_def)
  moreover have "\<forall>r \<in> set (recent ex_eleven). b_started r < b_started (hd ex_eleven)" by (simp add: ex_eleven_def recent_def)
  ultimately show ?thesis using l by blast
qed

end
