(* ===== verification/Threads.thy ===== *)
theory Threads
  imports Prelude
begin

text \<open>
  Goroutines that share a state. A \<open>thread\<close> is a goroutine cut at its calls of the shared parts
  (database, object store, machine): one action changes the state, and what comes next depends on the state
  the action met. \<open>call\<close> makes an action of any operation of the model; \<open>run\<close> runs a thread alone;
  \<open>pool_step\<close> lets any thread of a list do its next action.

  The locale \<open>rely\<close> is the contract of goroutines that run at the same time: each keeps a relation between
  the states before and after its actions, as long as the others do. A thread is \<open>kept\<close> when every action it
  can come to keeps the relation, whatever the others do in between.
\<close>

section \<open>Threads\<close>

datatype ('w, 'a) thread = Ret 'a | Act "'w \<Rightarrow> 'w" "'w \<Rightarrow> ('w, 'a) thread"

definition call :: "('w \<Rightarrow> 'x \<times> 'w) \<Rightarrow> ('x \<Rightarrow> ('w, 'a) thread) \<Rightarrow> ('w, 'a) thread" where
  "call g k = Act (\<lambda>w. snd (g w)) (\<lambda>w. k (fst (g w)))"

primrec after_that :: "('w, 'a) thread \<Rightarrow> ('a \<Rightarrow> ('w, 'b) thread) \<Rightarrow> ('w, 'b) thread" where
  "after_that (Ret a) f = f a"
| "after_that (Act u k) f = Act u (\<lambda>w. after_that (k w) f)"

primrec run :: "('w, 'a) thread \<Rightarrow> 'w \<Rightarrow> 'a \<times> 'w" where
  "run (Ret a) = (\<lambda>w. (a, w))"
| "run (Act u k) = (\<lambda>w. run (k w) (u w))"

lemma run_call [simp]: "run (call g k) w = (case g w of (x, w1) \<Rightarrow> run (k x) w1)"
  by (simp add: call_def split: prod.split)

lemma run_after_that [simp]: "run (after_that t f) w = (case run t w of (x, w1) \<Rightarrow> run (f x) w1)"
  by (induction t arbitrary: w) simp_all

lemma after_that_call [simp]: "after_that (call g k) f = call g (\<lambda>x. after_that (k x) f)"
  by (simp add: call_def)

text \<open>An action that only reads.\<close>

definition ask :: "('w \<Rightarrow> 'x) \<Rightarrow> ('x \<Rightarrow> ('w, 'a) thread) \<Rightarrow> ('w, 'a) thread" where
  "ask f k = call (\<lambda>w. (f w, w)) k"

lemma run_ask [simp]: "run (ask f k) w = run (k (f w)) w"
  by (simp add: ask_def)

section \<open>Interleaving\<close>

inductive pool_step :: "('w, 'a) thread list \<times> 'w \<Rightarrow> ('w, 'a) thread list \<times> 'w \<Rightarrow> bool" where
  act: "i < length ts \<Longrightarrow> ts ! i = Act u k \<Longrightarrow> pool_step (ts, w) (ts [i := k w], u w)"

text \<open>The same with the order given: the thread that does each action, by its position.\<close>

fun follow :: "nat list \<Rightarrow> ('w, 'a) thread list \<times> 'w \<Rightarrow> ('w, 'a) thread list \<times> 'w" where
  "follow [] c = c"
| "follow (i # is) (ts, w) =
     (if i < length ts then
        (case ts ! i of Ret a \<Rightarrow> follow is (ts, w) | Act u k \<Rightarrow> follow is (ts [i := k w], u w))
      else follow is (ts, w))"

lemma follow_reaches: "pool_step\<^sup>*\<^sup>* c (follow is c)"
proof (induction "is" c rule: follow.induct)
  case (2 i "is" ts w)
  show ?case
  proof (cases "i < length ts \<and> (\<exists>u k. ts ! i = Act u k)")
    case True
    then obtain u k where t: "i < length ts" "ts ! i = Act u k" by blast
    with 2 have "pool_step\<^sup>*\<^sup>* (ts [i := k w], u w) (follow (i # is) (ts, w))" by simp
    with pool_step.act [OF t, of w] show ?thesis by (rule converse_rtranclp_into_rtranclp)
  next
    case False
    then show ?thesis using 2 by (cases "ts ! i") auto
  qed
qed simp

lemma pool_step_length: "pool_step c d \<Longrightarrow> length (fst d) = length (fst c)"
  by (auto elim: pool_step.cases)

section \<open>Keeping a relation\<close>

primrec kept :: "('w \<Rightarrow> 'w \<Rightarrow> bool) \<Rightarrow> ('a \<Rightarrow> 'w \<Rightarrow> bool) \<Rightarrow> ('w, 'a) thread \<Rightarrow> 'w \<Rightarrow> bool" where
  "kept R Q (Ret a) = (\<lambda>w. \<forall>v. R w v \<longrightarrow> Q a v)"
| "kept R Q (Act u k) = (\<lambda>w. \<forall>v. R w v \<longrightarrow> R v (u v) \<and> kept R Q (k v) (u v))"

locale rely =
  fixes R :: "'w \<Rightarrow> 'w \<Rightarrow> bool"
  assumes trans: "R a b \<Longrightarrow> R b c \<Longrightarrow> R a c"
    and same: "R a b \<Longrightarrow> R b b"
begin

lemma kept_later: "kept R Q t w \<Longrightarrow> R w v \<Longrightarrow> kept R Q t v"
  by (cases t) (auto intro: trans)

lemma kept_call:
  "(\<And>v x v'. R w v \<Longrightarrow> g v = (x, v') \<Longrightarrow> R v v' \<and> kept R Q (k x) v') \<Longrightarrow> kept R Q (call g k) w"
  by (simp add: call_def) (metis surjective_pairing)

lemma kept_ask: "(\<And>v. R w v \<Longrightarrow> kept R Q (k (f v)) v) \<Longrightarrow> kept R Q (ask f k) w"
  unfolding ask_def by (rule kept_call) (auto intro: same)

lemma kept_ret: "(\<And>v. R w v \<Longrightarrow> Q a v) \<Longrightarrow> kept R Q (Ret a) w"
  by simp

lemma kept_after_that:
  assumes "kept R P t w" "R u w" "\<And>a v. R u v \<Longrightarrow> P a v \<Longrightarrow> kept R Q (f a) v"
  shows "kept R Q (after_that t f) w"
  using assms(1,2)
proof (induction t arbitrary: w)
  case (Ret a)
  then show ?case using assms(3) same by simp
next
  case (Act x k)
  show ?case
    unfolding after_that.simps kept.simps
  proof (intro allI impI conjI)
    fix v assume v: "R w v"
    with Act.prems have k: "R v (x v)" "kept R P (k v) (x v)" by simp_all
    then have "R u (x v)" using Act.prems(2) v trans by blast
    with k show "R v (x v)" "kept R Q (after_that (k v) f) (x v)"
      using Act.IH [OF rangeI] by simp_all
  qed
qed

lemma kept_weaken: "kept R P t w \<Longrightarrow> (\<And>a v. P a v \<Longrightarrow> Q a v) \<Longrightarrow> kept R Q t w"
  by (induction t arbitrary: w) auto

lemma pool_kept_step:
  assumes "pool_step (ts, w) (us, v)" "\<forall>t \<in> set ts. kept R Q t w" "R w w"
  shows "R w v \<and> (\<forall>t \<in> set us. kept R Q t v)"
  using assms(1)
proof cases
  case (act i u k)
  then have "kept R Q (Act u k) w" using assms(2) by (metis nth_mem)
  with assms(3) have s: "R w (u w)" "kept R Q (k w) (u w)" by simp_all
  have "kept R Q t (u w)" if "t \<in> set (ts [i := k w])" for t
    using that set_update_subset_insert [of ts i "k w"] s assms(2) kept_later by fastforce
  with s act show ?thesis by simp
qed

text \<open>Threads that keep the relation one by one keep it together.\<close>

lemma pool_kept:
  assumes "pool_step\<^sup>*\<^sup>* (ts, w) (us, v)" "\<forall>t \<in> set ts. kept R Q t w" "R w w"
  shows "R w v \<and> (\<forall>t \<in> set us. kept R Q t v)"
  using assms(1)
proof (induction rule: rtranclp_induct2)
  case refl
  then show ?case using assms(2,3) by simp
next
  case (step us1 v1 us2 v2)
  then have i: "R w v1" "\<forall>t \<in> set us1. kept R Q t v1" by simp_all
  from pool_kept_step [OF step(2) i(2) same [OF i(1)]] i(1) show ?case using trans by blast
qed

end

end
