(* ===== verification/Interleaving.thy ===== *)
theory Interleaving
  imports Threads RunBackup
begin

text \<open>
  Retention as it really runs: as a goroutine of the daily job, of the start, or of both at once, next to the
  other goroutines of the program (\<open>internal/scheduler/scheduler.go\<close>, \<open>cmd/main.go\<close>). Between
  any two of its calls of a repository or of the object store, the others may do theirs.

  The operations of \<open>BackupQueryUseCase\<close> are written again as threads, one action per call. Run alone
  they are the functions of Retention (\<open>run_apply_retention\<close>). \<open>evolves\<close> is what every goroutine keeps:
  the lemmas on the threads show that each of their actions does, whatever the others did, as long as these keep it.
\<close>

section \<open>The threads\<close>

text \<open>\<open>deleteOne\<close>. \<open>UpdateStatus\<close> is one transaction of the database.\<close>

definition delete_one_t :: "('d, 's, 'm) env \<Rightarrow> backup_record \<Rightarrow> (('d, 's, 'm) sys, gerr option) thread" where
  "delete_one_t E rec =
     (if b_file_name rec = '''' then call (mark_deleted E rec) Ret
      else ask (s3cfg_get E) (\<lambda>c. case c of
             Inl _ \<Rightarrow> call (mark_deleted E rec) Ret
           | Inr cfg \<Rightarrow> call (s3_new E cfg) (\<lambda>r. case r of
               Inl _ \<Rightarrow> call (mark_deleted E rec) Ret
             | Inr a \<Rightarrow> call (s3_delete E a (b_file_name rec)) (\<lambda>x. case x of
                 Some e \<Rightarrow> Ret (Some (WrapErr ''eliminar objeto S3: '' e ''''))
               | None \<Rightarrow> call (mark_deleted E rec) Ret))))"

fun delete_children_t :: "('d, 's, 'm) env \<Rightarrow> string \<Rightarrow> backup_record list \<Rightarrow>
    (('d, 's, 'm) sys, gerr option) thread" where
  "delete_children_t E rid [] = Ret None"
| "delete_children_t E rid (c # cs) =
     (if b_parent c = rid then
        after_that (delete_one_t E c) (\<lambda>x. case x of
          Some e \<Rightarrow> Ret (Some (WrapErr (''eliminar log '' @ b_id c @ '' en cascada: '') e ''''))
        | None \<Rightarrow> delete_children_t E rid cs)
      else delete_children_t E rid cs)"

definition delete_backup_t :: "('d, 's, 'm) env \<Rightarrow> string \<Rightarrow> (('d, 's, 'm) sys, gerr option) thread" where
  "delete_backup_t E rid =
     ask (br_find_by_id E rid) (\<lambda>r. case r of
       Inl e \<Rightarrow> Ret (Some e)
     | Inr rec \<Rightarrow>
         if is_full rec then
           ask (br_find_all E) (\<lambda>rs. case rs of
             Inl e \<Rightarrow> Ret (Some (WrapErr ''listar respaldos para cascada: '' e ''''))
           | Inr rs \<Rightarrow> after_that (delete_children_t E rid rs) (\<lambda>x. case x of
               Some e \<Rightarrow> Ret (Some e)
             | None \<Rightarrow> delete_one_t E rec))
         else delete_one_t E rec)"

fun count_verified_t :: "('d, 's, 'm) env \<Rightarrow> s3_adapter \<Rightarrow> string \<Rightarrow> string list \<Rightarrow> backup_record list \<Rightarrow>
    (('d, 's, 'm) sys, nat) thread" where
  "count_verified_t E a cand deleted [] = Ret 0"
| "count_verified_t E a cand deleted (f # fs) =
     (if b_id f = cand \<or> b_id f \<in> set deleted then count_verified_t E a cand deleted fs
      else call (exists_in_s3 E a (b_file_name f)) (\<lambda>ok.
             after_that (count_verified_t E a cand deleted fs) (\<lambda>n. Ret (if ok then Suc n else n))))"

fun sweep_group_t :: "('d, 's, 'm) env \<Rightarrow> s3_adapter \<Rightarrow> time \<Rightarrow> backup_record list \<Rightarrow> backup_record list \<Rightarrow>
    string list \<Rightarrow> nat \<Rightarrow> (('d, 's, 'm) sys, nat \<times> gerr option) thread" where
  "sweep_group_t E a cutoff fulls [] deleted n = Ret (n, None)"
| "sweep_group_t E a cutoff fulls (c # cs) deleted n =
     (if \<not> b_started c < cutoff then Ret (n, None)
      else after_that (count_verified_t E a (b_id c) deleted fulls) (\<lambda>v.
        if v < MinVerifiedFullBackups then Ret (n, None)
        else after_that (delete_backup_t E (b_id c)) (\<lambda>x. case x of
          Some e \<Rightarrow> Ret (n, Some e)
        | None \<Rightarrow> sweep_group_t E a cutoff fulls cs (b_id c # deleted) (Suc n))))"

definition retain_days_t :: "('d, 's, 'm) env \<Rightarrow> string \<Rightarrow> (int \<Rightarrow> (('d, 's, 'm) sys, 'a) thread) \<Rightarrow>
    (('d, 's, 'm) sys, 'a) thread" where
  "retain_days_t E iid k =
     ask (pol_find_by_instance E iid) (\<lambda>r. case r of
       Inr p \<Rightarrow> k (p_retain_days p)
     | Inl _ \<Rightarrow> ask (pol_find_global E) (\<lambda>g. case g of
         Inr g \<Rightarrow> k (p_retain_days g)
       | Inl _ \<Rightarrow> k (p_retain_days default_retention_policy)))"

fun sweep_groups_t :: "('d, 's, 'm) env \<Rightarrow> s3_adapter \<Rightarrow> backup_record list \<Rightarrow> (string \<times> string) list \<Rightarrow>
    nat \<Rightarrow> gerr option \<Rightarrow> (('d, 's, 'm) sys, nat \<times> gerr option) thread" where
  "sweep_groups_t E a rs [] n err = Ret (n, err)"
| "sweep_groups_t E a rs (k # ks) n err =
     (let fulls = sort_slice E b_started (group_of rs k) in
      retain_days_t E (fst k) (\<lambda>days. call (now E) (\<lambda>t.
        after_that (sweep_group_t E a (add_days t (- days)) fulls fulls [] 0) (\<lambda>x. case x of
          (m, e) \<Rightarrow> sweep_groups_t E a rs ks (n + m) (if err = None then e else err)))))"

definition apply_sqlserver_retention_t :: "('d, 's, 'm) env \<Rightarrow> (('d, 's, 'm) sys, nat \<times> gerr option) thread" where
  "apply_sqlserver_retention_t E =
     ask (br_find_all E) (\<lambda>rs. case rs of
       Inl e \<Rightarrow> Ret (0, Some e)
     | Inr rs \<Rightarrow> ask (s3cfg_get E) (\<lambda>c. case c of
         Inl e \<Rightarrow> Ret (0, Some (WrapErr ''config S3: '' e ''''))
       | Inr cfg \<Rightarrow> call (s3_new E cfg) (\<lambda>r. case r of
           Inl e \<Rightarrow> Ret (0, Some (WrapErr ''conectar S3: '' e ''''))
         | Inr a \<Rightarrow> ask (\<lambda>w. map_range E (os w) (group_keys rs)) (\<lambda>ks. sweep_groups_t E a rs ks 0 None))))"

fun expire_all_t :: "('d, 's, 'm) env \<Rightarrow> backup_record list \<Rightarrow> nat \<Rightarrow> (('d, 's, 'm) sys, nat) thread" where
  "expire_all_t E [] n = Ret n"
| "expire_all_t E (r # rs) n =
     (if b_engine r = EngineSQLServer then expire_all_t E rs n
      else after_that (delete_backup_t E (b_id r)) (\<lambda>e. expire_all_t E rs (if e = None then Suc n else n)))"

definition apply_retention_t :: "('d, 's, 'm) env \<Rightarrow> (('d, 's, 'm) sys, nat \<times> gerr option) thread" where
  "apply_retention_t E =
     call (now E) (\<lambda>t. ask (\<lambda>w. store_filter (is_expired_at t) (br_find_all E w)) (\<lambda>r. case r of
       Inl e \<Rightarrow> Ret (0, Some e)
     | Inr rs \<Rightarrow> after_that (expire_all_t E rs 0) (\<lambda>n.
         after_that (apply_sqlserver_retention_t E) (\<lambda>x. case x of (m, e) \<Rightarrow> Ret (n + m, e)))))"

section \<open>Run alone, they are the functions\<close>

lemma run_delete_one: "run (delete_one_t E rec) w = delete_one E rec w"
  by (simp add: delete_one_t_def delete_one_def split: sum.split option.split prod.split)

lemma run_delete_children: "run (delete_children_t E rid cs) w = delete_children E rid cs w"
  by (induction cs arbitrary: w) (simp_all add: run_delete_one split: prod.split option.split)

lemma run_delete_backup: "run (delete_backup_t E rid) w = delete_backup E rid w"
  by (simp add: delete_backup_t_def delete_backup_def run_delete_children run_delete_one
      split: sum.split prod.split option.split)

lemma run_count_verified:
  "run (count_verified_t E a cand deleted fs) w = count_verified E a cand deleted fs w"
  by (induction fs arbitrary: w) (simp_all split: prod.split)

lemma run_sweep_group:
  "run (sweep_group_t E a cutoff fulls cs deleted n) w = sweep_group E a cutoff fulls cs deleted n w"
  by (induction cs arbitrary: w deleted n)
    (simp_all add: run_count_verified run_delete_backup split: prod.split option.split)

lemma run_retain_days: "run (retain_days_t E iid k) w = run (k (retain_days_for E iid w)) w"
  by (simp add: retain_days_t_def retain_days_for_def split: sum.split)

lemma run_sweep_groups: "run (sweep_groups_t E a rs ks n err) w = sweep_groups E a rs ks n err w"
  by (induction ks arbitrary: w n err)
    (simp_all add: run_retain_days run_sweep_group Let_def split: prod.split)

lemma run_apply_sqlserver: "run (apply_sqlserver_retention_t E) w = apply_sqlserver_retention E w"
  by (simp add: apply_sqlserver_retention_t_def apply_sqlserver_retention_def run_sweep_groups
      split: sum.split prod.split)

lemma run_expire_all: "run (expire_all_t E rs n) w = expire_all E rs n w"
  by (induction rs arbitrary: w n) (simp_all add: run_delete_backup split: prod.split)

section \<open>What every goroutine keeps\<close>

text \<open>
  A full of SQL Server that has its name; and \<open>calm\<close>: the records are well formed, the configuration is cfg, the
  sweep is ready, no key extends the name of such a full, and no two completed fulls of a database started at
  the same moment.
\<close>

definition anchored :: "backup_record \<Rightarrow> bool" where
  "anchored r \<longleftrightarrow> b_engine r = EngineSQLServer \<and> is_full r \<and> b_file_name r \<noteq> ''''"

definition only_itself :: "('d, 's, 'm) env \<Rightarrow> s3_config \<Rightarrow> ('d, 's, 'm) sys \<Rightarrow> string \<Rightarrow> bool" where
  "only_itself E cfg w f \<longleftrightarrow> (\<forall>x. s3_view E (adapter_of cfg) w x \<noteq> None \<longrightarrow> has_prefix x f \<longrightarrow> x = f)"

definition calm :: "('d, 's, 'm) env \<Rightarrow> s3_config \<Rightarrow> ('d, 's, 'm) sys \<Rightarrow> bool" where
  "calm E cfg w \<longleftrightarrow> backups_wf E w \<and> s3cfg_get E w = Inr cfg \<and> sweep_ready E cfg w \<and>
     (\<forall>i r. backup_view E w i = Some r \<longrightarrow> anchored r \<longrightarrow> only_itself E cfg w (b_file_name r)) \<and>
     (\<forall>k. \<forall>r \<in> completed_fulls E w k. \<forall>q \<in> completed_fulls E w k. b_started r = b_started q \<longrightarrow> r = q)"

text \<open>The restorable fulls of a database that started after t.\<close>

definition newer :: "('d, 's, 'm) env \<Rightarrow> s3_config \<Rightarrow> ('d, 's, 'm) sys \<Rightarrow> string \<times> string \<Rightarrow> time \<Rightarrow>
    backup_record set" where
  "newer E cfg w k t = {r \<in> restorable_fulls E cfg w k. t < b_started r}"

text \<open>The later version of a record: an update changes its status, its end, its size, and gives it its name.\<close>

definition later_version :: "backup_record \<Rightarrow> backup_record \<Rightarrow> bool" where
  "later_version q r \<longleftrightarrow> same_origin q r \<and> b_started q = b_started r \<and>
     (b_file_name r \<noteq> '''' \<longrightarrow> b_file_name q = b_file_name r)"

definition evolves :: "('d, 's, 'm) env \<Rightarrow> s3_config \<Rightarrow> ('d, 's, 'm) sys \<Rightarrow> ('d, 's, 'm) sys \<Rightarrow> bool" where
  "evolves E cfg w v \<longleftrightarrow> calm E cfg w \<and> calm E cfg v \<and>
     (\<forall>i r. backup_view E w i = Some r \<longrightarrow> (\<exists>q. backup_view E v i = Some q \<and> later_version q r \<and>
        (anchored r \<longrightarrow> s3_view E (adapter_of cfg) w (b_file_name r) = None \<longrightarrow>
           s3_view E (adapter_of cfg) v (b_file_name r) = None))) \<and>
     (\<forall>k. \<forall>r \<in> completed_fulls E w k. r \<in> completed_fulls E v k \<or>
        s3_view E (adapter_of cfg) v (b_file_name r) = None) \<and>
     (\<forall>k t. newer E cfg w k t \<subseteq> newer E cfg v k t \<or> MinVerifiedFullBackups \<le> card (newer E cfg v k t))"

lemma calmD:
  assumes "calm E cfg w"
  shows "backups_wf E w" "s3cfg_get E w = Inr cfg" "sweep_ready E cfg w"
    and "r \<in> completed_fulls E w k \<Longrightarrow> q \<in> completed_fulls E w k \<Longrightarrow> b_started r = b_started q \<Longrightarrow> r = q"
    and "backup_view E w i = Some r \<Longrightarrow> anchored r \<Longrightarrow> only_itself E cfg w (b_file_name r)"
  using assms unfolding calm_def by (blast, blast, blast, metis, blast)

lemma evolvesD:
  assumes "evolves E cfg w v"
  shows "calm E cfg w" "calm E cfg v"
    and "backup_view E w i = Some r \<Longrightarrow> \<exists>q. backup_view E v i = Some q \<and> later_version q r"
    and "backup_view E w i = Some r \<Longrightarrow> anchored r \<Longrightarrow> s3_view E (adapter_of cfg) w (b_file_name r) = None \<Longrightarrow>
      s3_view E (adapter_of cfg) v (b_file_name r) = None"
    and "r \<in> completed_fulls E w k \<Longrightarrow>
      r \<in> completed_fulls E v k \<or> s3_view E (adapter_of cfg) v (b_file_name r) = None"
    and "newer E cfg w k t \<subseteq> newer E cfg v k t \<or> MinVerifiedFullBackups \<le> card (newer E cfg v k t)"
  using assms unfolding evolves_def by (blast, blast, blast, blast, metis, metis)

lemma later_version_refl [simp]: "later_version r r"
  by (simp add: later_version_def)

lemma later_version_trans: "later_version q r \<Longrightarrow> later_version p q \<Longrightarrow> later_version p r"
  by (auto simp: later_version_def same_origin_def)

lemma later_version_full: "later_version q r \<Longrightarrow> is_full q = is_full r \<and> b_engine q = b_engine r \<and>
    group_key q = group_key r \<and> b_id q = b_id r \<and> b_parent q = b_parent r \<and> b_started q = b_started r"
  by (auto simp: later_version_def same_origin_def is_full_def group_key_def)

lemma later_version_anchored: "later_version q r \<Longrightarrow> anchored r \<Longrightarrow> anchored q \<and> b_file_name q = b_file_name r"
  using later_version_full [of q r] by (auto simp: anchored_def later_version_def)

lemma completed_anchored:
  assumes "calm E cfg w" "r \<in> completed_fulls E w k"
  shows "anchored r" "backup_view E w (b_id r) = Some r" "group_key r = k" "sweepable r"
proof -
  show v: "backup_view E w (b_id r) = Some r" "group_key r = k" "sweepable r"
    using assms(2) by (simp_all add: completed_fulls_def)
  from sweep_readyD(1) [OF calmD(3) [OF assms(1)] v(1,3)] v(3) show "anchored r"
    by (simp add: anchored_def sweepable_def)
qed

lemma finite_newer: "calm E cfg w \<Longrightarrow> finite (newer E cfg w k t)"
  by (rule finite_subset [OF _ finite_restorable [OF calmD(1)]]) (auto simp: newer_def)

text \<open>The two that are newer stay two.\<close>

lemma two_stay:
  assumes "evolves E cfg w v" "MinVerifiedFullBackups \<le> card (newer E cfg w k t)"
  shows "MinVerifiedFullBackups \<le> card (newer E cfg v k t)"
  using evolvesD(6) [OF assms(1), of k t]
proof
  assume "newer E cfg w k t \<subseteq> newer E cfg v k t"
  from card_mono [OF finite_newer [OF evolvesD(2) [OF assms(1)]] this] assms(2) show ?thesis by simp
qed

lemma evolves_trans:
  assumes a: "evolves E cfg u w" and b: "evolves E cfg w v"
  shows "evolves E cfg u v"
  unfolding evolves_def
proof (intro conjI allI impI ballI)
  show "calm E cfg u" "calm E cfg v" using evolvesD(1) [OF a] evolvesD(2) [OF b] by simp_all
next
  fix i r assume r: "backup_view E u i = Some r"
  from evolvesD(3) [OF a r] obtain q where q: "backup_view E w i = Some q" "later_version q r" by blast
  from evolvesD(3) [OF b q(1)] obtain p where p: "backup_view E v i = Some p" "later_version p q" by blast
  have g: "s3_view E (adapter_of cfg) v (b_file_name r) = None"
    if "anchored r" "s3_view E (adapter_of cfg) u (b_file_name r) = None"
  proof -
    from later_version_anchored [OF q(2) that(1)] have q': "anchored q" "b_file_name q = b_file_name r" by simp_all
    from evolvesD(4) [OF b q(1) q'(1)] evolvesD(4) [OF a r that] show ?thesis by (simp add: q'(2))
  qed
  show "\<exists>q. backup_view E v i = Some q \<and> later_version q r \<and>
      (anchored r \<longrightarrow> s3_view E (adapter_of cfg) u (b_file_name r) = None \<longrightarrow>
         s3_view E (adapter_of cfg) v (b_file_name r) = None)"
    by (intro exI [of _ p] conjI impI p(1) later_version_trans [OF q(2) p(2)] g)
next
  fix k r assume r: "r \<in> completed_fulls E u k"
  note c = completed_anchored [OF evolvesD(1) [OF a] r]
  from evolvesD(5) [OF a r]
  show "r \<in> completed_fulls E v k \<or> s3_view E (adapter_of cfg) v (b_file_name r) = None"
  proof
    assume "r \<in> completed_fulls E w k"
    then show ?thesis by (rule evolvesD(5) [OF b])
  next
    assume n: "s3_view E (adapter_of cfg) w (b_file_name r) = None"
    from evolvesD(3) [OF a c(2)] obtain q where q: "backup_view E w (b_id r) = Some q" "later_version q r" by blast
    from later_version_anchored [OF q(2) c(1)] have q': "anchored q" "b_file_name q = b_file_name r" by simp_all
    from evolvesD(4) [OF b q(1) q'(1)] n show ?thesis by (simp add: q'(2))
  qed
next
  fix k t
  from evolvesD(6) [OF a, of k t] evolvesD(6) [OF b, of k t] two_stay [OF b, of k t]
  show "newer E cfg u k t \<subseteq> newer E cfg v k t \<or> MinVerifiedFullBackups \<le> card (newer E cfg v k t)" by blast
qed

lemma evolves_same: "evolves E cfg w v \<Longrightarrow> evolves E cfg v v"
  using evolvesD(2) [of E cfg w v] by (auto simp: evolves_def)

lemma evolves_refl: "calm E cfg w \<Longrightarrow> evolves E cfg w w"
  by (auto simp: evolves_def)

interpretation goroutines: rely "evolves E cfg" for E :: "('d, 's, 'm) env" and cfg
  by unfold_locales (auto intro: evolves_trans dest: evolves_same)

section \<open>Single actions\<close>

lemma seen_same:
  assumes "db v = db w"
  shows "backup_view E v = backup_view E w" "completed_fulls E v k = completed_fulls E w k"
    "backups_wf E v = backups_wf E w" "s3cfg_get E v = s3cfg_get E w"
  using view_eq_db [OF assms, of E] wf_eq_db [OF assms, of E]
  by (simp_all add: completed_fulls_def s3cfg_get_def store_get_def assms)

lemma calm_objects:
  assumes "calm E cfg w" "db v = db w"
    and k: "\<And>i r. backup_view E w i = Some r \<Longrightarrow> anchored r \<Longrightarrow> only_itself E cfg v (b_file_name r)"
  shows "calm E cfg v"
proof -
  have r: "sweep_ready E cfg v"
    unfolding sweep_ready_def seen_same(1) [OF assms(2)]
  proof (intro conjI allI impI)
    fix i r assume i: "backup_view E w i = Some r"
    show "i \<noteq> ''''" "is_full r \<Longrightarrow> b_parent r = ''''"
      using i calmD(3) [OF assms(1)] by (auto simp: sweep_ready_def)
    assume s: "sweepable r"
    note d = sweep_readyD [OF calmD(3) [OF assms(1)] i s]
    show "b_file_name r \<noteq> ''''" by (rule d(1))
    show "j = i" if "backup_view E w j = Some q" "b_file_name q = b_file_name r" for j q
      using d(2) that by blast
    have "anchored r" using s d(1) by (simp add: anchored_def sweepable_def)
    from k [OF i this]
    show "x = b_file_name r" if "s3_view E (adapter_of cfg) v x \<noteq> None" "has_prefix x (b_file_name r)" for x
      using that unfolding only_itself_def by blast
  qed
  show ?thesis
    unfolding calm_def seen_same [OF assms(2)]
    by (intro conjI r calmD(1,2) [OF assms(1)] allI ballI impI) (erule (1) k, rule calmD(4) [OF assms(1)])
qed

text \<open>An action after which the store holds no object it did not hold.\<close>

lemma calm_fewer:
  assumes "calm E cfg w" "db v = db w"
    and "\<And>k. s3_view E (adapter_of cfg) v k \<noteq> None \<Longrightarrow> s3_view E (adapter_of cfg) w k \<noteq> None"
  shows "calm E cfg v"
  by (rule calm_objects [OF assms(1,2)])
    (use calmD(5) [OF assms(1)] assms(3) in \<open>unfold only_itself_def, blast\<close>)

text \<open>Taking away an object that belongs to no completed full, or to one that has two newer ones.\<close>

lemma evolves_remove:
  assumes c: "calm E cfg w" and d: "db v = db w"
    and o: "\<And>x. x \<noteq> f \<Longrightarrow> s3_view E (adapter_of cfg) v x = s3_view E (adapter_of cfg) w x"
    and n: "s3_view E (adapter_of cfg) v f = None \<or>
      s3_view E (adapter_of cfg) v f = s3_view E (adapter_of cfg) w f"
    and own: "\<And>k r. r \<in> completed_fulls E w k \<Longrightarrow> b_file_name r = f \<Longrightarrow>
      s3_view E (adapter_of cfg) v f = s3_view E (adapter_of cfg) w f \<or>
      MinVerifiedFullBackups \<le> card (newer E cfg w k (b_started r))"
  shows "evolves E cfg w v"
proof -
  let ?S = "s3_view E (adapter_of cfg)"
  have fewer: "?S w x \<noteq> None" if "?S v x \<noteq> None" for x
    using o [of x] n that by (cases "x = f") auto
  have cv: "calm E cfg v" by (rule calm_fewer [OF c d fewer])
  have rest: "r \<in> restorable_fulls E cfg v k"
    if "r \<in> restorable_fulls E cfg w k" "b_file_name r \<noteq> f \<or> ?S v f = ?S w f" for r k
    using that o [of "b_file_name r"] seen_same(2) [OF d]
    by (cases "b_file_name r = f") (auto simp: restorable_fulls_def)
  have new: "newer E cfg w k t \<subseteq> newer E cfg v k t \<or> MinVerifiedFullBackups \<le> card (newer E cfg v k t)" for k t
  proof (cases "newer E cfg w k t \<subseteq> newer E cfg v k t")
    case False
    then obtain r where r: "r \<in> newer E cfg w k t" "r \<notin> newer E cfg v k t" by blast
    then have rr: "r \<in> restorable_fulls E cfg w k" "t < b_started r" by (simp_all add: newer_def)
    with r(2) have "r \<notin> restorable_fulls E cfg v k" by (simp add: newer_def)
    with rest [OF rr(1)] have f: "b_file_name r = f" "?S v f \<noteq> ?S w f" by blast+
    have rc: "r \<in> completed_fulls E w k" using rr by (simp add: restorable_fulls_def)
    have two: "MinVerifiedFullBackups \<le> card (newer E cfg w k (b_started r))"
      using own [OF rc f(1)] f(2) by blast
    have "q \<in> newer E cfg v k t" if q: "q \<in> newer E cfg w k (b_started r)" for q
    proof -
      have qr: "q \<in> restorable_fulls E cfg w k" "b_started r < b_started q" using q by (simp_all add: newer_def)
      then have qc: "q \<in> completed_fulls E w k" by (simp add: restorable_fulls_def)
      have "b_file_name q \<noteq> f"
      proof
        assume e: "b_file_name q = f"
        note r1 = completed_anchored [OF c rc] and q1 = completed_anchored [OF c qc]
        have "b_id q = b_id r"
          by (rule sweep_readyD(2) [OF calmD(3) [OF c] r1(2,4) q1(2)]) (simp add: e f(1))
        with r1(2) q1(2) qr(2) show False by simp
      qed
      with rest [OF qr(1)] qr(2) rr(2) show ?thesis by (simp add: newer_def)
    qed
    then have "newer E cfg w k (b_started r) \<subseteq> newer E cfg v k t" by blast
    from card_mono [OF finite_newer [OF cv] this] two show ?thesis by simp
  qed simp
  show ?thesis
    unfolding evolves_def
  proof (intro conjI c cv allI impI ballI new)
    show "\<exists>q. backup_view E v i = Some q \<and> later_version q r \<and>
        (anchored r \<longrightarrow> ?S w (b_file_name r) = None \<longrightarrow> ?S v (b_file_name r) = None)"
      if "backup_view E w i = Some r" for i r
      using that fewer [of "b_file_name r"] seen_same(1) [OF d, of E]
      by (intro exI [of _ r]) (cases "?S v (b_file_name r)", auto)
    show "r \<in> completed_fulls E v k \<or> ?S v (b_file_name r) = None" if "r \<in> completed_fulls E w k" for k r
      using that seen_same(2) [OF d] by simp
  qed
qed

lemma evolves_quiet:
  assumes "calm E cfg w" "db v = db w" "s3_view E (adapter_of cfg) v = s3_view E (adapter_of cfg) w"
  shows "evolves E cfg w v"
  by (rule evolves_remove [OF assms(1,2), where f = "''''"]) (simp_all add: assms(3))

text \<open>Marking a record expired, when it is no completed full or its object is gone.\<close>

lemma evolves_mark:
  assumes c: "calm E cfg w" and m: "mark_deleted E x w = (e, v)" and r: "backup_view E w (b_id x) = Some r"
    and g: "sweepable r \<Longrightarrow> s3_view E (adapter_of cfg) w (b_file_name r) = None"
  shows "evolves E cfg w v"
proof -
  let ?S = "s3_view E (adapter_of cfg)"
  note ef = mark_deleted_effect [OF calmD(1) [OF c] m r]
  have view: "backup_view E v = backup_view E w \<or> backup_view E v = (backup_view E w)(b_id x \<mapsto> expired_copy r)"
    and s: "?S v = ?S w" using ef view_eq_s3 [of v w E] by (simp_all split: if_splits)
  have sh: "shrinks E cfg {b_id x} w v"
    unfolding shrinks_def using ef view r s by auto
  have idr: "b_id r = b_id x" by (rule backups.view_key [OF calmD(1) [OF c] r])
  have gone: "q \<in> completed_fulls E v k \<or> q = r \<and> ?S w (b_file_name q) = None"
    if "q \<in> completed_fulls E w k" for q k
  proof (cases "b_id q = b_id x")
    case True
    with that r have "q = r" by (simp add: completed_fulls_def)
    with that g show ?thesis by (auto simp: completed_fulls_def)
  next
    case False
    with that view show ?thesis by (auto simp: completed_fulls_def)
  qed
  have cv: "calm E cfg v"
    unfolding calm_def shrinks_s3cfg [OF sh]
  proof (intro conjI shrinks_wf [OF sh] sweep_ready_shrinks [OF calmD(3) [OF c] sh] calmD(2) [OF c] allI ballI impI)
    fix i p assume p: "backup_view E v i = Some p" "anchored p"
    from shrinks_back [OF sh p(1)] obtain q where q: "backup_view E w i = Some q" "p = q \<or> p = expired_copy q" by auto
    then have "anchored q" "b_file_name p = b_file_name q" using p(2) by (auto simp: anchored_def)
    with calmD(5) [OF c q(1)] s show "only_itself E cfg v (b_file_name p)" by (simp add: only_itself_def)
  qed (rule calmD(4) [OF c completed_shrinks [OF sh, THEN subsetD] completed_shrinks [OF sh, THEN subsetD]])
  show ?thesis
    unfolding evolves_def
  proof (intro conjI c cv allI impI ballI)
    show "\<exists>q. backup_view E v i = Some q \<and> later_version q p \<and>
        (anchored p \<longrightarrow> ?S w (b_file_name p) = None \<longrightarrow> ?S v (b_file_name p) = None)"
      if "backup_view E w i = Some p" for i p
      using that view r s
      by (cases "backup_view E v i = Some p")
        (auto simp: later_version_def same_origin_def expired_copy_def with_status_def split: if_splits)
    show "q \<in> completed_fulls E v k \<or> ?S v (b_file_name q) = None" if "q \<in> completed_fulls E w k" for k q
      using gone [OF that] s by auto
    show "newer E cfg w k t \<subseteq> newer E cfg v k t \<or> MinVerifiedFullBackups \<le> card (newer E cfg v k t)" for k t
      using gone [of _ k] s by (fastforce simp: newer_def restorable_fulls_def)
  qed
qed

section \<open>The deletion of a record\<close>

text \<open>
  A record read before: it may have changed since, as every goroutine lets it. It may be deleted when it is no
  full of SQL Server, or when two newer ones are restorable.
\<close>

definition read_before :: "('d, 's, 'm) env \<Rightarrow> s3_config \<Rightarrow> backup_record \<Rightarrow> ('d, 's, 'm) sys \<Rightarrow> bool" where
  "read_before E cfg c w \<longleftrightarrow> (\<exists>u. evolves E cfg u w \<and> backup_view E u (b_id c) = Some c)"

definition may_go :: "('d, 's, 'm) env \<Rightarrow> s3_config \<Rightarrow> backup_record \<Rightarrow> ('d, 's, 'm) sys \<Rightarrow> bool" where
  "may_go E cfg c w \<longleftrightarrow> (b_engine c = EngineSQLServer \<longrightarrow> is_full c \<longrightarrow>
     b_file_name c \<noteq> '''' \<and> MinVerifiedFullBackups \<le> card (newer E cfg w (group_key c) (b_started c)))"

definition object_gone :: "('d, 's, 'm) env \<Rightarrow> s3_config \<Rightarrow> backup_record \<Rightarrow> ('d, 's, 'm) sys \<Rightarrow> bool" where
  "object_gone E cfg c w \<longleftrightarrow> (anchored c \<longrightarrow> s3_view E (adapter_of cfg) w (b_file_name c) = None)"

lemma read_before_later: "read_before E cfg c w \<Longrightarrow> evolves E cfg w v \<Longrightarrow> read_before E cfg c v"
  unfolding read_before_def using evolves_trans by blast

lemma may_go_later: "may_go E cfg c w \<Longrightarrow> evolves E cfg w v \<Longrightarrow> may_go E cfg c v"
  unfolding may_go_def using two_stay by blast

lemma read_before_now:
  assumes "read_before E cfg c w"
  shows "\<exists>r. backup_view E w (b_id c) = Some r \<and> later_version r c"
  using assms evolvesD(3) unfolding read_before_def by blast

lemma object_gone_later:
  assumes "object_gone E cfg c w" "read_before E cfg c w" "evolves E cfg w v"
  shows "object_gone E cfg c v"
  unfolding object_gone_def
proof
  assume a: "anchored c"
  from read_before_now [OF assms(2)] obtain r where
    r: "backup_view E w (b_id c) = Some r" "later_version r c" by blast
  from later_version_anchored [OF r(2) a] have r': "anchored r" "b_file_name r = b_file_name c" by simp_all
  from evolvesD(4) [OF assms(3) r(1) r'(1)] assms(1) a
  show "s3_view E (adapter_of cfg) v (b_file_name c) = None" by (simp add: r'(2) object_gone_def)
qed

text \<open>A record that is a full of SQL Server now was one when it was read.\<close>

lemma mark_keeps:
  assumes c: "calm E cfg w" and rb: "read_before E cfg c w" and g: "may_go E cfg c w" "object_gone E cfg c w"
    and m: "mark_deleted E c w = (e, v)"
  shows "evolves E cfg w v"
proof -
  from read_before_now [OF rb] obtain r where
    r: "backup_view E w (b_id c) = Some r" "later_version r c" by blast
  show ?thesis
  proof (rule evolves_mark [OF c m r(1)])
    assume "sweepable r"
    then have "b_engine c = EngineSQLServer" "is_full c"
      using later_version_full [OF r(2)] by (simp_all add: sweepable_def)
    with g(1) have "anchored c" by (simp add: may_go_def anchored_def)
    with g(2) later_version_anchored [OF r(2)] show "s3_view E (adapter_of cfg) w (b_file_name r) = None"
      by (simp add: object_gone_def)
  qed
qed

lemma remove_keeps:
  assumes aws: "aws_ok E" and c: "calm E cfg w" and rb: "read_before E cfg c w" and g: "may_go E cfg c w"
    and n: "b_file_name c \<noteq> ''''" and d: "s3_delete E (adapter_of cfg) (b_file_name c) w = (e, v)"
  shows "evolves E cfg w v" and "e = None \<Longrightarrow> object_gone E cfg c v"
proof -
  note fr = s3_ops_frame(3) [OF d] and rl = storage.remove_law [OF aws d]
  from read_before_now [OF rb] obtain r where
    r: "backup_view E w (b_id c) = Some r" "later_version r c" by blast
  have rn: "b_file_name r = b_file_name c" using r(2) n by (simp add: later_version_def)
  show "e = None \<Longrightarrow> object_gone E cfg c v" using rl by (auto simp: object_gone_def)
  show "evolves E cfg w v"
  proof (rule evolves_remove [OF c, where f = "b_file_name c"])
    show "db v = db w" using fr by simp
    show "s3_view E (adapter_of cfg) v x = s3_view E (adapter_of cfg) w x" if "x \<noteq> b_file_name c" for x
      using rl that by auto
    show "s3_view E (adapter_of cfg) v (b_file_name c) = None \<or>
        s3_view E (adapter_of cfg) v (b_file_name c) = s3_view E (adapter_of cfg) w (b_file_name c)"
      using rl by auto
    fix k q assume q: "q \<in> completed_fulls E w k" "b_file_name q = b_file_name c"
    note qq = completed_anchored [OF c q(1)]
    have "b_id c = b_id q"
      by (rule sweep_readyD(2) [OF calmD(3) [OF c] qq(2,4) r(1)]) (simp add: rn q(2))
    with r(1) qq(2) have "q = r" by simp
    with qq later_version_full [OF r(2)] g
    have "MinVerifiedFullBackups \<le> card (newer E cfg w k (b_started q))"
      by (simp add: may_go_def anchored_def)
    then show "s3_view E (adapter_of cfg) v (b_file_name c) = s3_view E (adapter_of cfg) w (b_file_name c) \<or>
        MinVerifiedFullBackups \<le> card (newer E cfg w k (b_started q))" ..
  qed
qed

section \<open>The threads keep it\<close>

text \<open>The calls that change nothing the goroutines care for.\<close>

lemma new_keeps:
  assumes "aws_ok E" "calm E cfg w" "s3_new E cfg w = (r, v)"
  shows "evolves E cfg w v"
  by (rule evolves_quiet [OF assms(2) s3_new_frame(1) [OF assms(3)] s3_new_view [OF assms(1,3)]])

lemma now_keeps: "calm E cfg w \<Longrightarrow> now E w = (t, v) \<Longrightarrow> evolves E cfg w v"
  using evolves_quiet [of E cfg w v] now_frame [of E w t v] view_eq_s3 [of v w E] by simp

lemma exists_keeps:
  assumes "aws_ok E" "calm E cfg w" "exists_in_s3 E (adapter_of cfg) key w = (b, v)"
  shows "evolves E cfg w v"
  using evolves_quiet [OF assms(2)] exists_in_s3_sound(1) [OF assms(1,3)] by simp

lemma mark_kept:
  assumes "evolves E cfg w w" "read_before E cfg c w" "may_go E cfg c w" "object_gone E cfg c w"
  shows "kept (evolves E cfg) (\<lambda>_ _. True) (call (mark_deleted E c) Ret) w"
proof (rule goroutines.kept_call)
  fix v e v' assume v: "evolves E cfg w v" and m: "mark_deleted E c v = (e, v')"
  have "evolves E cfg v v'"
    by (rule mark_keeps [OF evolvesD(2) [OF v] read_before_later [OF assms(2) v] may_go_later [OF assms(3) v]
          object_gone_later [OF assms(4,2) v] m])
  then show "evolves E cfg v v' \<and> kept (evolves E cfg) (\<lambda>_ _. True) (Ret e) v'" by simp
qed

lemma delete_one_kept:
  assumes aws: "aws_ok E" and op: "storage_opens E cfg"
    and c: "evolves E cfg w w" "read_before E cfg c w" "may_go E cfg c w"
  shows "kept (evolves E cfg) (\<lambda>_ _. True) (delete_one_t E c) w"
proof (cases "b_file_name c = ''''")
  case True
  then have "object_gone E cfg c w" by (simp add: object_gone_def anchored_def)
  with mark_kept [OF c] True show ?thesis by (simp add: delete_one_t_def)
next
  case False
  let ?R = "evolves E cfg"
  let ?K = "kept ?R (\<lambda>_ _. True)"
  have mark: "?K (call (mark_deleted E c) Ret) v" if "?R w v" "object_gone E cfg c v" for v
    by (rule mark_kept [OF evolves_same [OF that(1)] read_before_later [OF c(2) that(1)]
          may_go_later [OF c(3) that(1)] that(2)])
  have remove: "?R v v' \<and> ?K (case e of Some e \<Rightarrow> Ret (Some (WrapErr ''eliminar objeto S3: '' e ''''))
        | None \<Rightarrow> call (mark_deleted E c) Ret) v'"
    if v: "?R w v" and d: "s3_delete E (adapter_of cfg) (b_file_name c) v = (e, v')" for v e v'
  proof -
    note rk = remove_keeps [OF aws evolvesD(2) [OF v] read_before_later [OF c(2) v] may_go_later [OF c(3) v] False d]
    with mark [OF evolves_trans [OF v rk(1)]] show ?thesis by (cases e) simp_all
  qed
  have open_it: "?R v v' \<and> ?K (case r of Inl _ \<Rightarrow> call (mark_deleted E c) Ret
      | Inr a \<Rightarrow> call (s3_delete E a (b_file_name c)) (\<lambda>x. case x of
          Some e \<Rightarrow> Ret (Some (WrapErr ''eliminar objeto S3: '' e '''')) | None \<Rightarrow> call (mark_deleted E c) Ret)) v'"
    if v: "?R w v" and n: "s3_new E cfg v = (r, v')" for v r v'
  proof -
    from s3_new_opens op n obtain a where a: "r = Inr a" by (cases r) blast+
    with n have "a = adapter_of cfg" using s3_new_result by blast
    moreover note nk = new_keeps [OF aws evolvesD(2) [OF v] n]
    moreover have "?K (call (s3_delete E (adapter_of cfg) (b_file_name c)) (\<lambda>x. case x of
          Some e \<Rightarrow> Ret (Some (WrapErr ''eliminar objeto S3: '' e '''')) | None \<Rightarrow> call (mark_deleted E c) Ret)) v'"
      by (rule goroutines.kept_call, rule remove, rule evolves_trans [OF evolves_trans [OF v nk]])
    ultimately show ?thesis by (simp add: a)
  qed
  show ?thesis
    unfolding delete_one_t_def if_not_P [OF False]
  proof (rule goroutines.kept_ask)
    fix v assume v: "?R w v"
    show "?K (case s3cfg_get E v of Inl _ \<Rightarrow> call (mark_deleted E c) Ret
        | Inr cfg \<Rightarrow> call (s3_new E cfg) (\<lambda>r. case r of Inl _ \<Rightarrow> call (mark_deleted E c) Ret
            | Inr a \<Rightarrow> call (s3_delete E a (b_file_name c)) (\<lambda>x. case x of
                Some e \<Rightarrow> Ret (Some (WrapErr ''eliminar objeto S3: '' e ''''))
              | None \<Rightarrow> call (mark_deleted E c) Ret))) v"
      unfolding calmD(2) [OF evolvesD(2) [OF v]] sum.case
      by (rule goroutines.kept_call, rule open_it, rule evolves_trans [OF v])
  qed
qed

lemma delete_children_kept:
  assumes aws: "aws_ok E" and op: "storage_opens E cfg" and c: "evolves E cfg w w"
    and cs: "\<forall>c \<in> set cs. b_parent c = rid \<longrightarrow> read_before E cfg c w \<and> may_go E cfg c w"
  shows "kept (evolves E cfg) (\<lambda>_ _. True) (delete_children_t E rid cs) w"
  using c cs
proof (induction cs arbitrary: w)
  case (Cons c cs)
  show ?case
  proof (cases "b_parent c = rid")
    case True
    have "kept (evolves E cfg) (\<lambda>_ _. True) (after_that (delete_one_t E c) (\<lambda>x. case x of
        Some e \<Rightarrow> Ret (Some (WrapErr (''eliminar log '' @ b_id c @ '' en cascada: '') e ''''))
      | None \<Rightarrow> delete_children_t E rid cs)) w"
    proof (rule goroutines.kept_after_that [OF _ Cons.prems(1)])
      show "kept (evolves E cfg) (\<lambda>_ _. True) (delete_one_t E c) w"
        by (rule delete_one_kept [OF aws op Cons.prems(1)]) (use Cons.prems(2) True in simp_all)
      fix x v assume v: "evolves E cfg w v"
      have "kept (evolves E cfg) (\<lambda>_ _. True) (delete_children_t E rid cs) v"
        by (rule Cons.IH [OF evolves_same [OF v]])
          (use Cons.prems(2) read_before_later [OF _ v] may_go_later [OF _ v] in simp)
      then show "kept (evolves E cfg) (\<lambda>_ _. True) (case x of
          Some e \<Rightarrow> Ret (Some (WrapErr (''eliminar log '' @ b_id c @ '' en cascada: '') e ''''))
        | None \<Rightarrow> delete_children_t E rid cs) v" by (cases x) simp_all
    qed
    then show ?thesis unfolding delete_children_t.simps if_P [OF True] .
  qed (use Cons in simp)
qed simp

lemma delete_backup_kept:
  assumes aws: "aws_ok E" and op: "storage_opens E cfg" and c: "evolves E cfg w w"
    and go: "\<And>v r. evolves E cfg w v \<Longrightarrow> backup_view E v rid = Some r \<Longrightarrow> may_go E cfg r v"
  shows "kept (evolves E cfg) (\<lambda>_ _. True) (delete_backup_t E rid) w"
  unfolding delete_backup_t_def
proof (rule goroutines.kept_ask)
  let ?R = "evolves E cfg"
  let ?K = "kept ?R (\<lambda>_ _. True)"
  fix v assume v: "?R w v"
  note wf = calmD(1) [OF evolvesD(2) [OF v]] and vv = evolves_same [OF v]
  show "?K (case br_find_by_id E rid v of
       Inl e \<Rightarrow> Ret (Some e)
     | Inr rec \<Rightarrow>
         if is_full rec then
           ask (br_find_all E) (\<lambda>rs. case rs of
             Inl e \<Rightarrow> Ret (Some (WrapErr ''listar respaldos para cascada: '' e ''''))
           | Inr rs \<Rightarrow> after_that (delete_children_t E rid rs) (\<lambda>x. case x of
               Some e \<Rightarrow> Ret (Some e)
             | None \<Rightarrow> delete_one_t E rec))
         else delete_one_t E rec) v"
  proof (cases "br_find_by_id E rid v")
    case (Inr rec)
    then have rec: "backup_view E v rid = Some rec" by (simp add: backups.get_view [OF wf])
    then have id: "b_id rec = rid" by (rule backups.view_key [OF wf])
    have rid: "rid \<noteq> ''''" using rec calmD(3) [OF evolvesD(2) [OF v]] by (auto simp: sweep_ready_def)
    have rb: "read_before E cfg rec v" using vv rec id by (auto simp: read_before_def)
    have one: "?K (delete_one_t E rec) x" if "?R v x" for x
      by (rule delete_one_kept [OF aws op evolves_same [OF that] read_before_later [OF rb that]
            may_go_later [OF go [OF v rec] that]])
    have "?K (ask (br_find_all E) (\<lambda>rs. case rs of
             Inl e \<Rightarrow> Ret (Some (WrapErr ''listar respaldos para cascada: '' e ''''))
           | Inr rs \<Rightarrow> after_that (delete_children_t E rid rs) (\<lambda>x. case x of
               Some e \<Rightarrow> Ret (Some e)
             | None \<Rightarrow> delete_one_t E rec))) v"
    proof (rule goroutines.kept_ask)
      fix x assume x: "?R v x"
      note cx = evolvesD(2) [OF x]
      from backups.all_Inr [OF calmD(1) [OF cx]] obtain rs where al: "br_find_all E x = Inr rs" ..
      have "read_before E cfg c x \<and> may_go E cfg c x" if "c \<in> set rs" "b_parent c = rid" for c
      proof -
        from all_tracks(2) [OF calmD(1) [OF cx] al] that(1) have cv: "backup_view E x (b_id c) = Some c" by simp
        with calmD(3) [OF cx] that(2) rid have "\<not> is_full c" by (auto simp: sweep_ready_def)
        with cv evolves_same [OF x] show ?thesis by (auto simp: read_before_def may_go_def)
      qed
      then have ch: "?K (delete_children_t E rid rs) x"
        by (intro delete_children_kept [OF aws op evolves_same [OF x]]) blast
      show "?K (case br_find_all E x of
             Inl e \<Rightarrow> Ret (Some (WrapErr ''listar respaldos para cascada: '' e ''''))
           | Inr rs \<Rightarrow> after_that (delete_children_t E rid rs) (\<lambda>x. case x of
               Some e \<Rightarrow> Ret (Some e)
             | None \<Rightarrow> delete_one_t E rec)) x"
        unfolding al sum.case
        by (rule goroutines.kept_after_that [OF ch x]) (auto split: option.split intro: one)
    qed
    with one [OF vv] Inr show ?thesis by simp
  qed simp
qed

text \<open>Counting: as many fulls as it counted are newer, or two are by now.\<close>

lemma verified_full:
  assumes aws: "aws_ok E" and v: "evolves E cfg u v" and f: "f \<in> completed_fulls E u k" "t < b_started f"
    and x: "exists_in_s3 E (adapter_of cfg) (b_file_name f) v = (True, v')"
  shows "f \<in> newer E cfg v k t"
proof -
  from evolvesD(3) [OF v completed_anchored(2) [OF evolvesD(1) [OF v] f(1)]] obtain q where
    q: "backup_view E v (b_id f) = Some q" "later_version q f" by blast
  from later_version_anchored [OF q(2) completed_anchored(1) [OF evolvesD(1) [OF v] f(1)]]
  have qn: "anchored q" "b_file_name q = b_file_name f" by simp_all
  have "s3_view E (adapter_of cfg) v (b_file_name f) \<noteq> None"
    by (rule exists_in_s3_sound(2) [OF aws x _ TrueI])
      (use calmD(5) [OF evolvesD(2) [OF v] q(1) qn(1)] in \<open>simp add: only_itself_def qn(2)\<close>)
  with evolvesD(5) [OF v f(1)] f(2) show ?thesis by (auto simp: newer_def restorable_fulls_def)
qed

definition counted :: "('d, 's, 'm) env \<Rightarrow> s3_config \<Rightarrow> string \<times> string \<Rightarrow> time \<Rightarrow> backup_record set \<Rightarrow>
    ('d, 's, 'm) sys \<Rightarrow> bool" where
  "counted E cfg k t X w \<longleftrightarrow> finite X \<and>
     (X \<subseteq> newer E cfg w k t \<or> MinVerifiedFullBackups \<le> card (newer E cfg w k t))"

lemma counted_later: "counted E cfg k t X w \<Longrightarrow> evolves E cfg w v \<Longrightarrow> counted E cfg k t X v"
  using evolvesD(6) [of E cfg w v k t] two_stay [of E cfg w v k t] unfolding counted_def by blast

lemma counted_two:
  assumes "counted E cfg k t X w" "MinVerifiedFullBackups \<le> card X" "calm E cfg w"
  shows "MinVerifiedFullBackups \<le> card (newer E cfg w k t)"
  using assms(1) card_mono [OF finite_newer [OF assms(3)], of X k t] assms(2) by (auto simp: counted_def)

text \<open>A full that was completed when the group was read.\<close>

definition was_full :: "('d, 's, 'm) env \<Rightarrow> s3_config \<Rightarrow> string \<times> string \<Rightarrow> backup_record \<Rightarrow>
    ('d, 's, 'm) sys \<Rightarrow> bool" where
  "was_full E cfg k f w \<longleftrightarrow> (\<exists>u. evolves E cfg u w \<and> f \<in> completed_fulls E u k)"

lemma was_full_later: "was_full E cfg k f w \<Longrightarrow> evolves E cfg w v \<Longrightarrow> was_full E cfg k f v"
  unfolding was_full_def using evolves_trans by blast

lemma count_verified_kept:
  assumes aws: "aws_ok E" and c: "evolves E cfg w w" and d: "distinct fs"
    and fs: "\<forall>f \<in> set fs. b_id f \<noteq> cand \<longrightarrow> b_id f \<notin> set del \<longrightarrow> t < b_started f \<and> was_full E cfg k f w"
    and X: "counted E cfg k t X w" "X \<inter> set fs = {}"
  shows "kept (evolves E cfg) (\<lambda>n v. \<exists>Y. counted E cfg k t Y v \<and> card Y = card X + n)
    (count_verified_t E (adapter_of cfg) cand del fs) w"
  using c d fs X
proof (induction fs arbitrary: w X)
  case Nil
  show ?case
    unfolding count_verified_t.simps
    by (rule goroutines.kept_ret) (use counted_later [OF Nil.prems(4)] in auto)
next
  case (Cons f fs)
  let ?a = "adapter_of cfg"
  let ?K = "\<lambda>X. kept (evolves E cfg) (\<lambda>n v. \<exists>Y. counted E cfg k t Y v \<and> card Y = card X + n)"
  show ?case
  proof (cases "b_id f = cand \<or> b_id f \<in> set del")
    case True
    with Cons show ?thesis by simp
  next
    case False
    with Cons.prems(3) have f: "t < b_started f" "was_full E cfg k f w" by simp_all
    have "?K X (call (exists_in_s3 E ?a (b_file_name f)) (\<lambda>ok.
             after_that (count_verified_t E ?a cand del fs) (\<lambda>n. Ret (if ok then Suc n else n)))) w"
    proof (rule goroutines.kept_call)
      fix v ok v' assume v: "evolves E cfg w v" and x: "exists_in_s3 E ?a (b_file_name f) v = (ok, v')"
      note vv = exists_keeps [OF aws evolvesD(2) [OF v] x]
      note wv = evolves_trans [OF v vv]
      define Z where "Z = (if ok then insert f X else X)"
      have "counted E cfg k t Z v"
      proof (cases ok)
        case True
        from was_full_later [OF f(2) v] obtain u where u: "evolves E cfg u v" "f \<in> completed_fulls E u k"
          by (auto simp: was_full_def)
        from verified_full [OF aws u f(1)] x True have "f \<in> newer E cfg v k t" by simp
        with counted_later [OF Cons.prems(4) v] True show ?thesis by (auto simp: counted_def Z_def)
      qed (use counted_later [OF Cons.prems(4) v] Z_def in simp)
      then have z: "counted E cfg k t Z v'" by (rule counted_later [OF _ vv])
      have "finite X" "f \<notin> X" using Cons.prems(4,5) by (auto simp: counted_def)
      then have card_Z: "card Z = card X + (if ok then 1 else 0)" by (simp add: Z_def)
      have "?K Z (count_verified_t E ?a cand del fs) v'"
        by (rule Cons.IH [OF evolves_same [OF vv] _ _ z])
          (use Cons.prems(2,3,5) was_full_later [OF _ wv] in \<open>auto simp: Z_def split: if_splits\<close>)
      then have "?K X (after_that (count_verified_t E ?a cand del fs) (\<lambda>n. Ret (if ok then Suc n else n))) v'"
      proof (rule goroutines.kept_after_that [OF _ evolves_same [OF vv]])
        fix n y assume y: "evolves E cfg v' y" "\<exists>Y. counted E cfg k t Y y \<and> card Y = card Z + n"
        show "?K X (Ret (if ok then Suc n else n)) y"
          by (rule goroutines.kept_ret) (use y(2) counted_later card_Z in fastforce)
      qed
      with vv show "evolves E cfg v v' \<and>
          ?K X (after_that (count_verified_t E ?a cand del fs) (\<lambda>n. Ret (if ok then Suc n else n))) v'" by simp
    qed
    then show ?thesis using False by simp
  qed
qed

lemma sweep_group_kept:
  assumes aws: "aws_ok E" and op: "storage_opens E cfg" and c: "evolves E cfg w w"
    and o: "sorted_wrt (\<lambda>x y. b_started x < b_started y) (ps @ cs)" and del: "set del = b_id ` set ps"
    and d: "distinct (ps @ cs)" and fs: "\<forall>f \<in> set (ps @ cs). was_full E cfg k f w"
  shows "kept (evolves E cfg) (\<lambda>_ _. True) (sweep_group_t E (adapter_of cfg) cutoff (ps @ cs) cs del n) w"
  using c o del d fs
proof (induction cs arbitrary: w ps del n)
  case (Cons c cs)
  let ?R = "evolves E cfg"
  let ?K = "kept ?R (\<lambda>_ _. True)"
  let ?a = "adapter_of cfg"
  let ?fulls = "ps @ c # cs"
  have newer: "\<forall>f \<in> set ?fulls. b_id f \<noteq> b_id c \<longrightarrow> b_id f \<notin> set del \<longrightarrow>
      b_started c < b_started f \<and> was_full E cfg k f w"
    using Cons.prems(2,3,5) by (auto simp: sorted_wrt_append)
  have empty: "counted E cfg k (b_started c) {} w" by (simp add: counted_def)
  have del: "?K (delete_backup_t E (b_id c)) v"
    if v: "?R w v" and two: "MinVerifiedFullBackups \<le> card (newer E cfg v k (b_started c))" for v
  proof (rule delete_backup_kept [OF aws op evolves_same [OF v]])
    fix x r assume x: "?R v x" and r: "backup_view E x (b_id c) = Some r"
    have "was_full E cfg k c x"
      using Cons.prems(5) was_full_later [OF _ evolves_trans [OF v x]] by simp
    then obtain u where u: "?R u x" "c \<in> completed_fulls E u k" by (auto simp: was_full_def)
    note cu = completed_anchored [OF evolvesD(1) [OF u(1)] u(2)]
    from evolvesD(3) [OF u(1) cu(2)] r have lv: "later_version r c" by simp
    from later_version_anchored [OF lv cu(1)] later_version_full [OF lv] cu(3) two_stay [OF x two]
    show "may_go E cfg r x" by (auto simp: may_go_def anchored_def)
  qed
  have "?K (after_that (count_verified_t E ?a (b_id c) del ?fulls) (\<lambda>v.
        if v < MinVerifiedFullBackups then Ret (n, None)
        else after_that (delete_backup_t E (b_id c)) (\<lambda>x. case x of
          Some e \<Rightarrow> Ret (n, Some e)
        | None \<Rightarrow> sweep_group_t E ?a cutoff ?fulls cs (b_id c # del) (Suc n)))) w"
  proof (rule goroutines.kept_after_that [OF count_verified_kept [OF aws Cons.prems(1,4) newer empty] Cons.prems(1)])
    show "{} \<inter> set ?fulls = {}" by simp
    fix m v assume v: "?R w v" and m: "\<exists>Y. counted E cfg k (b_started c) Y v \<and> card Y = card {} + m"
    have "?K (after_that (delete_backup_t E (b_id c)) (\<lambda>x. case x of
          Some e \<Rightarrow> Ret (n, Some e)
        | None \<Rightarrow> sweep_group_t E ?a cutoff ?fulls cs (b_id c # del) (Suc n))) v"
      if "\<not> m < MinVerifiedFullBackups"
    proof (rule goroutines.kept_after_that [OF del [OF v] evolves_same [OF v]])
      from m that show "MinVerifiedFullBackups \<le> card (newer E cfg v k (b_started c))"
        using counted_two [OF _ _ evolvesD(2) [OF v]] by fastforce
      fix x y assume y: "?R v y"
      have "?K (sweep_group_t E ?a cutoff ((ps @ [c]) @ cs) cs (b_id c # del) (Suc n)) y"
        by (rule Cons.IH [OF evolves_same [OF y]])
          (use Cons.prems was_full_later [OF _ evolves_trans [OF v y]] in simp_all)
      then show "?K (case x of Some e \<Rightarrow> Ret (n, Some e)
          | None \<Rightarrow> sweep_group_t E ?a cutoff ?fulls cs (b_id c # del) (Suc n)) y" by (cases x) simp_all
    qed
    then show "?K (if m < MinVerifiedFullBackups then Ret (n, None)
        else after_that (delete_backup_t E (b_id c)) (\<lambda>x. case x of
          Some e \<Rightarrow> Ret (n, Some e)
        | None \<Rightarrow> sweep_group_t E ?a cutoff ?fulls cs (b_id c # del) (Suc n))) v" by simp
  qed
  then show ?case by simp
qed simp

lemma strict_group:
  assumes "calm E cfg u" "br_find_all E u = Inr rs"
  shows "sorted_wrt (\<lambda>x y. b_started x < b_started y) (sort_slice E b_started (group_of rs k))"
    and "distinct (sort_slice E b_started (group_of rs k))"
    and "set (sort_slice E b_started (group_of rs k)) = completed_fulls E u k"
proof -
  let ?F = "sort_slice E b_started (group_of rs k)"
  note g = group_of_all [OF calmD(1) [OF assms(1)] assms(2)]
  show s: "set ?F = completed_fulls E u k" using g(1) by simp
  show d: "distinct ?F" using g(2) by (simp add: group_of_def)
  have "inj_on b_started (set ?F)"
    by (rule inj_onI) (use calmD(4) [OF assms(1)] s in blast)
  with d have "sorted_wrt (<) (map b_started ?F)" by (simp add: strict_sorted_iff distinct_map)
  then show "sorted_wrt (\<lambda>x y. b_started x < b_started y) ?F" by (simp add: sorted_wrt_map)
qed

lemma retain_days_kept:
  assumes "evolves E cfg w w" "\<And>d v. evolves E cfg w v \<Longrightarrow> kept (evolves E cfg) Q (f d) v"
  shows "kept (evolves E cfg) Q (retain_days_t E iid f) w"
  unfolding retain_days_t_def
proof (rule goroutines.kept_ask)
  fix v assume v: "evolves E cfg w v"
  have "kept (evolves E cfg) Q (ask (pol_find_global E) (\<lambda>g. case g of
         Inr g \<Rightarrow> f (p_retain_days g) | Inl _ \<Rightarrow> f (p_retain_days default_retention_policy))) v"
    by (rule goroutines.kept_ask) (use assms(2) evolves_trans [OF v] in \<open>auto split: sum.split\<close>)
  then show "kept (evolves E cfg) Q (case pol_find_by_instance E iid v of
       Inr p \<Rightarrow> f (p_retain_days p)
     | Inl _ \<Rightarrow> ask (pol_find_global E) (\<lambda>g. case g of
         Inr g \<Rightarrow> f (p_retain_days g) | Inl _ \<Rightarrow> f (p_retain_days default_retention_policy))) v"
    using assms(2) [OF v] by (simp split: sum.split)
qed

lemma sweep_groups_kept:
  assumes aws: "aws_ok E" and op: "storage_opens E cfg" and u: "evolves E cfg u w" and al: "br_find_all E u = Inr rs"
  shows "kept (evolves E cfg) (\<lambda>_ _. True) (sweep_groups_t E (adapter_of cfg) rs ks n err) w"
  using u
proof (induction ks arbitrary: w n err)
  case (Cons k ks)
  let ?R = "evolves E cfg"
  let ?K = "kept ?R (\<lambda>_ _. True)"
  let ?F = "sort_slice E b_started (group_of rs k)"
  note g = strict_group [OF evolvesD(1) [OF Cons.prems] al, of k]
  have group: "?K (sweep_group_t E (adapter_of cfg) cut0 ?F ?F [] 0) v" if v: "?R w v" for v cut0
  proof -
    have "\<forall>f \<in> set ([] @ ?F). was_full E cfg k f v"
      using g(3) evolves_trans [OF Cons.prems v] by (auto simp: was_full_def)
    from sweep_group_kept [OF aws op evolves_same [OF v] _ _ _ this, of "[]"] g(1,2) show ?thesis by simp
  qed
  have "?K (retain_days_t E (fst k) (\<lambda>days. call (now E) (\<lambda>t.
        after_that (sweep_group_t E (adapter_of cfg) (add_days t (- days)) ?F ?F [] 0) (\<lambda>x. case x of
          (m, e) \<Rightarrow> sweep_groups_t E (adapter_of cfg) rs ks (n + m) (if err = None then e else err))))) w"
  proof (rule retain_days_kept [OF evolves_same [OF Cons.prems]], rule goroutines.kept_call)
    fix days v x t y assume v: "?R w v" and x: "?R v x" and t: "now E x = (t, y)"
    note xy = now_keeps [OF evolvesD(2) [OF x] t]
    note wy = evolves_trans [OF evolves_trans [OF v x] xy]
    have "?K (after_that (sweep_group_t E (adapter_of cfg) (add_days t (- days)) ?F ?F [] 0) (\<lambda>x. case x of
          (m, e) \<Rightarrow> sweep_groups_t E (adapter_of cfg) rs ks (n + m) (if err = None then e else err))) y"
      by (rule goroutines.kept_after_that [OF group [OF wy] wy])
        (use Cons.IH evolves_trans [OF Cons.prems] in \<open>simp split: prod.split\<close>)
    with xy show "?R x y \<and> ?K (after_that (sweep_group_t E (adapter_of cfg) (add_days t (- days)) ?F ?F [] 0)
        (\<lambda>x. case x of (m, e) \<Rightarrow>
          sweep_groups_t E (adapter_of cfg) rs ks (n + m) (if err = None then e else err))) y" ..
  qed
  then show ?case by (simp add: Let_def)
qed simp

lemma apply_sqlserver_kept:
  assumes aws: "aws_ok E" and op: "storage_opens E cfg"
  shows "kept (evolves E cfg) (\<lambda>_ _. True) (apply_sqlserver_retention_t E) w"
  unfolding apply_sqlserver_retention_t_def
proof (rule goroutines.kept_ask)
  let ?R = "evolves E cfg"
  let ?K = "kept ?R (\<lambda>_ _. True)"
  fix u assume u: "?R w u"
  from backups.all_Inr [OF calmD(1) [OF evolvesD(2) [OF u]]] obtain rs where al: "br_find_all E u = Inr rs" ..
  have open_it: "?R x y \<and> ?K (case r of Inl e \<Rightarrow> Ret (0, Some (WrapErr ''conectar S3: '' e ''''))
         | Inr a \<Rightarrow> ask (\<lambda>w. map_range E (os w) (group_keys rs)) (\<lambda>ks. sweep_groups_t E a rs ks 0 None)) y"
    if x: "?R u x" and n: "s3_new E cfg x = (r, y)" for x r y
  proof (cases r)
    case (Inr a)
    with n have a: "a = adapter_of cfg" using s3_new_result by blast
    note xy = new_keeps [OF aws evolvesD(2) [OF x] n]
    have "?K (ask (\<lambda>w. map_range E (os w) (group_keys rs)) (\<lambda>ks. sweep_groups_t E a rs ks 0 None)) y"
      unfolding a by (rule goroutines.kept_ask) (rule sweep_groups_kept [OF aws op evolves_trans [OF evolves_trans [OF x xy]] al])
    with xy Inr show ?thesis by simp
  qed (use new_keeps [OF aws evolvesD(2) [OF x] n] in simp)
  have "?K (ask (s3cfg_get E) (\<lambda>c. case c of
         Inl e \<Rightarrow> Ret (0, Some (WrapErr ''config S3: '' e ''''))
       | Inr cfg \<Rightarrow> call (s3_new E cfg) (\<lambda>r. case r of
           Inl e \<Rightarrow> Ret (0, Some (WrapErr ''conectar S3: '' e ''''))
         | Inr a \<Rightarrow> ask (\<lambda>w. map_range E (os w) (group_keys rs)) (\<lambda>ks. sweep_groups_t E a rs ks 0 None)))) u"
  proof (rule goroutines.kept_ask)
    fix v assume v: "?R u v"
    show "?K (case s3cfg_get E v of
         Inl e \<Rightarrow> Ret (0, Some (WrapErr ''config S3: '' e ''''))
       | Inr cfg \<Rightarrow> call (s3_new E cfg) (\<lambda>r. case r of
           Inl e \<Rightarrow> Ret (0, Some (WrapErr ''conectar S3: '' e ''''))
         | Inr a \<Rightarrow> ask (\<lambda>w. map_range E (os w) (group_keys rs)) (\<lambda>ks. sweep_groups_t E a rs ks 0 None))) v"
      unfolding calmD(2) [OF evolvesD(2) [OF v]] sum.case
      by (rule goroutines.kept_call) (rule open_it [OF evolves_trans [OF v]])
  qed
  then show "?K (case br_find_all E u of
       Inl e \<Rightarrow> Ret (0, Some e)
     | Inr rs \<Rightarrow> ask (s3cfg_get E) (\<lambda>c. case c of
         Inl e \<Rightarrow> Ret (0, Some (WrapErr ''config S3: '' e ''''))
       | Inr cfg \<Rightarrow> call (s3_new E cfg) (\<lambda>r. case r of
           Inl e \<Rightarrow> Ret (0, Some (WrapErr ''conectar S3: '' e ''''))
         | Inr a \<Rightarrow> ask (\<lambda>w. map_range E (os w) (group_keys rs)) (\<lambda>ks. sweep_groups_t E a rs ks 0 None)))) u"
    unfolding al sum.case .
qed

lemma expire_all_kept:
  assumes aws: "aws_ok E" and op: "storage_opens E cfg" and c: "evolves E cfg w w"
    and rs: "\<forall>r \<in> set rs. read_before E cfg r w"
  shows "kept (evolves E cfg) (\<lambda>_ _. True) (expire_all_t E rs n) w"
  using c rs
proof (induction rs arbitrary: w n)
  case (Cons r rs)
  let ?K = "kept (evolves E cfg) (\<lambda>_ _. True)"
  show ?case
  proof (cases "b_engine r = EngineSQLServer")
    case False
    have del: "?K (delete_backup_t E (b_id r)) w"
    proof (rule delete_backup_kept [OF aws op Cons.prems(1)])
      fix v q assume v: "evolves E cfg w v" and q: "backup_view E v (b_id r) = Some q"
      have "read_before E cfg r v" using Cons.prems(2) read_before_later [OF _ v] by simp
      from read_before_now [OF this] q have "later_version q r" by simp
      with False show "may_go E cfg q v" using later_version_full [of q r] by (simp add: may_go_def)
    qed
    have "?K (after_that (delete_backup_t E (b_id r)) (\<lambda>e. expire_all_t E rs (if e = None then Suc n else n))) w"
    proof (rule goroutines.kept_after_that [OF del Cons.prems(1)], rule Cons.IH)
      fix v assume v: "evolves E cfg w v"
      show "evolves E cfg v v" by (rule evolves_same [OF v])
      show "\<forall>q \<in> set rs. read_before E cfg q v" using Cons.prems(2) read_before_later [OF _ v] by simp
    qed
    then show ?thesis using False by simp
  qed (use Cons in simp)
qed simp

lemma apply_retention_kept:
  assumes aws: "aws_ok E" and op: "storage_opens E cfg"
  shows "kept (evolves E cfg) (\<lambda>_ _. True) (apply_retention_t E) w"
  unfolding apply_retention_t_def
proof (rule goroutines.kept_call)
  let ?R = "evolves E cfg"
  let ?K = "kept ?R (\<lambda>_ _. True)"
  fix u t v assume u: "?R w u" and t: "now E u = (t, v)"
  note uv = now_keeps [OF evolvesD(2) [OF u] t]
  have "?K (ask (\<lambda>w. store_filter (is_expired_at t) (br_find_all E w)) (\<lambda>r. case r of
       Inl e \<Rightarrow> Ret (0, Some e)
     | Inr rs \<Rightarrow> after_that (expire_all_t E rs 0) (\<lambda>n.
         after_that (apply_sqlserver_retention_t E) (\<lambda>x. case x of (m, e) \<Rightarrow> Ret (n + m, e))))) v"
  proof (rule goroutines.kept_ask)
    fix x assume x: "?R v x"
    note wf = calmD(1) [OF evolvesD(2) [OF x]]
    from backups.all_Inr [OF wf] obtain rs where al: "br_find_all E x = Inr rs" ..
    have "\<forall>r \<in> set (filter (is_expired_at t) rs). read_before E cfg r x"
      using all_tracks(2) [OF wf al] evolves_same [OF x] by (auto simp: read_before_def)
    note ex = expire_all_kept [OF aws op evolves_same [OF x] this]
    have "?K (after_that (expire_all_t E (filter (is_expired_at t) rs) 0) (\<lambda>n.
         after_that (apply_sqlserver_retention_t E) (\<lambda>x. case x of (m, e) \<Rightarrow> Ret (n + m, e)))) x"
    proof (rule goroutines.kept_after_that [OF ex x])
      fix n y assume y: "?R v y"
      show "?K (after_that (apply_sqlserver_retention_t E) (\<lambda>x. case x of (m, e) \<Rightarrow> Ret (n + m, e))) y"
        by (rule goroutines.kept_after_that [OF apply_sqlserver_kept [OF aws op] evolves_same [OF y]])
          (simp split: prod.split)
    qed
    then show "?K (case store_filter (is_expired_at t) (br_find_all E x) of
       Inl e \<Rightarrow> Ret (0, Some e)
     | Inr rs \<Rightarrow> after_that (expire_all_t E rs 0) (\<lambda>n.
         after_that (apply_sqlserver_retention_t E) (\<lambda>x. case x of (m, e) \<Rightarrow> Ret (n + m, e)))) x"
      by (simp add: al store_filter_def)
  qed
  with uv show "?R u v \<and> ?K (ask (\<lambda>w. store_filter (is_expired_at t) (br_find_all E w)) (\<lambda>r. case r of
       Inl e \<Rightarrow> Ret (0, Some e)
     | Inr rs \<Rightarrow> after_that (expire_all_t E rs 0) (\<lambda>n.
         after_that (apply_sqlserver_retention_t E) (\<lambda>x. case x of (m, e) \<Rightarrow> Ret (n + m, e))))) v" ..
qed

section \<open>Properties\<close>

text \<open>
  Cut at its calls and run without interruption, retention is the function of the theory Retention: the same
  result, the same state, whatever the state and the environment.
\<close>

theorem retention_thread_refines:
  "run (apply_retention_t E) w = apply_retention E w"
  by (simp add: apply_retention_t_def apply_retention_def br_find_expired_def run_expire_all run_apply_sqlserver
      split: prod.split sum.split)

end
