(* ===== verification/Concurrency.thy ===== *)
theory Concurrency
  imports Interleaving
begin

text \<open>
  Retention and backups at the same time. \<open>backup_database_t\<close> is a backup as a thread, one action per call
  of \<open>backupDatabase\<close> (\<open>application/usecases/run_backup.go\<close>); each of its actions is one of the seven
  kinds of \<open>backup_act\<close> (\<open>backup_thread_acts\<close>). In \<open>busy_step\<close> retention threads and the actions of backups
  take turns in any order; \<open>unclaimed\<close> says that what a backup calls its own (identifier, key, moment) is not
  another's.
\<close>

section \<open>A backup as a thread\<close>

definition finish_backup_t :: "('d, 's, 'm) env \<Rightarrow> inst_rec \<Rightarrow> s3_adapter \<Rightarrow> backup_record \<Rightarrow> reader \<Rightarrow> string \<Rightarrow>
    (('d, 's, 'm) sys, gerr option) thread" where
  "finish_backup_t E i a r rd key =
     call (s3_upload E a key (reader_stream rd)) (\<lambda>u. case u of
       (Inl e, n) \<Rightarrow> call (reader_close E rd) (\<lambda>ce.
         call (\<lambda>w. ((), mark_failed E (b_id r) e w)) (\<lambda>x. Ret (Some e)))
     | (Inr sz, n) \<Rightarrow> call (reader_close E rd) (\<lambda>ce. case ce of
         Some ce \<Rightarrow> call (s3_delete E a key) (\<lambda>de.
           call (\<lambda>w. ((), mark_failed E (b_id r) ce w)) (\<lambda>x. Ret (Some ce)))
       | None \<Rightarrow> call (s3_tag E a key (b_expires r)) (\<lambda>te. call (now E) (\<lambda>t.
           call (br_update E (completed_record r key sz (hash_sum E (reader_stream rd) n) t)) (\<lambda>x. case x of
             Some e \<Rightarrow> Ret (Some (WrapErr ''actualizar registro: '' e ''''))
           | None \<Rightarrow> call (\<lambda>w. ((), emit (NotifyCompleted (i_name i) (b_database r) (b_id r)) w)) (\<lambda>x. Ret None))))))"

definition backup_database_t :: "('d, 's, 'm) env \<Rightarrow> inst_rec \<Rightarrow> string \<Rightarrow> backup_type \<Rightarrow> string \<Rightarrow>
    (string \<Rightarrow> ('d, 's, 'm) sys \<Rightarrow> (reader \<times> string) res \<times> ('d, 's, 'm) sys) \<Rightarrow> s3_adapter \<Rightarrow> int \<Rightarrow>
    (('d, 's, 'm) sys, gerr option) thread" where
  "backup_database_t E i dbn bt parent do_backup a days =
     call (new_id E) (\<lambda>rid. call (now E) (\<lambda>t1. call (now E) (\<lambda>t2.
       call (br_save E (initial_record i dbn bt parent days rid t1 t2)) (\<lambda>x. case x of
         Some e \<Rightarrow> Ret (Some (WrapErr ''guardar registro inicial: '' e ''''))
       | None \<Rightarrow> call (\<lambda>w. ((), emit (NotifyStarted (i_name i) dbn) w)) (\<lambda>x.
           call (do_backup dbn) (\<lambda>d. case d of
             Inl e \<Rightarrow> call (\<lambda>w. ((), mark_failed E rid e w)) (\<lambda>x. Ret (Some e))
           | Inr (rd, key) \<Rightarrow>
               finish_backup_t E i a (initial_record i dbn bt parent days rid t1 t2) rd key))))))"

lemma run_finish_backup: "run (finish_backup_t E i a r rd key) w = finish_backup E i a r rd key w"
  by (simp add: finish_backup_t_def finish_backup_def split: prod.split sum.split option.split)

text \<open>
  Cut at its calls and run without interruption, a backup is the function of the theory RunBackup.
\<close>

theorem backup_thread_refines:
  "run (backup_database_t E i dbn bt parent do_backup a days) w = backup_database E i dbn bt parent do_backup a days w"
  by (simp add: backup_database_t_def backup_database_def Let_def run_finish_backup split: prod.split sum.split option.split)

section \<open>What a backup does to the shared parts\<close>

datatype ('d, 's, 'm) backup_act =
    Save backup_record
  | Upload string stream
  | Discard string
  | Complete backup_record string int string time
  | Fail string gerr
  | Other "('d, 's, 'm) sys \<Rightarrow> ('d, 's, 'm) sys"

fun do_act :: "('d, 's, 'm) env \<Rightarrow> s3_adapter \<Rightarrow> ('d, 's, 'm) backup_act \<Rightarrow> ('d, 's, 'm) sys \<Rightarrow> ('d, 's, 'm) sys" where
  "do_act E a (Save r) w = snd (br_save E r w)"
| "do_act E a (Upload key st) w = snd (s3_upload E a key st w)"
| "do_act E a (Discard key) w = snd (s3_delete E a key w)"
| "do_act E a (Complete r key sz h t) w = snd (br_update E (completed_record r key sz h t) w)"
| "do_act E a (Fail rid e) w = mark_failed E rid e w"
| "do_act E a (Other f) w = f w"

definition running_record :: "backup_record \<Rightarrow> bool" where
  "running_record r \<longleftrightarrow> b_status r = StatusRunning \<and> b_file_name r = '''' \<and> (is_full r \<longrightarrow> b_parent r = '''')"

fun act_ok :: "('d, 's, 'm) env \<Rightarrow> s3_adapter \<Rightarrow> ('d, 's, 'm) backup_act \<Rightarrow> bool" where
  "act_ok E a (Save r) \<longleftrightarrow> running_record r"
| "act_ok E a (Complete r key sz h t) \<longleftrightarrow> running_record r"
| "act_ok E a (Other f) \<longleftrightarrow> (\<forall>w. db (f w) = db w \<and> s3_view E a (f w) = s3_view E a w)"
| "act_ok E a _ \<longleftrightarrow> True"

primrec every_act :: "(('w \<Rightarrow> 'w) \<Rightarrow> bool) \<Rightarrow> ('w, 'a) thread \<Rightarrow> bool" where
  "every_act P (Ret x) = True"
| "every_act P (Act u k) = (P u \<and> (\<forall>w. every_act P (k w)))"

lemma every_act_call:
  "P (\<lambda>w. snd (g w)) \<Longrightarrow> (\<And>x. every_act P (k x)) \<Longrightarrow> every_act P (call g k)"
  by (simp add: call_def)

definition backup_does :: "('d, 's, 'm) env \<Rightarrow> s3_adapter \<Rightarrow> (('d, 's, 'm) sys \<Rightarrow> ('d, 's, 'm) sys) \<Rightarrow> bool" where
  "backup_does E a u \<longleftrightarrow> (\<exists>x. act_ok E a x \<and> u = do_act E a x)"

lemma backup_doesI: "act_ok E a x \<Longrightarrow> (\<And>w. u w = do_act E a x w) \<Longrightarrow> backup_does E a u"
  unfolding backup_does_def by blast

lemma quiet_does:
  assumes "\<And>w. db (u w) = db w" "\<And>w. s3_view E a (u w) = s3_view E a w"
  shows "backup_does E a u"
  by (rule backup_doesI [of _ _ "Other u"]) (simp_all add: assms)

lemma same_stores_does:
  assumes "\<And>w. same_stores w (u w)"
  shows "backup_does E a u"
  by (rule quiet_does, rule same_storesD(1) [OF assms], rule view_eq_s3, rule same_storesD(2) [OF assms])

lemma calls_do:
  "backup_does E a (\<lambda>w. snd (new_id E w))" "backup_does E a (\<lambda>w. snd (now E w))"
  "backup_does E a (\<lambda>w. snd ((), emit e w))" "backup_does E a (\<lambda>w. snd (reader_close E rd w))"
  "backup_does E a (\<lambda>w. snd (s3_upload E a key st w))" "backup_does E a (\<lambda>w. snd (s3_delete E a key w))"
  "backup_does E a (\<lambda>w. snd ((), mark_failed E rid x w))"
  "running_record r \<Longrightarrow> backup_does E a (\<lambda>w. snd (br_save E r w))"
  "running_record r \<Longrightarrow> backup_does E a (\<lambda>w. snd (br_update E (completed_record r key sz h t) w))"
  "aws_ok E \<Longrightarrow> backup_does E a (\<lambda>w. snd (s3_tag E a key t w))"
  "quiet_dump f \<Longrightarrow> backup_does E a (\<lambda>w. snd (f d w))"
proof -
  show "backup_does E a (\<lambda>w. snd (new_id E w))"
    by (rule quiet_does, rule new_id_frame(1) [OF surjective_pairing], rule view_eq_s3,
        rule new_id_frame(2) [OF surjective_pairing])
  show "backup_does E a (\<lambda>w. snd (now E w))"
    by (rule quiet_does, rule now_frame(1) [OF surjective_pairing], rule view_eq_s3,
        rule now_frame(2) [OF surjective_pairing])
  show "backup_does E a (\<lambda>w. snd ((), emit e w))"
    by (rule quiet_does, simp, rule view_eq_s3, simp)
  show "backup_does E a (\<lambda>w. snd (reader_close E rd w))"
    by (rule same_stores_does) (rule reader_close_same [OF surjective_pairing])
  show "backup_does E a (\<lambda>w. snd (f d w))" if "quiet_dump f"
    by (rule same_stores_does) (use that in \<open>simp add: quiet_dump_def\<close>)
  show "backup_does E a (\<lambda>w. snd (s3_tag E a key t w))" if "aws_ok E"
    by (rule quiet_does, rule conjunct1 [OF s3_ops_frame(4) [OF surjective_pairing]],
        rule s3_tag_view [OF that surjective_pairing])
  show "backup_does E a (\<lambda>w. snd (s3_upload E a key st w))" by (rule backup_doesI [of _ _ "Upload key st"]) simp_all
  show "backup_does E a (\<lambda>w. snd (s3_delete E a key w))" by (rule backup_doesI [of _ _ "Discard key"]) simp_all
  show "backup_does E a (\<lambda>w. snd ((), mark_failed E rid x w))" by (rule backup_doesI [of _ _ "Fail rid x"]) simp_all
  show "backup_does E a (\<lambda>w. snd (br_save E r w))" if "running_record r"
    by (rule backup_doesI [of _ _ "Save r"]) (simp_all add: that)
  show "backup_does E a (\<lambda>w. snd (br_update E (completed_record r key sz h t) w))" if "running_record r"
    by (rule backup_doesI [of _ _ "Complete r key sz h t"]) (simp_all add: that)
qed

lemma initial_running: "bt = BackupTypeLog \<or> parent = '''' \<Longrightarrow> running_record (initial_record i dbn bt parent days rid t1 t2)"
  by (auto simp: running_record_def initial_record_def is_full_def)

lemma finish_backup_acts:
  assumes "aws_ok E" "running_record r"
  shows "every_act (backup_does E a) (finish_backup_t E i a r rd key)"
  unfolding finish_backup_t_def
  by (intro every_act_call calls_do assms)
    (auto intro!: every_act_call calls_do assms split: prod.split sum.split option.split)

lemma backup_thread_acts:
  assumes "aws_ok E" "quiet_dump do_backup" "bt = BackupTypeLog \<or> parent = ''''"
  shows "every_act (backup_does E a) (backup_database_t E i dbn bt parent do_backup a days)"
  unfolding backup_database_t_def
  by (intro every_act_call calls_do initial_running assms(3))
    (auto intro!: every_act_call calls_do assms finish_backup_acts initial_running split: prod.split sum.split option.split)

section \<open>What belongs to one backup\<close>

text \<open>
  The identifier is not in use when the record is saved (identifiers are random UUIDs); the key is no name, and extends no
  name, of a full of SQL Server when the object is written or taken away; when the record is completed it is
  still the one the backup saved, marked or not, the key is no other record's and no object's key extends it, and no full of
  its database started at the same moment.
\<close>

definition free_key :: "('d, 's, 'm) env \<Rightarrow> ('d, 's, 'm) sys \<Rightarrow> string \<Rightarrow> bool" where
  "free_key E w key \<longleftrightarrow>
     (\<forall>i r. backup_view E w i = Some r \<longrightarrow> anchored r \<longrightarrow> \<not> has_prefix key (b_file_name r))"

fun unclaimed :: "('d, 's, 'm) env \<Rightarrow> s3_config \<Rightarrow> ('d, 's, 'm) sys \<Rightarrow> ('d, 's, 'm) backup_act \<Rightarrow> bool" where
  "unclaimed E cfg w (Save r) \<longleftrightarrow> b_id r \<noteq> '''' \<and> backup_view E w (b_id r) = None"
| "unclaimed E cfg w (Upload key st) \<longleftrightarrow> free_key E w key"
| "unclaimed E cfg w (Discard key) \<longleftrightarrow> free_key E w key"
| "unclaimed E cfg w (Complete r key sz h t) \<longleftrightarrow>
     (\<exists>q. backup_view E w (b_id r) = Some q \<and> same_origin q r \<and> b_started q = b_started r \<and> b_file_name q = '''') \<and>
     key \<noteq> '''' \<and> (\<forall>j p. backup_view E w j = Some p \<longrightarrow> b_file_name p \<noteq> key) \<and> only_itself E cfg w key \<and>
     (\<forall>p \<in> completed_fulls E w (group_key r). b_started p \<noteq> b_started r)"
| "unclaimed E cfg w (Fail rid e) \<longleftrightarrow> (\<forall>q. backup_view E w rid = Some q \<longrightarrow> b_file_name q = '''')"
| "unclaimed E cfg w (Other f) \<longleftrightarrow> True"

text \<open>Writing a record that is new, or whose earlier version was no completed full.\<close>

lemma evolves_put:
  assumes c: "calm E cfg w" and wf: "backups_wf E v" and cf: "s3cfg_get E v = s3cfg_get E w"
    and s: "s3_view E (adapter_of cfg) v = s3_view E (adapter_of cfg) w"
    and view: "backup_view E v = (backup_view E w)(i \<mapsto> q)"
    and old: "\<And>r. backup_view E w i = Some r \<Longrightarrow> later_version q r \<and> \<not> sweepable r"
    and q: "i \<noteq> ''''" "is_full q \<longrightarrow> b_parent q = ''''"
    and anch: "anchored q \<Longrightarrow> only_itself E cfg w (b_file_name q)"
    and swp: "sweepable q \<Longrightarrow> b_file_name q \<noteq> '''' \<and>
      (\<forall>p \<in> completed_fulls E w (group_key q). b_started p \<noteq> b_started q)"
    and names: "\<And>j p. backup_view E w j = Some p \<Longrightarrow> j \<noteq> i \<Longrightarrow> sweepable p \<or> sweepable q \<Longrightarrow>
      b_file_name p \<noteq> b_file_name q"
  shows "evolves E cfg w v"
proof -
  let ?S = "s3_view E (adapter_of cfg)"
  have q_only: "only_itself E cfg w (b_file_name q)" if "sweepable q"
    using anch swp that by (auto simp: anchored_def sweepable_def)
  note cold = calmD(3) [OF c]
  have ready: "sweep_ready E cfg v"
    unfolding sweep_ready_def s
  proof (intro conjI allI impI)
    fix j r assume j: "backup_view E v j = Some r"
    show "j \<noteq> ''''" "is_full r \<Longrightarrow> b_parent r = ''''"
      using j view q cold by (auto simp: sweep_ready_def split: if_splits)
    assume sr: "sweepable r"
    show "b_file_name r \<noteq> ''''"
      using j view sr swp sweep_readyD(1) [OF cold _ sr] by (auto split: if_splits)
    show "n = j" if n: "backup_view E v n = Some p" "b_file_name p = b_file_name r" for n p
    proof (cases "n = i"; cases "j = i")
      assume "n = i" "j \<noteq> i"
      with n j view have "p = q" "backup_view E w j = Some r" by simp_all
      with names [of j r] \<open>j \<noteq> i\<close> sr n(2) show ?thesis by simp
    next
      assume "n \<noteq> i" "j = i"
      with n j view have "r = q" "backup_view E w n = Some p" by simp_all
      with names [of n p] \<open>n \<noteq> i\<close> sr n(2) show ?thesis by simp
    next
      assume "n \<noteq> i" "j \<noteq> i"
      with n j view have "backup_view E w n = Some p" "backup_view E w j = Some r" by simp_all
      from sweep_readyD(2) [OF cold this(2) sr this(1) n(2)] show ?thesis .
    qed simp
    show "x = b_file_name r" if x: "?S w x \<noteq> None" "has_prefix x (b_file_name r)" for x
    proof (cases "j = i")
      case True
      with j view have "r = q" by simp
      with q_only sr x show ?thesis unfolding only_itself_def by blast
    next
      case False
      with j view have "backup_view E w j = Some r" by simp
      from sweep_readyD(3) [OF cold this sr x] show ?thesis .
    qed
  qed
  have comp: "r = q \<and> sweepable q \<and> group_key q = k \<or> r \<in> completed_fulls E w k"
    if "r \<in> completed_fulls E v k" for r k
    using that view by (auto simp: completed_fulls_def split: if_splits)
  have keep: "r \<in> completed_fulls E v k" if "r \<in> completed_fulls E w k" for r k
    using that view old by (auto simp: completed_fulls_def)
  have cv: "calm E cfg v"
    unfolding calm_def cf
  proof (intro conjI wf calmD(2) [OF c] ready allI ballI impI)
    show "only_itself E cfg v (b_file_name r)" if "backup_view E v j = Some r" "anchored r" for j r
      using that view anch calmD(5) [OF c] s by (auto simp: only_itself_def split: if_splits)
    fix k r p assume r: "r \<in> completed_fulls E v k" and p: "p \<in> completed_fulls E v k"
      and t: "b_started r = b_started p"
    from comp [OF r] comp [OF p] show "r = p"
      using swp t calmD(4) [OF c, of r k p] by metis
  qed
  show ?thesis
    unfolding evolves_def s
  proof (intro conjI c cv allI impI ballI)
    show "\<exists>p. backup_view E v j = Some p \<and> later_version p r \<and>
        (anchored r \<longrightarrow> ?S w (b_file_name r) = None \<longrightarrow> ?S w (b_file_name r) = None)"
      if "backup_view E w j = Some r" for j r
      using that view old by (cases "j = i") auto
    show "r \<in> completed_fulls E v k \<or> ?S w (b_file_name r) = None" if "r \<in> completed_fulls E w k" for k r
      using keep [OF that] ..
    show "newer E cfg w k t \<subseteq> newer E cfg v k t \<or> MinVerifiedFullBackups \<le> card (newer E cfg v k t)" for k t
      using keep [of _ k] by (auto simp: newer_def restorable_fulls_def s)
  qed
qed

lemma evolves_view:
  assumes "calm E cfg w" "backups_wf E v" "s3cfg_get E v = s3cfg_get E w"
    "s3_view E (adapter_of cfg) v = s3_view E (adapter_of cfg) w" "backup_view E v = backup_view E w"
  shows "evolves E cfg w v"
proof -
  have k: "completed_fulls E v k = completed_fulls E w k" for k by (simp add: completed_fulls_def assms(5))
  then have n: "newer E cfg v k t = newer E cfg w k t" for k t
    by (simp add: newer_def restorable_fulls_def assms(4))
  have "sweep_ready E cfg v = sweep_ready E cfg w" "only_itself E cfg v = only_itself E cfg w"
    by (simp_all add: sweep_ready_def only_itself_def fun_eq_iff assms(4,5))
  then have c: "calm E cfg v"
    using assms(1-3) by (simp add: calm_def k assms(5))
  show ?thesis
    unfolding evolves_def n k assms(4,5) using assms(1) c by auto
qed

text \<open>Saving a record, with success or not.\<close>

lemma evolves_save:
  assumes c: "calm E cfg w" and p: "br_save E q w = (e, v)"
    and old: "\<And>r. backup_view E w (b_id q) = Some r \<Longrightarrow> later_version q r \<and> \<not> sweepable r"
    and q: "b_id q \<noteq> ''''" "is_full q \<longrightarrow> b_parent q = ''''"
    and anch: "anchored q \<Longrightarrow> only_itself E cfg w (b_file_name q)"
    and swp: "sweepable q \<Longrightarrow> b_file_name q \<noteq> '''' \<and>
      (\<forall>p \<in> completed_fulls E w (group_key q). b_started p \<noteq> b_started q)"
    and names: "\<And>j p. backup_view E w j = Some p \<Longrightarrow> j \<noteq> b_id q \<Longrightarrow> sweepable p \<or> sweepable q \<Longrightarrow>
      b_file_name p \<noteq> b_file_name q"
  shows "evolves E cfg w v"
proof -
  note wf = calmD(1) [OF c]
  note l = backups.put_law [OF wf p]
  have put: "store_put E bucketBackupRecords (b_id q) (encode_backup q) w = (e, v)" using p by (simp add: br_save_def)
  have ok: "bolt_ok E" using wf by (simp add: backups_wf_def bucket_wf_def)
  have cf: "s3cfg_get E v = s3cfg_get E w"
    using store_put_other_bucket [OF put ok, of bucketS3Config] by (simp add: s3cfg_get_def store_get_def bucket_defs)
  have s: "s3_view E (adapter_of cfg) v = s3_view E (adapter_of cfg) w" by (rule view_eq_s3 [OF store_put_frame(1) [OF put]])
  show ?thesis
  proof (cases "e = None")
    case True
    then have view: "backup_view E v = (backup_view E w)(b_id q \<mapsto> q)" using l by simp
    show ?thesis by (rule evolves_put [OF c conjunct1 [OF l] cf s view old q anch swp names])
  next
    case False
    with l show ?thesis by (intro evolves_view [OF c _ cf s]) simp_all
  qed
qed

lemma running_not_anchored: "running_record r \<Longrightarrow> \<not> anchored r \<and> \<not> sweepable r"
  by (auto simp: running_record_def anchored_def sweepable_def)

lemma sweepable_named: "calm E cfg w \<Longrightarrow> backup_view E w i = Some r \<Longrightarrow> sweepable r \<Longrightarrow> b_file_name r \<noteq> ''''"
  using sweep_readyD(1) [OF calmD(3)] by blast

lemma free_keyD: "free_key E w key \<Longrightarrow> backup_view E w i = Some r \<Longrightarrow> anchored r \<Longrightarrow>
    \<not> has_prefix key (b_file_name r) \<and> b_file_name r \<noteq> key"
  using has_prefix_refl unfolding free_key_def by metis

lemma upload_keeps:
  assumes aws: "aws_ok E" and c: "calm E cfg w" and f: "free_key E w key"
    and u: "s3_upload E (adapter_of cfg) key st w = (x, v)"
  shows "evolves E cfg w v"
proof -
  obtain ru n where x: "x = (ru, n)" by fastforce
  note ul = storage.upload_law [OF aws u [unfolded x]] and fr = s3_ops_frame(5) [OF u]
  let ?S = "s3_view E (adapter_of cfg)"
  have d: "db v = db w" using fr by simp
  have named: "?S v (b_file_name r) = ?S w (b_file_name r)" if "backup_view E w i = Some r" "anchored r" for i r
  proof -
    have "b_file_name r \<noteq> key" using free_keyD [OF f that] by simp
    then show ?thesis using ul by simp
  qed
  have "only_itself E cfg v (b_file_name r)" if r: "backup_view E w i = Some r" "anchored r" for i r
    unfolding only_itself_def
  proof (intro allI impI)
    fix y assume y: "?S v y \<noteq> None" "has_prefix y (b_file_name r)"
    with f r have "y \<noteq> key" by (auto simp: free_key_def)
    with ul y(1) have "?S w y \<noteq> None" by simp
    with calmD(5) [OF c r] y(2) show "y = b_file_name r" unfolding only_itself_def by blast
  qed
  then have cv: "calm E cfg v" by (rule calm_objects [OF c d])
  have comp: "completed_fulls E v k = completed_fulls E w k" for k by (rule seen_same(2) [OF d])
  have rest: "restorable_fulls E cfg v k = restorable_fulls E cfg w k" for k
    using named [OF completed_anchored(2,1) [OF c, of _ k]] unfolding restorable_fulls_def comp
    by (intro Collect_cong conj_cong) simp_all
  show ?thesis
    unfolding evolves_def newer_def rest comp seen_same(1) [OF d]
    using c cv named by (auto intro!: exI)
qed

lemma discard_keeps:
  assumes aws: "aws_ok E" and c: "calm E cfg w" and f: "free_key E w key"
    and d: "s3_delete E (adapter_of cfg) key w = (x, v)"
  shows "evolves E cfg w v"
proof (rule evolves_remove [OF c, where f = key])
  note rl = storage.remove_law [OF aws d]
  show "db v = db w" using s3_ops_frame(3) [OF d] by simp
  show "s3_view E (adapter_of cfg) v y = s3_view E (adapter_of cfg) w y" if "y \<noteq> key" for y
    using rl that by auto
  show "s3_view E (adapter_of cfg) v key = None \<or> s3_view E (adapter_of cfg) v key = s3_view E (adapter_of cfg) w key"
    using rl by auto
  fix k r assume r: "r \<in> completed_fulls E w k" "b_file_name r = key"
  with free_keyD [OF f completed_anchored(2,1) [OF c r(1)]]
  show "s3_view E (adapter_of cfg) v key = s3_view E (adapter_of cfg) w key \<or>
      MinVerifiedFullBackups \<le> card (newer E cfg w k (b_started r))" by simp
qed

lemma save_keeps:
  assumes "calm E cfg w" "running_record r" "b_id r \<noteq> ''''" "backup_view E w (b_id r) = None" "br_save E r w = (e, v)"
  shows "evolves E cfg w v"
proof (rule evolves_save [OF assms(1,5)])
  show "b_id r \<noteq> ''''" "is_full r \<longrightarrow> b_parent r = ''''" using assms(2,3) by (simp_all add: running_record_def)
  fix j p assume "backup_view E w j = Some p" "sweepable p \<or> sweepable r"
  with sweepable_named [OF assms(1)] running_not_anchored [OF assms(2)] have "b_file_name p \<noteq> ''''" by blast
  with assms(2) show "b_file_name p \<noteq> b_file_name r" by (simp add: running_record_def)
qed (use assms(4) running_not_anchored [OF assms(2)] in simp_all)

lemma complete_keeps:
  assumes c: "calm E cfg w" and r: "running_record r" and u: "unclaimed E cfg w (Complete r key sz h t)"
    and p: "br_update E (completed_record r key sz h t) w = (e, v)"
  shows "evolves E cfg w v"
proof -
  let ?q = "completed_record r key sz h t"
  from u obtain q where q: "backup_view E w (b_id r) = Some q" "same_origin q r" "b_started q = b_started r"
    "b_file_name q = ''''" by auto
  have sel: "b_id ?q = b_id r" "b_file_name ?q = key" "b_started ?q = b_started r" "is_full ?q = is_full r"
    "b_parent ?q = b_parent r" "group_key ?q = group_key r" "same_origin ?q r"
    by (simp_all add: completed_record_def is_full_def group_key_def same_origin_def)
  have s: "br_save E ?q w = (e, v)" using p by (simp add: br_update_def br_save_def)
  show ?thesis
  proof (rule evolves_save [OF c s])
    fix x assume "backup_view E w (b_id ?q) = Some x"
    with q(1) have x: "x = q" by (simp add: sel(1))
    have "later_version ?q q"
      using q(2-4) sel by (simp add: later_version_def same_origin_def)
    moreover have "\<not> sweepable q" using sweepable_named [OF c q(1)] q(4) by blast
    ultimately show "later_version ?q x \<and> \<not> sweepable x" unfolding x ..
  next
    show "b_id ?q \<noteq> ''''" using q(1) calmD(3) [OF c] sel(1) by (auto simp: sweep_ready_def)
  qed (use r u sel in \<open>auto simp: running_record_def\<close>)
qed

lemma fail_keeps:
  assumes c: "calm E cfg w" and u: "unclaimed E cfg w (Fail rid x)"
  shows "evolves E cfg w (mark_failed E rid x w)"
proof (cases "br_find_by_id E rid w")
  case (Inl e)
  then show ?thesis using evolves_refl [OF c] by (simp add: mark_failed_def br_update_status_def)
next
  case (Inr r)
  then have v: "backup_view E w rid = Some r" by (simp add: backups.get_view [OF calmD(1) [OF c]])
  have id: "b_id r = rid" by (rule backups.view_key [OF calmD(1) [OF c] v])
  obtain t w1 where n: "now E w = (t, w1)" by fastforce
  let ?q = "with_end t (with_status StatusFailed (err_text x) r)"
  have lv: "later_version ?q r" and q: "b_id ?q = rid" "\<not> sweepable ?q" "\<not> anchored ?q" "b_file_name ?q = ''''"
    "is_full ?q = is_full r" "b_parent ?q = b_parent r"
    using u v id by (simp_all add: with_end_def with_status_def later_version_def same_origin_def sweepable_def
        anchored_def is_full_def)
  obtain e v1 where s: "br_save E ?q w1 = (e, v1)" by fastforce
  then have m: "mark_failed E rid x w = v1"
    using Inr n by (simp add: mark_failed_def br_update_status_def br_save_def q(1))
  note e1 = now_keeps [OF c n] and v1 = view_eq_db [OF now_frame(1) [OF n], of E]
  have "evolves E cfg w1 v1"
  proof (rule evolves_save [OF evolvesD(2) [OF e1] s])
    have "\<not> sweepable r" using sweepable_named [OF c v] u v by auto
    then show "later_version ?q y \<and> \<not> sweepable y" if "backup_view E w1 (b_id ?q) = Some y" for y
      using that v lv by (simp add: v1 q(1))
    show "b_id ?q \<noteq> ''''" "is_full ?q \<longrightarrow> b_parent ?q = ''''"
      using v calmD(3) [OF c] by (auto simp: q sweep_ready_def)
    show "b_file_name p \<noteq> b_file_name ?q" if "backup_view E w1 j = Some p" "sweepable p \<or> sweepable ?q" for j p
      using that sweepable_named [OF c] q(2,4) by (auto simp: v1)
  qed (use q(2,3) in simp_all)
  with e1 show ?thesis unfolding m by (rule evolves_trans)
qed

lemma backup_act_keeps:
  assumes aws: "aws_ok E" and c: "calm E cfg w" and o: "act_ok E (adapter_of cfg) x" and u: "unclaimed E cfg w x"
  shows "evolves E cfg w (do_act E (adapter_of cfg) x w)"
proof (cases x)
  case (Save r)
  then show ?thesis using save_keeps [OF c _ _ _ surjective_pairing] o u by simp
next
  case (Upload key st)
  then show ?thesis using upload_keeps [OF aws c _ surjective_pairing] u by simp
next
  case (Discard key)
  then show ?thesis using discard_keeps [OF aws c _ surjective_pairing] u by simp
next
  case (Complete r key sz h t)
  then show ?thesis using complete_keeps [OF c _ _ surjective_pairing] o u by simp
next
  case (Fail rid e)
  then show ?thesis using fail_keeps [OF c] u by simp
next
  case (Other f)
  then show ?thesis using evolves_quiet [OF c] o by simp
qed

section \<open>Retention and backups take turns\<close>

text \<open>
  The first n threads are retention; every action of another is one a backup does, on what is its own.
\<close>

inductive busy_step :: "('d, 's, 'm) env \<Rightarrow> s3_config \<Rightarrow> nat \<Rightarrow> (('d, 's, 'm) sys, 'a) thread list \<times> ('d, 's, 'm) sys \<Rightarrow>
    (('d, 's, 'm) sys, 'a) thread list \<times> ('d, 's, 'm) sys \<Rightarrow> bool" for E cfg n where
  act: "i < length ts \<Longrightarrow> ts ! i = Act u k \<Longrightarrow>
    i < n \<or> (\<exists>x. act_ok E (adapter_of cfg) x \<and> u = do_act E (adapter_of cfg) x \<and> unclaimed E cfg w x) \<Longrightarrow>
    busy_step E cfg n (ts, w) (ts [i := k w], u w)"

lemma busy_kept_step:
  assumes aws: "aws_ok E" and s: "busy_step E cfg n (ts, w) (us, v)"
    and k: "\<forall>i < length ts. i < n \<longrightarrow> kept (evolves E cfg) Q (ts ! i) w" and c: "calm E cfg w"
  shows "evolves E cfg w v \<and> length us = length ts \<and> (\<forall>i < length us. i < n \<longrightarrow> kept (evolves E cfg) Q (us ! i) v)"
  using s
proof cases
  case (act i u f)
  have e: "evolves E cfg w v \<and> (i < n \<longrightarrow> kept (evolves E cfg) Q (f w) v)"
  proof (cases "i < n")
    case True
    with k act have "kept (evolves E cfg) Q (Act u f) w" by metis
    with evolves_refl [OF c] act show ?thesis by simp
  next
    case False
    with act(5) obtain x where "act_ok E (adapter_of cfg) x" "u = do_act E (adapter_of cfg) x" "unclaimed E cfg w x"
      by blast
    with backup_act_keeps [OF aws c] act False show ?thesis by simp
  qed
  have "kept (evolves E cfg) Q (us ! j) v" if "j < length us" "j < n" for j
  proof (cases "j = i")
    case False
    with that act k have "kept (evolves E cfg) Q (us ! j) w" by simp
    then show ?thesis by (rule goroutines.kept_later) (use e in simp)
  qed (use that e act in simp)
  with e act show ?thesis by simp
qed

lemma busy_kept:
  assumes "aws_ok E" "(busy_step E cfg n)\<^sup>*\<^sup>* (ts, w) (us, v)"
    "\<forall>i < length ts. i < n \<longrightarrow> kept (evolves E cfg) Q (ts ! i) w" "calm E cfg w"
  shows "evolves E cfg w v \<and> (\<forall>i < length us. i < n \<longrightarrow> kept (evolves E cfg) Q (us ! i) v)"
  using assms(2)
proof (induction rule: rtranclp_induct2)
  case refl
  then show ?case using assms(3) evolves_refl [OF assms(4)] by simp
next
  case (step us1 v1 us2 v2)
  then have i: "evolves E cfg w v1" "\<forall>i < length us1. i < n \<longrightarrow> kept (evolves E cfg) Q (us1 ! i) v1" by simp_all
  from busy_kept_step [OF assms(1) step(2) i(2) evolvesD(2) [OF i(1)]] i(1) show ?case using evolves_trans by blast
qed

lemma pool_busy:
  assumes "pool_step\<^sup>*\<^sup>* (ts, w) (us, v)" "length ts \<le> n"
  shows "(busy_step E cfg n)\<^sup>*\<^sup>* (ts, w) (us, v) \<and> length us = length ts"
  using assms(1)
proof (induction rule: rtranclp_induct2)
  case (step us1 v1 us2 v2)
  then have l: "length us1 \<le> n" using assms(2) by simp
  from step(2) have "busy_step E cfg n (us1, v1) (us2, v2)"
    by cases (use l in \<open>auto intro!: busy_step.act\<close>)
  with step show ?case using pool_step_length [OF step(2)] by auto
qed simp

lemma finite_below: "finite (S :: int set) \<Longrightarrow> \<exists>t. \<forall>s \<in> S. t < s"
  by (rule exI [of _ "Min S - 1"], rule ballI, drule (1) Min_le) simp

section \<open>Properties\<close>

text \<open>
  C3. The golden rule holds while retention runs more than once at the same time, as the one of the start next to the
  daily job, and while backups are made: whatever the order in which their calls of the database and of the store are made,
  at every moment and for every instance and database of SQL Server, each full that could be restored
  still can, or at least two can. A backup's identifier, key and moment must be its own.
\<close>

theorem golden_rule_interleaved:
  assumes "aws_ok E" "storage_opens E cfg" "calm E cfg w"
    and "(busy_step E cfg n)\<^sup>*\<^sup>* (replicate n (apply_retention_t E) @ others, w) (us, v)"
  shows "calm E cfg v \<and> (restorable_fulls E cfg w k \<subseteq> restorable_fulls E cfg v k \<or>
    MinVerifiedFullBackups \<le> card (restorable_fulls E cfg v k))"
proof -
  let ?ts = "replicate n (apply_retention_t E) @ others"
  have "\<forall>i < length ?ts. i < n \<longrightarrow> kept (evolves E cfg) (\<lambda>_ _. True) (?ts ! i) w"
    using apply_retention_kept [OF assms(1,2)] by (simp add: nth_append)
  from busy_kept [OF assms(1,4) this assms(3)] have e: "evolves E cfg w v" ..
  have fin: "finite (restorable_fulls E cfg x k)" if "calm E cfg x" for x
    by (rule finite_restorable [OF calmD(1) [OF that]])
  obtain t where "\<forall>s \<in> b_started ` (restorable_fulls E cfg w k \<union> restorable_fulls E cfg v k). t < s"
    using finite_below [of "b_started ` (restorable_fulls E cfg w k \<union> restorable_fulls E cfg v k)"] fin evolvesD(1,2) [OF e]
    by auto
  then have "newer E cfg w k t = restorable_fulls E cfg w k" "newer E cfg v k t = restorable_fulls E cfg v k"
    by (auto simp: newer_def)
  with evolvesD(2,6) [OF e] show ?thesis by metis
qed

section \<open>Witnesses\<close>

lemma ex_calm: "calm ref_env ex_cfg (ex_sys [] ex_chain t)"
proof -
  have v: "r \<in> set ex_chain \<and> b_id r = i" if "backup_view ref_env (ex_sys [] ex_chain t) i = Some r" for i r
    using that map_of_SomeD [of "map (\<lambda>r. (b_id r, r)) ex_chain" i r] by (auto simp: ex_backup_view)
  have "only_itself ref_env ex_cfg (ex_sys [] ex_chain t) (b_file_name r)" if "r \<in> set ex_chain" for r
    using that by (auto simp: only_itself_def ex_s3_view ex_chain_def)
  moreover have "r = q" if "r \<in> set ex_chain" "q \<in> set ex_chain" "b_started r = b_started q" for r q
    using that by (auto simp: ex_chain_def ns_per_day_def)
  moreover have "r \<in> set ex_chain" if "r \<in> completed_fulls ref_env (ex_sys [] ex_chain t) k" for r k
    using that v by (auto simp: completed_fulls_def)
  ultimately show ?thesis
    unfolding calm_def using ex_backups_wf ex_s3cfg ex_chain_ready v by blast
qed


text \<open>The daily job and the retention of the start, call by call in turn, delete the oldest of three fulls.\<close>

definition ex_turns :: "nat list" where
  "ex_turns = concat (replicate 24 [0, 1])"

definition ex_pool where
  "ex_pool = (replicate 2 (apply_retention_t ref_env) @ [], ex_sys [] ex_chain (10 * ns_per_day))"

lemma ex_both_end:
  "case follow ex_turns ex_pool of (ts, v) \<Rightarrow>
     map (\<lambda>t. case t of Ret x \<Rightarrow> Some (fst x) | Act u k \<Rightarrow> None) ts = [Some 1, Some 1] \<and>
     backup_view ref_env v ''a'' \<noteq> Some (ex_record ''a'' ''a.bak'' BackupTypeFull '''' ns_per_day)"
  by code_simp

theorem golden_rule_interleaved_witness:
  "\<exists>us v. pool_step\<^sup>*\<^sup>* ex_pool (us, v) \<and> (\<forall>t \<in> set us. \<exists>x. t = Ret (1, x)) \<and>
    ex_record ''a'' ''a.bak'' BackupTypeFull '''' ns_per_day \<notin> restorable_fulls ref_env ex_cfg v (''i1'', ''db'') \<and>
    MinVerifiedFullBackups \<le> card (restorable_fulls ref_env ex_cfg v (''i1'', ''db''))"
proof -
  let ?w = "ex_sys [] ex_chain (10 * ns_per_day)"
  let ?a = "ex_record ''a'' ''a.bak'' BackupTypeFull '''' ns_per_day"
  let ?k = "(''i1'', ''db'')"
  obtain us v where f: "follow ex_turns ex_pool = (us, v)" by fastforce
  with ex_both_end have r: "map (\<lambda>t. case t of Ret x \<Rightarrow> Some (fst x) | Act u k \<Rightarrow> None) us = [Some 1, Some 1]"
    and a: "?a \<notin> restorable_fulls ref_env ex_cfg v ?k"
    by (simp_all add: restorable_fulls_def completed_fulls_def)
  have "\<exists>x. t = Ret (1, x)" if "t \<in> set us" for t
  proof -
    have "(case t of Ret x \<Rightarrow> Some (fst x) | Act u k \<Rightarrow> None) \<in> set [Some 1, Some (1 :: nat)]"
      unfolding r [symmetric] using that by simp
    then show ?thesis by (cases t) auto
  qed
  moreover have p: "pool_step\<^sup>*\<^sup>* ex_pool (us, v)" using follow_reaches [of ex_pool ex_turns] by (simp add: f)
  moreover have b: "(busy_step ref_env ex_cfg 2)\<^sup>*\<^sup>* (replicate 2 (apply_retention_t ref_env) @ [], ?w) (us, v)"
    using pool_busy [OF p [unfolded ex_pool_def]] by simp
  moreover have "?a \<in> restorable_fulls ref_env ex_cfg ?w ?k"
    by (simp add: restorable_fulls_def completed_fulls_def ex_backup_view ex_s3_view ex_chain_def sweepable_def
        is_full_def group_key_def)
  then have "MinVerifiedFullBackups \<le> card (restorable_fulls ref_env ex_cfg v ?k)"
    using golden_rule_interleaved [OF aws_ok_ref_env _ ex_calm b, of ?k] a
    by (auto simp: storage_opens_def ex_storage)
  ultimately show ?thesis using a by blast
qed

section \<open>A log that outlives its full\<close>

text \<open>
  While a log backup runs, its full is deleted: the cascade finds the log without a file name, marks it expired and
  deletes no object. The backup then completes its record all the same: a completed log, its object in the
  store, chained to an expired full without one. No run of retention deletes it any more, since logs go with
  their fulls only.
\<close>

definition ex_late_log where
  "ex_late_log =
     ([after_that (backup_database_t ref_env (ex_instance ''srv'' EngineSQLServer) ''db'' BackupTypeLog ''a''
         (sqlserver_backup_log ref_env \<lparr>q_driver = ''sqlserver'', q_dsn = ''''\<rparr> (ex_instance ''srv'' EngineSQLServer))
         (adapter_of ex_cfg) 3) Ret,
       delete_backup_t ref_env ''a''], ex_sys [] ex_chain 0)"

theorem log_outlives_its_full:
  "case follow (replicate 6 0 @ replicate 13 1 @ replicate 7 0) ex_late_log of (ts, v) \<Rightarrow>
     map (\<lambda>t. case t of Ret x \<Rightarrow> Some (x = None) | Act u k \<Rightarrow> None) ts = [Some True, Some True] \<and>
     (case br_find_all ref_env v of
        Inl e \<Rightarrow> False
      | Inr rs \<Rightarrow>
          list_ex (\<lambda>r. b_id r = ''a'' \<and> b_status r = StatusExpired \<and>
            \<not> fst (exists_in_s3 ref_env (adapter_of ex_cfg) (b_file_name r) v)) rs \<and>
          list_ex (\<lambda>r. b_id r = ''id-0'' \<and> b_parent r = ''a'' \<and> b_status r = StatusCompleted \<and>
            fst (exists_in_s3 ref_env (adapter_of ex_cfg) (b_file_name r) v)) rs)"
  by code_simp

end
