(* ===== verification/Typed_Store.thy ===== *)
theory Typed_Store
  imports Program
begin

text \<open>
  The database stays typed: each bucket holds encodings of its own entity only, each under the key its entity names.
  \<open>store_writes\<close> is the contract of a relation that every write of every repository keeps; then every use
  case, every command of the interface and every step of the program keeps it. It extends the contract of the
  jobs (\<open>record_writes\<close> of Scheduler), and is interpreted on \<open>db_wf\<close>.
\<close>

lemma sync_db: "sync_with_retention E w = (x, w') \<Longrightarrow> db w' = db w"
  and delete_rule_db: "delete_rule E rid w = (x, w') \<Longrightarrow> db w' = db w"
proof -
  have f: "get_lifecycle_rules E a w = (x, w') \<Longrightarrow> db w' = db w" "put_lifecycle_rules E a rs w = (e, w') \<Longrightarrow> db w' = db w"
    "lifecycle_manager E w = (y, w') \<Longrightarrow> db w' = db w" for a w x w' rs e y
    using rules_frame(1) [of E a w] rules_frame(2) [of E a rs w] rules_frame(3) [of E w] by simp_all
  show "sync_with_retention E w = (x, w') \<Longrightarrow> db w' = db w"
    by (auto simp: sync_with_retention_def split: prod.splits sum.splits dest!: f)
  show "delete_rule E rid w = (x, w') \<Longrightarrow> db w' = db w"
    by (auto simp: delete_rule_def split: prod.splits sum.splits dest!: f)
qed

section \<open>What every write keeps, the program keeps\<close>

locale store_writes = record_writes +
  assumes instance_law: "P w (snd (inst_save E i w))"
    and instance_delete_law: "P w (snd (inst_delete E k w))"
    and restore_law: "P w (snd (rr_save E rr w))"
    and policy_law: "P w (snd (pol_save E p w))"
    and s3_law: "P w (snd (s3cfg_save E c w))"
    and schedule_law: "P w (snd (sched_save E sc w))"
begin

lemma puts:
  "inst_save E i w = (x, w') \<Longrightarrow> P w w'" "inst_delete E k w = (x, w') \<Longrightarrow> P w w'"
  "rr_save E rr w = (x, w') \<Longrightarrow> P w w'" "pol_save E p w = (x, w') \<Longrightarrow> P w w'"
  "s3cfg_save E c w = (x, w') \<Longrightarrow> P w w'" "sched_save E sc w = (x, w') \<Longrightarrow> P w w'"
  using instance_law [of w i] instance_delete_law [of w k] restore_law [of w rr] policy_law [of w p] s3_law [of w c]
    schedule_law [of w sc] by simp_all

lemma keeps_create: "instance_create E i w = (x, w') \<Longrightarrow> P w w'"
  by (auto simp: instance_create_def Let_def split: option.splits prod.splits
      dest!: new_id_db now_db puts(1) intro: keeps_after)

lemma keeps_update: "instance_update E i w = (x, w') \<Longrightarrow> P w w'"
proof -
  have u: "P w w'" if "inst_update E i w = (x, w')" for i w x w'
    using that puts(1) [of i w x w'] by (auto simp: inst_update_def inst_save_def split: option.splits)
  show "instance_update E i w = (x, w') \<Longrightarrow> P w w'"
    by (auto simp: instance_update_def Let_def split: option.splits prod.splits dest!: now_db u intro: keeps_after)
qed

lemma keeps_policy: "retention_save E p w = (x, w') \<Longrightarrow> P w w'"
  by (auto simp: retention_save_def Let_def split: prod.splits if_splits dest!: now_db puts(4) intro: keeps_after)

lemma keeps_s3: "s3config_save E c w = (x, w') \<Longrightarrow> P w w'"
  by (auto simp: s3config_save_def split: if_splits prod.splits dest!: puts(5))

lemma keeps_schedule: "scheduler_uc_save E c w = (x, w') \<Longrightarrow> P w w'"
  by (auto simp: scheduler_uc_save_def split: prod.splits dest!: puts(6))

lemma keeps_start_restore: "start_restore_record E i d b w = (r, w') \<Longrightarrow> P w w'"
proof -
  obtain rid w1 where n: "new_id E w = (rid, w1)" by fastforce
  obtain t w2 where t: "now E w1 = (t, w2)" by fastforce
  have "db w2 = db w" using new_id_db [OF n] now_db [OF t] by simp
  from keeps_after [OF restore_law this]
  show "start_restore_record E i d b w = (r, w') \<Longrightarrow> P w w'"
    by (auto simp: start_restore_record_def Let_def n t)
qed

lemma keeps_finish_restore: "P w (finish_restore_record E r ids e w)"
proof -
  obtain t w1 where t: "now E w = (t, w1)" by fastforce
  from keeps_after [OF restore_law now_db [OF t]] show ?thesis
    by (simp add: finish_restore_record_def Let_def t rr_update_def rr_save_def)
qed

lemma chain_db: "apply_chain E i ad a dbn first cs ids w = (x, w') \<Longrightarrow> db w' = db w"
proof (induction cs arbitrary: first ids w x)
  case (Cons c cs)
  obtain rd w1 where d: "s3_download E a (b_file_name c) w = (rd, w1)" by fastforce
  note d1 = s3_ops_frame(2) [OF d]
  show ?case
    using Cons.prems d1 
    by (auto simp: d Let_def split: sum.splits if_splits prod.splits option.splits
        dest!: Cons.IH ad_restore_same sqlserver_restore_log_same dest: same_stores_db)
qed simp

lemma restore_chain_db: "restore_chain E i ad cfg dbn chain w = (x, w') \<Longrightarrow> db w' = db w"
  by (auto simp: restore_chain_def split: sum.splits prod.splits dest!: s3_new_frame(1) chain_db)

lemma keeps_restore: "restore_backup E bid tname dbn w = (x, w') \<Longrightarrow> P w w'"
proof -
  have attempt: "P w (finish_restore_record E rr ids e w3)"
    if "start_restore_record E target dbn bid w1 = (rr, w2)"
      "restore_chain E target ad cfg dbn chain w2 = ((ids, e), w3)" "db w1 = db w" for w1 w2 w3 rr target ad cfg chain ids e
    by (rule P_trans [OF keeps_then [OF keeps_after [OF keeps_start_restore [OF that(1)] that(3)]
          restore_chain_db [OF that(2)]] keeps_finish_restore])
  show "restore_backup E bid tname dbn w = (x, w') \<Longrightarrow> P w w'"
    by (auto simp: restore_backup_def Let_def split: sum.splits prod.splits if_splits
        dest!: new_adapter_same same_stores_db intro: same_db keeps_closed attempt)
qed

lemma keeps_restore_points: "restore_points E i ps w = (x, w') \<Longrightarrow> P w w'"
  by (induction ps arbitrary: w x) (auto split: prod.splits dest!: keeps_restore, blast intro: P_trans)

lemma keeps_restore_instances: "restore_instances E is w = (x, w') \<Longrightarrow> P w w'"
  by (induction "is" arbitrary: w x)
    (auto split: sum.splits prod.splits if_splits dest!: keeps_restore_points intro: P_trans)

lemma keeps_restore_all: "restore_all E c w = (x, w') \<Longrightarrow> P w w'"
  by (auto simp: restore_all_def split: sum.splits prod.splits if_splits dest!: keeps_restore_instances)

section \<open>The commands\<close>

lemma run_delete:
  "run_for_instance E iid bt w = (x, w') \<Longrightarrow> P w w'" "delete_backup E rid w = (x, w') \<Longrightarrow> P w w'"
  using keeps_run(1) [of w iid bt] keeps_delete_backup [of w rid] by simp_all

lemma keeps_in: "in_exec E c w = (m, w') \<Longrightarrow> P w w'"
  by (cases c) (auto simp: instance_delete_def split: prod.splits option.splits if_splits
      dest!: instance_test_db keeps_create keeps_update puts(2) run_delete(1) intro: same_db)

lemma keeps_bk: "bk_exec E c w = (m, w') \<Longrightarrow> P w w'"
  by (cases c) (auto split: prod.splits dest!: run_delete(2) keeps_restore keeps_restore_all)

lemma keeps_sf: "sf_exec E c w = (m, w') \<Longrightarrow> P w w'"
  by (cases c) (auto split: prod.splits dest!: keeps_s3 s3config_test_db intro: same_db)

lemma keeps_rt: "rt_exec E c (d, w) = (m, (d', w')) \<Longrightarrow> P w w'"
  by (cases c) (auto split: prod.splits sum.splits option.splits
      dest!: keeps_policy keeps_schedule get_rules_db sync_db delete_rule_db intro: same_db)

lemma keeps_exec: "ap_exec E c (d, w) = (m, (d', w')) \<Longrightarrow> P w w'"
  by (cases c) (auto split: prod.splits dest!: keeps_in keeps_bk keeps_sf keeps_rt)

lemma keeps_start_up: "start_up E w = (d, w') \<Longrightarrow> P w w'"
  using schedule_law [of w default_scheduler_config]
  by (auto simp: start_up_def ensure_schedule_def Let_def split: sum.splits)

lemma keeps_run_step: "run_step E host (d, w) (d', w') \<Longrightarrow> P w w'"
  by (auto elim!: run_stepE intro: keeps_job same_db)

lemma keeps_prog_step:
  assumes "prog_step U E host K p q"
  shows "P (pg_sys p) (pg_sys q)"
  using assms
proof cases
  case (command q1 x q2 m d w)
  then show ?thesis using keeps_exec [of x "pg_sched p" "pg_sys p" m d w] by simp
next
  case (background d w)
  then show ?thesis using keeps_run_step [of host "pg_sched p" "pg_sys p" d w] by simp
next
  case retain
  then show ?thesis using keeps_retention by (simp add: start_retention_def)
qed simp_all

lemma keeps_prog: "(prog_step U E host K)\<^sup>*\<^sup>* (prog_init U E w) p \<Longrightarrow> P w (pg_sys p)"
proof (induction rule: rtranclp_induct)
  case base
  then show ?case using keeps_start_up [of w] by (auto simp: prog_init_def split: prod.split)
next
  case (step p q)
  then show ?case using P_trans keeps_prog_step by blast
qed

end

section \<open>The buckets\<close>

text \<open>A write to one bucket: the others are as they were.\<close>

lemma db_wf_change:
  assumes "db_wf E w" "\<And>c. c \<noteq> b \<Longrightarrow> bolt_get E (db w') c = bolt_get E (db w) c"
    and "b = bucketBackupRecords \<Longrightarrow> backups_wf E w'" "b = bucketInstances \<Longrightarrow> instances_wf E w'"
    "b = bucketRestoreRecords \<Longrightarrow> restores_wf E w'" "b = bucketRetention \<Longrightarrow> policies_wf E w'"
    "b = bucketS3Config \<Longrightarrow> s3cfg_wf E w'" "b = bucketSchedulerConfig \<Longrightarrow> sched_wf E w'"
  shows "db_wf E w'"
proof -
  have o: "bucket_wf E c dec key w'" if "bucket_wf E c dec key w" "c \<noteq> b" for c dec key
    using that assms(2) [OF that(2)] by (simp add: bucket_wf_def)
  note d = assms(1) [unfolded db_wf_def wf_defs]
  show ?thesis
    unfolding db_wf_def
  proof (intro conjI)
    show "backups_wf E w'" using assms(3) o d unfolding wf_defs by blast
    show "instances_wf E w'" using assms(4) o d unfolding wf_defs by blast
    show "restores_wf E w'" using assms(5) o d unfolding wf_defs by blast
    show "policies_wf E w'" using assms(6) o d unfolding wf_defs by blast
    show "s3cfg_wf E w'" using assms(7) o d unfolding wf_defs by blast
    show "sched_wf E w'" using assms(8) o d unfolding wf_defs by blast
  qed
qed

lemma db_wf_put:
  assumes "db_wf E w" "store_put E b k x w = (r, w')"
    and "b = bucketBackupRecords \<Longrightarrow> backups_wf E w'" "b = bucketInstances \<Longrightarrow> instances_wf E w'"
    "b = bucketRestoreRecords \<Longrightarrow> restores_wf E w'" "b = bucketRetention \<Longrightarrow> policies_wf E w'"
    "b = bucketS3Config \<Longrightarrow> s3cfg_wf E w'" "b = bucketSchedulerConfig \<Longrightarrow> sched_wf E w'"
  shows "db_wf E w'"
  by (rule db_wf_change [OF assms(1) store_put_other_bucket [OF assms(2)]])
    (use assms(1,3-) in \<open>simp_all add: db_wf_def backups_wf_def bucket_wf_def\<close>)

lemma db_wf_same: "db w' = db w \<Longrightarrow> db_wf E w' = db_wf E w"
  by (simp add: db_wf_def wf_defs bucket_wf_def)

lemma save_wf:
  assumes "db_wf E w"
  shows "db_wf E (snd (br_save E r w))" "db_wf E (snd (inst_save E i w))" "db_wf E (snd (rr_save E rr w))"
    "db_wf E (snd (pol_save E p w))" "db_wf E (snd (s3cfg_save E c w))" "db_wf E (snd (sched_save E sc w))"
proof -
  have b: "backups_wf E w" "instances_wf E w" "restores_wf E w" "policies_wf E w" "s3cfg_wf E w" "sched_wf E w"
    using assms by (simp_all add: db_wf_def)
  have own: "backups_wf E (snd (br_save E r w))" "instances_wf E (snd (inst_save E i w))"
    "restores_wf E (snd (rr_save E rr w))" "policies_wf E (snd (pol_save E p w))"
    "s3cfg_wf E (snd (s3cfg_save E c w))" "sched_wf E (snd (sched_save E sc w))"
    using backups.put_law [OF b(1) surjective_pairing, of r] instances.put_law [OF b(2) surjective_pairing, of i]
      restores.put_law [OF b(3) surjective_pairing, of rr] policies.put_law [OF b(4) surjective_pairing, of p]
      s3cfg.put_law [OF b(5) surjective_pairing, of c] schedcfg.put_law [OF b(6) surjective_pairing, of sc]
    by simp_all
  note put = db_wf_put [OF assms surjective_pairing]
  show "db_wf E (snd (br_save E r w))"
    unfolding br_save_def by (rule put) (use own in \<open>simp_all add: bucket_defs br_save_def\<close>)
  show "db_wf E (snd (inst_save E i w))"
    unfolding inst_save_def by (rule put) (use own in \<open>simp_all add: bucket_defs inst_save_def\<close>)
  show "db_wf E (snd (rr_save E rr w))"
    unfolding rr_save_def by (rule put) (use own in \<open>simp_all add: bucket_defs rr_save_def\<close>)
  show "db_wf E (snd (pol_save E p w))"
    unfolding pol_save_def by (rule put) (use own in \<open>simp_all add: bucket_defs pol_save_def\<close>)
  show "db_wf E (snd (s3cfg_save E c w))"
    unfolding s3cfg_save_def by (rule put) (use own in \<open>simp_all add: bucket_defs s3cfg_save_def\<close>)
  show "db_wf E (snd (sched_save E sc w))"
    unfolding sched_save_def by (rule put) (use own in \<open>simp_all add: bucket_defs sched_save_def\<close>)
qed

lemma delete_wf:
  assumes "db_wf E w"
  shows "db_wf E (snd (inst_delete E k w))"
proof (rule db_wf_change [OF assms, where b = bucketInstances])
  have ok: "bolt_ok E" and wf: "instances_wf E w" using assms by (simp_all add: db_wf_def instances_wf_def bucket_wf_def)
  show "instances_wf E (snd (inst_delete E k w))"
    using instances.del_law [OF wf surjective_pairing] by (rule conjunct1)
  show "bolt_get E (db (snd (inst_delete E k w))) c = bolt_get E (db w) c" if "c \<noteq> bucketInstances" for c
    using store_delete_get [OF surjective_pairing ok, of bucketInstances k w] that
    by (cases "fst (store_delete E bucketInstances k w)") (auto simp: inst_delete_def)
qed (simp_all add: bucket_defs)

lemma status_wf:
  assumes "db_wf E w"
  shows "db_wf E (snd (br_update_status E rid st msg w))"
proof (cases "br_find_by_id E rid w")
  case (Inr r)
  have wf: "backups_wf E w" using assms by (simp add: db_wf_def)
  have id: "b_id r = rid" using Inr backups.get_view [OF wf] backups.view_key [OF wf] by blast
  obtain t w1 where n: "now E w = (t, w1)" by fastforce
  have w1: "db_wf E w1" using assms db_wf_same [OF now_db [OF n]] by simp
  have s: "db_wf E (snd (store_put E bucketBackupRecords rid (encode_backup q) u))" if "db_wf E u" "b_id q = rid" for q u
    using save_wf(1) [OF that(1), of q] that(2) by (simp add: br_save_def)
  show ?thesis
    using s [OF w1] s [OF assms] id by (simp add: br_update_status_def Inr n with_status_def with_end_def)
qed (use assms in \<open>simp add: br_update_status_def\<close>)

interpretation typed: store_writes E "\<lambda>w w'. db_wf E w \<longrightarrow> db_wf E w'" for E :: "('d, 's, 'm) env"
proof
  show "db_wf E w \<longrightarrow> db_wf E w'" if "db w' = db w" for w w' :: "('d, 's, 'm) sys" using db_wf_same [OF that] by blast
  show "db_wf E a \<longrightarrow> db_wf E c" if "db_wf E a \<longrightarrow> db_wf E b" "db_wf E b \<longrightarrow> db_wf E c" for a b c :: "('d, 's, 'm) sys"
    using that by blast
qed (simp_all add: save_wf delete_wf status_wf)

section \<open>Property\<close>

text \<open>
  C9. The database stays typed. Whatever the user presses (K may be every key), whatever commands, messages,
  jobs and retention come in any order, and however they fail: in every reachable state of the program each of
  the six buckets holds only encodings of its own entity, each under the key that entity names, if that was so
  when the program started. So no read of the program fails on what the program wrote.
\<close>

theorem database_stays_typed:
  assumes "db_wf E w" "(prog_step U E host K)\<^sup>*\<^sup>* (prog_init U E w) p"
  shows "db_wf E (pg_sys p)"
  using typed.keeps_prog [OF assms(2)] assms(1) by blast

lemma ex_db_wf: "db_wf ref_env (ex_sys ins rs t)"
proof -
  have e: "bolt_get ref_env (db (ex_sys ins rs t)) b k = None" if "b \<in> {bucketRestoreRecords, bucketRetention, bucketSchedulerConfig}" for b k
    using that by (auto simp: ex_sys_def ref_env_sel bucket_defs)
  have s: "bolt_get ref_env (db (ex_sys ins rs t)) bucketS3Config k = (if k = keyS3Config then Some (Json (ES3Config ex_cfg)) else None)" for k
    by (simp add: ex_sys_def ref_env_sel bucket_defs)
  have "restores_wf ref_env (ex_sys ins rs t)" "policies_wf ref_env (ex_sys ins rs t)" "sched_wf ref_env (ex_sys ins rs t)"
    by (simp_all add: restores_wf_def policies_wf_def sched_wf_def bucket_wf_def e)
  moreover have "s3cfg_wf ref_env (ex_sys ins rs t)"
    by (simp add: s3cfg_wf_def bucket_wf_def s decode_s3_config_def)
  ultimately show ?thesis using ex_backups_wf ex_instances_wf by (simp add: db_wf_def)
qed

theorem database_stays_typed_witness:
  "\<exists>p. (prog_step ref_ui ref_env ''h'' UNIV)\<^sup>*\<^sup>* (prog_init ref_ui ref_env (ex_sys [] ex_chain 5)) p \<and>
     pg_inbox p \<noteq> [] \<and> db_wf ref_env (pg_sys p)"
proof -
  let ?step = "prog_step ref_ui ref_env ''h'' UNIV"
  let ?p0 = "prog_init ref_ui ref_env (ex_sys [] ex_chain 5)"
  have "\<exists>q. pg_pending ?p0 = [] @ ApTickCmd # q"
    by (simp add: prog_init_def ap_init_def refresh_defs ap_new_def case_prod_beta)
  then obtain q where q: "pg_pending ?p0 = [] @ ApTickCmd # q" by blast
  let ?p1 = "?p0\<lparr>pg_pending := [] @ q, pg_inbox := pg_inbox ?p0 @ [ApTicked], pg_sched := pg_sched ?p0, pg_sys := pg_sys ?p0\<rparr>"
  let ?p2 = "?p1\<lparr>pg_sys := start_retention ref_env (pg_sys ?p1)\<rparr>"
  have "?step ?p0 ?p1" by (rule prog_step.command [OF q]) simp
  moreover have "?step ?p1 ?p2" by (rule prog_step.retain)
  ultimately have r: "?step\<^sup>*\<^sup>* ?p0 ?p2" by (meson rtranclp.rtrancl_refl rtranclp.rtrancl_into_rtrancl)
  from database_stays_typed [OF ex_db_wf r] r show ?thesis by (intro exI [of _ ?p2]) simp
qed

end
