(* ===== verification/Main_Go.thy ===== *)
theory Main_Go
  imports Typed_Store "HOL-Library.Word"
begin

unbundle bit_operations_syntax

text \<open>
  The function \<open>main\<close> of \<open>cmd/main.go\<close> with the opening of the database
  (\<open>adapters/persistence/bbolt/store.go\<close>): what is run, what is opened, and how the process ends. From
  there on the program is the one of the theory Program, or, without a terminal, the same with no user.
\<close>

section \<open>What the process is given\<close>

text \<open>
  \<open>bt_open\<close> opens or creates the database file of a path, \<open>bt_create\<close> is \<open>CreateBucketIfNotExists\<close>,
  \<open>bt_update\<close> is \<open>Update\<close>, which runs a function as a transaction, \<open>bt_buckets\<close> the buckets of a database;
  \<open>bt_append\<close> opens a file for appending and \<open>bt_stat\<close> gives the mode of the standard output.
\<close>

record ('d, 's, 'm) boot =
  bt_args :: "string list"
  bt_stdin :: "string list"
  bt_open :: "string \<Rightarrow> ('d, 's, 'm) sys \<Rightarrow> gerr option \<times> ('d, 's, 'm) sys"
  bt_create :: "string \<Rightarrow> 'd \<Rightarrow> gerr option \<times> 'd"
  bt_update :: "('d \<Rightarrow> gerr option \<times> 'd) \<Rightarrow> 'd \<Rightarrow> gerr option \<times> 'd"
  bt_buckets :: "'d \<Rightarrow> string set"
  bt_append :: "string \<Rightarrow> 'm \<Rightarrow> gerr option \<times> 'm"
  bt_stat :: "'m \<Rightarrow> 32 word res"

section \<open>Opening the database\<close>

fun create_buckets :: "('d, 's, 'm) boot \<Rightarrow> string list \<Rightarrow> 'd \<Rightarrow> gerr option \<times> 'd" where
  "create_buckets B [] d = (None, d)"
| "create_buckets B (b # bs) d =
     (case bt_create B b d of
        (Some e, d') \<Rightarrow> (Some (WrapErr (''crear bucket '' @ go_quote b @ '': '') e ''''), d')
      | (None, d') \<Rightarrow> create_buckets B bs d')"

definition store_init :: "('d, 's, 'm) boot \<Rightarrow> 'd \<Rightarrow> gerr option \<times> 'd" where
  "store_init B d = bt_update B (create_buckets B all_buckets) d"

definition store_open :: "('d, 's, 'm) boot \<Rightarrow> string \<Rightarrow> ('d, 's, 'm) sys \<Rightarrow> gerr option \<times> ('d, 's, 'm) sys" where
  "store_open B path w =
     (case bt_open B path w of
        (Some e, w1) \<Rightarrow> (Some (WrapErr (''no se pudo abrir bbolt en '' @ go_quote path @ '': '') e ''''), w1)
      | (None, w1) \<Rightarrow> (case store_init B (db w1) of (e, d) \<Rightarrow> (e, w1\<lparr>db := d\<rparr>)))"

section \<open>The process\<close>

text \<open>\<open>os.ModeCharDevice\<close> is the bit 21 of a file mode.\<close>

definition ModeCharDevice :: "32 word" where
  "ModeCharDevice = push_bit 21 1"

definition has_tty :: "('d, 's, 'm) boot \<Rightarrow> 'm \<Rightarrow> bool" where
  "has_tty B m = (case bt_stat B m of Inl e \<Rightarrow> False | Inr mode \<Rightarrow> mode AND ModeCharDevice \<noteq> 0)"

text \<open>What \<open>main\<close> itself writes to the standard error, with \<open>%v\<close> of an error at its end.\<close>

definition err_line :: "string \<Rightarrow> gerr \<Rightarrow> string" where
  "err_line s e = s @ err_text e @ [CHR 0x0A]"

text \<open>The log file, if one is named: the warning when it cannot be opened.\<close>

definition open_log :: "('d, 's, 'm) env \<Rightarrow> ('d, 's, 'm) boot \<Rightarrow> 'm \<Rightarrow> string list \<times> 'm" where
  "open_log E B m =
     (let logFile = env_or E m ''BACKIIE_LOG_FILE'' '''' in
      if logFile \<noteq> '''' then
        (case bt_append B logFile m of
           (None, m1) \<Rightarrow> ([], m1)
         | (Some e, m1) \<Rightarrow>
             ([err_line (''advertencia: no se pudo abrir log file '' @ go_quote logFile @ '': '') e], m1))
      else ([], m))"

text \<open>A process that has ended with an exit code, the service without a terminal, or the interface.\<close>

datatype ('u, 'd, 's, 'm) process =
    Exited nat
  | Service scheduler
  | Interface "('u, 'd, 's, 'm) prog"

definition main_go :: "'u ui \<Rightarrow> ('d, 's, 'm) env \<Rightarrow> ('d, 's, 'm) boot \<Rightarrow> ('d, 's, 'm) sys \<Rightarrow>
    ('u, 'd, 's, 'm) process \<times> string list \<times> ('d, 's, 'm) sys" where
  "main_go U E B w =
     (if 1 < length (bt_args B) \<and> bt_args B ! 1 = ''recover'' then
        (case run_recover E (bt_stdin B) w of (code, w1) \<Rightarrow> (Exited code, [], w1))
      else
        (case open_log E B (os w) of (warn, m) \<Rightarrow>
         (case store_open B (env_or E m ''BACKIIE_DB_PATH'' ''backiie.db'') (w\<lparr>os := m\<rparr>) of
            (Some e, w1) \<Rightarrow>
              (Exited 1, warn @ [err_line ''Error al abrir la base de datos: '' e], w1)
          | (None, w1) \<Rightarrow>
              (case start_up E w1 of (d, w2) \<Rightarrow>
                 if \<not> has_tty B (os w2) then (Service d, warn, w2)
                 else (Interface (prog_init U E w1), warn, w2)))))"

text \<open>
  The service: retention once at the start, then only the scheduler and the world, until a signal comes; the
  deferred calls stop the scheduler.
\<close>

inductive service_step :: "('d, 's, 'm) env \<Rightarrow> string \<Rightarrow> scheduler \<times> ('d, 's, 'm) sys \<Rightarrow>
    scheduler \<times> ('d, 's, 'm) sys \<Rightarrow> bool" for E host where
  job: "run_step E host x y \<Longrightarrow> service_step E host x y"
| retention: "service_step E host (d, w) (d, start_retention E w)"

text \<open>\<open>program.Run\<close> ended: with an error the process exits at once, and no deferred call runs.\<close>

definition interface_ends :: "gerr option \<Rightarrow> scheduler \<Rightarrow> nat \<times> string list \<times> scheduler" where
  "interface_ends e d =
     (case e of
        Some e \<Rightarrow> (1, [err_line ''Error en TUI: '' e], d)
      | None \<Rightarrow> (0, [], scheduler_stop d))"

definition service_ends :: "scheduler \<Rightarrow> nat \<times> scheduler" where
  "service_ends d = (0, scheduler_stop d)"

section \<open>What is relied on\<close>

text \<open>
  A transaction that does not succeed is rolled back. A bucket that was created exists, the others and the entries of all are as they were; putting and deleting entries
  of a bucket creates and removes none; opening the database touches neither the store nor what was observed.
\<close>

definition boot_ok :: "('d, 's, 'm) env \<Rightarrow> ('d, 's, 'm) boot \<Rightarrow> bool" where
  "boot_ok E B \<longleftrightarrow>
     (\<forall>f d e d'. bt_update B f d = (e, d') \<longrightarrow> (if e = None then f d = (None, d') else d' = d)) \<and>
     (\<forall>b d d'. bt_create B b d = (None, d') \<longrightarrow> bt_buckets B d' = insert b (bt_buckets B d) \<and>
        (\<forall>c \<in> set all_buckets. bolt_get E d' c = bolt_get E d c)) \<and>
     (\<forall>d k v. \<forall>b \<in> set all_buckets. bt_buckets B (snd (bolt_put E d b k v)) = bt_buckets B d) \<and>
     (\<forall>d k. \<forall>b \<in> set all_buckets. bt_buckets B (snd (bolt_delete E d b k)) = bt_buckets B d) \<and>
     (\<forall>p w e w'. bt_open B p w = (e, w') \<longrightarrow> s3 w' = s3 w \<and> events w' = events w)"

lemma boot_okD:
  assumes "boot_ok E B"
  shows "bt_create B b d = (None, d') \<Longrightarrow> bt_buckets B d' = insert b (bt_buckets B d)"
    "bt_create B b d = (None, d') \<Longrightarrow> c \<in> set all_buckets \<Longrightarrow> bolt_get E d' c = bolt_get E d c"
    "bolt_put E d c k v = (r, d') \<Longrightarrow> c \<in> set all_buckets \<Longrightarrow> bt_buckets B d' = bt_buckets B d"
    "bolt_delete E d c k = (r, d') \<Longrightarrow> c \<in> set all_buckets \<Longrightarrow> bt_buckets B d' = bt_buckets B d"
    "bt_open B p w = (e, w') \<Longrightarrow> s3 w' = s3 w \<and> events w' = events w"
    "bt_update B f d = (None, d') \<Longrightarrow> f d = (None, d')" "bt_update B f d = (Some x, d') \<Longrightarrow> d' = d"
  using assms unfolding boot_ok_def by (blast, blast, metis snd_conv, metis snd_conv, blast, fastforce, fastforce)

lemma create_buckets_effect:
  "boot_ok E B \<Longrightarrow> create_buckets B bs d = (None, d') \<Longrightarrow>
    bt_buckets B d' = set bs \<union> bt_buckets B d \<and> (\<forall>c \<in> set all_buckets. bolt_get E d' c = bolt_get E d c)"
  by (induction bs arbitrary: d) (auto split: prod.splits option.splits dest: boot_okD(1,2))

lemma store_init_effect:
  assumes "boot_ok E B" "store_init B d = (e, d')"
  shows "e = None \<Longrightarrow> bt_buckets B d' = set all_buckets \<union> bt_buckets B d" "e \<noteq> None \<Longrightarrow> d' = d"
    "c \<in> set all_buckets \<Longrightarrow> bolt_get E d' c = bolt_get E d c"
proof -
  have u: "bt_update B (create_buckets B all_buckets) d = (e, d')" using assms(2) by (simp add: store_init_def)
  show "e \<noteq> None \<Longrightarrow> d' = d" using u boot_okD(7) [OF assms(1)] by auto
  have n: "bt_buckets B d' = set all_buckets \<union> bt_buckets B d \<and> (\<forall>c \<in> set all_buckets. bolt_get E d' c = bolt_get E d c)"
    if "e = None"
    by (rule create_buckets_effect [OF assms(1) boot_okD(6) [OF assms(1)]]) (use u that in simp)
  then show "e = None \<Longrightarrow> bt_buckets B d' = set all_buckets \<union> bt_buckets B d" by simp
  show "bolt_get E d' c = bolt_get E d c" if "c \<in> set all_buckets"
    using n that boot_okD(7) [OF assms(1)] u by (cases e) auto
qed

lemma store_open_effect:
  assumes "boot_ok E B" "store_open B path w = (e, w')"
  shows "e = None \<Longrightarrow> set all_buckets \<subseteq> bt_buckets B (db w')"
    "c \<in> set all_buckets \<Longrightarrow> bolt_get E (db w') c = bolt_get E (db (snd (bt_open B path w))) c"
    "s3 w' = s3 w" "events w' = events w" "e \<noteq> None \<Longrightarrow> db w' = db (snd (bt_open B path w))"
  using assms by (auto simp: store_open_def split: prod.splits option.splits
      dest: store_init_effect [OF assms(1)] boot_okD(5) [OF assms(1)])

section \<open>No bucket is ever missing\<close>

abbreviation (input) same_buckets :: "('d, 's, 'm) env \<Rightarrow> ('d, 's, 'm) boot \<Rightarrow> ('d, 's, 'm) sys \<Rightarrow> ('d, 's, 'm) sys \<Rightarrow> bool" where
  "same_buckets E B w w' \<equiv> boot_ok E B \<longrightarrow> bt_buckets B (db w') = bt_buckets B (db w)"

lemma put_buckets: "b \<in> set all_buckets \<Longrightarrow> same_buckets E B w (snd (store_put E b k x w))"
  by (auto simp: store_put_def split: sum.split prod.split dest: boot_okD(3))

lemma delete_buckets: "b \<in> set all_buckets \<Longrightarrow> same_buckets E B w (snd (store_delete E b k w))"
  by (auto simp: store_delete_def split: prod.split dest: boot_okD(4))

lemma status_buckets: "same_buckets E B w (snd (br_update_status E rid st msg w))"
proof (cases "br_find_by_id E rid w")
  case (Inr r)
  obtain t w1 where n: "now E w = (t, w1)" by fastforce
  have d: "db w1 = db w" by (rule now_db [OF n])
  show ?thesis
    using put_buckets [of bucketBackupRecords E B _ _ w] put_buckets [of bucketBackupRecords E B _ _ w1] d
    by (simp add: all_buckets_def br_update_status_def Inr n)
qed (simp add: br_update_status_def)

interpretation buckets: store_writes E "same_buckets E B" for E :: "('d, 's, 'm) env" and B
proof
  show "same_buckets E B w w'" if "db w' = db w" for w w' :: "('d, 's, 'm) sys" using that by simp
  show "same_buckets E B u w" if "same_buckets E B u v" "same_buckets E B v w" for u v w :: "('d, 's, 'm) sys"
    using that by simp
  show "same_buckets E B w (snd (br_update_status E rid st msg w))" for w :: "('d, 's, 'm) sys" and rid st msg
    by (rule status_buckets)
qed (simp_all add: repo_ops all_buckets_def put_buckets delete_buckets)

section \<open>The service\<close>

lemma service_step_steps:
  assumes "(service_step E host)\<^sup>*\<^sup>* x y" "pg_sched p = fst x" "pg_sys p = snd x"
  shows "\<exists>q. (prog_step U E host {})\<^sup>*\<^sup>* p q \<and> pg_sched q = fst y \<and> pg_sys q = snd y"
  using assms(1)
proof (induction rule: rtranclp_induct)
  case base
  then show ?case using assms(2,3) by blast
next
  case (step y z)
  then obtain q where q: "(prog_step U E host {})\<^sup>*\<^sup>* p q" "pg_sched q = fst y" "pg_sys q = snd y" by blast
  from step(2) have "\<exists>r. prog_step U E host {} q r \<and> pg_sched r = fst z \<and> pg_sys r = snd z"
  proof cases
    case job
    have "prog_step U E host {} q (q\<lparr>pg_sched := fst z, pg_sys := snd z\<rparr>)"
      by (rule prog_step.background) (use job q in simp)
    then show ?thesis by (intro exI [of _ "q\<lparr>pg_sched := fst z, pg_sys := snd z\<rparr>"]) simp
  next
    case (retention d w)
    have "prog_step U E host {} q (q\<lparr>pg_sys := start_retention E (pg_sys q)\<rparr>)" by (rule prog_step.retain)
    with q retention show ?thesis by (intro exI [of _ "q\<lparr>pg_sys := start_retention E (pg_sys q)\<rparr>"]) simp
  qed
  with q(1) show ?case by (meson rtranclp.rtrancl_into_rtrancl)
qed

lemma main_go_started:
  assumes "main_go U E B w = (r, out, v)"
  shows "r = Interface p \<Longrightarrow> \<exists>w1. store_open B (env_or E (snd (open_log E B (os w))) ''BACKIIE_DB_PATH'' ''backiie.db'')
        (w\<lparr>os := snd (open_log E B (os w))\<rparr>) = (None, w1) \<and> p = prog_init U E w1 \<and> start_up E w1 = (pg_sched p, v)"
    "r = Service d \<Longrightarrow> \<exists>w1. store_open B (env_or E (snd (open_log E B (os w))) ''BACKIIE_DB_PATH'' ''backiie.db'')
        (w\<lparr>os := snd (open_log E B (os w))\<rparr>) = (None, w1) \<and> start_up E w1 = (d, v)"
  using assms
  by (auto simp: main_go_def prog_init_def split: if_splits prod.splits option.splits)

section \<open>Properties\<close>

text \<open>
  The service is the program without a user. Whatever the process does when it finds no terminal, jobs and
  retention in any order, the interface's program can do with no key pressed: after the same start, with
  the same scheduler and the same state of database, store and machine. So what is proved of every run of the
  program holds of the service too.
\<close>

theorem service_is_program_without_user:
  assumes "start_up E w = x" "(service_step E host)\<^sup>*\<^sup>* x (d, v)"
  shows "\<exists>p. (prog_step U E host {})\<^sup>*\<^sup>* (prog_init U E w) p \<and> pg_sched p = d \<and> pg_sys p = v"
proof -
  have "pg_sched (prog_init U E w) = fst x" "pg_sys (prog_init U E w) = snd x"
    using assms(1) by (auto simp: prog_init_def split: prod.splits)
  from service_step_steps [OF assms(2) this] show ?thesis by simp
qed

text \<open>
  C11. No bucket is ever missing. Once \<open>main\<close> has opened the database, each of the six buckets the repositories
  address exists in every reachable state, of the interface and of the service alike: \<open>tx.Bucket\<close> never
  gives the nil bucket on which every \<open>Get\<close>, \<open>Put\<close> and \<open>ForEach\<close> would panic. If
  \<open>main\<close> ends without starting, its exit code is 1, and the database is what it opened. This is for every command line
  but that of the command \<open>recover\<close>, which opens no database and ends with 0 when it succeeds or is
  not confirmed.
\<close>

theorem buckets_never_missing:
  assumes "boot_ok E B" "main_go U E B w = (r, out, v)" "\<not> (1 < length (bt_args B) \<and> bt_args B ! 1 = ''recover'')"
  shows "case r of
      Exited code \<Rightarrow> code = 1 \<and> out \<noteq> [] \<and>
        (\<exists>path m. db v = db (snd (bt_open B path (w\<lparr>os := m\<rparr>)))) \<and> s3 v = s3 w \<and> events v = events w
    | Interface p0 \<Rightarrow> (\<forall>host K p. (prog_step U E host K)\<^sup>*\<^sup>* p0 p \<longrightarrow> set all_buckets \<subseteq> bt_buckets B (db (pg_sys p)))
    | Service d \<Rightarrow> (\<forall>host d' u. (service_step E host)\<^sup>*\<^sup>* (d, v) (d', u) \<longrightarrow> set all_buckets \<subseteq> bt_buckets B (db u))"
proof -
  have o: "set all_buckets \<subseteq> bt_buckets B (db w1)" if "store_open B path u = (None, w1)" for path u w1
    using store_open_effect(1) [OF assms(1) that] by simp
  have run: "set all_buckets \<subseteq> bt_buckets B (db (pg_sys p))"
    if "set all_buckets \<subseteq> bt_buckets B (db w1)" "(prog_step U E host K)\<^sup>*\<^sup>* (prog_init U E w1) p" for w1 host K p
  proof -
    have "bt_buckets B (db (pg_sys p)) = bt_buckets B (db w1)"
      using buckets.keeps_prog [OF that(2), of B] assms(1) by (rule mp)
    then show ?thesis using that(1) by (simp only:)
  qed
  show ?thesis
  proof (cases r)
    case (Exited code)
    with assms(2,3) obtain path m e where x: "store_open B path (w\<lparr>os := m\<rparr>) = (Some e, v)" "code = 1" "out \<noteq> []"
      by (auto simp: main_go_def split: prod.splits option.splits if_splits)
    with store_open_effect(3-5) [OF assms(1) x(1)] Exited show ?thesis by auto
  next
    case (Interface p0)
    with main_go_started(1) [OF assms(2)] o run show ?thesis by fastforce
  next
    case (Service d)
    with main_go_started(2) [OF assms(2)] obtain w1 where s: "start_up E w1 = (d, v)"
      and w1: "set all_buckets \<subseteq> bt_buckets B (db w1)"
      using o by blast
    have "set all_buckets \<subseteq> bt_buckets B (db u)" if "(service_step E host)\<^sup>*\<^sup>* (d, v) (d', u)" for host d' u
    proof -
      have "pg_sched (prog_init U E w1) = fst (d, v)" "pg_sys (prog_init U E w1) = snd (d, v)"
        using s by (auto simp: prog_init_def split: prod.splits)
      from service_step_steps [OF that this, of U] obtain q where
        "(prog_step U E host {})\<^sup>*\<^sup>* (prog_init U E w1) q" "pg_sys q = u" by auto
      with run [OF w1] show ?thesis by blast
    qed
    with Service show ?thesis by simp
  qed
qed

section \<open>Witnesses\<close>

text \<open>
  The machine of the reference environment: a new database, whose buckets are the entries of its root, as in
  bbolt, and a standard output of a given mode.
\<close>

definition ref_boot :: "32 word \<Rightarrow> (ref_db, ref_s3, ref_os) boot" where
  "ref_boot mode =
     \<lparr>bt_args = [''backiie''], bt_stdin = [], bt_open = (\<lambda>p w. (None, w\<lparr>db := (\<lambda>b. [])\<rparr>)),
      bt_create = (\<lambda>b d. (None, d('''' := (b, RawBytes '''') # d ''''))), 
      bt_update = (\<lambda>f d. case f d of (None, d') \<Rightarrow> (None, d') | (Some e, d') \<Rightarrow> (Some e, d)),
      bt_buckets = (\<lambda>d. set (map fst (d ''''))), bt_append = (\<lambda>p m. (None, m)), bt_stat = (\<lambda>m. Inr mode)\<rparr>"

lemma root_no_bucket: "b \<in> set all_buckets \<Longrightarrow> b \<noteq> ''''"
  by (auto simp: all_buckets_def bucket_defs)

lemma ref_boot_ok: "boot_ok ref_env (ref_boot mode)"
  by (auto simp: boot_ok_def ref_boot_def ref_env_sel split: prod.splits option.splits dest: root_no_bucket)

lemma ref_terminal: "has_tty (ref_boot mode) m \<longleftrightarrow> mode AND ModeCharDevice \<noteq> 0"
  by (simp add: has_tty_def ref_boot_def)

lemma ref_opens: "\<exists>v. store_open (ref_boot mode) path w = (None, v)"
  by (simp add: store_open_def store_init_def ref_boot_def all_buckets_def)

theorem buckets_never_missing_witness:
  "\<exists>out v p. main_go ref_ui ref_env (ref_boot ModeCharDevice) (ex_sys [] [] 5) = (Interface p, out, v) \<and>
     (prog_step ref_ui ref_env ''h'' UNIV)\<^sup>*\<^sup>* p (p\<lparr>pg_sys := start_retention ref_env (pg_sys p)\<rparr>) \<and>
     ''restore_records'' \<in> bt_buckets (ref_boot ModeCharDevice) (db (start_retention ref_env (pg_sys p)))"
proof -
  have t: "has_tty (ref_boot ModeCharDevice) m" for m
    by (simp add: ref_terminal ModeCharDevice_def)
  have a: "\<not> (1 < length (bt_args (ref_boot ModeCharDevice)) \<and> bt_args (ref_boot ModeCharDevice) ! 1 = ''recover'')"
    by (simp add: ref_boot_def)
  obtain warn m where l: "open_log ref_env (ref_boot ModeCharDevice) (os (ex_sys [] [] 5)) = (warn, m)" by fastforce
  obtain v where o: "store_open (ref_boot ModeCharDevice) (env_or ref_env m ''BACKIIE_DB_PATH'' ''backiie.db'')
      ((ex_sys [] [] 5)\<lparr>os := m\<rparr>) = (None, v)"
    using ref_opens by blast
  obtain d u where s: "start_up ref_env v = (d, u)" by fastforce
  have r: "main_go ref_ui ref_env (ref_boot ModeCharDevice) (ex_sys [] [] 5) = (Interface (prog_init ref_ui ref_env v), warn, u)"
    using a unfolding main_go_def by (simp only: l o s if_False prod.case option.case t simp_thms)
  let ?p = "prog_init ref_ui ref_env v"
  have st: "(prog_step ref_ui ref_env ''h'' UNIV)\<^sup>*\<^sup>* ?p (?p\<lparr>pg_sys := start_retention ref_env (pg_sys ?p)\<rparr>)"
    by (rule r_into_rtranclp, rule prog_step.retain)
  have "set all_buckets \<subseteq> bt_buckets (ref_boot ModeCharDevice) (db (start_retention ref_env (pg_sys ?p)))"
    using buckets_never_missing [OF ref_boot_ok r a] st by fastforce
  then have "''restore_records'' \<in> bt_buckets (ref_boot ModeCharDevice) (db (start_retention ref_env (pg_sys ?p)))"
    by (auto simp: all_buckets_def bucket_defs)
  with r st show ?thesis by blast
qed

theorem service_is_program_without_user_witness:
  "\<exists>p. (prog_step ref_ui ref_env ''h'' {})\<^sup>*\<^sup>* (prog_init ref_ui ref_env (ex_sys [] ex_chain 5)) p \<and>
     pg_sched p = fst (start_up ref_env (ex_sys [] ex_chain 5)) \<and>
     pg_sys p = start_retention ref_env (snd (start_up ref_env (ex_sys [] ex_chain 5)))"
proof -
  obtain d w where s: "start_up ref_env (ex_sys [] ex_chain 5) = (d, w)" by fastforce
  have "(service_step ref_env ''h'')\<^sup>*\<^sup>* (d, w) (d, start_retention ref_env w)"
    by (rule r_into_rtranclp, rule service_step.retention)
  from service_is_program_without_user [OF s this] s show ?thesis by simp
qed

end
