(* ===== verification/Redis_Dump.thy ===== *)
theory Redis_Dump
  imports Adapters Lifecycle Example_System
begin

text \<open>
  What a Redis backup (\<open>adapters/database/redis/adapter.go\<close>) gives back. The values of DUMP are put into a
  JSON object and compressed. JSON strings are UTF-8: \<open>encoding/json\<close> writes the replacement character for each
  byte that is not part of a valid sequence, so the restore replays values of DUMP only if they are valid UTF-8.
\<close>

section \<open>Valid UTF-8\<close>

text \<open>U+FFFD, and what a Go string becomes as a JSON string and is read back as.\<close>

definition replacement :: string where
  "replacement = [CHR 0xEF, CHR 0xBF, CHR 0xBD]"

definition ascii :: "char \<Rightarrow> bool" where
  "ascii c = byte_in 0 0x7F c"

fun to_utf8 :: "string \<Rightarrow> string" where
  "to_utf8 [] = []"
| "to_utf8 (c # cs) =
     (let n = rune_length (c # cs)
      in (if n = 1 then (if ascii c then [c] else replacement) else take n (c # cs)) @ to_utf8 (drop (n - 1) cs))"

fun valid_utf8 :: "string \<Rightarrow> bool" where
  "valid_utf8 [] = True"
| "valid_utf8 (c # cs) =
     (let n = rune_length (c # cs) in (n = 1 \<longrightarrow> ascii c) \<and> valid_utf8 (drop (n - 1) cs))"

lemma rune_length_bounds: "s \<noteq> [] \<Longrightarrow> 0 < rune_length s \<and> rune_length s \<le> length s"
  by (auto simp: rune_length_def split: list.split)

text \<open>A sequence ends where its own bytes say, whatever follows.\<close>

lemma rune_length_pos [simp]: "0 < rune_length (c # cs)"
  using rune_length_bounds [of "c # cs"] by simp

lemma rune_length_eq:
  "rune_length (c # d # r) =
     (if byte_in 0xC2 0xDF c \<and> byte_in 0x80 0xBF d then 2
      else if r \<noteq> [] \<and> byte_in 0xE0 0xEF c \<and> second_ok c d \<and> byte_in 0x80 0xBF (hd r) then 3
      else if 1 < length r \<and> byte_in 0xF0 0xF4 c \<and> second_ok c d \<and> byte_in 0x80 0xBF (hd r) \<and> byte_in 0x80 0xBF (r ! 1)
      then 4 else 1)"
  by (cases r rule: list.exhaust [case_product list.exhaust [of "tl r"]]) (auto simp: rune_length_def split: list.split)

lemma byte_in_apart: "byte_in a b c \<Longrightarrow> byte_in a' b' c \<Longrightarrow> a' \<le> b \<and> a \<le> b'"
  by (auto simp: byte_in_def)

lemma rune_length_prefix:
  assumes "1 < rune_length s"
  shows "rune_length (take (rune_length s) s @ t) = rune_length s"
proof -
  from assms obtain c d r where s: "s = c # d # r"
    by (cases s rule: list.exhaust [case_product list.exhaust [of "tl s"]]) (auto simp: rune_length_def)
  consider (two) "byte_in 0xC2 0xDF c" "byte_in 0x80 0xBF d"
    | (three) e u where "r = e # u" "byte_in 0xE0 0xEF c" "second_ok c d" "byte_in 0x80 0xBF e"
    | (four) e f u where "r = e # f # u" "byte_in 0xF0 0xF4 c" "second_ok c d" "byte_in 0x80 0xBF e" "byte_in 0x80 0xBF f"
  proof -
    have "byte_in 0xC2 0xDF c \<and> byte_in 0x80 0xBF d \<or>
        (r \<noteq> [] \<and> byte_in 0xE0 0xEF c \<and> second_ok c d \<and> byte_in 0x80 0xBF (hd r)) \<or>
        (1 < length r \<and> byte_in 0xF0 0xF4 c \<and> second_ok c d \<and> byte_in 0x80 0xBF (hd r) \<and> byte_in 0x80 0xBF (r ! 1))"
      using assms unfolding s rune_length_eq by (auto split: if_splits)
    with that show thesis
      by (cases r rule: list.exhaust [case_product list.exhaust [of "tl r"]]) auto
  qed
  then show ?thesis
  proof cases
    case two
    then show ?thesis by (simp add: s rune_length_eq)
  next
    case three
    then show ?thesis using byte_in_apart [of _ _ c] by (auto simp: s rune_length_eq)
  next
    case four
    then show ?thesis using byte_in_apart [of _ _ c] by (auto simp: s rune_length_eq)
  qed
qed

lemma rune_length_replacement: "rune_length (CHR 0xEF # CHR 0xBF # CHR 0xBD # t) = 3"
  by (cases t) (simp_all add: rune_length_def byte_in_def second_ok_def)

lemma rune_length_ascii: "ascii c \<Longrightarrow> rune_length (c # t) = 1"
  by (auto simp: ascii_def rune_length_def byte_in_def split: list.split)

lemma valid_utf8_step:
  assumes "1 < rune_length s"
  shows "valid_utf8 (take (rune_length s) s @ t) = valid_utf8 t"
proof -
  obtain c cs where s: "s = c # cs" using assms by (cases s) (auto simp: rune_length_def)
  obtain n where n: "rune_length s = Suc n" using assms by (cases "rune_length s") auto
  have l: "n \<le> length cs" using rune_length_bounds [of s] by (simp add: s n [unfolded s])
  show ?thesis
    using rune_length_prefix [OF assms, of t] assms l by (simp add: s n [unfolded s] Let_def)
qed

lemma rune_length_Suc: "\<exists>n. rune_length (c # cs) = Suc n \<and> n \<le> length cs"
  using rune_length_bounds [of "c # cs"] by (cases "rune_length (c # cs)") auto

lemma to_utf8_valid: "valid_utf8 (to_utf8 s)"
proof (induction s rule: to_utf8.induct)
  case (2 c cs)
  obtain n where n: "rune_length (c # cs) = Suc n" "n \<le> length cs" using rune_length_Suc by blast
  have i: "valid_utf8 (to_utf8 (drop n cs))" using 2 n by simp
  show ?case
  proof (cases n)
    case 0
    with i n show ?thesis by (simp add: replacement_def rune_length_replacement rune_length_ascii)
  next
    case (Suc m)
    with i n valid_utf8_step [of "c # cs" "to_utf8 (drop n cs)"] show ?thesis by simp
  qed
qed simp

lemma to_utf8_grows: "length s \<le> length (to_utf8 s) \<and> (length (to_utf8 s) = length s \<longleftrightarrow> valid_utf8 s)"
proof (induction s rule: to_utf8.induct)
  case (2 c cs)
  obtain n where n: "rune_length (c # cs) = Suc n" "n \<le> length cs" using rune_length_Suc by blast
  have i: "length (drop n cs) \<le> length (to_utf8 (drop n cs))"
    "length (to_utf8 (drop n cs)) = length (drop n cs) \<longleftrightarrow> valid_utf8 (drop n cs)"
    using 2 n by simp_all
  show ?case
  proof (cases n)
    case 0
    with i n show ?thesis by (simp add: replacement_def)
  next
    case (Suc m)
    with i n show ?thesis by auto
  qed
qed simp

lemma to_utf8_id: "to_utf8 s = s \<longleftrightarrow> valid_utf8 s"
proof
  assume "valid_utf8 s" then show "to_utf8 s = s"
    by (induction s rule: to_utf8.induct) (auto simp: Let_def take_Cons' drop_Cons' split: if_splits)
qed (use to_utf8_grows [of s] in simp)

section \<open>What is relied on\<close>

text \<open>
  \<open>json.Marshal\<close> of a \<open>map[string]string\<close> and \<open>json.Unmarshal\<close> back: the strings come back as
  valid UTF-8; keys that become equal are one key, with the value of one of them. \<open>gzip\<close> gives back what
  was compressed.
\<close>

definition json_ok :: "('d, 's, 'm) env \<Rightarrow> bool" where
  "json_ok E \<longleftrightarrow>
     (\<forall>xs. distinct (map fst xs) \<longrightarrow>
        (\<exists>ys. json_unmap E (json_map E xs) = Inr ys \<and> distinct (map fst ys) \<and>
           fst ` set ys = to_utf8 ` fst ` set xs \<and>
           set ys \<subseteq> (\<lambda>(k, v). (to_utf8 k, to_utf8 v)) ` set xs))"

definition gzip_ok :: "('d, 's, 'm) env \<Rightarrow> bool" where
  "gzip_ok E \<longleftrightarrow>
     (\<forall>s. \<exists>st. gzip_open E (mem_stream (gzip_bytes E s)) = Inr st \<and> st_bytes st = s \<and> st_read_err st = None)"

text \<open>
  A Redis server nobody else writes to: SCAN and DUMP change nothing; the SCAN calls of an iteration, whenever the
  server still holds what it held, list the keys it holds and no other; DUMP gives the value of a key or fails;
  RESTORE with REPLACE sets one key or fails and changes nothing.
\<close>

definition redis_ok :: "('d, 's, 'm) env \<Rightarrow> bool" where
  "redis_ok E \<longleftrightarrow>
     (\<forall>r m scan m1. scan \<in> set (redis_scan E r m) \<longrightarrow> redis_view E r (snd (scan m1)) = redis_view E r m1) \<and>
     (\<forall>r m scan m1 ks. scan \<in> set (redis_scan E r m) \<longrightarrow> redis_view E r m1 = redis_view E r m \<longrightarrow>
        fst (scan m1) = Inr ks \<longrightarrow> set ks \<subseteq> dom (redis_view E r m)) \<and>
     (\<forall>r m k. k \<in> dom (redis_view E r m) \<longrightarrow>
        (\<exists>scan \<in> set (redis_scan E r m). \<forall>m1 ks. redis_view E r m1 = redis_view E r m \<longrightarrow>
           fst (scan m1) = Inr ks \<longrightarrow> k \<in> set ks)) \<and>
     (\<forall>r k m. redis_view E r (snd (redis_dump E r k m)) = redis_view E r m \<and>
        (\<forall>v. fst (redis_dump E r k m) = Inr v \<longrightarrow> redis_view E r m k = Some v)) \<and>
     (\<forall>r k v m. redis_view E r (snd (redis_restore E r k v m)) =
        (if fst (redis_restore E r k v m) = None then (redis_view E r m)(k \<mapsto> v) else redis_view E r m))"

lemma redis_ok_laws:
  assumes "redis_ok E"
  shows "scan \<in> set (redis_scan E r m) \<Longrightarrow> scan m1 = (x, m2) \<Longrightarrow> redis_view E r m2 = redis_view E r m1"
    and "scan \<in> set (redis_scan E r m) \<Longrightarrow> redis_view E r m1 = redis_view E r m \<Longrightarrow> scan m1 = (Inr ks, m2) \<Longrightarrow>
      set ks \<subseteq> dom (redis_view E r m)"
    and "k \<in> dom (redis_view E r m) \<Longrightarrow> \<exists>scan \<in> set (redis_scan E r m).
      \<forall>m1 ks m2. redis_view E r m1 = redis_view E r m \<longrightarrow> scan m1 = (Inr ks, m2) \<longrightarrow> k \<in> set ks"
    and "redis_dump E r k m = (d, m') \<Longrightarrow> redis_view E r m' = redis_view E r m \<and> (\<forall>v. d = Inr v \<longrightarrow> redis_view E r m k = Some v)"
    and "redis_restore E r k v m = (e, m') \<Longrightarrow>
      redis_view E r m' = (if e = None then (redis_view E r m)(k \<mapsto> v) else redis_view E r m)"
  using assms unfolding redis_ok_def by (metis fst_conv snd_conv)+

section \<open>What is dumped\<close>

text \<open>The DUMP calls of a backup, each with its reply, as long as the SCAN calls succeed.\<close>

fun key_replies :: "('d, 's, 'm) env \<Rightarrow> redis_opts \<Rightarrow> string list \<Rightarrow> 'm \<Rightarrow> (string \<times> string res) list \<times> 'm" where
  "key_replies E r [] m = ([], m)"
| "key_replies E r (k # ks) m =
     (case redis_dump E r k m of (x, m1) \<Rightarrow> (case key_replies E r ks m1 of (l, m2) \<Rightarrow> ((k, x) # l, m2)))"

fun dump_replies :: "('d, 's, 'm) env \<Rightarrow> redis_opts \<Rightarrow> ('m \<Rightarrow> string list res \<times> 'm) list \<Rightarrow> 'm \<Rightarrow>
    (string \<times> string res) list" where
  "dump_replies E r [] m = []"
| "dump_replies E r (scan # ps) m =
     (case scan m of
        (Inl e, m1) \<Rightarrow> []
      | (Inr ks, m1) \<Rightarrow> (case key_replies E r ks m1 of (l, m2) \<Rightarrow> l @ dump_replies E r ps m2))"

lemma map_put_keys: "distinct (map fst xs) \<Longrightarrow> distinct (map fst (map_put k v xs))"
  by (auto simp: map_put_def distinct_map_filter)

lemma map_put_sets: "fst ` set (map_put k v xs) = insert k (fst ` set xs)" "set (map_put k v xs) \<subseteq> insert (k, v) (set xs)"
  by (force simp: map_put_def)+

text \<open>A dump of a server with the contents V: the keys whose DUMP was answered, with the answers.\<close>

definition dump_of :: "(string \<rightharpoonup> string) \<Rightarrow> (string \<times> string res) list \<Rightarrow> (string \<times> string) list \<Rightarrow> bool" where
  "dump_of V l xs \<longleftrightarrow> distinct (map fst xs) \<and>
     (\<forall>k x. (k, x) \<in> set xs \<longleftrightarrow> (k, Inr x) \<in> set l) \<and> (\<forall>k x. (k, Inr x) \<in> set l \<longrightarrow> V k = Some x)"

lemma dump_of_put:
  assumes "dump_of V l acc" "V k = Some v"
  shows "dump_of V (l @ [(k, Inr v)]) (map_put k v acc)"
  using assms map_put_keys [of acc k v] unfolding dump_of_def by (auto simp: map_put_def)

lemma dump_of_skip: "dump_of V l acc \<Longrightarrow> dump_of V (l @ [(k, Inl e)]) acc"
  by (simp add: dump_of_def)

lemma dump_keys_of:
  assumes "redis_ok E" "dump_keys E r ks acc m = (xs, m')" "dump_of (redis_view E r m) l acc"
  shows "\<exists>l'. key_replies E r ks m = (l', m') \<and> fst ` set l' = set ks \<and> redis_view E r m' = redis_view E r m \<and>
    dump_of (redis_view E r m) (l @ l') xs"
  using assms(2,3)
proof (induction ks arbitrary: acc m l)
  case (Cons k ks)
  obtain d m1 where d: "redis_dump E r k m = (d, m1)" by fastforce
  note v = redis_ok_laws(4) [OF assms(1) d]
  define acc1 where "acc1 = (case d of Inl e \<Rightarrow> acc | Inr v \<Rightarrow> map_put k v acc)"
  have "dump_keys E r ks acc1 m1 = (xs, m')" using Cons.prems(1) d by (cases d) (simp_all add: acc1_def)
  moreover have "dump_of (redis_view E r m1) (l @ [(k, d)]) acc1"
    using Cons.prems(2) v dump_of_put dump_of_skip by (cases d) (auto simp: acc1_def)
  ultimately obtain l' where l': "key_replies E r ks m1 = (l', m')" "fst ` set l' = set ks"
    "redis_view E r m' = redis_view E r m1" "dump_of (redis_view E r m1) ((l @ [(k, d)]) @ l') xs"
    using Cons.IH by blast
  then show ?case using d v by (intro exI [of _ "(k, d) # l'"]) simp
qed auto

lemma dump_pages_of:
  assumes "redis_ok E" "dump_pages E r ps acc m = (Inr xs, m')" "dump_of V l acc" "redis_view E r m = V"
    and "set ps \<subseteq> set (redis_scan E r m0)" "redis_view E r m0 = V"
  shows "redis_view E r m' = V \<and> dump_of V (l @ dump_replies E r ps m) xs \<and>
    fst ` set (dump_replies E r ps m) \<subseteq> dom V \<and>
    (\<forall>k scan. scan \<in> set ps \<and> (\<forall>m1 ks m2. redis_view E r m1 = V \<longrightarrow> scan m1 = (Inr ks, m2) \<longrightarrow> k \<in> set ks) \<longrightarrow>
       k \<in> fst ` set (dump_replies E r ps m))"
  using assms(2-5)
proof (induction ps arbitrary: acc m l)
  case (Cons scan ps)
  from Cons.prems(1) obtain ks m1 where s: "scan m = (Inr ks, m1)" by (auto split: prod.splits sum.splits)
  obtain acc1 m2 where k: "dump_keys E r ks acc m1 = (acc1, m2)" by fastforce
  have in_scan: "scan \<in> set (redis_scan E r m0)" using Cons.prems(4) by simp
  have v1: "redis_view E r m1 = V" using redis_ok_laws(1) [OF assms(1) in_scan s] Cons.prems(3) by simp
  have ks: "set ks \<subseteq> dom V" using redis_ok_laws(2) [OF assms(1) in_scan _ s] Cons.prems(3) assms(6) by simp
  from dump_keys_of [OF assms(1) k, unfolded v1, OF Cons.prems(2)] obtain l' where
    l': "key_replies E r ks m1 = (l', m2)" "fst ` set l' = set ks" "redis_view E r m2 = V" "dump_of V (l @ l') acc1" by blast
  have p: "dump_pages E r ps acc1 m2 = (Inr xs, m')" using Cons.prems(1) s k by simp
  from Cons.IH [OF p l'(4,3)] Cons.prems(4) have
    i: "redis_view E r m' = V" "dump_of V ((l @ l') @ dump_replies E r ps m2) xs" "fst ` set (dump_replies E r ps m2) \<subseteq> dom V"
    "\<forall>k scan. scan \<in> set ps \<and> (\<forall>m1 ks m2. redis_view E r m1 = V \<longrightarrow> scan m1 = (Inr ks, m2) \<longrightarrow> k \<in> set ks) \<longrightarrow>
       k \<in> fst ` set (dump_replies E r ps m2)" by auto
  have rep: "dump_replies E r (scan # ps) m = l' @ dump_replies E r ps m2" by (simp add: s l'(1))
  have "k \<in> fst ` set (dump_replies E r (scan # ps) m)"
    if "q \<in> set (scan # ps)" "\<forall>m1 ks m2. redis_view E r m1 = V \<longrightarrow> q m1 = (Inr ks, m2) \<longrightarrow> k \<in> set ks" for k q
  proof (cases "q = scan")
    case True
    then have "k \<in> set ks" using that(2) s Cons.prems(3) by blast
    then show ?thesis unfolding rep set_append image_Un l'(2) by blast
  next
    case False
    then have "q \<in> set ps" using that(1) by simp
    then have "k \<in> fst ` set (dump_replies E r ps m2)" using that(2) i(4) by blast
    then show ?thesis unfolding rep set_append image_Un by blast
  qed
  moreover have "fst ` set (dump_replies E r (scan # ps) m) \<subseteq> dom V"
    unfolding rep set_append image_Un using l'(2) ks i(3) by blast
  ultimately show ?case using i(1,2) by (simp only: rep append_assoc) blast
qed simp

lemma redis_backup_dump:
  assumes "redis_ok E" "redis_backup E r i dbn w = (Inr (rd, key), w')"
  shows "\<exists>dump. rd = NopReader (mem_stream (gzip_bytes E (json_map E dump))) \<and>
    (let l = dump_replies E r (redis_scan E r (os (snd (now E w)))) (os (snd (now E w)))
     in dump_of (redis_view E r (os w')) l dump \<and> fst ` set l = dom (redis_view E r (os w')))"
proof -
  obtain t w1 where n: "now E w = (t, w1)" by fastforce
  from assms(2) n obtain dump m' where d: "dump_pages E r (redis_scan E r (os w1)) [] (os w1) = (Inr dump, m')"
    and rd: "rd = NopReader (mem_stream (gzip_bytes E (json_map E dump)))" and w': "os w' = m'"
    by (auto simp: redis_backup_def split: prod.splits sum.splits)
  let ?V = "redis_view E r (os w1)" and ?l = "dump_replies E r (redis_scan E r (os w1)) (os w1)"
  have "dump_of ?V [] []" by (simp add: dump_of_def)
  from dump_pages_of [OF assms(1) d this refl subset_refl refl] have
    e: "redis_view E r m' = ?V" "dump_of ?V ?l dump" "fst ` set ?l \<subseteq> dom ?V"
    "\<forall>k scan. scan \<in> set (redis_scan E r (os w1)) \<and> (\<forall>m1 ks m2. redis_view E r m1 = ?V \<longrightarrow> scan m1 = (Inr ks, m2) \<longrightarrow> k \<in> set ks) \<longrightarrow>
       k \<in> fst ` set ?l" by simp_all
  have "dom ?V \<subseteq> fst ` set ?l" using redis_ok_laws(3) [OF assms(1), of _ r "os w1"] e(4) by blast
  with e have "dump_of ?V ?l dump \<and> fst ` set ?l = dom ?V" by blast
  then show ?thesis using rd by (auto simp: n w' e(1))
qed

text \<open>A backup is the same for every database name; the name is in its key only.\<close>

theorem redis_backup_ignores_database:
  "snd (redis_backup E r i d1 w) = snd (redis_backup E r i d2 w) \<and>
   map_sum id fst (fst (redis_backup E r i d1 w)) = map_sum id fst (fst (redis_backup E r i d2 w))"
  by (simp add: redis_backup_def split: prod.split sum.split)

section \<open>What is restored\<close>

lemma restore_keys_view:
  assumes "redis_ok E" "restore_keys E r xs m = (e, m')" "distinct (map fst xs)"
  shows "\<exists>n. redis_view E r m' = redis_view E r m ++ map_of (take n xs) \<and>
    (case e of None \<Rightarrow> n = length xs
     | Some x \<Rightarrow> n < length xs \<and> (\<exists>m1. fst (redis_restore E r (fst (xs ! n)) (snd (xs ! n)) m1) \<noteq> None))"
  using assms(2,3)
proof (induction xs arbitrary: m)
  case (Cons p xs)
  obtain k v where p: "p = (k, v)" by fastforce
  obtain d m1 where d: "redis_restore E r k v m = (d, m1)" by fastforce
  note law = redis_ok_laws(5) [OF assms(1) d]
  show ?case
  proof (cases d)
    case (Some x)
    with Cons.prems d p have "e \<noteq> None" "m' = m1" by auto
    with law Some d show ?thesis by (intro exI [of _ 0]) (auto simp: p intro!: exI [of _ m])
  next
    case None
    with Cons.prems d p have g: "restore_keys E r xs m1 = (e, m')" by simp
    from Cons.IH [OF g] Cons.prems(2) obtain n where
      n: "redis_view E r m' = redis_view E r m1 ++ map_of (take n xs)"
      "case e of None \<Rightarrow> n = length xs
       | Some x \<Rightarrow> n < length xs \<and> (\<exists>m1. fst (redis_restore E r (fst (xs ! n)) (snd (xs ! n)) m1) \<noteq> None)" by auto
    have "fst ` set (take n xs) \<subseteq> fst ` set xs" using set_take_subset [of n xs] by blast
    then have "k \<notin> dom (map_of (take n xs))"
      using Cons.prems(2) by (auto simp: p dom_map_of_conv_image_fst)
    then have a: "(redis_view E r m)(k \<mapsto> v) ++ map_of (take n xs) = redis_view E r m ++ (map_of (take n xs))(k \<mapsto> v)"
      by (auto simp: fun_eq_iff map_add_def split: option.splits)
    have "redis_view E r m1 = (redis_view E r m)(k \<mapsto> v)" using law None by simp
    then have "redis_view E r m' = redis_view E r m ++ map_of (take (Suc n) (p # xs))"
      by (simp only: n(1) a p take_Suc_Cons map_of.simps fst_conv snd_conv)
    moreover have "case e of None \<Rightarrow> Suc n = length (p # xs)
      | Some x \<Rightarrow> Suc n < length (p # xs) \<and>
          (\<exists>m1. fst (redis_restore E r (fst ((p # xs) ! Suc n)) (snd ((p # xs) ! Suc n)) m1) \<noteq> None)"
      using n(2) by (simp split: option.splits)
    ultimately show ?thesis by blast
  qed
qed (auto intro!: exI [of _ 0])

section \<open>Property\<close>

text \<open>
  C21. A Redis backup gives back what is UTF-8, and nothing else. Nobody else writing to the server meanwhile, a backup asks
  for the DUMP of every key the server holds and of no other. It stores a set of keys and values that are all valid
  UTF-8, so no value of DUMP that is not (that of a small integer holds a byte C0 or C1, which occurs in no
  UTF-8) is ever restored; and when every key and value that was dumped is valid UTF-8 it stores exactly the keys whose DUMP
  was answered, with the values the server held. A restore of that backup, on any server, replays the stored keys in
  some order: one that succeeds leaves the server with all of them on top of what it held; one that fails has replayed those
  before the first key whose RESTORE failed, and nothing else.
\<close>

theorem redis_restores_only_utf8:
  assumes "json_ok E" and "gzip_ok E" and "redis_ok E" and "range_ok E"
    and "redis_backup E r i dbn w = (Inr (rd, key), w')"
    and "l = dump_replies E r (redis_scan E r (os (snd (now E w)))) (os (snd (now E w)))"
  shows "fst ` set l = dom (redis_view E r (os w')) \<and>
    (\<forall>k x. (k, Inr x) \<in> set l \<longrightarrow> redis_view E r (os w') k = Some x) \<and>
    (\<exists>ys. distinct (map fst ys) \<and> (\<forall>(k, x) \<in> set ys. valid_utf8 k \<and> valid_utf8 x) \<and>
      ((\<forall>k x. (k, Inr x) \<in> set l \<longrightarrow> valid_utf8 k \<and> valid_utf8 x) \<longrightarrow>
         (\<forall>k x. (k, x) \<in> set ys \<longleftrightarrow> (k, Inr x) \<in> set l)) \<and>
      (\<forall>r' v e v'. redis_load E r' (reader_stream rd) v = (e, v') \<longrightarrow>
         (\<exists>n order. mset order = mset ys \<and>
            redis_view E r' (os v') = redis_view E r' (os v) ++ map_of (take n order) \<and>
            (case e of None \<Rightarrow> n = length order
             | Some x \<Rightarrow> n < length order \<and>
                 (\<exists>m. fst (redis_restore E r' (fst (order ! n)) (snd (order ! n)) m) \<noteq> None)))))"
proof -
  let ?V = "redis_view E r (os w')"
  from redis_backup_dump [OF assms(3,5)] obtain dump where
    rd: "rd = NopReader (mem_stream (gzip_bytes E (json_map E dump)))" and
    dump: "dump_of ?V l dump" and keys: "fst ` set l = dom ?V"
    unfolding Let_def assms(6) [symmetric] by blast
  have "distinct (map fst dump)" using dump by (simp add: dump_of_def)
  from assms(1) [unfolded json_ok_def, rule_format, OF this] obtain ys where
    ys: "json_unmap E (json_map E dump) = Inr ys" "distinct (map fst ys)"
    "fst ` set ys = to_utf8 ` fst ` set dump" "set ys \<subseteq> (\<lambda>(k, v). (to_utf8 k, to_utf8 v)) ` set dump"
    by (elim exE conjE)
  obtain st where st: "gzip_open E (mem_stream (gzip_bytes E (json_map E dump))) = Inr st"
    "st_bytes st = json_map E dump" "st_read_err st = None"
    using assms(2) unfolding gzip_ok_def by blast
  have load: "\<exists>n order. mset order = mset ys \<and>
        redis_view E r' (os v') = redis_view E r' (os v) ++ map_of (take n order) \<and>
        (case e of None \<Rightarrow> n = length order
         | Some x \<Rightarrow> n < length order \<and> (\<exists>m. fst (redis_restore E r' (fst (order ! n)) (snd (order ! n)) m) \<noteq> None))"
    if g: "redis_load E r' (reader_stream rd) v = (e, v')" for r' v e v'
  proof -
    let ?o = "map_range E (os v) ys"
    have o: "mset ?o = mset ys" using assms(4) by (simp add: range_ok_def)
    have "mset (map fst ?o) = mset (map fst ys)" by (simp only: mset_map o)
    then have dis: "distinct (map fst ?o)" using mset_eq_imp_distinct_iff ys(2) by blast
    from g have "restore_keys E r' ?o (os v) = (e, os v')"
      by (auto simp: redis_load_def rd st ys(1) split: prod.splits)
    from restore_keys_view [OF assms(3) this dis] o show ?thesis by blast
  qed
  have valid: "\<forall>(k, x) \<in> set ys. valid_utf8 k \<and> valid_utf8 x" using ys(4) to_utf8_valid by fastforce
  have "set ys = set dump" if v: "\<forall>k x. (k, Inr x) \<in> set l \<longrightarrow> valid_utf8 k \<and> valid_utf8 x"
  proof -
    have id: "to_utf8 k = k \<and> to_utf8 x = x" if "(k, x) \<in> set dump" for k x
      using v that dump to_utf8_id unfolding dump_of_def by blast
    have sub: "set ys \<subseteq> set dump" using ys(4) id by fastforce
    moreover have "p \<in> set ys" if p: "p \<in> set dump" for p
    proof -
      have "fst p \<in> fst ` set ys" using p id [of "fst p" "snd p"] unfolding ys(3) by force
      then obtain x where x: "(fst p, x) \<in> set ys" by force
      with sub p dump show ?thesis by (metis dump_of_def eq_key_imp_eq_value prod.collapse subsetD)
    qed
    ultimately show ?thesis by blast
  qed
  then have exact: "(\<forall>k x. (k, Inr x) \<in> set l \<longrightarrow> valid_utf8 k \<and> valid_utf8 x) \<longrightarrow>
      (\<forall>k x. (k, x) \<in> set ys \<longleftrightarrow> (k, Inr x) \<in> set l)"
    using dump unfolding dump_of_def by simp
  have held: "\<forall>k x. (k, Inr x) \<in> set l \<longrightarrow> ?V k = Some x" using dump unfolding dump_of_def by simp
  have replay: "\<forall>r' v e v'. redis_load E r' (reader_stream rd) v = (e, v') \<longrightarrow>
      (\<exists>n order. mset order = mset ys \<and>
        redis_view E r' (os v') = redis_view E r' (os v) ++ map_of (take n order) \<and>
        (case e of None \<Rightarrow> n = length order
         | Some x \<Rightarrow> n < length order \<and> (\<exists>m. fst (redis_restore E r' (fst (order ! n)) (snd (order ! n)) m) \<noteq> None)))"
    by (intro allI impI) (rule load)
  show ?thesis
    by (intro conjI [OF keys] conjI [OF held] exI [of _ ys]) (rule conjI [OF ys(2) conjI [OF valid conjI [OF exact replay]]])
qed

section \<open>Witness\<close>

text \<open>
  A Redis that keeps its data in a list and gives one page of its keys, a payload that is the number 10 (\<open>DUMP\<close> without
  its checksum), and a JSON text of marked characters that is read back as UTF-8.
\<close>

definition ten_dump :: string where
  "ten_dump = [CHR 0x00, CHR 0xC0, CHR 0x0A, CHR 0x0B, CHR 0x00]"

fun write_part :: "string \<Rightarrow> string" where
  "write_part [] = ''.''"
| "write_part (c # cs) = CHR ''c'' # c # write_part cs"

fun read_part :: "string \<Rightarrow> string \<times> string" where
  "read_part (t # x # s) = (if t = CHR ''c'' then (case read_part s of (p, r) \<Rightarrow> (x # p, r)) else ([], x # s))"
| "read_part s = ([], [])"

fun read_pairs :: "nat \<Rightarrow> string \<Rightarrow> (string \<times> string) list" where
  "read_pairs 0 s = []"
| "read_pairs (Suc n) s =
     (if s = [] then [] else
      case read_part s of (k, r) \<Rightarrow> case read_part r of (v, r') \<Rightarrow> map_put (to_utf8 k) (to_utf8 v) (read_pairs n r'))"

definition ten_env :: "(ref_db, ref_s3, ref_os) env" where
  "ten_env = ref_env\<lparr>
     redis_scan := (\<lambda>o1 m. [\<lambda>m1. (Inr (map fst (ro_files m1)), m1)]),
     redis_dump := (\<lambda>o1 k m. (case map_of (ro_files m) k of Some v \<Rightarrow> Inr v | None \<Rightarrow> Inl (Err ''redis: nil''), m)),
     redis_restore := (\<lambda>o1 k v m. (None, m\<lparr>ro_files := (k, v) # ro_files m\<rparr>)),
     json_map := (\<lambda>xs. concat (map (\<lambda>(k, v). write_part k @ write_part v) xs)),
     json_unmap := (\<lambda>s. Inr (read_pairs (length s) s))\<rparr>"

lemma read_write_part: "read_part (write_part p @ s) = (p, s)"
  by (induction p) (cases s; simp)+

lemma write_part_nonempty: "write_part p \<noteq> []"
  by (cases p) simp_all

lemma read_pairs_back:
  "distinct (map fst xs) \<Longrightarrow> length xs \<le> n \<Longrightarrow>
    (let ys = read_pairs n (concat (map (\<lambda>(k, v). write_part k @ write_part v) xs))
     in distinct (map fst ys) \<and> fst ` set ys = to_utf8 ` fst ` set xs \<and>
        set ys \<subseteq> (\<lambda>(k, v). (to_utf8 k, to_utf8 v)) ` set xs)"
proof (induction xs arbitrary: n)
  case Nil
  then show ?case by (cases n) simp_all
next
  case (Cons x xs)
  obtain k v where x: "x = (k, v)" by (cases x)
  obtain n' where n: "n = Suc n'" using Cons.prems by (cases n) auto
  define ys where "ys = read_pairs n' (concat (map (\<lambda>(k, v). write_part k @ write_part v) xs))"
  have i: "distinct (map fst ys)" "fst ` set ys = to_utf8 ` fst ` set xs"
    "set ys \<subseteq> (\<lambda>(k, v). (to_utf8 k, to_utf8 v)) ` set xs"
    using Cons.IH [of n'] Cons.prems n by (simp_all add: ys_def Let_def)
  have r: "read_pairs n (concat (map (\<lambda>(k, v). write_part k @ write_part v) (x # xs))) = map_put (to_utf8 k) (to_utf8 v) ys"
    by (simp add: n x ys_def read_write_part write_part_nonempty)
  show ?case
    unfolding r Let_def
    using map_put_keys [OF i(1)] map_put_sets [of "to_utf8 k" "to_utf8 v" ys] i by (auto simp: x)
qed

lemma ref_redis: "redis_view ref_env = (\<lambda>o1 m. map_of (ro_files m))" "gzip_bytes ref_env = (\<lambda>s. s)"
  by (simp_all add: ref_env_def)

definition redis_holding :: "(string \<times> string) list \<Rightarrow> (ref_db, ref_s3, ref_os) sys" where
  "redis_holding xs = (let w = ex_sys [] [] 5 in w\<lparr>os := (os w)\<lparr>ro_files := xs\<rparr>\<rparr>)"

lemma ten_env_ok: "json_ok ten_env" "gzip_ok ten_env"
proof -
  have l: "length xs \<le> length (concat (map (\<lambda>(k, v). write_part k @ write_part v) xs))" for xs
  proof (induction xs)
    case (Cons x xs)
    then show ?case using write_part_nonempty [of "fst x"] by (cases "write_part (fst x)") (auto split: prod.split)
  qed simp
  show "json_ok ten_env"
    unfolding json_ok_def using read_pairs_back [OF _ l] by (fastforce simp: ten_env_def Let_def)
  show "gzip_ok ten_env" by (simp add: gzip_ok_def ten_env_def ref_env_sel ref_redis mem_stream_def)
qed

lemma ten_env_sel:
  "redis_scan ten_env = (\<lambda>o1 m. [\<lambda>m1. (Inr (map fst (ro_files m1)), m1)])"
  "redis_dump ten_env = (\<lambda>o1 k m. (case map_of (ro_files m) k of Some v \<Rightarrow> Inr v | None \<Rightarrow> Inl (Err ''redis: nil''), m))"
  "redis_restore ten_env = (\<lambda>o1 k v m. (None, m\<lparr>ro_files := (k, v) # ro_files m\<rparr>))"
  "redis_view ten_env = (\<lambda>o1 m. map_of (ro_files m))"
  by (simp_all add: ten_env_def ref_redis)

lemma redis_ok_ten_env: "redis_ok ten_env"
proof -
  have keys: "set (map fst xs) = dom (map_of xs)" for xs :: "(string \<times> string) list"
    by (simp add: dom_map_of_conv_image_fst)
  show ?thesis
    unfolding redis_ok_def ten_env_sel
    apply (intro conjI allI impI)
    subgoal by simp
    subgoal for r m scan m1 ks using keys [of "ro_files m1"] by auto
    subgoal for r m k using keys by (auto simp del: set_map)
    subgoal by simp
    subgoal by (auto split: option.splits)
    subgoal by simp
    done
qed

text \<open>One server holds a text and is restored; another holds the number 10, which is not.\<close>

theorem redis_restores_only_utf8_witness:
  "(let o1 = redis_options (ex_instance ''srv'' EngineRedis);
        p = redis_backup ten_env o1 (ex_instance ''srv'' EngineRedis) ''db0'' (redis_holding [(''k'', ''text'')])
    in case fst p of Inl e \<Rightarrow> False
       | Inr (rd, key) \<Rightarrow> redis_view ten_env o1 (os (snd (redis_load ten_env o1 (reader_stream rd) (redis_holding [])))) =
           [''k'' \<mapsto> ''text'']) \<and>
   (let o1 = redis_options (ex_instance ''srv'' EngineRedis);
        p = redis_backup ten_env o1 (ex_instance ''srv'' EngineRedis) ''db0'' (redis_holding [(''k'', ten_dump)])
    in case fst p of Inl e \<Rightarrow> False
       | Inr (rd, key) \<Rightarrow> redis_view ten_env o1 (os (snd (redis_load ten_env o1 (reader_stream rd) (redis_holding [])))) ''k'' \<noteq>
           Some ten_dump)"
proof -
  let ?i = "ex_instance ''srv'' EngineRedis"
  let ?o = "redis_options ?i"
  let ?p = "\<lambda>x. redis_backup ten_env ?o ?i ''db0'' (redis_holding [(''k'', x)])"
  let ?l = "\<lambda>x. dump_replies ten_env ?o (redis_scan ten_env ?o (os (snd (now ten_env (redis_holding [(''k'', x)])))))
    (os (snd (now ten_env (redis_holding [(''k'', x)]))))"
  have n: "now ten_env (redis_holding xs) = (5, redis_holding xs)" for xs
    by (simp add: now_def ten_env_def ref_env_sel redis_holding_def ex_sys_def)
  have f: "ro_files (os (redis_holding xs)) = xs" for xs by (simp add: redis_holding_def Let_def)
  have l: "?l x = [(''k'', Inr x)]" for x by (simp add: n f ten_env_sel)
  have view: "redis_view ten_env ?o m = map_of (ro_files m)" for m by (simp add: ten_env_sel)
  have "\<exists>rd key w'. ?p x = (Inr (rd, key), w')" for x
    by (simp add: redis_backup_def n f ten_env_sel)
  then have ex: "\<exists>rd key w'. ?p x = (Inr (rd, key), w')" for x .
  have ran: "range_ok ten_env" by (simp add: range_ok_def ten_env_def ref_env_sel)
  have never: "fst (redis_restore ten_env o1 k x m) = None" for o1 k x m by (simp add: ten_env_sel)
  have main: "\<exists>ys n order. distinct (map fst ys) \<and> (\<forall>(k, x) \<in> set ys. valid_utf8 k \<and> valid_utf8 x) \<and>
      (valid_utf8 x \<longrightarrow> set ys = {(''k'', x)}) \<and> mset order = mset ys \<and>
      map_of (ro_files (os (snd (redis_load ten_env ?o (reader_stream rd) (redis_holding []))))) = map_of (take n order) \<and>
      n = length order" if p: "?p x = (Inr (rd, key), w')" for x rd key w'
  proof -
    obtain e v' where g: "redis_load ten_env ?o (reader_stream rd) (redis_holding []) = (e, v')" by fastforce
    have k: "valid_utf8 ''k''" by code_simp
    from redis_restores_only_utf8 [OF ten_env_ok redis_ok_ten_env ran p refl] obtain ys where
      ys: "distinct (map fst ys)" "\<forall>(k, x) \<in> set ys. valid_utf8 k \<and> valid_utf8 x"
        "valid_utf8 x \<longrightarrow> (\<forall>k y. (k, y) \<in> set ys \<longleftrightarrow> (k, y) = (''k'', x))" and
      load: "\<forall>r' v e v'. redis_load ten_env r' (reader_stream rd) v = (e, v') \<longrightarrow>
         (\<exists>n order. mset order = mset ys \<and>
            redis_view ten_env r' (os v') = redis_view ten_env r' (os v) ++ map_of (take n order) \<and>
            (case e of None \<Rightarrow> n = length order
             | Some x \<Rightarrow> n < length order \<and>
                 (\<exists>m. fst (redis_restore ten_env r' (fst (order ! n)) (snd (order ! n)) m) \<noteq> None)))"
      unfolding l using k by (elim conjE exE) simp
    from load [rule_format, OF g] obtain n order where o: "mset order = mset ys"
      "redis_view ten_env ?o (os v') = redis_view ten_env ?o (os (redis_holding [])) ++ map_of (take n order)" and
      n: "case e of None \<Rightarrow> n = length order
        | Some x \<Rightarrow> n < length order \<and> (\<exists>m. fst (redis_restore ten_env ?o (fst (order ! n)) (snd (order ! n)) m) \<noteq> None)"
      by blast
    from n never have "n = length order" by (cases e) simp_all
    moreover have "map_of (ro_files (os v')) = map_of (take n order)" using o(2) unfolding view f by simp
    ultimately have o: "mset order = mset ys" "map_of (ro_files (os v')) = map_of (take n order)" "n = length order"
      using o(1) by simp_all
    have "valid_utf8 x \<longrightarrow> set ys = {(''k'', x)}" using ys(3) by auto
    with ys(1,2) o show ?thesis unfolding g snd_conv by blast
  qed
  have one: "map_of (ro_files (os (snd (redis_load ten_env ?o (reader_stream rd) (redis_holding []))))) = [''k'' \<mapsto> x]"
    if p: "?p x = (Inr (rd, key), w')" and x: "valid_utf8 x" for x rd key w'
  proof -
    from main [OF p] x obtain ys order where ys: "distinct (map fst ys)" "set ys = {(''k'', x)}" "mset order = mset ys"
      and m: "map_of (ro_files (os (snd (redis_load ten_env ?o (reader_stream rd) (redis_holding []))))) = map_of order" by auto
    have "set order = {(''k'', x)}" using ys(2,3) by (metis set_mset_mset)
    moreover have "mset (map fst order) = mset (map fst ys)" by (simp only: mset_map ys(3))
    then have "distinct (map fst order)" using ys(1) mset_eq_imp_distinct_iff by blast
    moreover have "zs = [(''k'', x)]" if "set zs = {(''k'', x)}" "distinct (map fst zs)" for zs
    proof (cases zs)
      case (Cons y ys')
      with that show ?thesis by (cases ys') auto
    qed (use that in simp)
    ultimately have "order = [(''k'', x)]" by blast
    then show ?thesis unfolding m by simp
  qed
  have ten: "map_of (ro_files (os (snd (redis_load ten_env ?o (reader_stream rd) (redis_holding []))))) ''k'' \<noteq> Some x"
    if p: "?p x = (Inr (rd, key), w')" and x: "\<not> valid_utf8 x" for x rd key w'
  proof -
    from main [OF p] obtain ys order where ys: "\<forall>(k, x) \<in> set ys. valid_utf8 k \<and> valid_utf8 x" "mset order = mset ys"
      and m: "map_of (ro_files (os (snd (redis_load ten_env ?o (reader_stream rd) (redis_holding []))))) = map_of order" by auto
    have "set order = set ys" using ys(2) by (metis set_mset_mset)
    with ys(1) x have "(''k'', x) \<notin> set order" by blast
    then show ?thesis unfolding m using map_of_SomeD by fastforce
  qed
  have u: "valid_utf8 ''text''" "\<not> valid_utf8 ten_dump" by code_simp+
  obtain rd1 k1 w1 rd2 k2 w2 where p: "?p ''text'' = (Inr (rd1, k1), w1)" "?p ten_dump = (Inr (rd2, k2), w2)"
    using ex by blast
  from one [OF p(1) u(1)] ten [OF p(2) u(2)] show ?thesis unfolding Let_def p view by simp
qed

end
