(* ===== verification/Retention_Complete.thy ===== *)
theory Retention_Complete
  imports Restore
begin

text \<open>
  Retention leaves nothing due behind (\<open>application/usecases/backup_usecase.go\<close>). The
  golden rule bounds what \<open>ApplyRetention\<close> deletes from above; the lemmas here bound it
  from below. While the database file and the store answer, no deletion fails, every backup past its
  date is gone, and the sweep of a SQL Server group stops only where nothing older than the window is
  left or the golden rule stops it.

  \<open>able\<close> is what the loops keep, so that each deletion succeeds in turn.
\<close>

section \<open>No deletion fails\<close>

text \<open>The store opens, and its deletions and listings succeed.\<close>

definition store_answers :: "('d, 's, 'm) env \<Rightarrow> s3_config \<Rightarrow> bool" where
  "store_answers E cfg \<longleftrightarrow> storage_opens E cfg \<and>
     (\<forall>k w. fst (s3_delete E (adapter_of cfg) k w) = None) \<and>
     (\<forall>k w. \<exists>obs. fst (s3_list E (adapter_of cfg) k w) = Inr obs)"

text \<open>Every stored record has times JSON can hold, so that it can be written back.\<close>

definition times_fit :: "backup_record \<Rightarrow> bool" where
  "times_fit r = json_times_ok (b_started r # opt_time (b_completed r) @ [b_expires r])"

definition able :: "('d, 's, 'm) env \<Rightarrow> s3_config \<Rightarrow> ('d, 's, 'm) sys \<Rightarrow> bool" where
  "able E cfg w \<longleftrightarrow> backups_wf E w \<and> s3cfg_get E w = Inr cfg \<and>
     (\<forall>i r. backup_view E w i = Some r \<longrightarrow> times_fit r)"

lemma times_fit_expired [simp]: "times_fit (expired_copy r) = times_fit r"
  by (simp add: times_fit_def expired_copy_def with_status_def)

lemma deleted_in_expired [simp]: "deleted_in E cfg w (expired_copy r) = deleted_in E cfg w r"
  by (simp add: deleted_in_def)

lemma able_wf: "able E cfg w \<Longrightarrow> backups_wf E w"
  by (simp add: able_def)

lemma able_cfg: "able E cfg w \<Longrightarrow> s3cfg_get E w = Inr cfg"
  by (simp add: able_def)

lemma able_fit: "backup_view E w i = Some r \<Longrightarrow> able E cfg w \<Longrightarrow> times_fit r"
  by (simp add: able_def)

lemma able_shrinks: "shrinks E cfg D w w' \<Longrightarrow> able E cfg w \<Longrightarrow> able E cfg w'"
  using shrinks_back [of E cfg D w w'] shrinks_wf [of E cfg D w w'] shrinks_s3cfg [of E cfg D w w']
  by (fastforce simp: able_def)

lemma able_same:
  "db w' = db w \<Longrightarrow> s3_view E (adapter_of cfg) w' = s3_view E (adapter_of cfg) w \<Longrightarrow> able E cfg w \<Longrightarrow> able E cfg w'"
  using able_shrinks [OF shrinks_same [OF able_wf, of E cfg w w']] by simp

lemma mark_deleted_taken:
  assumes m: "mark_deleted E c w = (e, w')" and a: "able E cfg w" and bw: "bolt_writes E"
    and tr: "tracks E w c"
  shows "e = None"
proof -
  from tr obtain r where r: "backup_view E w (b_id c) = Some r" by (auto simp: tracks_def)
  have g: "br_find_by_id E (b_id c) w = Inr r" by (rule backups.get_some [OF able_wf [OF a] r])
  have "times_fit (expired_copy r)" using able_fit [OF r a] by simp
  then have "encode_backup (expired_copy r) = Inr (Json (EBackup (expired_copy r)))"
    by (simp add: encode_backup_def encode_def times_fit_def)
  then have p: "store_put E bucketBackupRecords (b_id (expired_copy r)) (Inr (Json (EBackup (expired_copy r)))) w = (e, w')"
    using m g backups.view_key [OF able_wf [OF a] r]
    by (simp add: mark_deleted_def br_update_status_def expired_copy_def with_status_def)
  have "fst (bolt_put E (db w) bucketBackupRecords (b_id (expired_copy r)) (Json (EBackup (expired_copy r)))) = None"
    using bw by (simp only: bolt_writes_def)
  with p show ?thesis by (auto simp: store_put_def split: prod.splits)
qed

lemma delete_one_taken:
  assumes d: "delete_one E c w = (e, w')" and a: "able E cfg w" and aws: "aws_ok E"
    and st: "store_answers E cfg" and bw: "bolt_writes E" and tr: "tracks E w c"
  shows "e = None"
proof (cases "b_file_name c = ''''")
  case True
  with d have "mark_deleted E c w = (e, w')" by (simp add: delete_one_def)
  then show ?thesis by (rule mark_deleted_taken [OF _ a bw tr])
next
  case False
  obtain ra w1 where n: "s3_new E cfg w = (ra, w1)" by fastforce
  from s3_new_opens [of E cfg w _ w1] st obtain ad where ra: "ra = Inr ad"
    using n by (cases ra) (auto simp: store_answers_def)
  with n have ad: "ad = adapter_of cfg" using s3_new_result by blast
  obtain e2 w2 where r: "s3_delete E ad (b_file_name c) w1 = (e2, w2)" by fastforce
  have e2: "e2 = None" using st r by (metis ad fst_conv store_answers_def)
  note fr = s3_new_frame(1) [OF n] s3_ops_frame(3) [OF r]
  then have db: "db w2 = db w" by simp
  have m: "mark_deleted E c w2 = (e, w')"
    using d able_cfg [OF a] n ra r e2 False by (simp add: delete_one_def)
  have "able E cfg w2"
    using a view_eq_db [OF db, of E] wf_eq_db [OF db, of E]
    by (simp add: able_def s3cfg_get_def store_get_def db)
  moreover have "tracks E w2 c" using tr view_eq_db [OF db, of E] by (simp add: tracks_def)
  ultimately show ?thesis using mark_deleted_taken [OF m _ bw] by blast
qed

lemma delete_children_taken:
  assumes "delete_children E rid cs w = (e, w')" "able E cfg w" "\<forall>c \<in> set cs. tracks E w c"
    and aws: "aws_ok E" and st: "store_answers E cfg" and bw: "bolt_writes E"
  shows "e = None"
  using assms(1-3)
proof (induction cs arbitrary: w)
  case Nil
  then show ?case by simp
next
  case (Cons c cs)
  show ?case
  proof (cases "b_parent c = rid")
    case True
    obtain e1 w1 where o: "delete_one E c w = (e1, w1)" by fastforce
    have tr: "tracks E w c" using Cons.prems(3) by simp
    have e1: "e1 = None" by (rule delete_one_taken [OF o Cons.prems(2) aws st bw tr])
    have sh: "shrinks E cfg {b_id c} w w1"
      using delete_one_shrinks [OF aws able_cfg [OF Cons.prems(2)] able_wf [OF Cons.prems(2)] tr o] by simp
    show ?thesis
      by (rule Cons.IH [of w1])
        (use Cons.prems(1,3) True o e1 able_shrinks [OF sh Cons.prems(2)] tracks_shrinks [OF sh] in auto)
  next
    case False
    then show ?thesis using Cons.IH [of w] Cons.prems by simp
  qed
qed

lemma delete_backup_taken:
  assumes d: "delete_backup E rid w = (e, w')" and a: "able E cfg w" and aws: "aws_ok E"
    and st: "store_answers E cfg" and bw: "bolt_writes E" and v: "backup_view E w rid = Some r"
  shows "e = None \<and> deleted_in E cfg w' r"
proof -
  note wf = able_wf [OF a] and cfg = able_cfg [OF a]
  have g: "br_find_by_id E rid w = Inr r" by (rule backups.get_some [OF wf v])
  have tr: "tracks E w r" by (rule tracks_view [OF wf v])
  have "e = None"
  proof (cases "is_full r")
    case False
    with d g have "delete_one E r w = (e, w')" by (simp add: delete_backup_def)
    then show ?thesis by (rule delete_one_taken [OF _ a aws st bw tr])
  next
    case True
    from backups.all_Inr [OF wf] obtain rs where al: "br_find_all E w = Inr rs" ..
    obtain e1 w1 where c: "delete_children E rid rs w = (e1, w1)" by fastforce
    have trs: "\<forall>c \<in> set rs. tracks E w c" using all_tracks(1) [OF wf al] by blast
    have e1: "e1 = None" by (rule delete_children_taken [OF c a trs aws st bw])
    note sh = conjunct1 [OF delete_children_shrinks [OF aws cfg wf trs c]]
    have "delete_one E r w1 = (e, w')" using d g True al c e1 by (simp add: delete_backup_def)
    then show ?thesis by (rule delete_one_taken [OF _ able_shrinks [OF sh a] aws st bw tracks_shrinks [OF sh tr]])
  qed
  moreover have "storage_opens E cfg" using st by (simp add: store_answers_def)
  ultimately show ?thesis using delete_backup_shrinks(2) [OF aws cfg wf d] v by auto
qed

section \<open>Every backup past its date goes\<close>

lemma expire_all_complete:
  assumes "expire_all E rs n w = (m, w')" "able E cfg w"
    and "\<forall>r \<in> set rs. tracks E w r"
    and aws: "aws_ok E" and st: "store_answers E cfg" and bw: "bolt_writes E"
  shows "able E cfg w' \<and> m = n + length (filter (\<lambda>r. b_engine r \<noteq> EngineSQLServer) rs) \<and>
    (\<forall>c. deleted_in E cfg w c \<longrightarrow> deleted_in E cfg w' c) \<and>
    (\<forall>r \<in> set rs. b_engine r \<noteq> EngineSQLServer \<longrightarrow> deleted_in E cfg w' r)"
  using assms(1-3)
proof (induction rs arbitrary: n w)
  case Nil
  then show ?case by simp
next
  case (Cons r rs)
  show ?case
  proof (cases "b_engine r = EngineSQLServer")
    case True
    then show ?thesis using Cons.IH [of n w] Cons.prems by simp
  next
    case False
    obtain e w1 where d: "delete_backup E (b_id r) w = (e, w1)" by fastforce
    from Cons.prems(3) obtain q where q: "backup_view E w (b_id r) = Some q" "q = r \<or> q = expired_copy r"
      by (auto simp: tracks_def)
    note t = delete_backup_taken [OF d Cons.prems(2) aws st bw q(1)]
    have del: "deleted_in E cfg w1 r" using t q(2) by auto
    note sh = delete_backup_shrinks(1) [OF aws able_cfg [OF Cons.prems(2)] able_wf [OF Cons.prems(2)] d]
    have rest: "expire_all E rs (Suc n) w1 = (m, w')" using Cons.prems(1) False d t by simp
    have trs: "\<forall>c \<in> set rs. tracks E w1 c" using Cons.prems(3) tracks_shrinks [OF sh] by simp
    note ih = Cons.IH [OF rest able_shrinks [OF sh Cons.prems(2)] trs]
    have "deleted_in E cfg w' c" if "deleted_in E cfg w c" for c
      using ih deleted_in_shrinks [OF sh that] by blast
    then show ?thesis using ih del False by auto
  qed
qed

section \<open>The sweep stops only where it must\<close>

lemma exists_in_s3_complete:
  assumes e: "exists_in_s3 E (adapter_of cfg) key w = (b, w')" and aws: "aws_ok E" and st: "store_answers E cfg"
    and k: "key \<noteq> ''''" and o: "s3_view E (adapter_of cfg) w key \<noteq> None"
    and ext: "\<And>k. s3_view E (adapter_of cfg) w k \<noteq> None \<Longrightarrow> has_prefix k key \<Longrightarrow> k = key"
  shows b
proof -
  obtain r w1 where l: "s3_list E (adapter_of cfg) key w = (r, w1)" by fastforce
  with st obtain obs where r: "r = Inr obs" by (metis fst_conv store_answers_def)
  from storage.listed_iff [OF aws l [unfolded r] ext] o
  have "\<exists>x \<in> set obs. has_suffix (so_key x) key" by blast
  then show ?thesis using e l r k by (auto simp: exists_in_s3_def list_ex_iff)
qed

lemma count_verified_frame:
  assumes "count_verified E a cand del fs w = (v, w')" and aws: "aws_ok E"
  shows "db w' = db w \<and> s3_view E a w' = s3_view E a w"
  using assms(1)
proof (induction fs arbitrary: w v)
  case (Cons f fs)
  show ?case
  proof (cases "b_id f = cand \<or> b_id f \<in> set del")
    case False
    obtain b w1 where e: "exists_in_s3 E a (b_file_name f) w = (b, w1)" by fastforce
    then obtain n where "count_verified E a cand del fs w1 = (n, w')"
      using Cons.prems False by (auto split: prod.splits)
    from Cons.IH [OF this] exists_in_s3_sound(1) [OF aws e] show ?thesis by simp
  qed (use Cons in simp)
qed simp

text \<open>Where listings succeed, the count of verified fulls misses none.\<close>

lemma count_verified_complete:
  assumes "count_verified E (adapter_of cfg) cand del fs w = (v, w')" "sweep_ready E cfg w"
    and "\<forall>f \<in> set fs. b_id f \<notin> set del \<longrightarrow> f \<in> completed_fulls E w k"
    and aws: "aws_ok E" and st: "store_answers E cfg"
  shows "card {f \<in> set fs. b_id f \<noteq> cand \<and> b_id f \<notin> set del \<and> f \<in> restorable_fulls E cfg w k} \<le> v"
  using assms(1-3)
proof (induction fs arbitrary: w v)
  case Nil
  then show ?case by simp
next
  case (Cons f fs)
  let ?a = "adapter_of cfg"
  let ?S = "\<lambda>fs w. {f \<in> set fs. b_id f \<noteq> cand \<and> b_id f \<notin> set del \<and> f \<in> restorable_fulls E cfg w k}"
  show ?case
  proof (cases "b_id f = cand \<or> b_id f \<in> set del")
    case True
    then have eq: "?S (f # fs) w = ?S fs w" by auto
    show ?thesis unfolding eq using Cons.IH [of w v] Cons.prems True by simp
  next
    case False
    obtain b w1 where e: "exists_in_s3 E ?a (b_file_name f) w = (b, w1)" by fastforce
    obtain n where r: "count_verified E ?a cand del fs w1 = (n, w')" and
      res: "(if b then Suc n else n) = v"
      using Cons.prems(1) e False by (auto split: prod.splits)
    note fr = exists_in_s3_sound(1) [OF aws e]
    from fr have d1: "db w1 = db w" and s1: "s3_view E ?a w1 = s3_view E ?a w" by simp_all
    have f: "f \<in> completed_fulls E w k" using Cons.prems(3) False by simp
    then have fv: "backup_view E w (b_id f) = Some f" and fsw: "sweepable f"
      by (auto simp: completed_fulls_def)
    have cf: "completed_fulls E w1 k = completed_fulls E w k"
      and rf: "restorable_fulls E cfg w1 k = restorable_fulls E cfg w k"
      by (simp_all add: restorable_fulls_def completed_fulls_def view_eq_db [OF d1] s1)
    have rd1: "sweep_ready E cfg w1"
      using Cons.prems(2) by (simp add: sweep_ready_def view_eq_db [OF d1] s1)
    have ih: "card (?S fs w) \<le> n"
      using Cons.IH [OF r rd1] Cons.prems(3) cf rf by simp
    show ?thesis
    proof (cases b)
      case True
      have "?S (f # fs) w \<subseteq> insert f (?S fs w)" by auto
      then have "card (?S (f # fs) w) \<le> card (insert f (?S fs w))" by (intro card_mono) auto
      also have "\<dots> \<le> Suc (card (?S fs w))" by (simp add: card_insert_if)
      finally show ?thesis using ih res True by simp
    next
      case False
      have "s3_view E ?a w (b_file_name f) = None"
      proof (rule ccontr)
        assume "s3_view E ?a w (b_file_name f) \<noteq> None"
        from exists_in_s3_complete [OF e aws st sweep_readyD(1) [OF Cons.prems(2) fv fsw] this
            sweep_readyD(3) [OF Cons.prems(2) fv fsw]] False
        show False by simp
      qed
      then have "?S (f # fs) w = ?S fs w" by (auto simp: restorable_fulls_def)
      then show ?thesis using ih res False by simp
    qed
  qed
qed

text \<open>
  A group is finished: no completed full of it is older than the cutoff, or no more than the two the
  golden rule asks for can be restored.
\<close>

definition finished :: "('d, 's, 'm) env \<Rightarrow> s3_config \<Rightarrow> ('d, 's, 'm) sys \<Rightarrow> string \<times> string \<Rightarrow> time \<Rightarrow> bool" where
  "finished E cfg w k cutoff \<longleftrightarrow>
     (\<forall>r \<in> completed_fulls E w k. cutoff \<le> b_started r) \<or>
     card (restorable_fulls E cfg w k) \<le> MinVerifiedFullBackups"

lemma finished_later: "finished E cfg w k t \<Longrightarrow> s \<le> t \<Longrightarrow> finished E cfg w k s"
  by (force simp: finished_def)

text \<open>What later rounds do to other groups keeps a group finished.\<close>

lemma finished_untouched:
  assumes f: "finished E cfg w k t" and sh: "shrinks E cfg D w w'" and wf: "backups_wf E w"
    and un: "\<forall>r \<in> completed_fulls E w k. untouched E cfg w w' r"
  shows "finished E cfg w' k t"
proof -
  have c: "completed_fulls E w' k \<subseteq> completed_fulls E w k" by (rule completed_shrinks [OF sh])
  then have "restorable_fulls E cfg w' k \<subseteq> restorable_fulls E cfg w k"
    using un by (auto simp: restorable_fulls_def untouched_def)
  from card_mono [OF finite_restorable [OF wf] this] f c show ?thesis
    unfolding finished_def by (meson le_trans subsetD)
qed

text \<open>The restorable fulls of the group are those the candidate's count sees, and the candidate itself.\<close>

lemma few_restorable:
  assumes cv: "count_verified E (adapter_of cfg) (b_id c) del fulls w = (v, w')" and rd: "sweep_ready E cfg w"
    and fs: "\<forall>f \<in> set fulls. b_id f \<notin> set del \<longrightarrow> f \<in> completed_fulls E w k"
    and aws: "aws_ok E" and st: "store_answers E cfg"
    and all: "completed_fulls E w k \<subseteq> set fulls" "\<forall>f \<in> completed_fulls E w k. b_id f \<notin> set del"
    and tr: "tracks E w c"
  shows "card (restorable_fulls E cfg w k) \<le> Suc v"
proof -
  let ?V = "{f \<in> set fulls. b_id f \<noteq> b_id c \<and> b_id f \<notin> set del \<and> f \<in> restorable_fulls E cfg w k}"
  have "restorable_fulls E cfg w k \<subseteq> insert c ?V"
  proof
    fix r assume r: "r \<in> restorable_fulls E cfg w k"
    then have rc: "r \<in> completed_fulls E w k" by (simp add: restorable_fulls_def)
    show "r \<in> insert c ?V"
    proof (cases "b_id r = b_id c")
      case True
      with tr rc have "r = c \<or> r = expired_copy c" by (auto simp: tracks_def completed_fulls_def)
      then show ?thesis using rc by (auto simp: completed_fulls_def sweepable_def)
    next
      case False
      then show ?thesis using r rc all by auto
    qed
  qed
  then have "card (restorable_fulls E cfg w k) \<le> card (insert c ?V)" by (intro card_mono) auto
  also have "\<dots> \<le> Suc (card ?V)" by (simp add: card_insert_if)
  also have "card ?V \<le> v" by (rule count_verified_complete [OF cv rd fs aws st])
  finally show ?thesis by simp
qed

lemma sweep_group_complete:
  assumes "sweep_group E (adapter_of cfg) cutoff fulls cs del n w = ((m, e), w')"
    and "able E cfg w" "sweep_ready E cfg w" "sorted (map b_started cs)" "completed_fulls E w k \<subseteq> set cs"
    and "\<forall>f \<in> set fulls. b_id f \<notin> set del \<longrightarrow> f \<in> completed_fulls E w k"
    and "\<forall>f \<in> completed_fulls E w k. b_id f \<notin> set del" "set cs \<subseteq> set fulls" "\<forall>c \<in> set cs. tracks E w c"
    and aws: "aws_ok E" and st: "store_answers E cfg" and bw: "bolt_writes E"
    and ids: "\<forall>f \<in> set fulls. b_id f \<noteq> ''''"
  shows "e = None \<and> finished E cfg w' k cutoff"
  using assms(1-9)
proof (induction cs arbitrary: del n w)
  case Nil
  then show ?case by (simp add: finished_def)
next
  case (Cons c cs)
  let ?a = "adapter_of cfg"
  obtain v w1 where cv: "count_verified E ?a (b_id c) del fulls w = (v, w1)" by fastforce
  have fr: "db w1 = db w" "s3_view E ?a w1 = s3_view E ?a w"
    using count_verified_frame [OF cv aws] by simp_all
  consider (stop) "\<not> b_started c < cutoff" "w' = w" "e = None"
    | (few) "v < MinVerifiedFullBackups" "w' = w1" "e = None"
    | (del) "b_started c < cutoff" "\<not> v < MinVerifiedFullBackups"
    using Cons.prems(1) cv by (auto split: if_splits)
  then show ?case
  proof cases
    case stop
    have "cutoff \<le> b_started r" if "r \<in> completed_fulls E w k" for r
      using Cons.prems(4,5) stop(1) that by fastforce
    then show ?thesis using stop by (simp add: finished_def)
  next
    case few
    have "card (restorable_fulls E cfg w k) \<le> Suc v"
      by (rule few_restorable [OF cv Cons.prems(3,6) aws st]) (use Cons.prems(5,7-9) in auto)
    then have "card (restorable_fulls E cfg w k) \<le> MinVerifiedFullBackups" using few(1) by simp
    moreover have "restorable_fulls E cfg w1 k = restorable_fulls E cfg w k"
      by (simp add: restorable_fulls_def completed_fulls_def view_eq_db [OF fr(1)] fr(2))
    ultimately show ?thesis using few by (simp add: finished_def)
  next
    case del
    obtain x w2 where db: "delete_backup E (b_id c) w1 = (x, w2)" by fastforce
    have sh1: "shrinks E cfg {} w w1" by (rule shrinks_same [OF able_wf [OF Cons.prems(2)] fr])
    have a1: "able E cfg w1" by (rule able_shrinks [OF sh1 Cons.prems(2)])
    have id: "b_id c \<noteq> ''''" using ids Cons.prems(8) by auto
    have "tracks E w1 c" using tracks_shrinks [OF sh1] Cons.prems(9) by simp
    then obtain q where q: "backup_view E w1 (b_id c) = Some q" "q = c \<or> q = expired_copy c"
      by (auto simp: tracks_def)
    note t = delete_backup_taken [OF db a1 aws st bw q(1)]
    have gone: "backup_view E w2 (b_id c) = Some (expired_copy c)"
      using t q(2) by (auto simp: deleted_in_def)
    note sh = delete_backup_shrinks(1) [OF aws able_cfg [OF a1] able_wf [OF a1] db]
    have sh2: "shrinks E cfg (cascade E w (b_id c)) w w2"
      using shrinks_trans [OF sh1 sh] by (simp add: cascade_shrinks [OF sh1])
    have g: "sweep_group E ?a cutoff fulls cs (b_id c # del) (Suc n) w2 = ((m, e), w')"
      using Cons.prems(1) cv db del t by simp
    have un: "f \<in> completed_fulls E w2 k" if "f \<in> completed_fulls E w k" "b_id f \<noteq> b_id c" for f
    proof (rule untouched_completed [OF shrinks_untouched [OF Cons.prems(3) sh2 that(1)] that(1)])
      show "b_id f \<notin> cascade E w (b_id c)" using cascade_full [OF Cons.prems(3) that(1) _ id] that(2) by blast
    qed
    have nc: "b_id f \<noteq> b_id c" if "f \<in> completed_fulls E w2 k" for f
      using that gone by (auto simp: completed_fulls_def sweepable_def)
    note sub = completed_shrinks [OF sh2, of k]
    show ?thesis
    proof (rule Cons.IH [OF g able_shrinks [OF sh2 Cons.prems(2)] sweep_ready_shrinks [OF Cons.prems(3) sh2]])
      show "sorted (map b_started cs)" using Cons.prems(4) by simp
      show "completed_fulls E w2 k \<subseteq> set cs" using sub nc Cons.prems(5) by auto
      show "\<forall>f \<in> set fulls. b_id f \<notin> set (b_id c # del) \<longrightarrow> f \<in> completed_fulls E w2 k"
        using Cons.prems(6) un by auto
      show "\<forall>f \<in> completed_fulls E w2 k. b_id f \<notin> set (b_id c # del)" using sub nc Cons.prems(7) by auto
      show "set cs \<subseteq> set fulls" using Cons.prems(8) by simp
      show "\<forall>c \<in> set cs. tracks E w2 c" using Cons.prems(9) tracks_shrinks [OF sh2] by simp
    qed
  qed
qed

section \<open>The whole run\<close>

lemma sweep_round_complete:
  assumes nw: "now E w = (t, w1)" and a: "able E cfg w" and rd: "sweep_ready E cfg w"
    and F: "set F = completed_fulls E w k" "sorted (map b_started F)"
    and sg: "sweep_group E (adapter_of cfg) (add_days t (- retain_days_for E (fst k) w)) F F [] 0 w1 = ((m, e), w2)"
    and aws: "aws_ok E" and st: "store_answers E cfg" and bw: "bolt_writes E"
    and T: "\<forall>u. T \<le> fst (os_now E u)"
  shows "e = None \<and> finished E cfg w2 k (add_days T (- retain_days_for E (fst k) w))"
proof -
  note d1 = now_frame(1) [OF nw] and v1 = view_eq_s3 [OF now_frame(2) [OF nw]]
  have sh1: "shrinks E cfg {} w w1" by (rule shrinks_same [OF able_wf [OF a] d1 v1])
  have c1: "completed_fulls E w1 k = completed_fulls E w k"
    by (simp add: completed_fulls_def view_eq_db [OF d1])
  have ids: "\<forall>f \<in> set F. b_id f \<noteq> ''''"
    unfolding F using rd by (auto simp: sweep_ready_def completed_fulls_def)
  have "\<forall>c \<in> set F. tracks E w1 c"
    using view_eq_db [OF d1, of E] by (auto simp: F tracks_def completed_fulls_def)
  then have g: "e = None \<and> finished E cfg w2 k (add_days t (- retain_days_for E (fst k) w))"
    by (intro sweep_group_complete [OF sg able_shrinks [OF sh1 a] sweep_ready_shrinks [OF rd sh1] F(2)
          _ _ _ subset_refl _ aws st bw ids]) (simp_all add: c1 F)
  have "t = fst (os_now E (os w))" using nw by (auto simp: now_def split: prod.splits)
  then have "T \<le> t" using T by simp
  then show ?thesis using g finished_later by (fastforce simp: add_days_def)
qed

lemma sweep_groups_complete:
  assumes "sweep_groups E (adapter_of cfg) rs ks n None w = ((m, e), w')"
    and "able E cfg w" "sweep_ready E cfg w" "distinct ks"
    and "\<forall>k \<in> set ks. set (group_of rs k) = completed_fulls E w k"
    and aws: "aws_ok E" and st: "store_answers E cfg" and bw: "bolt_writes E" and d: "distinct rs"
    and T: "\<forall>u. T \<le> fst (os_now E u)"
  shows "e = None \<and> (\<forall>k \<in> set ks. finished E cfg w' k (add_days T (- retain_days_for E (fst k) w)))"
  using assms(1-5)
proof (induction ks arbitrary: n w)
  case Nil
  then show ?case by simp
next
  case (Cons k ks)
  let ?F = "sort_slice E b_started (group_of rs k)"
  note wf = able_wf [OF Cons.prems(2)] and cfg = able_cfg [OF Cons.prems(2)]
  obtain t w1 where nw: "now E w = (t, w1)" by fastforce
  obtain m1 e1 w2 where sg: "sweep_group E (adapter_of cfg) (add_days t (- retain_days_for E (fst k) w))
      ?F ?F [] 0 w1 = ((m1, e1), w2)"
    by (metis prod.exhaust)
  have dF: "distinct ?F" using d by (simp add: group_of_def)
  have F: "set ?F = completed_fulls E w k" using Cons.prems(5) by simp
  note c = sweep_round_complete [OF nw Cons.prems(2,3) F sorted_sort_slice sg aws st bw T]
  note r = sweep_round [OF aws cfg wf Cons.prems(3) dF F nw sg]
  have rest: "sweep_groups E (adapter_of cfg) rs ks (n + m1) None w2 = ((m, e), w')"
    using Cons.prems(1) nw sg c by (simp add: Let_def)
  note a2 = able_shrinks [OF r(1) Cons.prems(2)] and rd2 = sweep_ready_shrinks [OF Cons.prems(3) r(1)]
  have dk: "distinct ks" and k: "k \<notin> set ks" using Cons.prems(4) by simp_all
  have fs2: "\<forall>k' \<in> set ks. set (group_of rs k') = completed_fulls E w2 k'"
  proof
    fix k' assume k': "k' \<in> set ks"
    then have "k' \<noteq> k" using k by auto
    have "completed_fulls E w2 k' = completed_fulls E w k'"
      using completed_shrinks [OF r(1), of k'] r(2) [OF \<open>k' \<noteq> k\<close>] untouched_completed by blast
    then show "set (group_of rs k') = completed_fulls E w2 k'" using Cons.prems(5) k' by simp
  qed
  note ih = Cons.IH [OF rest a2 rd2 dk fs2]
  note s = sweep_groups_sound [OF aws d able_cfg [OF a2] able_wf [OF a2] rd2 dk fs2 rest]
  have un: "\<forall>q \<in> completed_fulls E w2 k. untouched E cfg w2 w' q" using s k by blast
  have "finished E cfg w' k (add_days T (- retain_days_for E (fst k) w))"
    by (rule finished_untouched [OF conjunct2 [OF c] conjunct1 [OF s] able_wf [OF a2] un])
  then show ?case using ih by (simp add: retain_days_shrinks [OF r(1)])
qed

lemma apply_sqlserver_complete:
  assumes ap: "apply_sqlserver_retention E w = ((m, e), w')" and a: "able E cfg w" and rd: "sweep_ready E cfg w"
    and aws: "aws_ok E" and rg: "range_ok E" and st: "store_answers E cfg" and bw: "bolt_writes E"
    and T: "\<forall>u. T \<le> fst (os_now E u)"
  shows "e = None \<and> finished E cfg w' k (add_days T (- retain_days_for E (fst k) w))"
proof -
  note wf = able_wf [OF a]
  from backups.all_Inr [OF wf] obtain rs where al: "br_find_all E w = Inr rs" ..
  obtain ra w1 where n: "s3_new E cfg w = (ra, w1)" by fastforce
  from s3_new_opens [of E cfg w _ w1] st obtain ad where ra: "ra = Inr ad"
    using n by (cases ra) (auto simp: store_answers_def)
  with n have ad: "ad = adapter_of cfg" using s3_new_result by blast
  let ?ks = "map_range E (os w1) (group_keys rs)"
  have g: "sweep_groups E (adapter_of cfg) rs ?ks 0 None w1 = ((m, e), w')"
    using ap al able_cfg [OF a] n ra ad by (simp add: apply_sqlserver_retention_def)
  have ms: "mset ?ks = mset (group_keys rs)" using rg by (simp add: range_ok_def)
  then have dk: "distinct ?ks" using mset_eq_imp_distinct_iff by (fastforce simp: group_keys_def)
  note fr = s3_new_frame [OF n] and v1 = s3_new_view [OF aws n]
  have sh1: "shrinks E cfg {} w w1" by (rule shrinks_same [OF wf fr(1) v1])
  have c1: "completed_fulls E w1 = completed_fulls E w"
    by (simp add: completed_fulls_def view_eq_db [OF fr(1)] fun_eq_iff)
  have fs: "\<forall>k \<in> set ?ks. set (group_of rs k) = completed_fulls E w1 k"
    using group_of_all(1) [OF wf al] c1 by simp
  note a1 = able_shrinks [OF sh1 a] and rd1 = sweep_ready_shrinks [OF rd sh1]
  note c = sweep_groups_complete [OF g a1 rd1 dk fs aws st bw group_of_all(2) [OF wf al] T]
  note s = conjunct1 [OF sweep_groups_sound [OF aws group_of_all(2) [OF wf al] able_cfg [OF a1] able_wf [OF a1]
        rd1 dk fs g]]
  show ?thesis
  proof (cases "k \<in> set ?ks")
    case True
    then show ?thesis using c by (simp add: retain_days_shrinks [OF sh1])
  next
    case False
    then have "k \<notin> set (group_keys rs)" using ms by (metis set_mset_mset)
    then have "completed_fulls E w1 k = {}" using group_of_all(3) [OF wf al, of k] c1 by auto
    then have "completed_fulls E w' k = {}" using completed_shrinks [OF s, of k] by auto
    then show ?thesis using c by (simp add: finished_def)
  qed
qed

text \<open>
  C4. Retention leaves nothing due behind. While the database file and the store answer, a run of
  \<open>ApplyRetention\<close> reports no error; every backup of another engine that was past its date is
  expired and its object is gone; and every group of SQL Server is finished: no completed full older than the
  window is left, or at most the two fulls the golden rule asks for can be restored. T is a moment no reading of
  the clock precedes. The records are those \<open>golden_rule\<close> is about (\<open>sweep_ready\<close>), and their times have years JSON
  can hold.
\<close>

theorem retention_deletes_all_due:
  assumes "aws_ok E" and "range_ok E" and "backups_wf E w"
    and "s3cfg_get E w = Inr cfg" and "sweep_ready E cfg w"
    and "store_answers E cfg" and "bolt_writes E"
    and "\<forall>i r. backup_view E w i = Some r \<longrightarrow> times_fit r" and "\<forall>m. T \<le> fst (os_now E m)"
    and "apply_retention E w = ((n, e), w')"
  shows "e = None \<and>
    (\<forall>r. backup_view E w (b_id r) = Some r \<and> b_engine r \<noteq> EngineSQLServer \<and> is_expired_at T r \<longrightarrow>
      deleted_in E cfg w' r) \<and>
    (\<forall>k. finished E cfg w' k (add_days T (- retain_days_for E (fst k) w)))"
proof -
  have a: "able E cfg w" using assms(3,4,8) by (simp add: able_def)
  obtain x w1 where f: "br_find_expired E w = (x, w1)" by fastforce
  from br_find_expired_set [OF assms(3) f] obtain rs where fr: "db w1 = db w" "s3 w1 = s3 w" and x: "x = Inr rs" and
    rs: "set rs = {q. backup_view E w (b_id q) = Some q \<and> is_expired_at (fst (os_now E (os w))) q}"
    by blast
  obtain m w2 where x1: "expire_all E rs 0 w1 = (m, w2)" by fastforce
  obtain y e3 w3 where a2: "apply_sqlserver_retention E w2 = ((y, e3), w3)" by (metis prod.exhaust)
  have w3: "e3 = e" "w3 = w'" using assms(10) f x x1 a2 by (auto simp: apply_retention_def)
  have sh1: "shrinks E cfg {} w w1" by (rule shrinks_same [OF assms(3) fr(1) view_eq_s3 [OF fr(2)]])
  note a1 = able_shrinks [OF sh1 a]
  have tr: "\<forall>r \<in> set rs. tracks E w1 r"
    using view_eq_db [OF fr(1), of E] by (auto simp: rs tracks_def)
  note ex = expire_all_complete [OF x1 a1 tr assms(1,6,7)]
  note sh2 = shrinks_trans [OF sh1 expire_all_shrinks [OF assms(1) able_cfg [OF a1] able_wf [OF a1] x1]]
  have ab2: "able E cfg w2" using ex by blast
  note rd2 = sweep_ready_shrinks [OF assms(5) sh2]
  note s = apply_sqlserver_sound [OF assms(1,2) able_wf [OF ab2] able_cfg [OF ab2] rd2 a2]
  note c = apply_sqlserver_complete [OF a2 ab2 rd2 assms(1,2,6,7,9)]
  have "deleted_in E cfg w' r"
    if "backup_view E w (b_id r) = Some r" "b_engine r \<noteq> EngineSQLServer" "is_expired_at T r" for r
  proof -
    have "T \<le> fst (os_now E (os w))" using assms(9) by simp
    then have "r \<in> set rs" using that by (auto simp: rs is_expired_at_def)
    then have "deleted_in E cfg w2 r" using ex that(2) by blast
    then show ?thesis using deleted_in_shrinks [OF conjunct1 [OF s]] w3 by simp
  qed
  then show ?thesis using c w3 by (simp add: retain_days_shrinks [OF sh2])
qed

text \<open>A MySQL backup past its date, beside the chain of a SQL Server database.\<close>

definition ex_dated :: backup_record where
  "ex_dated = (ex_record ''m'' ''m.sql'' BackupTypeFull '''' ns_per_day)
     \<lparr>b_engine := EngineMySQL, b_expires := 5 * ns_per_day\<rparr>"

theorem retention_deletes_all_due_witness:
  "let w = ex_sys [] (ex_dated # ex_chain) 0; w' = snd (apply_retention (fixed_env (10 * ns_per_day)) w)
   in backup_view ref_env w ''m'' = Some ex_dated \<and> deleted_in (fixed_env (10 * ns_per_day)) ex_cfg w' ex_dated \<and>
     finished (fixed_env (10 * ns_per_day)) ex_cfg w' (''i1'', ''db'') (7 * ns_per_day)"
proof -
  let ?E = "fixed_env (10 * ns_per_day)" and ?w = "ex_sys [] (ex_dated # ex_chain) 0"
  have d: "backup_view ref_env ?w ''m'' = Some ex_dated"
    by (simp add: ex_backup_view ex_dated_def)
  have rd: "sweep_ready ?E ex_cfg ?w"
  proof -
    have "ready_list (ex_dated # ex_chain)" by code_simp
    from ex_sweep_ready [OF this, of "[]" 0] show ?thesis by (simp add: sweep_ready_def fixed_env_views)
  qed
  have st: "store_answers ?E ex_cfg" "bolt_writes ?E"
    by (simp_all add: store_answers_def storage_opens_def bolt_writes_def fixed_env_def ref_env_sel s3_delete_def
        s3_list_def Let_def)
  have fit: "\<forall>i r. backup_view ?E ?w i = Some r \<longrightarrow> times_fit r"
  proof (intro allI impI)
    fix i r assume "backup_view ?E ?w i = Some r"
    then have "r \<in> set (ex_dated # ex_chain)"
      using map_of_SomeD [of "map (\<lambda>r. (b_id r, r)) (ex_dated # ex_chain)" i r]
      by (auto simp: fixed_env_views ex_backup_view)
    moreover have "list_all times_fit (ex_dated # ex_chain)" by code_simp
    ultimately show "times_fit r" by (auto simp: list_all_iff)
  qed
  obtain n e w' where ap: "apply_retention ?E ?w = ((n, e), w')" by (metis prod.exhaust)
  have m: "b_id ex_dated = ''m'' \<and> b_engine ex_dated \<noteq> EngineSQLServer \<and> is_expired_at (10 * ns_per_day) ex_dated"
    by code_simp
  have days: "add_days (10 * ns_per_day) (- retain_days_for ?E (fst (''i1'', ''db'')) ?w) = 7 * ns_per_day"
    by code_simp
  have "backups_wf ?E ?w" "s3cfg_get ?E ?w = Inr ex_cfg" "\<forall>u. 10 * ns_per_day \<le> fst (os_now ?E u)"
    by (simp_all add: fixed_env_views ex_backups_wf ex_s3cfg)
  note all = retention_deletes_all_due [OF fixed_env_ok(2,3) this(1,2) rd st fit this(3) ap]
  from all d m have "deleted_in ?E ex_cfg w' ex_dated" by (auto simp: fixed_env_views)
  moreover from all have "finished ?E ex_cfg w' (''i1'', ''db'') (7 * ns_per_day)"
    unfolding days [symmetric] by blast
  ultimately show ?thesis using d ap by (simp add: Let_def)
qed

end
