(* ===== verification/Connections.thy ===== *)
theory Connections
  imports Restore UseCases "HOL-Library.Multiset"
begin

text \<open>
  The connections to the backed-up servers. \<open>NewAdapter\<close> opens a handle of \<open>database/sql\<close> or a Redis
  client; each function that calls it defers \<open>Close\<close>. Here the open handles of the process are counted, as a
  multiset of what opened them, over every path of the functions that use an adapter.
\<close>

section \<open>What the calls of an adapter leave alone\<close>

text \<open>
  An observation of the machine that no call of the clock, of a driver, a process or a Redis client changes: then
  no operation of an adapter between its opening and its closing does.
\<close>

locale unseen_calls =
  fixes E :: "('d, 's, 'm) env" and H :: "'m \<Rightarrow> 'h"
  assumes clock_laws: "H (snd (os_now E m)) = H m" "H (snd (os_uuid E m)) = H m"
    and sql_laws: "H (snd (sql_ping E c m)) = H m" "H (snd (sql_query E c q ps m)) = H m" "H (snd (sql_exec E c q m)) = H m"
    and cmd_laws: "H (snd (cmd_output E cmd m)) = H m" "H (snd (cmd_start E cmds m)) = H m" "H (snd (cmd_run E cmd st m)) = H m"
    and redis_laws: "H (snd (redis_ping E r m)) = H m" "H (snd (redis_info E r m)) = H m"
      "scan \<in> set (redis_scan E r m') \<Longrightarrow> H (snd (scan m)) = H m" "H (snd (redis_dump E r k m)) = H m" "H (snd (redis_restore E r k x m)) = H m"
begin

lemma quiet_calls:
  "os_now E m = (t, m') \<Longrightarrow> H m' = H m" "os_uuid E m = (u, m') \<Longrightarrow> H m' = H m"
  "sql_ping E c m = (e, m') \<Longrightarrow> H m' = H m" "sql_query E c q ps m = (rows, m') \<Longrightarrow> H m' = H m"
  "sql_exec E c q m = (e, m') \<Longrightarrow> H m' = H m" "cmd_output E cmd m = (out, m') \<Longrightarrow> H m' = H m"
  "cmd_start E cmds m = (started, m') \<Longrightarrow> H m' = H m" "cmd_run E cmd st m = (out, m') \<Longrightarrow> H m' = H m"
  "redis_ping E r m = (e, m') \<Longrightarrow> H m' = H m" "redis_info E r m = (info, m') \<Longrightarrow> H m' = H m"
  "scan \<in> set (redis_scan E r m1) \<Longrightarrow> scan m = (page, m') \<Longrightarrow> H m' = H m" "redis_dump E r k m = (v, m') \<Longrightarrow> H m' = H m"
  "redis_restore E r k x m = (e, m') \<Longrightarrow> H m' = H m"
  by (metis clock_laws sql_laws cmd_laws redis_laws snd_conv)+



lemma now_seen: "now E w = (t, w') \<Longrightarrow> H (os w') = H (os w)"
  and new_id_seen: "new_id E w = (i, w') \<Longrightarrow> H (os w') = H (os w)"
  by (auto simp: now_def new_id_def split: prod.splits dest!: quiet_calls(1,2))

lemma run_ignored_seen: "H (os (run_ignored E args w)) = H (os w)"
  by (auto simp: run_ignored_def split: prod.splits dest!: quiet_calls(8))

lemma list_databases_seen: "list_databases E ad w = (r, w') \<Longrightarrow> H (os w') = H (os w)"
  by (auto simp: list_databases_def split: db_adapter.splits prod.splits sum.splits dest!: quiet_calls(4,10))

lemma ad_ping_seen: "ad_ping E ad w = (r, w') \<Longrightarrow> H (os w') = H (os w)"
  by (auto simp: ad_ping_def split: db_adapter.splits prod.splits dest!: quiet_calls(3,9))

lemma reader_close_seen: "reader_close E rd w = (e, w') \<Longrightarrow> H (os w') = H (os w)"
  by (auto simp: reader_close_def run_ignored_seen split: reader.splits)

lemma find_docker_seen: "find_docker_container E p w = (r, w') \<Longrightarrow> H (os w') = H (os w)"
  by (auto simp: find_docker_container_def split: prod.splits option.splits dest!: quiet_calls(6))

lemma recovery_model_seen: "recovery_model E c dbn w = (r, w') \<Longrightarrow> H (os w') = H (os w)"
  by (auto simp: recovery_model_def split: prod.splits sum.splits list.splits dest!: quiet_calls(4))

lemma sqlserver_dump_seen:
  "sqlserver_dump E c i dbn ext f w = (r, w') \<Longrightarrow> H (os w') = H (os w)"
  by (auto simp: sqlserver_dump_def Let_def split: prod.splits sum.splits option.splits
      dest!: now_seen find_docker_seen quiet_calls(5,7))

lemma sqlserver_backup_log_seen:
  "sqlserver_backup_log E c i dbn w = (r, w') \<Longrightarrow> H (os w') = H (os w)"
  by (auto simp: sqlserver_backup_log_def split: prod.splits sum.splits if_splits
      dest!: recovery_model_seen sqlserver_dump_seen)

lemma dump_keys_seen: "dump_keys E r ks acc m = (x, m') \<Longrightarrow> H m' = H m"
  by (induction ks arbitrary: acc m) (auto split: prod.splits sum.splits dest!: quiet_calls(12))

lemma dump_pages_seen:
  "dump_pages E r ps acc m = (x, m') \<Longrightarrow> set ps \<subseteq> set (redis_scan E r m1) \<Longrightarrow> H m' = H m"
proof (induction ps arbitrary: acc m)
  case (Cons p ps)
  obtain d m2 where p: "p m = (d, m2)" by fastforce
  have "p \<in> set (redis_scan E r m1)" using Cons.prems(2) by simp
  from redis_laws(3) [OF this] have v: "H m2 = H m" using p by (metis snd_conv)
  show ?case
  proof (cases d)
    case (Inl e)
    with Cons.prems p v show ?thesis by simp
  next
    case (Inr ks)
    obtain acc' m3 where k: "dump_keys E r ks acc m2 = (acc', m3)" by fastforce
    have "dump_pages E r ps acc' m3 = (x, m')" using Cons.prems(1) p Inr k by simp
    with Cons.IH Cons.prems(2) dump_keys_seen [OF k] v show ?thesis by simp
  qed
qed simp

lemma redis_backup_seen: "redis_backup E r i dbn w = (x, w') \<Longrightarrow> H (os w') = H (os w)"
  by (auto simp: redis_backup_def split: prod.splits sum.splits
      dest!: now_seen dump_pages_seen [OF _ subset_refl])

lemma restore_keys_seen: "restore_keys E r ks m = (x, m') \<Longrightarrow> H m' = H m"
  by (induction ks arbitrary: m) (auto split: prod.splits option.splits dest!: quiet_calls(13))

lemma ad_backup_seen: "ad_backup E ad dbn w = (r, w') \<Longrightarrow> H (os w') = H (os w)"
  by (auto simp: ad_backup_def sqlserver_backup_def mysql_backup_def postgres_backup_def Let_def
      split: db_adapter.splits prod.splits sum.splits
      dest!: now_seen sqlserver_dump_seen quiet_calls(7) redis_backup_seen)

lemma sqlserver_load_seen:
  "sqlserver_load E c i p st s a b w = (r, w') \<Longrightarrow> H (os w') = H (os w)"
  by (auto simp: sqlserver_load_def run_ignored_seen split: prod.splits sum.splits option.splits
      dest!: find_docker_seen quiet_calls(5,8))

lemma ad_restore_seen: "ad_restore E ad dbn st nr w = (r, w') \<Longrightarrow> H (os w') = H (os w)"
  by (auto simp: ad_restore_def sqlserver_restore_def mysql_restore_def postgres_restore_def redis_load_def
      Let_def split: db_adapter.splits prod.splits sum.splits option.splits
      dest!: sqlserver_load_seen quiet_calls(5,8) restore_keys_seen)

lemma sqlserver_restore_log_seen:
  "sqlserver_restore_log E c i dbn st rec w = (r, w') \<Longrightarrow> H (os w') = H (os w)"
  by (auto simp: sqlserver_restore_log_def Let_def dest!: sqlserver_load_seen)

lemma put_seen: "H (os (snd (store_put E b k x w))) = H (os w)"
  by (auto simp: store_put_def split: sum.split prod.split)

lemma mark_failed_seen: "H (os (mark_failed E rid e w)) = H (os w)"
proof -
  obtain t w1 where n: "now E w = (t, w1)" by fastforce
  show ?thesis
    using now_seen [OF n] by (auto simp: mark_failed_def br_update_status_def n put_seen split: sum.split)
qed

lemma store_seen: "store_put E b k x w = (e, w') \<Longrightarrow> H (os w') = H (os w)"
  using store_put_frame(2) [of E b k x w e w'] by simp

lemma s3_seen:
  "s3_new E cfg w = (r, w') \<Longrightarrow> H (os w') = H (os w)" "s3_download E a k w = (d, w') \<Longrightarrow> H (os w') = H (os w)"
  "s3_delete E a k w = (e, w') \<Longrightarrow> H (os w') = H (os w)" "s3_tag E a k t w = (e, w') \<Longrightarrow> H (os w') = H (os w)"
  "s3_upload E a k st w = (u, w') \<Longrightarrow> H (os w') = H (os w)"
  using s3_new_frame(2) [of E cfg w r w'] s3_ops_frame(2) [of E a k w d w'] s3_ops_frame(3) [of E a k w e w']
    s3_ops_frame(4) [of E a k t w e w'] s3_ops_frame(5) [of E a k st w u w'] by simp_all

lemma finish_backup_seen: "finish_backup E i a r rd key w = (x, w') \<Longrightarrow> H (os w') = H (os w)"
  by (auto simp: finish_backup_def br_update_def mark_failed_seen split: prod.splits sum.splits option.splits
      dest!: s3_seen reader_close_seen now_seen store_seen)

lemma backup_database_seen:
  assumes "backup_database E i dbn bt parent f a days w = (x, w')"
    and "\<And>d w r w'. f d w = (r, w') \<Longrightarrow> H (os w') = H (os w)"
  shows "H (os w') = H (os w)"
  using assms(1)
  by (auto simp: backup_database_def br_save_def Let_def mark_failed_seen split: prod.splits sum.splits option.splits
      dest!: now_seen new_id_seen store_seen finish_backup_seen assms(2))

lemma backup_all_seen: "H (os (backup_all E i ad a days bt ds w)) = H (os w)"
proof (induction ds arbitrary: w)
  case (Cons d ds)
  have full: "H (os w1) = H (os w)" if "backup_database E i d BackupTypeFull '''' (ad_backup E ad) a days w = (x, w1)" for x w1 w
    by (rule backup_database_seen [OF that]) (rule ad_backup_seen)
  have log: "H (os w1) = H (os w)"
    if "backup_database E i d BackupTypeLog p (sqlserver_backup_log E c ci) a days w = (x, w1)" for p c ci x w1 w
    by (rule backup_database_seen [OF that]) (rule sqlserver_backup_log_seen)
  show ?case
    using Cons.IH by (auto simp: log_failure_def split: prod.splits option.splits sum.splits dest!: full log)
qed simp

lemma start_restore_seen: "start_restore_record E i d b w = (r, w') \<Longrightarrow> H (os w') = H (os w)"
  by (auto simp: start_restore_record_def Let_def rr_save_def put_seen split: prod.splits dest!: new_id_seen now_seen)

lemma finish_restore_seen: "H (os (finish_restore_record E r ids e w)) = H (os w)"
  by (auto simp: finish_restore_record_def Let_def rr_update_def put_seen split: prod.splits dest!: now_seen)

lemma apply_chain_seen: "apply_chain E i ad a dbn first cs ids w = (x, w') \<Longrightarrow> H (os w') = H (os w)"
proof (induction cs arbitrary: first ids w x)
  case (Cons c cs)
  obtain rd w1 where d: "s3_download E a (b_file_name c) w = (rd, w1)" by fastforce
  show ?case
    using Cons.prems s3_seen(2) [OF d]
    by (auto simp: d Let_def split: sum.splits if_splits prod.splits option.splits
        dest!: Cons.IH ad_restore_seen sqlserver_restore_log_seen)
qed simp

lemma restore_chain_seen: "restore_chain E i ad cfg dbn chain w = (x, w') \<Longrightarrow> H (os w') = H (os w)"
  by (auto simp: restore_chain_def split: sum.splits prod.splits dest!: s3_seen(1) apply_chain_seen)

end

section \<open>Handles\<close>

text \<open>
  The multiset of open handles: it grows by a handle that was opened and shrinks by one that is closed, even when
  closing reports an error; no other call opens or closes any.
\<close>

definition handles_ok :: "('d, 's, 'm) env \<Rightarrow> ('m \<Rightarrow> handle multiset) \<Rightarrow> bool" where
  "handles_ok E H \<longleftrightarrow> unseen_calls E H \<and>
     (\<forall>d dsn m. H (snd (sql_open E d dsn m)) =
        (if fst (sql_open E d dsn m) = None then add_mset (SqlHandle \<lparr>q_driver = d, q_dsn = dsn\<rparr>) (H m) else H m)) \<and>
     (\<forall>r m. H (redis_open E r m) = add_mset (RedisHandle r) (H m)) \<and>
     (\<forall>c m. H (snd (sql_close E c m)) = H m - {#SqlHandle c#}) \<and>
     (\<forall>r m. H (snd (redis_close E r m)) = H m - {#RedisHandle r#})"

text \<open>The handles of a machine that counts them.\<close>

definition counted :: "('d, 's, 'm) env \<Rightarrow> ('m \<Rightarrow> handle multiset) \<Rightarrow> 'm \<Rightarrow> handle multiset" where
  "counted E H m = (if handles_ok E H then H m else {#})"

interpretation handles: unseen_calls E "counted E H" for E :: "('d, 's, 'm) env" and H
proof (cases "handles_ok E H")
  case True
  then have "unseen_calls E H" "counted E H = H" by (simp_all add: handles_ok_def counted_def fun_eq_iff)
  then show "unseen_calls E (counted E H)" by simp
next
  case False
  then show "unseen_calls E (counted E H)" by unfold_locales (simp_all add: counted_def)
qed

text \<open>The handle of an adapter: \<open>NewAdapter\<close> opens it, or fails without one, and \<open>Close\<close> closes it.\<close>

fun handle_of :: "db_adapter \<Rightarrow> handle" where
  "handle_of (SQLServerAdapter c i) = SqlHandle c"
| "handle_of (MySQLAdapter c i) = SqlHandle c"
| "handle_of (PostgresAdapter c i) = SqlHandle c"
| "handle_of (RedisAdapter r i) = RedisHandle r"

lemma sql_open_handles:
  assumes "sql_open E d dsn m = (e, m')" "handles_ok E H"
  shows "H m' = (if e = None then add_mset (SqlHandle \<lparr>q_driver = d, q_dsn = dsn\<rparr>) (H m) else H m)"
proof -
  have "H (snd (sql_open E d dsn m)) =
      (if fst (sql_open E d dsn m) = None then add_mset (SqlHandle \<lparr>q_driver = d, q_dsn = dsn\<rparr>) (H m) else H m)"
    using assms(2) unfolding handles_ok_def by blast
  then show ?thesis by (simp add: assms(1))
qed

lemma new_adapter_handles:
  assumes "new_adapter E i w = (r, w')" "handles_ok E H"
  shows "H (os w') = (case r of Inl e \<Rightarrow> H (os w) | Inr ad \<Rightarrow> add_mset (handle_of ad) (H (os w)))"
proof -
  have "H (redis_open E c m) = add_mset (RedisHandle c) (H m)" for c m
    using assms(2) unfolding handles_ok_def by blast
  then show ?thesis
    using assms(1) by (auto simp: new_adapter_def open_sql_def split: engine_type.splits prod.splits option.splits
        dest!: sql_open_handles [OF _ assms(2)])
qed

lemma closing_handles:
  assumes "closing E ad p = (x, w')" "handles_ok E H"
  shows "H (os w') = H (os (snd p)) - {#handle_of ad#}"
proof -
  have "H (snd (sql_close E c m)) = H m - {#SqlHandle c#}" "H (snd (redis_close E r m)) = H m - {#RedisHandle r#}" for c r m
    using assms(2) unfolding handles_ok_def by blast+
  then have "H (os (snd (ad_close E ad v))) = H (os v) - {#handle_of ad#}" for v
    by (cases ad) (simp_all add: ad_close_def case_prod_beta)
  then show ?thesis using assms(1) by (auto simp: closing_def split: prod.splits)
qed

text \<open>What keeps the handles while an adapter is open gives them back when it is closed.\<close>

lemma bracket_handles:
  assumes "closing E ad p = (x, w')" "handles_ok E H" "new_adapter E i w = (Inr ad, w1)" "H (os (snd p)) = H (os w1)"
  shows "H (os w') = H (os w)"
  using closing_handles [OF assms(1,2)] new_adapter_handles [OF assms(3,2)] assms(4) by simp

lemma counted_ok: "handles_ok E H \<Longrightarrow> counted E H = H"
  by (simp add: counted_def fun_eq_iff)

section \<open>The functions that use an adapter\<close>

lemma test_connection_handles:
  assumes "handles_ok E H"
  shows "H (os (snd (instance_test_connection E i w))) = H (os w)"
proof -
  note seen = handles.now_seen [where E = E and H = H, unfolded counted_ok [OF assms]]
    handles.ad_ping_seen [where E = E and H = H, unfolded counted_ok [OF assms]]
  obtain r w1 where n: "new_adapter E i w = (r, w1)" by fastforce
  show ?thesis
  proof (cases r)
    case (Inl e)
    with new_adapter_handles [OF n assms] show ?thesis by (simp add: instance_test_connection_def n)
  next
    case (Inr ad)
    define p where "p = (case now E w1 of (start, w2) \<Rightarrow> (case ad_ping E ad w2 of
        (Some e, w3) \<Rightarrow> ((0, Some e), w3)
      | (None, w3) \<Rightarrow> (case now E w3 of (t, w4) \<Rightarrow> ((time_sub t start, None), w4))))"
    have "H (os (snd p)) = H (os w1)"
      unfolding p_def by (auto split: prod.splits option.splits dest!: seen)
    from bracket_handles [OF surjective_pairing assms n [unfolded Inr] this]
    show ?thesis by (simp add: instance_test_connection_def n Inr p_def)
  qed
qed

lemma run_for_instance_handles:
  assumes "handles_ok E H"
  shows "H (os (snd (run_for_instance E iid bt w))) = H (os w)"
proof -
  note lists = handles.list_databases_seen [where E = E and H = H, unfolded counted_ok [OF assms]]
    and backs = handles.backup_all_seen [where E = E and H = H, unfolded counted_ok [OF assms]]
  have body: "H (os (snd (closing E ad (if bt = BackupTypeLog \<and> log_capable ad = None then (None, w2)
      else (case list_databases E ad w2 of
          (Inl e, w3) \<Rightarrow> (Some (WrapErr ''listar bases de datos: '' e []), w3)
        | (Inr dbs, w3) \<Rightarrow> (None, backup_all E i ad a days bt dbs w3)))))) = H (os w1)"
    if n: "new_adapter E i w1 = (Inr ad, w2)" for i ad a days w1 w2
  proof (rule bracket_handles [OF surjective_pairing assms n])
    show "H (os (snd (if bt = BackupTypeLog \<and> log_capable ad = None then (None, w2)
      else (case list_databases E ad w2 of
          (Inl e, w3) \<Rightarrow> (Some (WrapErr ''listar bases de datos: '' e []), w3)
        | (Inr dbs, w3) \<Rightarrow> (None, backup_all E i ad a days bt dbs w3))))) = H (os w2)"
      using backs by (auto split: prod.splits sum.splits dest!: lists)
  qed
  have fails: "H (os w2) = H (os w1)" if "new_adapter E i w1 = (Inl e, w2)" for i e w1 w2
    using new_adapter_handles [OF that assms] by simp
  show ?thesis
    by (auto simp: run_for_instance_def Let_def body split: sum.split prod.split
        dest!: s3_new_frame(2) fails)
qed

lemma restore_backup_handles:
  assumes "handles_ok E H"
  shows "H (os (snd (restore_backup E bid tname dbn w))) = H (os w)"
proof -
  note starts = handles.start_restore_seen [where E = E and H = H, unfolded counted_ok [OF assms]]
    and ends = handles.finish_restore_seen [where E = E and H = H, unfolded counted_ok [OF assms]]
    and chains = handles.restore_chain_seen [where E = E and H = H, unfolded counted_ok [OF assms]]
  have body: "H (os (snd (closing E ad (case start_restore_record E target dbn bid w1 of
      (rr, w2) \<Rightarrow> (case restore_chain E target ad cfg dbn (chain w2) w2 of
          ((ids, e), w3) \<Rightarrow> (e, finish_restore_record E rr ids e w3)))))) = H (os w0)"
    if n: "new_adapter E target w0 = (Inr ad, w1)" for ad target w0 w1 chain cfg
    by (rule bracket_handles [OF surjective_pairing assms n]) (auto simp: ends split: prod.splits dest!: starts chains)
  have fails: "H (os w2) = H (os w1)" if "new_adapter E i w1 = (Inl e, w2)" for i e w1 w2
    using new_adapter_handles [OF that assms] by simp
  show ?thesis
    by (auto simp: restore_backup_def Let_def body split: sum.split prod.split dest!: fails)
qed

lemma run_for_all_handles: "handles_ok E H \<Longrightarrow> H (os (snd (run_for_all E bt w))) = H (os w)"
proof -
  assume ok: "handles_ok E H"
  have "H (os (run_each E bt is w)) = H (os w)" for "is"
    by (induction "is" arbitrary: w) (simp_all add: run_for_instance_handles [OF ok])
  then show ?thesis by (simp add: run_for_all_def split: sum.split)
qed

lemma restore_all_handles:
  assumes "handles_ok E H"
  shows "H (os (snd (restore_all E c w))) = H (os w)"
proof -
  have b: "H (os w2) = H (os w1)" if "restore_backup E b n d w1 = (e, w2)" for b n d e w1 w2
    using restore_backup_handles [OF assms, of b n d w1] that by simp
  have p: "H (os w2) = H (os w1)" if "restore_points E i ps w1 = (fs, w2)" for i ps fs w1 w2
    using that by (induction ps arbitrary: w1 fs) (auto split: prod.splits dest!: b)
  have i: "H (os w2) = H (os w1)" if "restore_instances E is w1 = (fs, w2)" for "is" fs w1 w2
    using that by (induction "is" arbitrary: w1 fs) (auto split: prod.splits sum.splits if_splits dest!: p)
  show ?thesis by (auto simp: restore_all_def split: sum.split prod.split dest!: i)
qed

section \<open>Property\<close>

text \<open>
  C17. No connection leaks. Testing an instance, backing up one instance or all, restoring one backup, a
  point in time or everything: whatever fails on the way, the process has the same handles open afterwards as
  before, for \<open>NewAdapter\<close> opens at most one and the deferred \<open>Close\<close> closes just that one.
\<close>

theorem adapters_are_closed:
  assumes "handles_ok E H"
  shows "H (os (snd (instance_test_connection E i w))) = H (os w) \<and>
    H (os (snd (run_for_instance E iid bt w))) = H (os w) \<and>
    H (os (snd (run_for_all E bt w))) = H (os w) \<and>
    H (os (snd (restore_backup E bid tname dbn w))) = H (os w) \<and>
    H (os (snd (restore_point_in_time E tname dbn tt w))) = H (os w) \<and>
    H (os (snd (restore_all E phrase w))) = H (os w)"
  using test_connection_handles [OF assms] run_for_instance_handles [OF assms] run_for_all_handles [OF assms]
    restore_backup_handles [OF assms] restore_all_handles [OF assms]
  by (simp add: restore_point_in_time_def split: sum.split option.split)

section \<open>Witness\<close>

text \<open>A machine that lists its open handles, with a database that does not answer.\<close>

definition conn_env :: "(ref_db, ref_s3, ref_os) env" where
  "conn_env = ref_env\<lparr>
     sql_open := (\<lambda>d dsn m. (None, m\<lparr>ro_handles := SqlHandle \<lparr>q_driver = d, q_dsn = dsn\<rparr> # ro_handles m\<rparr>)),
     sql_query := (\<lambda>c q ps m. (Inl (Err ''timeout''), m)),
     sql_close := (\<lambda>c m. (None, m\<lparr>ro_handles := remove1 (SqlHandle c) (ro_handles m)\<rparr>)),
     redis_open := (\<lambda>r m. m\<lparr>ro_handles := RedisHandle r # ro_handles m\<rparr>),
     redis_close := (\<lambda>r m. (None, m\<lparr>ro_handles := remove1 (RedisHandle r) (ro_handles m)\<rparr>))\<rparr>"

lemma ref_quiet:
  "sql_ping ref_env = (\<lambda>c m. (None, m))" "redis_ping ref_env = (\<lambda>r m. (None, m))" "redis_info ref_env = (\<lambda>r m. (Inr [], m))"
  "redis_scan ref_env = (\<lambda>r m. [\<lambda>m1. (Inr [''k''], m1)])" "redis_dump ref_env = (\<lambda>r k m. (Inr ''v'', m))"
  "redis_restore ref_env = (\<lambda>r k v m. (None, m))"
  by (simp_all add: ref_env_def)

lemma conn_env_ok: "handles_ok conn_env (\<lambda>m. mset (ro_handles m))"
proof -
  have "unseen_calls conn_env (\<lambda>m. mset (ro_handles m))"
    by unfold_locales (simp_all add: conn_env_def ref_env_sel ref_quiet)
  then show ?thesis by (simp add: handles_ok_def conn_env_def)
qed

theorem adapters_are_closed_witness:
  "let w = ex_sys [ex_instance ''srv'' EngineMySQL] [] 0; p = run_for_instance conn_env ''i1'' BackupTypeFull w
   in fst p \<noteq> None \<and> snd (new_adapter conn_env (ex_instance ''srv'' EngineMySQL) w) \<noteq> w \<and>
      mset (ro_handles (os (snd p))) = {#}"
proof -
  let ?w = "ex_sys [ex_instance ''srv'' EngineMySQL] [] 0"
  have f: "fst (run_for_instance conn_env ''i1'' BackupTypeFull ?w) \<noteq> None" by code_simp
  have o: "ro_handles (os (snd (new_adapter conn_env (ex_instance ''srv'' EngineMySQL) ?w))) \<noteq> []"
    by (simp add: new_adapter_def open_sql_def conn_env_def ex_instance_def)
  have e: "ro_handles (os ?w) = []" by (simp add: ex_sys_def)
  then have "snd (new_adapter conn_env (ex_instance ''srv'' EngineMySQL) ?w) \<noteq> ?w" using o by metis
  moreover have "mset (ro_handles (os (snd (run_for_instance conn_env ''i1'' BackupTypeFull ?w)))) = {#}"
    using adapters_are_closed [OF conn_env_ok, of "ex_instance ''srv'' EngineMySQL" ?w "''i1''" BackupTypeFull] e by simp
  ultimately show ?thesis using f by (simp add: Let_def)
qed

end
