(* ===== verification/App_Errors.thy ===== *)
theory App_Errors
  imports Prelude
begin

text \<open>
  The error types of \<open>internal/apperrors/errors.go\<close>. The rest of the program makes its errors with
  \<open>fmt.Errorf\<close> and uses none of these.
\<close>

datatype app_error =
    ConnectionError (ce_engine: string) (ce_host: string) (ae_cause: gerr)
  | BackupError (be_database: string) (ae_cause: gerr)
  | StorageError (se_operation: string) (se_key: string) (ae_cause: gerr)
  | NotFoundError (nf_resource: string) (nf_id: string)
  | ValidationError (ve_field: string) (ve_message: string)

fun app_error_text :: "app_error \<Rightarrow> string" where
  "app_error_text (ConnectionError eng host c) = ''no se pudo conectar a '' @ eng @ '' en '' @ host @ '': '' @ err_text c"
| "app_error_text (BackupError d c) = ''error al respaldar base de datos '' @ go_quote d @ '': '' @ err_text c"
| "app_error_text (StorageError p k c) =
     ''error de almacenamiento ('' @ p @ '') en '' @ go_quote k @ '': '' @ err_text c"
| "app_error_text (NotFoundError r i) = r @ '' con id '' @ go_quote i @ '' no encontrado''"
| "app_error_text (ValidationError f m) = ''validaci'' @ u_o @ ''n fallida en '' @ go_quote f @ '': '' @ m"

text \<open>\<open>Unwrap\<close>, where a type has it.\<close>

fun unwrap :: "app_error \<Rightarrow> gerr option" where
  "unwrap (ConnectionError eng host c) = Some c"
| "unwrap (BackupError d c) = Some c"
| "unwrap (StorageError p k c) = Some c"
| "unwrap (NotFoundError r i) = None"
| "unwrap (ValidationError f m) = None"

definition ErrInstanceNotFound :: app_error where "ErrInstanceNotFound = NotFoundError ''instancia'' []"
definition ErrBackupRecordNotFound :: app_error where "ErrBackupRecordNotFound = NotFoundError ''registro de respaldo'' []"
definition ErrS3ConfigNotFound :: app_error where
  "ErrS3ConfigNotFound = NotFoundError (''configuraci'' @ u_o @ ''n S3'') []"

text \<open>The text of an error that has a cause ends with the text of the cause.\<close>

theorem cause_is_told: "unwrap e = Some c \<Longrightarrow> has_suffix (app_error_text e) (err_text c)"
  by (cases e) (auto simp: has_suffix_def)

end
