(* ===== verification/Spec2Isabelle.thy ===== *)
theory Spec2Isabelle
  imports Retention RunBackup Restore Lifecycle SelfBackup UseCases Scheduler Program Screens Concurrency Main_Go Redis_Dump Retention_Complete
    Connections App_Errors
begin

text \<open>
  BackiieTUI backs databases up to an S3 bucket. This library models its core, in the order the code
  has it, and proves what each part promises.

  \<^bold>\<open>The program and its model.\<close> An administrator registers database servers (instances). A
  scheduler and a terminal interface call use cases: run backups, apply retention, restore, keep
  the bucket's expiry rules, and back up the program's own state. The use cases talk to repositories in a
  bbolt file, to an adapter of the AWS SDK, and to one adapter per database engine, which run
  drivers and command line tools. The state of the running system is the record \<open>sys\<close>: the bbolt file,
  the object store, the rest of the machine, and the observable events so far. Every operation takes a
  state and gives its result and the next state; an error is a value (\<open>gerr\<close>). Code the repository
  only calls (bbolt, the SDK, drivers, processes, clock, files, the order of a map) is the record
  \<open>env\<close> of parameters; what is relied on of it is written as \<open>bolt_ok\<close>, \<open>aws_ok\<close>,
  \<open>aws_rules_ok\<close>, \<open>fs_ok\<close> and \<open>range_ok\<close>, premises of the theorems that need them, all met by
  the concrete environment \<open>ref_env\<close> on which the witnesses evaluate.

  \<^bold>\<open>Theories.\<close>
  \<^item> \<open>Prelude\<close>: errors, the string and time functions of Go that the sources use, list lemmas.
  \<^item> \<open>Entities\<close>: \<open>domain/entities\<close>.
  \<^item> \<open>Environment\<close>, \<open>Reference_Env\<close>: the parameters, their laws, one instance of them.
  \<^item> \<open>Repositories\<close>: \<open>adapters/persistence/bbolt\<close>, with locales for a keyed store, one
    with deletion, and a single configuration, interpreted on all six repositories.
  \<^item> \<open>Go_Time\<close>: the layouts of dates in keys and tags.
  \<^item> \<open>S3_Adapter\<close>: \<open>adapters/storage/s3/adapter.go\<close>, with the locale of an object store,
    interpreted on it.
  \<^item> \<open>Example_System\<close>: example systems for the witnesses.
  \<^item> \<open>Retention\<close>: \<open>application/usecases/backup_usecase.go\<close>; \<open>Retention_Complete\<close>: what a run of it
    must have deleted.
  \<^item> \<open>Adapters\<close>: \<open>adapters/database\<close>, the four engines and the factory.
  \<^item> \<open>Redis_Dump\<close>: what a Redis dump gives back, with JSON strings as UTF-8.
  \<^item> \<open>Connections\<close>: the open handles of the process as a multiset, with the locale of what the calls of an
    adapter leave alone, interpreted on it.
  \<^item> \<open>App_Errors\<close>, \<open>Keys\<close>: \<open>internal/apperrors\<close>, \<open>tui/keys.go\<close>.
  \<^item> \<open>RunBackup\<close>: \<open>application/usecases/run_backup.go\<close>.
  \<^item> \<open>Restore\<close>: \<open>application/usecases/restore_usecase.go\<close>.
  \<^item> \<open>Lifecycle\<close>: \<open>adapters/storage/s3/lifecycle.go\<close> and \<open>lifecycle_usecase.go\<close>.
  \<^item> \<open>SelfBackup\<close>: \<open>self_backup_usecase.go\<close>, \<open>self_restore_usecase.go\<close>, \<open>cmd/recover.go\<close>.
  \<^item> \<open>UseCases\<close>: \<open>instance_usecase.go\<close>, \<open>s3config_usecase.go\<close>, \<open>scheduler_usecase.go\<close>.
  \<^item> \<open>Scheduler\<close>: \<open>internal/scheduler/scheduler.go\<close>, and its running as a step relation.
  \<^item> \<open>Widgets\<close>: what the views of \<open>tui/\<close> share: third-party inputs as parameters, runs of an update
    function, locales for a view with an invariant, a view that never panics, and what a message armed.
  \<^item> \<open>Tab_Backups\<close>, \<open>Tab_Instances\<close>, \<open>Tab_S3Config\<close>, \<open>Tab_Retention\<close>:
    \<open>tui/views\<close>, one theory per tab, each interpreting those locales.
  \<^item> \<open>App\<close>: \<open>tui/app.go\<close>, \<open>tui/messages.go\<close>.
  \<^item> \<open>Format\<close>: \<open>internal/timeutil/format.go\<close>, with floating point numbers as integers of 53 bits.
  \<^item> \<open>Draw\<close>: \<open>tui/styles/styles.go\<close> and what the \<open>View\<close> functions share.
  \<^item> \<open>View_Backups\<close>, \<open>View_Instances\<close>, \<open>View_Settings\<close> (S3, retention, schedule and rules) and
    \<open>View_App\<close>: the screens as the strings the \<open>View\<close> functions give, over the record \<open>pen\<close> of what the
    Lipgloss and Bubbles libraries make of a text; \<open>Screens\<close>: what the screens promise, with a locale for
    invariants of the tabs in the whole program.
  \<^item> \<open>Program\<close>: the start-up of \<open>cmd/main.go\<close>, and the running program as a step relation: the keys, the
    commands the interface has started, the messages on their way, the scheduler and the start's retention.
  \<^item> \<open>Typed_Store\<close>: what every write of a repository keeps, the whole program keeps: the locale
    \<open>store_writes\<close>, an extension of Scheduler's \<open>record_writes\<close>, interpreted on the types of the buckets.
  \<^item> \<open>Main_Go\<close>: \<open>main\<close> of \<open>cmd/main.go\<close> and the opening of the database in
    \<open>bbolt/store.go\<close>, over the record \<open>boot\<close> of what the process is given; the service without a terminal.
  \<^item> \<open>Threads\<close>: threads cut at their calls, their interleavings, and a locale for what every action keeps
    if the others do; \<open>Interleaving\<close>: retention as threads; \<open>Concurrency\<close>: backups as threads, next to them.

  \<^bold>\<open>What is shown.\<close> Retention: the golden rule (a sweep never leaves a SQL Server
  database with fewer than two fulls whose objects exist, if it had them), only due backups go, nothing due stays
  while the database file and the store answer, a deletion takes the chained logs along, an error keeps the record. Backups: a success is a completed record whose
  size and hash are those of the stored object, a failure completes nothing, chains stay well-formed;
  whatever fails, the connection that was opened is closed.
  Restores: the calls made to an engine are a beginning of the script a chain of its length demands, the
  chain and the latest points are the right ones, every attempt is on record, nothing else changes.
  Scheduler: a reload registers exactly the jobs of the stored schedule, and no sequence of jobs writes
  anything but backup records.
  Interleavings: the golden rule holds when several runs of retention and backups take turns call by call;
  run alone, a thread is the function of its theory.
  Program: start-up leaves a schedule and runs its jobs; a user who only looks around changes nothing that is
  configured, however keys, commands, messages and jobs interleave; whatever the user does, each bucket holds only
  encodings of its own entity under their own keys, and none of the six is missing, in the interface and in the
  service, which does nothing the interface could not do without a user.
  Interface: over every sequence of keys and replies, which steps panic, that a backup is deleted or restored
  only after the word was typed in the dialogue opened for it, that an unconfigured program shows the S3 tab,
  what the forms read back, that every screen can be drawn, shows no stored password and names what it confirms,
  that sizes and durations are shown without a visible error; and, on scripts of keys and replies, where this fails.
  Expiry rules: what a synchronisation leaves in the bucket, exactly. Recovery: all or nothing. Where the
  code does not keep what its documentation says, a theorem shows it on a concrete system.

  \<^bold>\<open>Bounds.\<close> Loops are recursion over the lists they range over, so no fuel is needed. A SCAN
  iteration of Redis is the list of its replies. Integers are unbounded where the code's 64-bit values
  cannot overflow in practice; the conversion to 32 bits of the expiry days is written out.

  \<^bold>\<open>Not modelled.\<close> Logging (the log file is opened, what is written to it is left out); closing of result
  sets and of the bodies of downloads; cancellation and time limits of contexts; the signals of \<open>cmd/main.go\<close>;
  interleaving, call by call, of other operations than retention, deletion and backups (each of the others is
  one step of Program); what the terminal libraries do with a screen; the interfaces of \<open>domain/ports\<close> as
  such, which are the locales and the dispatching definitions of the adapters, and the constructors that store
  one use case in another.
\<close>

end
